(* ===== verification/Prelude.thy ===== *)
theory Prelude
  imports Complex_Main "HOL-Library.Word"
begin

text \<open>
  The shared vocabulary of the development: the widths of the C integers, the failures of a C
  execution as values, the sequencing of fallible steps, checked division and array access,
  and the generic lemmas on words and lists that the component theories use.
\<close>

section \<open>Machine integers\<close>

type_synonym u8 = "8 word"
type_synonym u32 = "32 word"
type_synonym u64 = "64 word"

text \<open>
  A C \<open>int\<close> is a 32-bit word read with \<^const>\<open>sint\<close>.  Arithmetic on it is that of the
  compiled two's-complement code: it wraps around where the C standard leaves the overflow
  undefined.
\<close>

type_synonym cint = "32 word"

section \<open>Failures of an execution\<close>

text \<open>
  \<open>DivByZero\<close>: an integer division or remainder by zero (SIGFPE).
  \<open>OutOfBounds\<close>: an access outside the array it indexes.
  \<open>UninitRead\<close>: a read of a variable no statement has written.
  \<open>NullStream\<close>: stdio on a stream that is NULL.
  \<open>NullPointer\<close>: an access through a null pointer.
  \<open>AssertFailed\<close>: a failing \<open>assert\<close>.
  \<open>NoReturn\<close>: a loop that never ends.
  \<open>Thrown\<close>: an uncaught C++ exception.
  \<open>Exited c\<close>: the process has called \<open>exit(c)\<close>.
  \<open>BadHandle\<close>: use of a database handle that has been closed.
\<close>

datatype c_error =
    DivByZero
  | OutOfBounds
  | UninitRead
  | NullStream
  | NullPointer
  | AssertFailed
  | NoReturn
  | Thrown
  | BadHandle
  | Exited int

type_synonym 'a res = "c_error + 'a"

definition bindR :: "'a res \<Rightarrow> ('a \<Rightarrow> 'b res) \<Rightarrow> 'b res" where
  "bindR m f = (case m of Inl e \<Rightarrow> Inl e | Inr x \<Rightarrow> f x)"

definition of_loop :: "'a res option \<Rightarrow> 'a res" where
  "of_loop r = (case r of None \<Rightarrow> Inl NoReturn | Some x \<Rightarrow> x)"

definition cdiv :: "'n::len word \<Rightarrow> 'n word \<Rightarrow> 'n word res" where
  "cdiv a b = (if b = 0 then Inl DivByZero else Inr (a div b))"

definition cmod :: "'n::len word \<Rightarrow> 'n word \<Rightarrow> 'n word res" where
  "cmod a b = (if b = 0 then Inl DivByZero else Inr (a mod b))"

definition aget :: "'a list \<Rightarrow> nat \<Rightarrow> 'a res" where
  "aget xs i = (if i < length xs then Inr (xs ! i) else Inl OutOfBounds)"

definition aset :: "'a list \<Rightarrow> nat \<Rightarrow> 'a \<Rightarrow> 'a list res" where
  "aset xs i v = (if i < length xs then Inr (xs[i := v]) else Inl OutOfBounds)"

definition c_quot :: "int \<Rightarrow> int \<Rightarrow> int res" where
  "c_quot a b = (if b = 0 then Inl DivByZero else Inr (sgn a * sgn b * (\<bar>a\<bar> div \<bar>b\<bar>)))"

primrec foldR :: "('a \<Rightarrow> 's \<Rightarrow> 's res) \<Rightarrow> 'a list \<Rightarrow> 's \<Rightarrow> 's res" where
  "foldR f [] s = Inr s"
| "foldR f (x # xs) s = bindR (f x s) (foldR f xs)"

text \<open>The C quotient of an \<open>int\<close> by two: truncated towards zero.\<close>

definition c_half :: "int \<Rightarrow> int" where
  "c_half n = (if n < 0 then - (- n div 2) else n div 2)"

lemma c_half_nonneg [simp]: "0 \<le> n \<Longrightarrow> c_half n = n div 2"
  by (simp add: c_half_def)

section \<open>Rules for fallible steps\<close>

named_theorems res_simps \<open>evaluation of fallible steps\<close>

lemma bindR_Inl [simp]: "bindR (Inl e) f = Inl e"
  by (simp add: bindR_def)

lemma bindR_Inr [simp]: "bindR (Inr x) f = f x"
  by (simp add: bindR_def)

lemma bindR_eq_Inr: "bindR m f = Inr y \<longleftrightarrow> (\<exists>x. m = Inr x \<and> f x = Inr y)"
  by (cases m) auto

lemma bindR_InrE:
  assumes "bindR m f = Inr y"
  obtains x where "m = Inr x" and "f x = Inr y"
  using assms by (auto simp: bindR_eq_Inr)

lemma bindR_assoc: "bindR (bindR m f) g = bindR m (\<lambda>x. bindR (f x) g)"
  by (cases m) auto

lemma bindR_cong [fundef_cong]:
  "m = m' \<Longrightarrow> (\<And>x. m' = Inr x \<Longrightarrow> f x = g x) \<Longrightarrow> bindR m f = bindR m' g"
  by (cases m') simp_all

lemma of_loop_simps [simp]:
  "of_loop None = Inl NoReturn" "of_loop (Some r) = r"
  by (simp_all add: of_loop_def)

lemma cdiv_nz [res_simps]: "b \<noteq> 0 \<Longrightarrow> cdiv a b = Inr (a div b)"
  by (simp add: cdiv_def)

lemma cmod_nz [res_simps]: "b \<noteq> 0 \<Longrightarrow> cmod a b = Inr (a mod b)"
  by (simp add: cmod_def)

lemma cdiv_0 [res_simps]: "cdiv a 0 = Inl DivByZero"
  by (simp add: cdiv_def)

lemma cmod_0 [res_simps]: "cmod a 0 = Inl DivByZero"
  by (simp add: cmod_def)

lemma aget_in [res_simps]: "i < length xs \<Longrightarrow> aget xs i = Inr (xs ! i)"
  by (simp add: aget_def)

lemma aset_in [res_simps]: "i < length xs \<Longrightarrow> aset xs i v = Inr (xs[i := v])"
  by (simp add: aset_def)

lemma aget_out [res_simps]: "length xs \<le> i \<Longrightarrow> aget xs i = Inl OutOfBounds"
  by (simp add: aget_def)

lemma aset_out [res_simps]: "length xs \<le> i \<Longrightarrow> aset xs i v = Inl OutOfBounds"
  by (simp add: aset_def)

lemma aset_eq_Inr: "aset xs i v = Inr ys \<longleftrightarrow> i < length xs \<and> ys = xs[i := v]"
  by (auto simp: aset_def)

lemma aget_eq_Inr: "aget xs i = Inr v \<longleftrightarrow> i < length xs \<and> v = xs ! i"
  by (auto simp: aget_def)

lemma foldR_append: "foldR f (xs @ ys) s = bindR (foldR f xs s) (foldR f ys)"
proof (induction xs arbitrary: s)
  case (Cons x xs)
  then show ?case by (cases "f x s") simp_all
qed simp

text \<open>An invariant that every step of a fold keeps holds of its result.\<close>

lemma foldR_invariant:
  assumes "foldR f xs s = Inr t" and "I s"
    and "\<And>x s s'. x \<in> set xs \<Longrightarrow> I s \<Longrightarrow> f x s = Inr s' \<Longrightarrow> I s'"
  shows "I t"
  using assms by (induction xs arbitrary: s) (auto elim!: bindR_InrE)

text \<open>A fold whose steps all succeed from states of the invariant succeeds.\<close>

lemma foldR_total:
  assumes "I s" and "\<And>x s. x \<in> set xs \<Longrightarrow> I s \<Longrightarrow> \<exists>s'. f x s = Inr s' \<and> I s'"
  shows "\<exists>t. foldR f xs s = Inr t \<and> I t"
  using assms
proof (induction xs arbitrary: s)
  case (Cons x xs)
  from Cons.prems obtain s' where "f x s = Inr s'" and "I s'" by force
  with Cons show ?case by (metis bindR_Inr foldR.simps(2) list.set_intros(2))
qed simp

text \<open>An invariant indexed by the counter of a loop from \<open>a\<close> up to \<open>b\<close>.\<close>

lemma fold_upt_invariant:
  assumes "I a s" and "a \<le> b"
    and "\<And>i s. a \<le> i \<Longrightarrow> i < b \<Longrightarrow> I i s \<Longrightarrow> I (Suc i) (f i s)"
  shows "I b (fold f [a ..< b] s)"
  using assms(2,3) by (induction b rule: dec_induct) (use assms(1) in simp_all)

section \<open>Words\<close>

lemma len64: "LENGTH(64) = 64"
  by simp

text \<open>Remainders, quotients and sums of words that do not wrap around, over \<^const>\<open>unat\<close>.\<close>

lemma word_mod_less: "(0::'n::len word) < m \<Longrightarrow> x mod m < m"
  by (simp add: word_less_nat_alt unat_mod)

lemma unat_plus_small:
  "unat a + unat b < 2 ^ LENGTH('n) \<Longrightarrow> unat (a + b :: 'n::len word) = unat a + unat b"
  by (simp add: unat_plus_if')

lemma unat_mult_small:
  "unat a * unat b < 2 ^ LENGTH('n) \<Longrightarrow> unat (a * b :: 'n::len word) = unat a * unat b"
  by (simp add: unat_mult_lem [THEN iffD1])

lemma unat_Suc_small: "unat a + 1 < 2 ^ LENGTH('n) \<Longrightarrow> unat (a + 1 :: 'n::len word) = Suc (unat a)"
  using unat_plus_small [of a 1] by (cases "LENGTH('n)") auto

lemma unat_minus_small: "b \<le> a \<Longrightarrow> unat (a - b :: 'n::len word) = unat a - unat b"
  by (simp add: unat_sub)

lemma unat_of_nat_small: "n < 2 ^ LENGTH('n) \<Longrightarrow> unat (word_of_nat n :: 'n::len word) = n"
  by (simp add: unat_of_nat)

lemma unat_ucast_up: "unat (ucast (w :: u32) :: u64) = unat w"
proof -
  have "unat w < 2 ^ 64" by (rule order_less_trans [OF unsigned_less]) simp
  then show ?thesis by (simp add: unsigned_ucast_eq take_bit_nat_eq_self)
qed

lemma word_neq_0_conv_unat: "(x :: 'n::len word) \<noteq> 0 \<longleftrightarrow> 0 < unat x"
  by (simp add: unat_gt_0)

end
