(* ===== verification/Structs.thy ===== *)
theory Structs
  imports Prelude
begin

text \<open>
  The data of \<open>structs/defines.h\<close> and \<open>benchcore/duplicates/duplicatedist.h\<close>: the option
  tags, the configuration \<open>struct user_confs\<close>, the run statistics \<open>struct stats\<close>, the block
  description \<open>struct block_info\<close>, the duplicate bookkeeping \<open>struct duplicates_info\<close> and the
  file mapping its pointers point into; and the floating-point unit as a parameter.
\<close>

section \<open>Floating point\<close>

text \<open>
  The program computes throughputs, latencies, rates and compression percentages in \<open>double\<close>.
  The arithmetic of the processor is a parameter: a record of the operations the source uses, over
  an arbitrary carrier \<open>'d\<close>.  \<open>fp_trunc\<close> is the conversion to an integer type, \<open>fp_of_int\<close> the
  conversion from one.
\<close>

record 'd fpu =
  fp_of_int :: "int \<Rightarrow> 'd"
  fp_add :: "'d \<Rightarrow> 'd \<Rightarrow> 'd"
  fp_mul :: "'d \<Rightarrow> 'd \<Rightarrow> 'd"
  fp_div :: "'d \<Rightarrow> 'd \<Rightarrow> 'd"
  fp_less :: "'d \<Rightarrow> 'd \<Rightarrow> bool"
  fp_le :: "'d \<Rightarrow> 'd \<Rightarrow> bool"
  fp_trunc :: "'d \<Rightarrow> int"

definition fp_of_word :: "'d fpu \<Rightarrow> 'n::len word \<Rightarrow> 'd" where
  "fp_of_word F w = fp_of_int F (uint w)"

text \<open>Exact rational arithmetic, the instance that concrete runs are evaluated with.\<close>

definition exact_fpu :: "rat fpu" where
  "exact_fpu = \<lparr>fp_of_int = of_int, fp_add = (+), fp_mul = (*), fp_div = (/),
     fp_less = (<), fp_le = (\<le>), fp_trunc = (\<lambda>x. if 0 \<le> x then floor x else ceiling x)\<rparr>"

section \<open>Option tags\<close>

datatype io_type = IO_UNSET | READ | WRITE

datatype test_type = TEST_UNSET | NOMINAL | PEAK

datatype access_type = SEQUENTIAL | UNIFORM | TPCC

definition NOPOP :: int where "NOPOP = 0"
definition REPOP :: int where "REPOP = 1"
definition DDPOP :: int where "DDPOP = 2"

definition PATH_SIZE :: nat where "PATH_SIZE = 100"

definition DFILE :: string where "DFILE = ''conf/dist_personalfiles''"

section \<open>The configuration\<close>

text \<open>
  \<open>struct user_confs\<close>.  Fields the code only ever sets to 0 or 1 are booleans; the other \<open>int\<close>
  fields are integers in the range of \<open>atoi\<close>.  The two Berkeley DB handles are opened and used in
  \<open>main\<close> only and are not part of the record.
\<close>

record 'd user_confs =
  compression_to_achieve :: u64
  percentage_analyze :: u64
  block_size :: u64
  totblocks :: u64
  start :: int
  finish :: int
  tempfilespath :: string
  printfile :: string
  destroypfile :: int
  printtofile :: bool
  logfeature :: int
  accesslog :: bool
  accesstype :: access_type
  accessfilelog :: string
  distout :: bool
  iotype :: io_type
  mixedIO :: bool
  rawdevice :: bool
  rawpath :: string
  testtype :: test_type
  ratio :: 'd
  ratiow :: 'd
  ratior :: 'd
  time_to_run :: int
  number_ops :: u64
  nprocs :: int
  filesize :: u64
  seed :: u64
  populate_opt :: int
  distfile :: string
  distf :: bool
  outputfile :: string
  fsyncf :: bool
  odirectf :: bool
  integrity :: int
  integrityfile :: string
  nr_proc_w :: u64
  flag_termination_size :: bool
  flag_termination_time :: bool

section \<open>Run statistics\<close>

text \<open>
  \<open>struct stats\<close>.  The four snapshot arrays are \<open>malloc\<close>ed and not initialised: an element that
  no statement has written is \<^const>\<open>None\<close>.
\<close>

record 'd stats =
  throughput :: 'd
  latency :: 'd
  snap_throughput :: "'d option list"
  snap_latency :: "'d option list"
  snap_ops :: "'d option list"
  snap_time :: "u64 option list"
  snap_totops :: u64
  iter_snap :: int
  last_snap_time :: u64
  t1snap :: u64
  snap_lat :: 'd
  tot_ops :: u64
  beginio :: u64
  endio :: u64
  misses_read :: u64
  uni :: u64
  dupl :: u64

section \<open>Blocks and duplicates\<close>

record block_info =
  cont_id :: u32
  proc_id :: u64
  block_id :: u32
  compression_index :: u32
  flag_unique_block :: bool

text \<open>
  The file mapping shared by all processes: the \<open>uint64_t\<close> cells at its start, then the
  \<open>block_info\<close> elements of \<open>content_map\<close>.
\<close>

record shared =
  cells :: "u64 list"
  content_map :: "block_info list"

text \<open>
  \<open>struct duplicates_info\<close>.  Its pointers into the mapping are offsets: \<open>statistics\<close> and
  \<open>zerodups\<close> count \<open>uint64_t\<close> cells, the entries of \<open>content_tracker\<close> count elements of
  \<open>content_map\<close>; \<^const>\<open>None\<close> is the null pointer.
\<close>

record duplicates_info =
  total_blocks :: u64
  zero_copy_blocks :: u64
  duplicated_blocks :: u64
  statistics :: "nat option"
  zerodups :: "nat option"
  u_count :: u64
  content_tracker :: "nat list option"

section \<open>Initial values\<close>

text \<open>
  The configuration \<open>main\<close> of \<open>DEDISbench.c\<close> starts from: the fields of the initializer, zero
  for the fields it does not name, and the time of day as the seed.
\<close>

definition initial_conf :: "'d fpu \<Rightarrow> u64 \<Rightarrow> 'd user_confs" where
  "initial_conf F now =
     \<lparr>compression_to_achieve = 0, percentage_analyze = 0, block_size = 4096, totblocks = 0,
      start = 0, finish = 0, tempfilespath = '''', printfile = '''', destroypfile = 1,
      printtofile = False, logfeature = 0, accesslog = False, accesstype = TPCC,
      accessfilelog = '''', distout = False, iotype = IO_UNSET, mixedIO = False,
      rawdevice = False, rawpath = '''', testtype = TEST_UNSET, ratio = fp_of_int F (-1),
      ratiow = fp_of_int F (-1), ratior = fp_of_int F (-1), time_to_run = 0, number_ops = 0,
      nprocs = 4, filesize = 2048, seed = now, populate_opt = -1, distfile = '''', distf = False,
      outputfile = '''', fsyncf = False, odirectf = False, integrity = 0, integrityfile = '''',
      nr_proc_w = 0, flag_termination_size = False, flag_termination_time = False\<rparr>"

text \<open>
  The statistics \<open>process_run\<close> starts from: \<open>{.beginio = -1}\<close> and four arrays of 1000 elements.
\<close>

definition SNAPS :: nat where "SNAPS = 1000"

definition initial_stats :: "'d fpu \<Rightarrow> 'd stats" where
  "initial_stats F =
     \<lparr>throughput = fp_of_int F 0, latency = fp_of_int F 0,
      snap_throughput = replicate SNAPS None, snap_latency = replicate SNAPS None,
      snap_ops = replicate SNAPS None, snap_time = replicate SNAPS None, snap_totops = 0,
      iter_snap = 0, last_snap_time = 0, t1snap = 0, snap_lat = fp_of_int F 0, tot_ops = 0,
      beginio = -1, endio = 0, misses_read = 0, uni = 0, dupl = 0\<rparr>"

end
