(* ===== verification/Sharedmem.thy ===== *)
theory Sharedmem
  imports Structs
begin

text \<open>
  \<open>benchcore/sharedmem/sharedmem.c\<close>: the file mapping that all processes of a run share.  It holds
  one \<open>uint64_t\<close> counter per block with copies, one more for \<open>zerodups\<close>, and the array
  \<open>content_map\<close> with \<open>totblocks\<close> records per process.

  The system calls are inputs: whether each one succeeds, and what the file held before (the file
  is opened without truncation, so a file left by an earlier run keeps its bytes).
\<close>

record mmap_env =
  open_ok :: bool
  lseek_ok :: bool
  write_ok :: bool
  mmap_ok :: bool
  file_before :: shared

text \<open>\<open>sizeof(uint64_t)\<close>, and \<open>sizeof(struct block_info)\<close> with its padding.\<close>

definition SIZEOF_U64 :: u64 where "SIZEOF_U64 = 8"
definition SIZEOF_BLOCK_INFO :: u64 where "SIZEOF_BLOCK_INFO = 32"

text \<open>The number of processes that have a content tracker.\<close>

definition tracked_procs :: "'d user_confs \<Rightarrow> int" where
  "tracked_procs conf =
     (let nr = nprocs conf;
          nr = (if mixedIO conf then c_half nr else nr)
      in if rawdevice conf then 1 else nr)"

definition sharedmem_size :: "'d user_confs \<Rightarrow> duplicates_info \<Rightarrow> u64" where
  "sharedmem_size conf info =
     SIZEOF_U64 * (duplicated_blocks info * 3 + 1)
     + SIZEOF_BLOCK_INFO * (totblocks conf * word_of_int (tracked_procs conf))"

text \<open>
  \<open>loadmmap\<close>.  The result of \<open>lseek\<close> is kept in an \<open>int\<close>: it is compared with -1 after it has lost
  its upper half.  The pointers are offsets in the mapping: \<open>statistics\<close> and \<open>zerodups\<close> in cells,
  the content trackers in records of \<open>content_map\<close>.
\<close>

definition loadmmap ::
  "mmap_env \<Rightarrow> 'd user_confs \<Rightarrow> duplicates_info \<Rightarrow> (u64 \<times> duplicates_info \<times> shared) res" where
  "loadmmap env conf info =
     (let nr_procs = tracked_procs conf;
          sz = sharedmem_size conf info
      in if \<not> open_ok env then Inl (Exited 1)
         else let result = (if lseek_ok env then ucast (sz - 1) else -1 :: cint)
         in if result = -1 then Inl (Exited 1)
         else if \<not> write_ok env then Inl (Exited 1)
         else if \<not> mmap_ok env then Inl (Exited 1)
         else
           let d = unat (duplicated_blocks info);
               mem = file_before env
           in bindR (aset (cells mem) d 0) (\<lambda>cs.
                Inr (sz,
                  info\<lparr>statistics := Some 0, zerodups := Some d,
                    content_tracker := Some (map (\<lambda>i. unat (word_of_nat i * totblocks conf))
                      [0 ..< nat nr_procs])\<rparr>,
                  mem\<lparr>cells := cs\<rparr>)))"

text \<open>
  \<open>closemmap\<close>: the mapping and its file are removed; failures of the three calls are reported on
  standard error only, and the function returns 0.
\<close>

definition closemmap :: "shared option \<Rightarrow> int \<times> shared option" where
  "closemmap mem = (0, None)"

text \<open>
  The mapping as the operating system provides it: the cells and records that \<open>size\<close> bytes hold
  beyond the start of \<open>content_map\<close>.
\<close>

definition mapping_fits :: "'d user_confs \<Rightarrow> duplicates_info \<Rightarrow> shared \<Rightarrow> bool" where
  "mapping_fits conf info mem \<longleftrightarrow>
     length (cells mem) = unat (duplicated_blocks info) + 1
     \<and> length (content_map mem) =
         (unat (sharedmem_size conf info) - 8 * (unat (duplicated_blocks info) + 1)) div 32"

section \<open>The layout\<close>

text \<open>The size computed does not wrap around.\<close>

definition size_fits :: "'d user_confs \<Rightarrow> duplicates_info \<Rightarrow> bool" where
  "size_fits conf info \<longleftrightarrow> 0 \<le> tracked_procs conf
     \<and> 8 * (unat (duplicated_blocks info) * 3 + 1) + 32 * (unat (totblocks conf) * nat (tracked_procs conf)) < 2 ^ 64"

lemma unat_word_of_int: "0 \<le> i \<Longrightarrow> i < 2 ^ 64 \<Longrightarrow> unat (word_of_int i :: u64) = nat i"
proof -
  assume "0 \<le> i" "i < 2 ^ 64"
  then have "uint (word_of_int i :: u64) = i" by (simp add: uint_word_of_int_eq take_bit_int_eq_self)
  then show ?thesis by (simp add: unat_eq_nat_uint)
qed

lemma sharedmem_size_eq:
  assumes "size_fits conf info" and "0 < unat (totblocks conf)"
  shows "unat (sharedmem_size conf info) =
    8 * (unat (duplicated_blocks info) * 3 + 1) + 32 * (unat (totblocks conf) * nat (tracked_procs conf))"
proof -
  let ?d = "unat (duplicated_blocks info)" and ?t = "unat (totblocks conf)" and ?n = "nat (tracked_procs conf)"
  have f: "8 * (?d * 3 + 1) + 32 * (?t * ?n) < 2 ^ 64" "0 \<le> tracked_procs conf"
    using assms(1) by (simp_all add: size_fits_def)
  have "?n \<le> ?t * ?n" using assms(2) by simp
  then have "?n < 2 ^ 64" using f(1) by linarith
  then have n: "unat (word_of_int (tracked_procs conf) :: u64) = ?n"
    using f(2) by (intro unat_word_of_int) (simp_all add: nat_less_iff)
  have tn: "?t * ?n < 2 ^ 64" "32 * (?t * ?n) < 2 ^ 64" using f(1) by linarith+
  have "unat (totblocks conf * word_of_int (tracked_procs conf)) = ?t * ?n"
    using unat_mult_small [of "totblocks conf" "word_of_int (tracked_procs conf)", unfolded n len64] tn(1) .
  moreover from this have "unat (SIZEOF_BLOCK_INFO * (totblocks conf * word_of_int (tracked_procs conf))) = 32 * (?t * ?n)"
    using tn(2) unat_mult_small [of SIZEOF_BLOCK_INFO "totblocks conf * word_of_int (tracked_procs conf)"]
    by (simp add: SIZEOF_BLOCK_INFO_def)
  moreover have "unat (duplicated_blocks info * 3) = ?d * 3"
    using f(1) by (subst unat_mult_small) simp_all
  moreover from this have "unat (duplicated_blocks info * 3 + 1) = ?d * 3 + 1"
    using f(1) by (subst unat_plus_small) simp_all
  moreover from this have "unat (SIZEOF_U64 * (duplicated_blocks info * 3 + 1)) = 8 * (?d * 3 + 1)"
    using f(1) by (subst unat_mult_small) (simp_all add: SIZEOF_U64_def)
  ultimately show ?thesis unfolding sharedmem_size_def
    using f(1) by (subst unat_plus_small) simp_all
qed

definition tracker :: "duplicates_info \<Rightarrow> nat \<Rightarrow> nat" where
  "tracker info i = (case content_tracker info of None \<Rightarrow> 0 | Some ts \<Rightarrow> ts ! i)"

lemma tracker_offset:
  assumes "size_fits conf info" and "int i < tracked_procs conf"
  shows "unat (word_of_nat i * totblocks conf) = i * unat (totblocks conf)"
proof -
  let ?t = "unat (totblocks conf)" and ?n = "nat (tracked_procs conf)"
  have f: "32 * (?t * ?n) < 2 ^ 64" using assms(1) unfolding size_fits_def by linarith
  have "i < ?n" using assms(2) by simp
  then have "i * ?t \<le> ?t * ?n" by (simp add: mult.commute mult_le_mono)
  then have i: "i * ?t < 2 ^ 64" using f by linarith
  show ?thesis
  proof (cases "?t = 0")
    case True
    then have "totblocks conf = 0" by (simp add: unat_eq_0)
    then show ?thesis by simp
  next
    case False
    then have "i \<le> i * ?t" by simp
    then have "i < 2 ^ 64" using i by linarith
    then have "unat (word_of_nat i :: u64) = i" by (intro unat_of_nat_small) simp
    with i show ?thesis by (subst unat_mult_small) (simp_all only: len64)
  qed
qed

text \<open>The \<open>int\<close> that keeps the offset is -1 for sizes that are multiples of 4 GiB.\<close>

lemma lseek_result: "(ucast (sz - 1 :: u64) :: cint) = -1 \<longleftrightarrow> unat sz mod 2 ^ 32 = 0"
proof -
  have dv: "(4294967296 :: int) dvd 18446744073709551616" by simp
  have "(x - 1) mod 18446744073709551616 mod 4294967296 = (x mod 18446744073709551616 - 1) mod 4294967296"
    for x :: int
    using mod_diff_left_eq [of "x mod 18446744073709551616" 4294967296 1] mod_diff_left_eq [of x 4294967296 1]
    by (simp only: mod_mod_cancel [OF dv])
  then have "(ucast (sz - 1) :: cint) = ucast sz - 1"
    by transfer (simp add: take_bit_eq_mod)
  then have "(ucast (sz - 1) :: cint) = -1 \<longleftrightarrow> (ucast sz :: cint) = 0" by auto
  also have "\<dots> \<longleftrightarrow> unat (ucast sz :: cint) = 0" by (simp add: unat_eq_0)
  also have "\<dots> \<longleftrightarrow> unat sz mod 2 ^ 32 = 0"
    by (simp add: unsigned_ucast_eq take_bit_eq_mod)
  finally show ?thesis .
qed

text \<open>What a successful \<open>loadmmap\<close> returns, and the room behind the counters.\<close>

definition mapped_info :: "'d user_confs \<Rightarrow> duplicates_info \<Rightarrow> duplicates_info" where
  "mapped_info conf info = info\<lparr>statistics := Some 0, zerodups := Some (unat (duplicated_blocks info)),
     content_tracker := Some (map (\<lambda>i. unat (word_of_nat i * totblocks conf)) [0 ..< nat (tracked_procs conf)])\<rparr>"

lemma loadmmap_eq:
  assumes "open_ok env" and "lseek_ok env" and "write_ok env" and "mmap_ok env"
    and "unat (sharedmem_size conf info) mod 2 ^ 32 \<noteq> 0" and "mapping_fits conf info (file_before env)"
  shows "loadmmap env conf info = Inr (sharedmem_size conf info, mapped_info conf info,
    (file_before env)\<lparr>cells := (cells (file_before env))[unat (duplicated_blocks info) := 0]\<rparr>)"
  using assms by (simp add: loadmmap_def lseek_result aset_in mapping_fits_def mapped_info_def Let_def)

lemma mapping_room:
  assumes "size_fits conf info" and "0 < unat (totblocks conf)" and "mapping_fits conf info mem"
  shows "unat (totblocks conf) * nat (tracked_procs conf) \<le> length (content_map mem)"
proof -
  have "8 * (unat (duplicated_blocks info) + 1) + 32 * (unat (totblocks conf) * nat (tracked_procs conf))
      \<le> unat (sharedmem_size conf info)"
    by (simp add: sharedmem_size_eq [OF assms(1,2)])
  then have "32 * (unat (totblocks conf) * nat (tracked_procs conf))
      \<le> unat (sharedmem_size conf info) - 8 * (unat (duplicated_blocks info) + 1)" by linarith
  then show ?thesis using assms(3) by (simp add: mapping_fits_def)
qed

lemma mapped_tracker:
  assumes "size_fits conf info" and "int i < tracked_procs conf"
  shows "tracker (mapped_info conf info) i = i * unat (totblocks conf)"
proof -
  have "i < nat (tracked_procs conf)" using assms(2) by simp
  then show ?thesis using tracker_offset [OF assms] by (simp add: tracker_def mapped_info_def)
qed

section \<open>Properties\<close>

text \<open>
  C19: when the system calls succeed and the size is no multiple of 4 GiB, \<open>loadmmap\<close> gives every
  process its own records: the counters of the blocks with copies, the cell of \<open>zerodups\<close> behind
  them (cleared), and for each process \<open>totblocks\<close> records of \<open>content_map\<close>, inside the mapping
  and disjoint from those of every other process.  The other counters keep what the file held.
\<close>

theorem shared_layout:
  assumes "open_ok env" and "lseek_ok env" and "write_ok env" and "mmap_ok env"
    and "size_fits conf info" and "0 < unat (totblocks conf)"
    and "unat (sharedmem_size conf info) mod 2 ^ 32 \<noteq> 0"
    and "mapping_fits conf info (file_before env)"
  shows "\<exists>info' mem. loadmmap env conf info = Inr (sharedmem_size conf info, info', mem)
    \<and> statistics info' = Some 0 \<and> zerodups info' = Some (unat (duplicated_blocks info))
    \<and> cells mem = (cells (file_before env))[unat (duplicated_blocks info) := 0]
    \<and> content_map mem = content_map (file_before env)
    \<and> (\<forall>i b. int i < tracked_procs conf \<and> b < unat (totblocks conf) \<longrightarrow>
         tracker info' i + b < length (content_map mem))
    \<and> (\<forall>i b i' b'. int i < tracked_procs conf \<and> int i' < tracked_procs conf
         \<and> b < unat (totblocks conf) \<and> b' < unat (totblocks conf)
         \<and> tracker info' i + b = tracker info' i' + b' \<longrightarrow> i = i' \<and> b = b')"
proof -
  let ?d = "unat (duplicated_blocks info)" and ?t = "unat (totblocks conf)" and ?n = "nat (tracked_procs conf)"
  let ?mem = "(file_before env)\<lparr>cells := (cells (file_before env))[?d := 0]\<rparr>"
  let ?info = "mapped_info conf info"
  have run: "loadmmap env conf info = Inr (sharedmem_size conf info, ?info, ?mem)"
    by (rule loadmmap_eq [OF assms(1-4,7,8)])
  note tr = mapped_tracker [OF assms(5)]
  have len: "?t * ?n \<le> length (content_map ?mem)"
    using mapping_room [OF assms(5,6,8)] by simp
  have inside: "tracker ?info i + b < length (content_map ?mem)"
    if "int i < tracked_procs conf" "b < ?t" for i b
  proof -
    have "Suc i \<le> ?n" using that(1) by simp
    then have "Suc i * ?t \<le> ?n * ?t" by (rule mult_right_mono) simp
    with that len show ?thesis by (simp add: tr mult.commute)
  qed
  have disj: "i = i' \<and> b = b'" if "int i < tracked_procs conf" "int i' < tracked_procs conf"
    "b < ?t" "b' < ?t" "tracker ?info i + b = tracker ?info i' + b'" for i b i' b'
  proof -
    have e: "i * ?t + b = i' * ?t + b'" using that by (simp add: tr)
    have "i = (i * ?t + b) div ?t" "i' = (i' * ?t + b') div ?t" using that(3,4) by simp_all
    with e have "i = i'" by simp
    with e show ?thesis by simp
  qed
  show ?thesis
    by (intro exI conjI, rule run) (use inside disj in \<open>auto simp: mapped_info_def\<close>)
qed

text \<open>
  A mapping whose size is a multiple of 4 GiB is refused although every system call succeeds,
  because the offset \<open>lseek\<close> returns is taken for -1.
\<close>

lemma mapping_of_4GiB_refused:
  assumes "unat (sharedmem_size conf info) mod 2 ^ 32 = 0"
  shows "loadmmap env conf info = Inl (Exited 1)"
  using assms by (simp add: loadmmap_def lseek_result Let_def)

section \<open>Concrete runs\<close>

definition shm_conf :: "rat user_confs" where
  "shm_conf = (initial_conf exact_fpu 0)\<lparr>totblocks := 4, nprocs := 2\<rparr>"

definition shm_info :: duplicates_info where
  "shm_info = \<lparr>total_blocks = 0, zero_copy_blocks = 5, duplicated_blocks = 3, statistics = None,
     zerodups = None, u_count = 4, content_tracker = None\<rparr>"

definition shm_block :: block_info where
  "shm_block = \<lparr>cont_id = 0, proc_id = 0, block_id = 0, compression_index = 0, flag_unique_block = False\<rparr>"

definition shm_env :: mmap_env where
  "shm_env = \<lparr>open_ok = True, lseek_ok = True, write_ok = True, mmap_ok = True,
     file_before = \<lparr>cells = [7, 7, 7, 7], content_map = replicate 9 shm_block\<rparr>\<rparr>"

lemma shm_tracked: "tracked_procs shm_conf = 2"
  by (simp add: tracked_procs_def shm_conf_def initial_conf_def)

lemma shm_size: "sharedmem_size shm_conf shm_info = 336"
  by (simp add: sharedmem_size_def shm_tracked SIZEOF_U64_def SIZEOF_BLOCK_INFO_def)
    (simp add: shm_conf_def shm_info_def)

theorem shared_layout_witness:
  "\<exists>info' mem. loadmmap shm_env shm_conf shm_info = Inr (336, info', mem)
     \<and> statistics info' = Some 0 \<and> zerodups info' = Some 3 \<and> cells mem = [7, 7, 7, 0]
     \<and> tracker info' 1 + 3 < length (content_map mem)"
proof -
  have "totblocks shm_conf = 4" "duplicated_blocks shm_info = 3"
    "cells (file_before shm_env) = [7, 7, 7, 7]"
    by (simp_all add: shm_conf_def shm_info_def shm_env_def)
  note sel = this
  obtain info' mem where r: "loadmmap shm_env shm_conf shm_info = Inr (sharedmem_size shm_conf shm_info, info', mem)"
    "statistics info' = Some 0" "zerodups info' = Some (unat (duplicated_blocks shm_info))"
    "cells mem = (cells (file_before shm_env))[unat (duplicated_blocks shm_info) := 0]"
    "\<forall>i b. int i < tracked_procs shm_conf \<and> b < unat (totblocks shm_conf) \<longrightarrow>
       tracker info' i + b < length (content_map mem)"
    using shared_layout [of shm_env shm_conf shm_info]
    by (auto simp: shm_env_def size_fits_def mapping_fits_def shm_size shm_tracked sel)
  have "tracker info' 1 + 3 < length (content_map mem)"
    using r(5) [rule_format, of 1 3] by (simp add: shm_tracked sel)
  with r(1-4) show ?thesis by (intro exI [of _ info'] exI [of _ mem]) (simp add: shm_size sel)
qed

lemma mapping_of_4GiB_refused_witness:
  "loadmmap shm_env (shm_conf\<lparr>totblocks := 134217727, rawdevice := True\<rparr>) (shm_info\<lparr>duplicated_blocks := 1\<rparr>)
     = Inl (Exited 1)"
  by (rule mapping_of_4GiB_refused)
    (simp add: sharedmem_size_def tracked_procs_def SIZEOF_U64_def SIZEOF_BLOCK_INFO_def)

end
