(* ===== verification/Ctext.thy ===== *)
theory Ctext
  imports Prelude
begin

text \<open>
  The C and C++ string functions the program calls: \<open>isspace\<close>, \<open>strtol\<close> and its clients \<open>atoi\<close>,
  \<open>atol\<close> and \<open>std::stoi\<close>, the decimal output of \<open>printf\<close>, and splitting at a separator as
  \<open>strtok\<close> and \<open>std::getline\<close> do.  Strings are lists of characters without the final NUL.
\<close>

section \<open>Reading numbers\<close>

definition isspace :: "char \<Rightarrow> bool" where
  "isspace c \<longleftrightarrow> c = CHR '' '' \<or> (9 \<le> (of_char c :: nat) \<and> (of_char c :: nat) \<le> 13)"

definition isdigit :: "char \<Rightarrow> bool" where
  "isdigit c \<longleftrightarrow> 48 \<le> (of_char c :: nat) \<and> (of_char c :: nat) \<le> 57"

definition digit_val :: "char \<Rightarrow> int" where
  "digit_val c = int (of_char c :: nat) - 48"

definition digits_val :: "string \<Rightarrow> int" where
  "digits_val ds = foldl (\<lambda>a c. a * 10 + digit_val c) 0 ds"

text \<open>The sign, and the number without it.\<close>

definition strip_sign :: "string \<Rightarrow> bool \<times> string" where
  "strip_sign s = (case s of [] \<Rightarrow> (False, [])
     | c # cs \<Rightarrow> if c = CHR ''-'' then (True, cs) else if c = CHR ''+'' then (False, cs) else (False, s))"

text \<open>\<open>strtol\<close> with base 10 before its range check: the value, \<^const>\<open>None\<close> if there is no digit.\<close>

definition strtol :: "string \<Rightarrow> int option" where
  "strtol s = (case strip_sign (dropWhile isspace s) of (neg, u) \<Rightarrow>
     let ds = takeWhile isdigit u
     in if ds = [] then None else Some (if neg then - digits_val ds else digits_val ds))"

definition LONG_LIM :: int where "LONG_LIM = 2 ^ 63"

text \<open>\<open>atol\<close>: a value outside \<open>long\<close> is cut to its limits, no number is 0.\<close>

definition atol :: "string \<Rightarrow> int" where
  "atol s = (case strtol s of None \<Rightarrow> 0 | Some v \<Rightarrow> max (- LONG_LIM) (min (LONG_LIM - 1) v))"

text \<open>\<open>atoi\<close> converts the \<open>long\<close> to an \<open>int\<close>.\<close>

definition atoi :: "string \<Rightarrow> int" where
  "atoi s = sint (word_of_int (atol s) :: cint)"

text \<open>\<open>std::stoi\<close> throws where \<open>atoi\<close> has no value to give.\<close>

definition stoi :: "string \<Rightarrow> int res" where
  "stoi s = (case strtol s of None \<Rightarrow> Inl Thrown
     | Some v \<Rightarrow> if - (2 ^ 31) \<le> v \<and> v < 2 ^ 31 then Inr v else Inl Thrown)"

section \<open>Printing numbers\<close>

definition digit_char :: "nat \<Rightarrow> char" where
  "digit_char d = char_of (48 + d)"

fun show_nat :: "nat \<Rightarrow> string" where
  "show_nat n = (if n < 10 then [digit_char n] else show_nat (n div 10) @ [digit_char (n mod 10)])"

declare show_nat.simps [simp del]

definition show_int :: "int \<Rightarrow> string" where
  "show_int i = (if i < 0 then CHR ''-'' # show_nat (nat (- i)) else show_nat (nat i))"

lemma digit_char_digit: "d < 10 \<Longrightarrow> isdigit (digit_char d) \<and> digit_val (digit_char d) = int d"
  by (simp add: isdigit_def digit_char_def digit_val_def take_bit_eq_mod)

lemma digits_val_snoc: "digits_val (ds @ [c]) = digits_val ds * 10 + digit_val c"
  by (simp add: digits_val_def)

lemma show_nat_digits: "(\<forall>c \<in> set (show_nat n). isdigit c) \<and> show_nat n \<noteq> []
    \<and> digits_val (show_nat n) = int n"
proof (induction n rule: show_nat.induct)
  case (1 n)
  show ?case
  proof (cases "n < 10")
    case True
    then show ?thesis
      by (simp add: show_nat.simps [of n] digit_char_digit digits_val_def)
  next
    case False
    have "int (n div 10) * 10 + int (n mod 10) = int n"
      by presburger
    with 1 False show ?thesis
      by (simp add: show_nat.simps [of n] digit_char_digit digits_val_snoc)
  qed
qed

lemma digit_not_space: "isdigit c \<Longrightarrow> \<not> isspace c \<and> c \<noteq> CHR ''-'' \<and> c \<noteq> CHR ''+''"
  by (auto simp: isdigit_def isspace_def)

lemma strtol_digits:
  assumes "\<forall>c \<in> set ds. isdigit c" and "ds \<noteq> []"
  shows "strtol ds = Some (digits_val ds)"
proof -
  obtain c cs where ds: "ds = c # cs" using assms(2) by (cases ds) auto
  have tw: "takeWhile isdigit cs = cs" using assms(1) ds by simp
  show ?thesis using assms(1) digit_not_space [of c]
    by (simp add: tw strtol_def strip_sign_def ds Let_def)
qed

lemma strtol_show_nat: "strtol (show_nat n) = Some (int n)"
  using show_nat_digits [of n] by (simp add: strtol_digits)

lemma strtol_show_int: "strtol (show_int i) = Some i"
proof (cases "i < 0")
  case True
  have tw: "takeWhile isdigit (show_nat (nat (- i))) = show_nat (nat (- i))"
    using show_nat_digits [of "nat (- i)"] by simp
  from True show_nat_digits [of "nat (- i)"] show ?thesis
    by (simp add: tw strtol_def strip_sign_def show_int_def isspace_def Let_def)
qed (simp add: show_int_def strtol_show_nat)

lemma atoi_show_int:
  assumes "- (2 ^ 31) \<le> i" and "i < 2 ^ 31"
  shows "atoi (show_int i) = i"
  using assms by (simp add: atoi_def atol_def strtol_show_int LONG_LIM_def signed_of_int signed_take_bit_int_eq_self)

lemma show_int_inj: "show_int i = show_int j \<longleftrightarrow> i = j"
  by (metis option.inject strtol_show_int)

section \<open>Splitting\<close>

text \<open>
  The pieces that repeated \<open>std::getline(stream, token, sep)\<close> delivers: a final empty piece is no
  piece.
\<close>

primrec getlines_from :: "char \<Rightarrow> string \<Rightarrow> string option \<Rightarrow> string list" where
  "getlines_from sep [] cur = (case cur of None \<Rightarrow> [] | Some t \<Rightarrow> [t])"
| "getlines_from sep (c # cs) cur =
     (let t = (case cur of None \<Rightarrow> [] | Some t \<Rightarrow> t)
      in if c = sep then t # getlines_from sep cs None else getlines_from sep cs (Some (t @ [c])))"

definition getlines :: "char \<Rightarrow> string \<Rightarrow> string list" where
  "getlines sep s = getlines_from sep s None"

lemma getlines_from_run:
  "sep \<notin> set t \<Longrightarrow> getlines_from sep (t @ rest) (Some u) = getlines_from sep rest (Some (u @ t))"
  by (induction t arbitrary: u) (auto simp: Let_def)

lemma getlines_cut:
  assumes "sep \<notin> set t"
  shows "getlines sep (t @ sep # rest) = t # getlines sep rest"
  using assms getlines_from_run [of sep "tl t" "sep # rest" "[hd t]"] by (cases t) (auto simp: getlines_def Let_def)

lemma getlines_one:
  assumes "sep \<notin> set t" and "t \<noteq> []"
  shows "getlines sep t = [t]"
  using assms getlines_from_run [of sep "tl t" "[]" "[hd t]"] by (cases t) (auto simp: getlines_def Let_def)

text \<open>The tokens of \<open>strtok\<close>: the non-empty runs between separators.\<close>

definition strtok_all :: "char \<Rightarrow> string \<Rightarrow> string list" where
  "strtok_all sep s = filter (\<lambda>t. t \<noteq> []) (getlines sep s)"

end
