(* ===== verification/Generator.thy ===== *)
theory Generator
  imports Structs Ctext
begin

text \<open>
  \<open>libGenerator/generator.cpp\<close>: the content generator.  It reads the distribution file into lines
  (\<open>Linha\<close>), gives every unique block an identifier, draws a line and a block of it for every
  write, and delivers a model buffer with the identifiers of the content and of the block in its
  first eight bytes.

  The C++ generator is seeded from \<open>random_device\<close>, so its draws are inputs of the model: an
  operation that draws takes the value drawn as an argument, and the range of the distribution is
  a hypothesis where a property needs it.  The model buffers are one store: \<open>generate_data\<close> returns
  the place of a buffer (a pointer in the source) and writes the identifiers into it.
\<close>

unbundle bit_operations_syntax

section \<open>Data\<close>

record 'd linha =
  nrCopies :: u32
  nrBlocks :: u32
  nrBase :: u32
  compression :: "'d list"

record 'd generator =
  blockSize :: u32
  blocosAGerar :: u32
  percentage_unique_blocks_analyze :: u32
  percentagem_compressao_entre_blocos :: u32
  zeroCopiesBlocks :: u32
  total_unique_blocks :: u32
  compressions_inter :: "'d \<times> 'd"
  linhas :: "'d linha list"
  weights :: "'d list"
  modelos :: "u8 list list list"
  atribuicao :: "u32 list"
  nr_models :: nat

text \<open>The constructor.\<close>

definition new_generator :: "'d fpu \<Rightarrow> u32 \<Rightarrow> u32 \<Rightarrow> u32 \<Rightarrow> u32 \<Rightarrow> 'd generator" where
  "new_generator F bs blocos pa pc =
     \<lparr>blockSize = bs, blocosAGerar = blocos, percentage_unique_blocks_analyze = pa,
      percentagem_compressao_entre_blocos = pc, zeroCopiesBlocks = 0, total_unique_blocks = 0,
      compressions_inter = (fp_of_int F 0, fp_of_int F 0), linhas = [], weights = [], modelos = [],
      atribuicao = [], nr_models = 100\<rparr>"

section \<open>Choosing a block\<close>

text \<open>\<open>vector::at\<close> throws when the index is out of range.\<close>

definition vat :: "'a list \<Rightarrow> nat \<Rightarrow> 'a res" where
  "vat xs i = (if i < length xs then Inr (xs ! i) else Inl Thrown)"

text \<open>
  \<open>giveMyCompression\<close>: the first of the ten cumulated percentages that reaches the position of the
  block in its line, else the last one.
\<close>

primrec compression_loop :: "'d fpu \<Rightarrow> 'd list \<Rightarrow> 'd \<Rightarrow> nat \<Rightarrow> nat \<Rightarrow> 'd \<Rightarrow> nat res" where
  "compression_loop F cs myPercent i 0 aux = Inr 9"
| "compression_loop F cs myPercent i (Suc n) aux =
     bindR (vat cs i) (\<lambda>c.
       let aux = fp_add F aux c
       in if fp_le F myPercent aux then Inr i else compression_loop F cs myPercent (Suc i) n aux)"

definition my_percent :: "'d fpu \<Rightarrow> 'd linha \<Rightarrow> u32 \<Rightarrow> 'd" where
  "my_percent F l rb = fp_mul F (fp_div F (fp_of_word F rb) (fp_of_word F (nrBlocks l))) (fp_of_int F 100)"

definition giveMyCompression :: "'d fpu \<Rightarrow> 'd linha \<Rightarrow> u32 \<Rightarrow> nat res" where
  "giveMyCompression F l rb = compression_loop F (compression l) (my_percent F l rb) 0 10 (fp_of_int F 0)"

text \<open>
  \<open>get_model_by_id_and_compression\<close>: the loop over \<open>atribuicao_blocos_unicos_para_modelos\<close>, given
  by what follows the current index.  Reading past its end throws.
\<close>

primrec model_loop :: "u32 \<Rightarrow> u32 list \<Rightarrow> nat \<Rightarrow> u32 \<Rightarrow> nat res" where
  "model_loop bid [] indice somatorio = (if bid > somatorio then Inl Thrown else Inr indice)"
| "model_loop bid (a # as) indice somatorio =
     (if bid > somatorio then model_loop bid as (Suc indice) (somatorio + a) else Inr indice)"

definition model_index :: "'d generator \<Rightarrow> u32 \<Rightarrow> nat res" where
  "model_index g bid =
     (case atribuicao g of [] \<Rightarrow> Inl Thrown | a # as \<Rightarrow> model_loop bid as 0 a)"

definition get_model_by_id_and_compression :: "'d generator \<Rightarrow> u32 \<Rightarrow> nat \<Rightarrow> (nat \<times> nat) res" where
  "get_model_by_id_and_compression g bid cx =
     bindR (model_index g bid) (\<lambda>indice.
     bindR (vat (modelos g) indice) (\<lambda>v.
     bindR (vat v cx) (\<lambda>b. Inr (indice, cx))))"

text \<open>The four bytes of an \<open>unsigned int\<close> in memory.\<close>

definition bytes32 :: "u32 \<Rightarrow> u8 list" where
  "bytes32 w = [ucast w, ucast (drop_bit 8 w), ucast (drop_bit 16 w), ucast (drop_bit 24 w)]"

definition read32 :: "u8 list \<Rightarrow> nat \<Rightarrow> u32" where
  "read32 b i = ucast (b ! i) OR push_bit 8 (ucast (b ! (i + 1))) OR push_bit 16 (ucast (b ! (i + 2)))
     OR push_bit 24 (ucast (b ! (i + 3)))"

definition set_ids :: "u32 \<Rightarrow> u32 \<Rightarrow> u8 list \<Rightarrow> u8 list" where
  "set_ids cid bid b = bytes32 cid @ bytes32 bid @ drop 8 b"

text \<open>
  \<open>generate_data\<close>: the first line without copies decides whether the content is drawn anew
  (\<open>content\<close> is that draw, from \<open>total_unique_blocks\<close> to the largest \<open>unsigned int\<close>).  The result
  is the content identifier and the place of the buffer.
\<close>

definition content_of :: "'d generator \<Rightarrow> u32 \<Rightarrow> u32 \<Rightarrow> u32" where
  "content_of g content bid =
     (case find (\<lambda>l. nrCopies l = 0) (linhas g) of
        None \<Rightarrow> bid
      | Some l \<Rightarrow> if bid < nrBlocks l then content else bid)"

definition generate_data ::
  "'d generator \<Rightarrow> u32 \<Rightarrow> u32 \<Rightarrow> nat \<Rightarrow> (u32 \<times> (nat \<times> nat) \<times> 'd generator) res" where
  "generate_data g content bid cx =
     bindR (get_model_by_id_and_compression g bid cx) (\<lambda>(i, c).
       let cid = content_of g content bid;
           buf = set_ids cid bid (modelos g ! i ! c)
       in Inr (cid, (i, c), g\<lparr>modelos := (modelos g)[i := (modelos g ! i)[c := buf]]\<rparr>))"

text \<open>
  What one call of \<open>nextBlock\<close> draws: the index of the line (\<open>discrete_distribution\<close> over the
  weights), the block of the line (between 1 and \<open>nrBlocks\<close>), and the content identifier.
\<close>

record block_draw =
  d_line :: nat
  d_block :: u32
  d_content :: u32

definition nextBlock ::
  "'d fpu \<Rightarrow> block_draw \<Rightarrow> 'd generator \<Rightarrow> block_info \<Rightarrow> (block_info \<times> (nat \<times> nat) \<times> 'd generator) res"
where
  "nextBlock F dr g info =
     bindR (vat (linhas g) (d_line dr)) (\<lambda>l.
     bindR (giveMyCompression F l (d_block dr)) (\<lambda>cx.
       let bid = d_block dr + nrBase l
       in bindR (generate_data g (d_content dr) bid cx) (\<lambda>(cid, buf, g).
            Inr (info\<lparr>block_id := bid, cont_id := cid, compression_index := word_of_nat cx,
                   flag_unique_block := (nrCopies l = 0)\<rparr>, buf, g))))"

text \<open>The content of the buffer at a place.\<close>

definition buffer_at :: "'d generator \<Rightarrow> nat \<times> nat \<Rightarrow> u8 list" where
  "buffer_at g p = modelos g ! fst p ! snd p"

section \<open>Model buffers\<close>

text \<open>
  \<open>blockModel\<close>.  \<open>fbytes\<close> is the memory of a \<open>double\<close>.  Every 4096 bytes are filled with the
  powers of the seed, then the first hundredth of the buffer is copied over the hundredths that
  follow, \<open>compression\<close> times counting the copy onto itself.  The \<open>int\<close> \<open>size\<close> is a natural number
  here: block sizes are below 2^31.  Both allocation calls of the source give the same buffer; it
  is assumed to be allocated.
\<close>

primrec seed_bytes :: "'d fpu \<Rightarrow> ('d \<Rightarrow> u8 list) \<Rightarrow> 'd \<Rightarrow> nat \<Rightarrow> 'd \<Rightarrow> u8 list" where
  "seed_bytes F fbytes sd 0 c = []"
| "seed_bytes F fbytes sd (Suc n) c = fbytes c @ seed_bytes F fbytes sd n (fp_mul F c sd)"

definition raw_block :: "'d fpu \<Rightarrow> ('d \<Rightarrow> u8 list) \<Rightarrow> 'd \<Rightarrow> nat \<Rightarrow> u8 list" where
  "raw_block F fbytes sd n = concat (replicate n (seed_bytes F fbytes sd (4096 div 8) (fp_of_int F 1)))"

definition copy_unit :: "nat \<Rightarrow> nat \<Rightarrow> u8 list \<Rightarrow> u8 list" where
  "copy_unit n p buf = fold (\<lambda>a b. b[p + a := b ! a]) [0 ..< n] buf"

function repeat_loop :: "nat \<Rightarrow> nat \<Rightarrow> nat \<Rightarrow> nat \<Rightarrow> nat \<Rightarrow> u8 list \<Rightarrow> u8 list" where
  "repeat_loop sz n compr contador p buf =
     (if contador < compr \<and> p < sz - n
      then repeat_loop sz n compr (Suc contador) (p + n) (copy_unit n p buf)
      else buf)"
  by pat_completeness auto
termination
  by (relation "measure (\<lambda>(sz, n, compr, contador, p, buf). compr - contador)") auto

declare repeat_loop.simps [simp del]

definition blockModel :: "'d fpu \<Rightarrow> ('d \<Rightarrow> u8 list) \<Rightarrow> u32 \<Rightarrow> u32 \<Rightarrow> 'd \<Rightarrow> u8 list option" where
  "blockModel F fbytes bs compr sd =
     (if compr < 1 \<or> compr > 99 then None
      else
        let n4096 = unat (bs div 4096);
            sz = n4096 * 4096;
            buf = raw_block F fbytes sd n4096
        in if sz = 0 then None
           else Some (repeat_loop sz (sz div 100) (unat compr) 0 0 buf))"

section \<open>Loading the models\<close>

text \<open>\<open>allocate\<close>: how many unique blocks each model serves: \<open>x\<close>, then \<open>w\<close> times \<open>y\<close>, then \<open>z\<close>
  times \<open>y + 1\<close>.\<close>

definition allocate :: "nat \<Rightarrow> u32 \<Rightarrow> u32 \<Rightarrow> u32 list res" where
  "allocate nmodels bu x =
     (let r = bu - x; n = word_of_nat (nmodels - 1)
      in bindR (cdiv r n) (\<lambda>y. bindR (cmod r n) (\<lambda>z.
         let w = n - z
         in Inr ([x] @ replicate (unat w) y @ replicate (unat z) (y + 1)))))"

primrec load_row :: "'d fpu \<Rightarrow> ('d \<Rightarrow> u8 list) \<Rightarrow> u32 \<Rightarrow> 'd \<Rightarrow> u32 list \<Rightarrow> u8 list list option" where
  "load_row F fbytes bs sd [] = Some []"
| "load_row F fbytes bs sd (c # cs) =
     (case blockModel F fbytes bs c sd of None \<Rightarrow> None
      | Some b \<Rightarrow> (case load_row F fbytes bs sd cs of None \<Rightarrow> None | Some bs' \<Rightarrow> Some (b # bs')))"

definition COMPRESSIONS :: "u32 list" where
  "COMPRESSIONS = [5, 15, 25, 35, 45, 55, 65, 75, 85, 95]"

primrec load_rows ::
  "'d fpu \<Rightarrow> ('d \<Rightarrow> u8 list) \<Rightarrow> u32 \<Rightarrow> 'd list \<Rightarrow> u8 list list list \<Rightarrow> bool \<times> u8 list list list" where
  "load_rows F fbytes bs [] ms = (True, ms)"
| "load_rows F fbytes bs (sd # seeds) ms =
     (case load_row F fbytes bs sd COMPRESSIONS of None \<Rightarrow> (False, ms)
      | Some row \<Rightarrow> load_rows F fbytes bs seeds (ms @ [row]))"

text \<open>
  \<open>seeds\<close> are the draws between 1.1 and 1.9, one per model; \<open>fsqrt\<close> is \<open>sqrt\<close>.  The percentage
  the source also computes here is printed only.
\<close>

definition loadModels ::
  "'d fpu \<Rightarrow> ('d \<Rightarrow> 'd) \<Rightarrow> ('d \<Rightarrow> u8 list) \<Rightarrow> (nat \<Rightarrow> 'd) \<Rightarrow> 'd generator \<Rightarrow> (int \<times> 'd generator) res" where
  "loadModels F fsqrt fbytes seeds g =
     (case load_rows F fbytes (blockSize g) (map seeds [0 ..< nr_models g]) (modelos g) of
        (False, ms) \<Rightarrow> Inr (-1, g\<lparr>modelos := ms\<rparr>)
      | (True, ms) \<Rightarrow>
          let bu = total_unique_blocks g;
              p = fp_div F (fp_of_word F (percentagem_compressao_entre_blocos g)) (fp_of_int F 100);
              x = word_of_int (fp_trunc F (fp_mul F (fsqrt p) (fp_of_word F bu)))
          in bindR (allocate (nr_models g) bu x) (\<lambda>as.
               Inr (1, g\<lparr>modelos := ms, atribuicao := atribuicao g @ as\<rparr>)))"

section \<open>Estimating the compression between blocks\<close>

definition in_line :: "'d linha \<Rightarrow> cint \<Rightarrow> bool" where
  "in_line l bid \<longleftrightarrow> sint (nrBase l + 1) \<le> sint bid \<and> sint bid \<le> sint (nrBase l + nrBlocks l)"

definition get_block_compression_by_id :: "'d fpu \<Rightarrow> 'd generator \<Rightarrow> cint \<Rightarrow> int res" where
  "get_block_compression_by_id F g bid =
     (case find (\<lambda>l. in_line l bid) (linhas g) of
        None \<Rightarrow> Inr (-1)
      | Some l \<Rightarrow> bindR (giveMyCompression F l (bid - nrBase l)) (\<lambda>x. Inr (int x * 10)))"

text \<open>
  One drawn block of \<open>get_media_inter\<close>: the first of a pair, or the second, which completes the
  sums.  The sums stay below 2^31: at most 2^32 / 200 pairs with at most 95 each.
\<close>

definition media_step ::
  "'d fpu \<Rightarrow> 'd generator \<Rightarrow> cint \<Rightarrow> int \<times> int \<times> int \<times> int \<Rightarrow> (int \<times> int \<times> int \<times> int) res" where
  "media_step F g bid = (\<lambda>(previous, nr_pairs, minimum, maximum).
     bindR (get_block_compression_by_id F g bid) (\<lambda>current.
       if previous = -1 then Inr (current, nr_pairs, minimum, maximum)
       else Inr (-1, nr_pairs + 1, minimum + c_half (current + previous),
              maximum + c_half (current + previous + min (100 - current) (100 - previous)))))"

definition media_count :: "'d generator \<Rightarrow> cint \<Rightarrow> nat" where
  "media_count g pct = unat (total_unique_blocks g * pct div 100)"

definition get_media_inter :: "'d fpu \<Rightarrow> (nat \<Rightarrow> cint) \<Rightarrow> 'd generator \<Rightarrow> ('d \<times> 'd) res" where
  "get_media_inter F draws g =
     (let pct = percentage_unique_blocks_analyze g in
      if \<not> (0 < sint pct \<and> sint pct < 100) then Inr (fp_of_int F (-1), fp_of_int F (-1))
      else bindR (foldR (media_step F g) (map draws [0 ..< media_count g pct]) (-1, 0, 0, 0))
             (\<lambda>(previous, nr_pairs, minimum, maximum).
           bindR (c_quot minimum nr_pairs) (\<lambda>mn.
           bindR (c_quot maximum nr_pairs) (\<lambda>mx. Inr (fp_of_int F mn, fp_of_int F mx)))))"

section \<open>Reading the distribution file\<close>

text \<open>
  One line of the file: copies, percentage of the blocks, cumulated compressions.  A missing field
  leaves a variable without a value that is read afterwards.  \<open>stof\<close> is \<open>std::stof\<close>, which throws
  where it gives \<^const>\<open>None\<close>.
\<close>

definition stofR :: "(string \<Rightarrow> 'd option) \<Rightarrow> string \<Rightarrow> 'd res" where
  "stofR stof t = (case stof t of None \<Rightarrow> Inl Thrown | Some v \<Rightarrow> Inr v)"

definition blocks_of_line :: "'d fpu \<Rightarrow> u32 \<Rightarrow> 'd \<Rightarrow> u32 \<Rightarrow> u32" where
  "blocks_of_line F blocos prob copies =
     (let n = word_of_int (fp_trunc F (fp_div F (fp_mul F (fp_of_word F blocos)
                (fp_div F prob (fp_of_int F 100))) (fp_of_word F (copies + 1))))
      in if n = 0 then 1 else n)"

definition read_line ::
  "'d fpu \<Rightarrow> (string \<Rightarrow> 'd option) \<Rightarrow> string \<Rightarrow> u32 \<times> 'd generator \<Rightarrow> (u32 \<times> 'd generator) res" where
  "read_line F stof line = (\<lambda>(base, g).
     case getlines CHR '' '' line of
       t1 # t2 # ts \<Rightarrow>
         bindR (stoi t1) (\<lambda>n.
         bindR (stofR stof t2) (\<lambda>prob.
           let copies = word_of_int n;
               nb = blocks_of_line F (blocosAGerar g) prob copies
           in bindR (foldR (\<lambda>t cs. bindR (stofR stof t) (\<lambda>v. Inr (cs @ [v]))) ts []) (\<lambda>cs.
              Inr (base + nb,
                g\<lparr>zeroCopiesBlocks := (if copies = 0 then nb else zeroCopiesBlocks g),
                  total_unique_blocks := total_unique_blocks g + nb,
                  linhas := linhas g @ [\<lparr>nrCopies = copies, nrBlocks = nb, nrBase = base, compression = cs\<rparr>],
                  weights := weights g @ [prob]\<rparr>))))
     | [t1] \<Rightarrow> bindR (stoi t1) (\<lambda>n. Inl UninitRead)
     | [] \<Rightarrow> Inl UninitRead)"

text \<open>
  \<open>initialize\<close>: \<open>content\<close> is the distribution file, \<^const>\<open>None\<close> when it cannot be opened.  The
  result is its return value, the generator and the block counts for \<open>duplicates_info\<close>.
\<close>

definition generator_initialize ::
  "'d fpu \<Rightarrow> ('d \<Rightarrow> 'd) \<Rightarrow> ('d \<Rightarrow> u8 list) \<Rightarrow> (string \<Rightarrow> 'd option) \<Rightarrow> string option \<Rightarrow> (nat \<Rightarrow> cint) \<Rightarrow>
   (nat \<Rightarrow> 'd) \<Rightarrow> 'd generator \<Rightarrow> duplicates_info \<Rightarrow> (int \<times> 'd generator \<times> duplicates_info) res" where
  "generator_initialize F fsqrt fbytes stof content draws seeds g info =
     (if blockSize g < 4096 then Inr (-1, g, info)
      else if \<not> (1 \<le> percentagem_compressao_entre_blocos g \<and> percentagem_compressao_entre_blocos g \<le> 100)
        then Inr (-1, g, info)
      else
        let g = g\<lparr>zeroCopiesBlocks := 0, total_unique_blocks := 0\<rparr> in
        case content of
          None \<Rightarrow> Inr (-1, g, info)
        | Some text \<Rightarrow>
            bindR (foldR (read_line F stof) (getlines CHR 0x0A text) (0, g)) (\<lambda>(base, g).
            bindR (get_media_inter F draws g) (\<lambda>ci.
            bindR (loadModels F fsqrt fbytes seeds (g\<lparr>compressions_inter := ci\<rparr>)) (\<lambda>(ret, g).
              let z = zeroCopiesBlocks g; d = total_unique_blocks g - zeroCopiesBlocks g
              in Inr (ret, g, info\<lparr>zero_copy_blocks := ucast z, duplicated_blocks := ucast d,
                   total_blocks := ucast (blocosAGerar g), u_count := ucast d + 1\<rparr>)))))"


section \<open>Models for all blocks\<close>

definition usum :: "u32 list \<Rightarrow> nat" where
  "usum as = sum_list (map unat as)"

lemma usum_simps [simp]: "usum [] = 0" "usum (a # as) = unat a + usum as"
  "usum (as @ bs) = usum as + usum bs" "usum (replicate n a) = n * unat a"
  by (simp_all add: usum_def sum_list_replicate)

text \<open>The lookup finds the model whose range of blocks the identifier is in.\<close>

lemma model_loop_range:
  assumes "unat s + usum as < 2 ^ 32"
  shows "if unat bid \<le> unat s + usum as
    then \<exists>k \<le> length as. model_loop bid as i s = Inr (i + k) \<and> unat bid \<le> unat s + usum (take k as)
           \<and> (0 < k \<longrightarrow> unat s + usum (take (k - 1) as) < unat bid)
    else model_loop bid as i s = Inl Thrown"
  using assms
proof (induction as arbitrary: i s)
  case Nil
  then show ?case by (auto simp: word_less_nat_alt)
next
  case (Cons a as)
  show ?case
  proof (cases "bid > s")
    case False
    then have "unat bid \<le> unat s" by (simp add: word_le_nat_alt linorder_not_less)
    with False show ?thesis by (auto intro!: exI [of _ 0])
  next
    case True
    then have less: "unat s < unat bid" by (simp add: word_less_nat_alt)
    have s: "unat (s + a) = unat s + unat a" using Cons.prems by (intro unat_plus_small) simp
    note IH = Cons.IH [of "s + a" "Suc i"]
    show ?thesis
    proof (cases "unat bid \<le> unat s + usum (a # as)")
      case False
      with IH s Cons.prems True show ?thesis by (auto split: if_splits)
    next
      case le: True
      with IH s Cons.prems obtain k where k: "k \<le> length as"
        "model_loop bid as (Suc i) (s + a) = Inr (Suc i + k)"
        "unat bid \<le> unat s + unat a + usum (take k as)"
        "0 < k \<longrightarrow> unat s + unat a + usum (take (k - 1) as) < unat bid"
        by (auto split: if_splits)
      have "unat s + usum (take k (a # as)) < unat bid"
        using k(4) less by (cases k) auto
      with k le True show ?thesis by (intro if_P [THEN iffD2] exI [of _ "Suc k"]) auto
    qed
  qed
qed

lemma model_index_range:
  assumes "usum (atribuicao g) < 2 ^ 32" and "atribuicao g \<noteq> []"
  shows "if unat bid \<le> usum (atribuicao g)
    then \<exists>k < length (atribuicao g). model_index g bid = Inr k
       \<and> unat bid \<le> usum (take (Suc k) (atribuicao g))
       \<and> (0 < k \<longrightarrow> usum (take k (atribuicao g)) < unat bid)
    else model_index g bid = Inl Thrown"
proof -
  obtain a as where a: "atribuicao g = a # as" using assms(2) by (cases "atribuicao g") auto
  have "0 < k \<longrightarrow> unat a + usum (take (k - 1) as) = usum (take k (a # as))" for k
    by (cases k) auto
  with model_loop_range [of a as bid 0] assms(1) a show ?thesis
    by (fastforce simp: model_index_def less_Suc_eq_le)
qed

text \<open>The shares handed out add up to the number of blocks.\<close>

lemma share_sum: "z < m \<Longrightarrow> (m - z) * y + z * (y + 1) = m * y + (z :: nat)"
  by (auto dest!: less_imp_add_positive simp: algebra_simps)

lemma allocate_ok:
  assumes "x \<le> bu" and "2 \<le> n" and "n \<le> 2 ^ 31"
  shows "\<exists>as. allocate n bu x = Inr as \<and> length as = n \<and> usum as = unat bu \<and> hd as = x"
proof -
  let ?r = "bu - x"
  define N :: u32 where "N = word_of_nat (n - 1)"
  have n: "unat N = n - 1" unfolding N_def using assms(3) by (intro unat_of_nat_small) simp
  have r: "unat ?r = unat bu - unat x" using assms(1) by (rule unat_minus_small)
  have xb: "unat x \<le> unat bu" using assms(1) by (simp add: word_le_nat_alt)
  have n0: "N \<noteq> 0" using n assms(2) by auto
  have z: "unat (?r mod N) = unat ?r mod (n - 1)" and y: "unat (?r div N) = unat ?r div (n - 1)"
    using n by (simp_all add: unat_mod unat_div)
  have zl: "unat ?r mod (n - 1) < n - 1" using assms(2) by simp
  have "?r mod N \<le> N" using zl by (simp add: word_le_nat_alt z n)
  then have w: "unat (N - ?r mod N) = n - 1 - unat ?r mod (n - 1)"
    by (simp add: unat_minus_small z n)
  have y1: "unat (?r div N + 1) = unat ?r div (n - 1) + 1" if "0 < unat ?r mod (n - 1)"
  proof -
    have "n - 1 \<noteq> 1" using that by (metis mod_by_1 less_irrefl)
    then have "unat ?r div (n - 1) \<le> unat ?r div 2" using assms(2) by (intro div_le_mono2) auto
    also have "\<dots> < 2 ^ 31" using unsigned_less [where 'a = nat, of ?r] by simp
    finally have "unat (?r div N) + 1 < 2 ^ LENGTH(32)" using y by simp
    then show ?thesis using y by (subst unat_Suc_small) auto
  qed
  let ?y = "unat ?r div (n - 1)" and ?z = "unat ?r mod (n - 1)"
  have "usum ([x] @ replicate (unat (N - ?r mod N)) (?r div N)
          @ replicate (unat (?r mod N)) (?r div N + 1)) = unat bu"
  proof (cases "?z = 0")
    case True
    then have "(n - 1) * ?y = unat ?r" using mult_div_mod_eq [of "n - 1" "unat ?r"] by simp
    then show ?thesis using xb r True by (simp add: w z y)
  next
    case False
    have "(n - 1 - ?z) * ?y + ?z * (?y + 1) = unat ?r"
      using share_sum [OF zl, of ?y] mult_div_mod_eq [of "n - 1" "unat ?r"] by simp
    then show ?thesis using False xb r y1 by (simp add: w z y)
  qed
  moreover have "allocate n bu x = Inr ([x] @ replicate (unat (N - ?r mod N)) (?r div N)
          @ replicate (unat (?r mod N)) (?r div N + 1))"
    unfolding allocate_def Let_def N_def [symmetric] using n0 by (simp add: res_simps)
  moreover have "1 + (n - 1 - ?z) + ?z = n" using zl assms(2) by linarith
  ultimately show ?thesis using assms(2) by (simp add: w z)
qed

section \<open>The layout of a model buffer\<close>

lemma copy_unit_eq:
  assumes "p = 0 \<or> n \<le> p" and "p + n \<le> length buf"
  shows "copy_unit n p buf = take p buf @ take n buf @ drop (p + n) buf"
proof -
  have "m \<le> n \<Longrightarrow> fold (\<lambda>a b. b[p + a := b ! a]) [0 ..< m] buf
      = take p buf @ take m buf @ drop (p + m) buf" for m
  proof (induction m)
    case (Suc m)
    let ?b = "take p buf @ take m buf @ drop (p + m) buf"
    have "?b ! m = buf ! m"
      using assms Suc.prems by (auto simp: nth_append)
    moreover have "drop (p + m) buf = buf ! (p + m) # drop (Suc (p + m)) buf"
      using assms Suc.prems by (intro Cons_nth_drop_Suc [symmetric]) simp
    moreover have "take (Suc m) buf = take m buf @ [buf ! m]"
      using assms Suc.prems by (intro take_Suc_conv_app_nth) simp
    ultimately show ?case using Suc assms
      by (simp add: list_update_append)
  qed simp
  from this [of n] show ?thesis by (simp add: copy_unit_def)
qed

definition repeated :: "nat \<Rightarrow> nat \<Rightarrow> u8 list \<Rightarrow> u8 list" where
  "repeated n k buf = concat (replicate k (take n buf)) @ drop (k * n) buf"

lemma length_concat_replicate: "length (concat (replicate k u)) = k * length u"
  by (induction k) auto

lemma copy_unit_repeated:
  assumes "Suc k * n \<le> length buf"
  shows "copy_unit n (k * n) (repeated n k buf) = repeated n (Suc k) buf"
proof -
  have n: "n \<le> length buf" using assms by simp
  let ?c = "concat (replicate k (take n buf))"
  have len: "length ?c = k * n" using n by (simp add: length_concat_replicate)
  have hd: "take n (repeated n k buf) = take n buf"
    using n by (cases k) (auto simp: repeated_def)
  have "copy_unit n (k * n) (repeated n k buf) =
      take (k * n) (repeated n k buf) @ take n (repeated n k buf) @ drop (k * n + n) (repeated n k buf)"
    using assms len by (intro copy_unit_eq) (cases k, auto simp: repeated_def)
  also have "take (k * n) (repeated n k buf) = ?c" using len by (simp add: repeated_def)
  also have "drop (k * n + n) (repeated n k buf) = drop (Suc k * n) buf"
    using len by (simp add: repeated_def add.commute)
  also have "?c @ take n (repeated n k buf) @ drop (Suc k * n) buf = repeated n (Suc k) buf"
    unfolding hd by (simp add: repeated_def replicate_append_same [symmetric] del: replicate_Suc)
      (induction k, simp_all)
  finally show ?thesis .
qed

lemma repeat_loop_repeated:
  assumes "sz = length buf" and "0 < n" and "100 * n \<le> sz" and "k \<le> c" and "c \<le> 99"
  shows "repeat_loop sz n c k (k * n) (repeated n k buf) = repeated n c buf"
  using assms(4)
proof (induction "c - k" arbitrary: k)
  case 0
  then show ?case by (simp add: repeat_loop.simps)
next
  case (Suc d)
  then have "k \<le> 98" and k: "k < c" using assms(5) by auto
  then have "k * n \<le> 98 * n" by (intro mult_right_mono) auto
  then have "k * n + 2 * n \<le> sz" using assms(3) by linarith
  then have "k * n < sz - n" "Suc k * n \<le> length buf" using assms(1,2) by auto
  moreover have "repeat_loop sz n c (Suc k) (Suc k * n) (repeated n (Suc k) buf) = repeated n c buf"
    using Suc by (intro Suc.hyps(1)) auto
  ultimately show ?case using k
    by (subst repeat_loop.simps) (simp add: copy_unit_repeated add.commute)
qed

text \<open>A \<open>double\<close> takes eight bytes.\<close>

definition bytes_ok :: "('d \<Rightarrow> u8 list) \<Rightarrow> bool" where
  "bytes_ok fbytes \<longleftrightarrow> (\<forall>x. length (fbytes x) = 8)"

lemma length_seed_bytes: "bytes_ok fbytes \<Longrightarrow> length (seed_bytes F fbytes sd n c) = n * 8"
  by (induction n arbitrary: c) (simp_all add: bytes_ok_def)

lemma length_raw_block: "bytes_ok fbytes \<Longrightarrow> length (raw_block F fbytes sd n) = n * 4096"
  by (simp add: raw_block_def length_concat_replicate length_seed_bytes)

lemma block_model_eq:
  assumes "bytes_ok fbytes" and "4096 \<le> bs" and "1 \<le> c" and "c \<le> 99"
  shows "blockModel F fbytes bs c sd =
    Some (repeated (unat (bs div 4096) * 4096 div 100) (unat c) (raw_block F fbytes sd (unat (bs div 4096))))"
proof -
  let ?k = "unat (bs div 4096)"
  have "0 < ?k" using assms(2) by (simp add: unat_div word_le_nat_alt div_greater_zero_iff)
  moreover have "unat c \<le> 99" using assms(4) by (simp add: word_le_nat_alt)
  moreover have "repeated m 0 b = b" for m b by (simp add: repeated_def)
  moreover have "repeat_loop (?k * 4096) (?k * 4096 div 100) (unat c) 0 (0 * (?k * 4096 div 100))
      (repeated (?k * 4096 div 100) 0 (raw_block F fbytes sd ?k))
    = repeated (?k * 4096 div 100) (unat c) (raw_block F fbytes sd ?k)"
    using calculation assms(1) by (intro repeat_loop_repeated) (auto simp: length_raw_block div_greater_zero_iff)
  ultimately show ?thesis using assms(3,4)
    by (auto simp: blockModel_def Let_def linorder_not_less)
qed

section \<open>The invariant of an initialised generator\<close>

text \<open>The lines number their blocks one after the other, from a base of 0.\<close>

primrec lines_from :: "nat \<Rightarrow> 'd linha list \<Rightarrow> bool" where
  "lines_from b [] = True"
| "lines_from b (l # ls) =
     (unat (nrBase l) = b \<and> 1 \<le> unat (nrBlocks l) \<and> lines_from (b + unat (nrBlocks l)) ls)"

definition blocks_of :: "'d linha list \<Rightarrow> nat" where
  "blocks_of ls = sum_list (map (\<lambda>l. unat (nrBlocks l)) ls)"

lemma blocks_of_simps [simp]:
  "blocks_of [] = 0" "blocks_of (l # ls) = unat (nrBlocks l) + blocks_of ls"
  "blocks_of (ls @ ls') = blocks_of ls + blocks_of ls'"
  by (simp_all add: blocks_of_def)

lemma lines_from_append:
  "lines_from b (ls @ ls') \<longleftrightarrow> lines_from b ls \<and> lines_from (b + blocks_of ls) ls'"
  by (induction ls arbitrary: b) (auto simp: add.assoc)

lemma lines_from_nth:
  assumes "lines_from b ls" and "i < length ls"
  shows "unat (nrBase (ls ! i)) = b + blocks_of (take i ls) \<and> 1 \<le> unat (nrBlocks (ls ! i))
    \<and> b + blocks_of (take i ls) + unat (nrBlocks (ls ! i)) \<le> b + blocks_of ls"
  using assms
proof (induction ls arbitrary: b i)
  case (Cons l ls)
  show ?case
  proof (cases i)
    case (Suc j)
    with Cons.IH [of "b + unat (nrBlocks l)" j] Cons.prems show ?thesis by auto
  qed (use Cons.prems in auto)
qed simp

definition models_ok :: "u8 list list list \<Rightarrow> nat \<Rightarrow> bool" where
  "models_ok ms n \<longleftrightarrow> length ms = n \<and> (\<forall>row \<in> set ms. length row = 10 \<and> (\<forall>b \<in> set row. 8 \<le> length b))"

definition gen_ok :: "'d generator \<Rightarrow> bool" where
  "gen_ok g \<longleftrightarrow> lines_from 0 (linhas g) \<and> unat (total_unique_blocks g) = blocks_of (linhas g)
     \<and> (\<forall>l \<in> set (linhas g). 10 \<le> length (compression l))
     \<and> models_ok (modelos g) (nr_models g) \<and> 0 < nr_models g
     \<and> length (atribuicao g) = nr_models g \<and> usum (atribuicao g) = unat (total_unique_blocks g)"

lemma gen_okD:
  assumes "gen_ok g"
  shows "lines_from 0 (linhas g)" "unat (total_unique_blocks g) = blocks_of (linhas g)"
    "l \<in> set (linhas g) \<Longrightarrow> 10 \<le> length (compression l)" "models_ok (modelos g) (nr_models g)"
    "length (atribuicao g) = nr_models g" "usum (atribuicao g) = unat (total_unique_blocks g)"
    "atribuicao g \<noteq> []" "usum (atribuicao g) < 2 ^ 32"
  using assms unsigned_less [where 'a = nat, of "total_unique_blocks g"]
  by (auto simp: gen_ok_def)

lemma compression_loop_ok:
  assumes "i + n \<le> length cs" and "i + n = 10"
  shows "\<exists>j. compression_loop F cs p i n aux = Inr j \<and> j < 10"
  using assms by (induction n arbitrary: i aux) (auto simp: vat_def Let_def)

lemma model_found:
  assumes "gen_ok g" and "unat bid \<le> unat (total_unique_blocks g)" and "cx < 10"
  obtains k where "get_model_by_id_and_compression g bid cx = Inr (k, cx)"
    and "k < nr_models g" and "k < length (modelos g)" and "cx < length (modelos g ! k)"
    and "8 \<le> length (modelos g ! k ! cx)"
proof -
  note g = gen_okD [OF assms(1)]
  from model_index_range [OF g(8,7), of bid] assms(2) g(6) obtain k where
    k: "k < length (atribuicao g)" "model_index g bid = Inr k" by auto
  then have "k < length (modelos g)" using g(4,5) by (simp add: models_ok_def)
  then have "modelos g ! k \<in> set (modelos g)" by simp
  then have "length (modelos g ! k) = 10" "8 \<le> length (modelos g ! k ! cx)"
    using g(4) assms(3) by (auto simp: models_ok_def)
  with k \<open>k < length (modelos g)\<close> assms(3) g(5) show thesis
    by (intro that [of k]) (auto simp: get_model_by_id_and_compression_def vat_def)
qed

lemma read32_bytes32:
  assumes "\<forall>j < 4. b ! (i + j) = bytes32 w ! j"
  shows "read32 b i = w"
proof -
  have "b ! i = bytes32 w ! 0" "b ! (i + 1) = bytes32 w ! 1" "b ! (i + 2) = bytes32 w ! 2"
    "b ! (i + 3) = bytes32 w ! 3"
    using assms [rule_format, of 0] assms [rule_format, of 1] assms [rule_format, of 2]
      assms [rule_format, of 3] by simp_all
  note bs = this
  show ?thesis
  proof (rule bit_word_eqI)
    fix n assume n: "n < LENGTH(32)"
    consider "n < 8" | "8 \<le> n" "n < 16" | "16 \<le> n" "n < 24" | "24 \<le> n" by linarith
    then show "bit (read32 b i) n = bit w n"
      unfolding read32_def bs using n by cases (simp_all add: bytes32_def bit_simps, linarith+)
  qed
qed

lemma read_ids:
  "8 \<le> length b \<Longrightarrow> read32 (set_ids cid bid b) 0 = cid \<and> read32 (set_ids cid bid b) 4 = bid"
  by (intro conjI read32_bytes32)
    (auto simp: set_ids_def bytes32_def nth_append numeral_eq_Suc less_Suc_eq)

lemma models_ok_update:
  assumes "models_ok ms n" and "k < length ms" and "c < length (ms ! k)" and "8 \<le> length b"
  shows "models_ok (ms[k := (ms ! k)[c := b]]) n"
  using assms by (fastforce simp: models_ok_def dest!: set_update_subset_insert [THEN subsetD])

text \<open>One write: the block is drawn, and its buffer carries its identifiers.\<close>

lemma next_block_step:
  assumes g: "gen_ok g" and i: "d_line dr < length (linhas g)" and l: "l = linhas g ! d_line dr"
    and r: "1 \<le> d_block dr" "d_block dr \<le> nrBlocks l"
  shows "\<exists>info' p g'. nextBlock F dr g info = Inr (info', p, g') \<and> gen_ok g' \<and> linhas g' = linhas g
    \<and> total_unique_blocks g' = total_unique_blocks g
    \<and> unat (block_id info') = unat (nrBase l) + unat (d_block dr)
    \<and> unat (block_id info') \<le> unat (total_unique_blocks g)
    \<and> cont_id info' = content_of g (d_content dr) (block_id info')
    \<and> unat (compression_index info') < 10 \<and> flag_unique_block info' = (nrCopies l = 0)
    \<and> proc_id info' = proc_id info
    \<and> read32 (buffer_at g' p) 0 = cont_id info' \<and> read32 (buffer_at g' p) 4 = block_id info'"
proof -
  note ok = gen_okD [OF g]
  have "l \<in> set (linhas g)" using i l by simp
  note n = lines_from_nth [OF ok(1) i, folded l]
  have d: "unat (d_block dr) \<le> unat (nrBlocks l)" using r(2) by (simp add: word_le_nat_alt)
  let ?bid = "d_block dr + nrBase l"
  have le: "unat (nrBase l) + unat (d_block dr) \<le> unat (total_unique_blocks g)"
    using n d ok(2) by simp
  then have "unat (d_block dr) + unat (nrBase l) < 2 ^ LENGTH(32)"
    using unsigned_less [where 'a = nat, of "total_unique_blocks g"] by linarith
  from unat_plus_small [OF this] have bid: "unat ?bid = unat (nrBase l) + unat (d_block dr)"
    by (simp only: add.commute)
  have cs: "10 \<le> length (compression l)" by (rule ok(3)) (rule \<open>l \<in> set (linhas g)\<close>)
  then obtain cx where cx: "giveMyCompression F l (d_block dr) = Inr cx" "cx < 10"
    using compression_loop_ok [of 0 10 "compression l" F "my_percent F l (d_block dr)" "fp_of_int F 0"]
    cs unfolding giveMyCompression_def by force
  obtain k where k: "get_model_by_id_and_compression g ?bid cx = Inr (k, cx)"
    "k < length (modelos g)" "cx < length (modelos g ! k)" "8 \<le> length (modelos g ! k ! cx)"
    using model_found [OF g _ cx(2), of ?bid] le bid by metis
  let ?cid = "content_of g (d_content dr) ?bid"
  let ?b = "set_ids ?cid ?bid (modelos g ! k ! cx)"
  let ?g = "g\<lparr>modelos := (modelos g)[k := (modelos g ! k)[cx := ?b]]\<rparr>"
  have "8 \<le> length ?b" by (simp add: set_ids_def bytes32_def)
  from models_ok_update [OF ok(4) k(2,3) this] have "gen_ok ?g" using g by (simp add: gen_ok_def)
  moreover have "nextBlock F dr g info = Inr (info\<lparr>block_id := ?bid, cont_id := ?cid,
      compression_index := word_of_nat cx, flag_unique_block := (nrCopies l = 0)\<rparr>, (k, cx), ?g)"
    using i l cx(1) k(1) by (simp add: nextBlock_def vat_def generate_data_def Let_def)
  moreover have "unat (word_of_nat cx :: u32) < 10" using cx(2) by (simp add: unat_of_nat_small)
  moreover have "buffer_at ?g (k, cx) = ?b" using k(2,3) by (simp add: buffer_at_def)
  ultimately show ?thesis using le bid read_ids [OF k(4), of ?cid ?bid] by simp
qed

section \<open>The estimate of the compression between blocks\<close>

lemma lines_cover:
  assumes "lines_from b ls" and "b < n" and "n \<le> b + blocks_of ls"
  shows "\<exists>l \<in> set ls. unat (nrBase l) < n \<and> n \<le> unat (nrBase l) + unat (nrBlocks l)"
  using assms
proof (induction ls arbitrary: b)
  case (Cons l ls)
  show ?case
  proof (cases "n \<le> b + unat (nrBlocks l)")
    case False
    with Cons.IH [of "b + unat (nrBlocks l)"] Cons.prems show ?thesis by auto
  qed (use Cons.prems in auto)
qed simp

lemma lines_in_range:
  assumes "lines_from b ls" and "l \<in> set ls"
  shows "unat (nrBase l) + unat (nrBlocks l) \<le> b + blocks_of ls"
  using assms by (induction ls arbitrary: b) fastforce+

lemma sint_small: "unat (w :: 32 word) < 2 ^ 31 \<Longrightarrow> sint w = int (unat w)"
proof -
  assume "unat w < 2 ^ 31"
  then have "int (unat w) < int (2 ^ 31)" by (simp only: of_nat_less_iff)
  then have "uint w < 2 ^ 31" by simp
  then have "signed_take_bit 31 (uint w) = uint w" by (intro signed_take_bit_int_eq_self) (simp_all add: order_trans [of _ 0])
  then show ?thesis by (simp add: sint_uint)
qed

lemma line_of_block:
  assumes lf: "lines_from 0 (linhas g)"
    and t: "blocks_of (linhas g) < 2 ^ 31" and d: "1 \<le> unat bid" "unat bid \<le> blocks_of (linhas g)"
  shows "\<exists>l \<in> set (linhas g). find (\<lambda>l. in_line l bid) (linhas g) = Some l"
proof -
  from lines_cover [OF lf, of "unat bid"] d obtain l where
    l: "l \<in> set (linhas g)" "unat (nrBase l) < unat bid" "unat bid \<le> unat (nrBase l) + unat (nrBlocks l)"
    by auto
  have r: "unat (nrBase l) + unat (nrBlocks l) < 2 ^ 31" using lines_in_range [OF lf l(1)] t by simp
  have "unat (nrBase l + 1) = unat (nrBase l) + 1" "unat (nrBase l + nrBlocks l) = unat (nrBase l) + unat (nrBlocks l)"
    using r l by (subst unat_plus_small, simp, simp)+
  then have "sint (nrBase l + 1) = int (unat (nrBase l) + 1)"
    "sint (nrBase l + nrBlocks l) = int (unat (nrBase l) + unat (nrBlocks l))"
    using r l by (simp_all only: sint_small)
  moreover have "sint bid = int (unat bid)" using d(2) t by (intro sint_small) simp
  ultimately have "in_line l bid" unfolding in_line_def using l(2,3) by linarith
  then obtain l' where f: "find (\<lambda>l. in_line l bid) (linhas g) = Some l'"
    using l(1) by (cases "find (\<lambda>l. in_line l bid) (linhas g)") (auto simp: find_None_iff)
  then have "l' \<in> set (linhas g)" by (auto simp: find_Some_iff)
  with f show ?thesis by blast
qed

lemma block_compression_ok:
  assumes lf: "lines_from 0 (linhas g)" and cs: "\<And>l. l \<in> set (linhas g) \<Longrightarrow> 10 \<le> length (compression l)"
    and t: "blocks_of (linhas g) < 2 ^ 31" and d: "1 \<le> unat bid" "unat bid \<le> blocks_of (linhas g)"
  shows "\<exists>x. get_block_compression_by_id F g bid = Inr x \<and> 0 \<le> x \<and> x \<le> 90"
proof -
  from line_of_block [OF lf t d] obtain l' where
    f: "find (\<lambda>l. in_line l bid) (linhas g) = Some l'" "l' \<in> set (linhas g)" by blast
  then have "0 + 10 \<le> length (compression l')" using cs by simp
  from compression_loop_ok [OF this] obtain x where
    "giveMyCompression F l' (bid - nrBase l') = Inr x" "x < 10"
    unfolding giveMyCompression_def by force
  with f show ?thesis by (simp add: get_block_compression_by_id_def)
qed

definition media_inv :: "nat \<Rightarrow> int \<times> int \<times> int \<times> int \<Rightarrow> bool" where
  "media_inv j = (\<lambda>(previous, nr_pairs, minimum, maximum).
     nr_pairs = int (j div 2) \<and> (previous = -1 \<longleftrightarrow> even j) \<and> -1 \<le> previous \<and> previous \<le> 90
     \<and> 0 \<le> minimum \<and> minimum \<le> maximum \<and> maximum \<le> 95 * nr_pairs)"

lemma media_step_ok:
  assumes "get_block_compression_by_id F g bid = Inr x" and "0 \<le> x" and "x \<le> 90" and "media_inv j s"
  shows "\<exists>s'. media_step F g bid s = Inr s' \<and> media_inv (Suc j) s'"
proof -
  obtain p n mn mx where s: "s = (p, n, mn, mx)" by (cases s)
  show ?thesis
  proof (cases "p = -1")
    case True
    then show ?thesis using assms by (auto simp: s media_step_def media_inv_def)
  next
    case False
    then have "odd j" "0 \<le> p" using assms(4) by (auto simp: s media_inv_def)
    then have "Suc j div 2 = Suc (j div 2)" by presburger
    moreover have "0 \<le> (x + p) div 2" "(x + p) div 2 \<le> (x + p + min (100 - x) (100 - p)) div 2"
      "(x + p + min (100 - x) (100 - p)) div 2 \<le> 95" "0 \<le> x + p + min (100 - x) (100 - p)"
      using assms(2,3,4) \<open>0 \<le> p\<close> by (auto simp: s media_inv_def min_def)
    ultimately show ?thesis using assms False \<open>0 \<le> p\<close> \<open>odd j\<close>
      by (auto simp: s media_step_def media_inv_def)
  qed
qed

lemma media_fold_ok:
  assumes "\<And>bid. bid \<in> set ds \<Longrightarrow> \<exists>x. get_block_compression_by_id F g bid = Inr x \<and> 0 \<le> x \<and> x \<le> 90"
    and "media_inv j s"
  shows "\<exists>s'. foldR (media_step F g) ds s = Inr s' \<and> media_inv (j + length ds) s'"
  using assms
proof (induction ds arbitrary: j s)
  case (Cons bid ds)
  from Cons.prems(1) [of bid] obtain x where x: "get_block_compression_by_id F g bid = Inr x" "0 \<le> x" "x \<le> 90"
    by auto
  from media_step_ok [OF x Cons.prems(2)] obtain s1 where "media_step F g bid s = Inr s1" "media_inv (Suc j) s1"
    by auto
  with Cons.IH [of "Suc j" s1] Cons.prems(1) show ?case by auto
qed auto

lemma c_quot_nonneg: "0 \<le> a \<Longrightarrow> 0 < b \<Longrightarrow> c_quot a b = Inr (a div b)"
  by (cases "a = 0") (simp_all add: c_quot_def)

lemma media_result:
  assumes lf: "lines_from 0 (linhas g)" and cs: "\<And>l. l \<in> set (linhas g) \<Longrightarrow> 10 \<le> length (compression l)"
    and t: "blocks_of (linhas g) < 2 ^ 31"
    and d: "\<And>i. 1 \<le> unat (draws i) \<and> unat (draws i) \<le> blocks_of (linhas g)"
    and p: "0 < sint (percentage_unique_blocks_analyze g)" "sint (percentage_unique_blocks_analyze g) < 100"
  shows "if media_count g (percentage_unique_blocks_analyze g) < 2
    then get_media_inter F draws g = Inl DivByZero
    else \<exists>lo hi. get_media_inter F draws g = Inr (fp_of_int F lo, fp_of_int F hi)
           \<and> 0 \<le> lo \<and> lo \<le> hi \<and> hi \<le> 95"
proof -
  let ?n = "media_count g (percentage_unique_blocks_analyze g)"
  have "media_inv 0 (-1, 0, 0, 0)" by (simp add: media_inv_def)
  from media_fold_ok [OF _ this, of "map draws [0 ..< ?n]" F g] block_compression_ok [OF lf cs t] d
  obtain pr n mn mx where f: "foldR (media_step F g) (map draws [0 ..< ?n]) (-1, 0, 0, 0) = Inr (pr, n, mn, mx)"
    "media_inv ?n (pr, n, mn, mx)" by force
  then have n: "n = int (?n div 2)" and b: "0 \<le> mn" "mn \<le> mx" "mx \<le> 95 * n"
    by (auto simp: media_inv_def)
  show ?thesis
  proof (cases "?n < 2")
    case True
    with n have "n = 0" by simp
    with f p True show ?thesis by (simp add: get_media_inter_def c_quot_def)
  next
    case False
    with n have "0 < n" by simp
    moreover have "mx div n \<le> 95" using zdiv_mono1 [OF b(3) \<open>0 < n\<close>] \<open>0 < n\<close> by simp
    moreover have "mn div n \<le> mx div n" using b(2) \<open>0 < n\<close> by (intro zdiv_mono1)
    moreover have "0 \<le> mn div n" using b(1) \<open>0 < n\<close> by (simp add: pos_imp_zdiv_nonneg_iff)
    ultimately show ?thesis using f p False b by (auto simp: get_media_inter_def c_quot_nonneg Let_def)
  qed
qed

section \<open>Initialisation\<close>

text \<open>What reading the distribution file builds, as long as the 32-bit block numbers do not wrap.\<close>

definition read_inv :: "'d generator \<Rightarrow> u32 \<times> 'd generator \<Rightarrow> bool" where
  "read_inv g0 = (\<lambda>(base, g). base = total_unique_blocks g
     \<and> (blocks_of (linhas g) < 2 ^ 32 \<longrightarrow> lines_from 0 (linhas g) \<and> unat base = blocks_of (linhas g)
            \<and> unat (zeroCopiesBlocks g) \<le> blocks_of (linhas g))
     \<and> length (weights g) = length (linhas g)
     \<and> blockSize g = blockSize g0 \<and> nr_models g = nr_models g0 \<and> modelos g = modelos g0
     \<and> atribuicao g = atribuicao g0 \<and> blocosAGerar g = blocosAGerar g0
     \<and> percentage_unique_blocks_analyze g = percentage_unique_blocks_analyze g0
     \<and> percentagem_compressao_entre_blocos g = percentagem_compressao_entre_blocos g0)"

lemma blocks_of_line_pos: "1 \<le> unat (blocks_of_line F blocos prob copies)"
  by (auto simp: blocks_of_line_def Let_def Suc_le_eq word_neq_0_conv_unat [symmetric])

lemma read_line_inv:
  assumes "read_line F stof line s = Inr s'" and "read_inv g0 s"
  shows "read_inv g0 s'"
proof -
  obtain base g where s: "s = (base, g)" by (cases s)
  from assms(1) obtain t1 t2 ts where t: "getlines CHR '' '' line = t1 # t2 # ts"
    by (auto simp: read_line_def s elim!: bindR_InrE split: list.splits)
  from assms(1) obtain n prob cs where "s' = (let copies = word_of_int n;
      nb = blocks_of_line F (blocosAGerar g) prob copies in (base + nb,
        g\<lparr>zeroCopiesBlocks := (if copies = 0 then nb else zeroCopiesBlocks g),
          total_unique_blocks := total_unique_blocks g + nb,
          linhas := linhas g @ [\<lparr>nrCopies = copies, nrBlocks = nb, nrBase = base, compression = cs\<rparr>],
          weights := weights g @ [prob]\<rparr>))"
    by (auto simp: read_line_def s t Let_def elim!: bindR_InrE)
  then have "\<exists>copies nb prob cs. 1 \<le> unat nb \<and> s' = (base + nb,
        g\<lparr>zeroCopiesBlocks := (if copies = 0 then nb else zeroCopiesBlocks g),
          total_unique_blocks := total_unique_blocks g + nb,
          linhas := linhas g @ [\<lparr>nrCopies = copies, nrBlocks = nb, nrBase = base, compression = cs\<rparr>],
          weights := weights g @ [prob]\<rparr>)"
    unfolding Let_def
    by (intro exI [of _ "word_of_int n"] exI [of _ "blocks_of_line F (blocosAGerar g) prob (word_of_int n)"]
        exI [of _ prob] exI [of _ cs] conjI blocks_of_line_pos)
  then obtain copies nb prob cs where nb: "1 \<le> unat nb" and s': "s' = (base + nb,
        g\<lparr>zeroCopiesBlocks := (if copies = 0 then nb else zeroCopiesBlocks g),
          total_unique_blocks := total_unique_blocks g + nb,
          linhas := linhas g @ [\<lparr>nrCopies = copies, nrBlocks = nb, nrBase = base, compression = cs\<rparr>],
          weights := weights g @ [prob]\<rparr>)" by blast
  have plus: "blocks_of (linhas g) + unat nb < 2 ^ 32 \<Longrightarrow> unat base = blocks_of (linhas g) \<Longrightarrow>
      unat (base + nb) = blocks_of (linhas g) + unat nb"
    by (subst unat_plus_small) simp_all
  show ?thesis using assms(2) nb plus
    by (auto simp: s' s read_inv_def lines_from_append)
qed

lemma read_file_inv:
  assumes "foldR (read_line F stof) ls (0, g) = Inr s" and "total_unique_blocks g = 0"
    and "linhas g = []" and "weights g = []" and "zeroCopiesBlocks g = 0"
  shows "read_inv g s"
proof (rule foldR_invariant [OF assms(1)])
  show "read_inv g (0, g)" using assms(2-5) by (simp add: read_inv_def)
qed (rule read_line_inv)

lemma length_repeated: "k * n \<le> length b \<Longrightarrow> length (repeated n k b) = length b"
proof (cases k)
  case (Suc j)
  assume "k * n \<le> length b"
  then have "n \<le> length b" using Suc by simp
  with \<open>k * n \<le> length b\<close> show ?thesis
    by (simp add: repeated_def length_concat_replicate min_absorb2)
qed (simp add: repeated_def)

lemma load_row_ok:
  assumes "bytes_ok fbytes" and "4096 \<le> bs" and "\<And>c. c \<in> set cs \<Longrightarrow> 1 \<le> c \<and> c \<le> 99"
  shows "\<exists>row. load_row F fbytes bs sd cs = Some row \<and> length row = length cs
    \<and> (\<forall>b \<in> set row. length b = unat (bs div 4096) * 4096)"
  using assms(3)
proof (induction cs)
  case (Cons c cs)
  let ?k = "unat (bs div 4096)"
  have "unat c \<le> 99" using Cons.prems [of c] by (simp add: word_le_nat_alt)
  then have "unat c * (?k * 4096 div 100) \<le> 99 * (?k * 4096 div 100)" by (rule mult_right_mono) simp
  then have "unat c * (?k * 4096 div 100) \<le> ?k * 4096" by linarith
  then have "length (repeated (?k * 4096 div 100) (unat c) (raw_block F fbytes sd ?k)) = ?k * 4096"
    by (simp only: length_repeated length_raw_block [OF assms(1)])
  with Cons block_model_eq [OF assms(1,2), of c F sd] show ?case by auto
qed simp

text \<open>All buffers of the models hold the same number of bytes.\<close>

definition models_sized :: "nat \<Rightarrow> u8 list list list \<Rightarrow> bool" where
  "models_sized n ms \<longleftrightarrow> (\<forall>row \<in> set ms. \<forall>b \<in> set row. length b = n)"

lemma load_rows_ok:
  assumes "bytes_ok fbytes" and "4096 \<le> bs"
  shows "\<exists>rows. load_rows F fbytes bs seeds ms = (True, ms @ rows) \<and> models_ok rows (length seeds)
    \<and> models_sized (unat (bs div 4096) * 4096) rows"
proof (induction seeds arbitrary: ms)
  case (Cons sd seeds)
  have "1 \<le> unat (bs div 4096)" using assms(2)
    by (simp add: unat_div word_le_nat_alt Suc_le_eq div_greater_zero_iff)
  then have "8 \<le> unat (bs div 4096) * 4096" by linarith
  moreover obtain row where row: "load_row F fbytes bs sd COMPRESSIONS = Some row"
    "length row = length COMPRESSIONS" "\<forall>b \<in> set row. length b = unat (bs div 4096) * 4096"
    using load_row_ok [OF assms, where cs = COMPRESSIONS and F = F and sd = sd] unfolding COMPRESSIONS_def by (force simp del: load_row.simps)
  moreover obtain rows where "load_rows F fbytes bs seeds (ms @ [row]) = (True, (ms @ [row]) @ rows)"
    "models_ok rows (length seeds)" "models_sized (unat (bs div 4096) * 4096) rows" using Cons.IH by blast
  ultimately show ?case
    by (intro exI [of _ "row # rows"]) (auto simp: models_ok_def models_sized_def COMPRESSIONS_def)
qed (simp add: models_ok_def models_sized_def)

definition first_share :: "'d fpu \<Rightarrow> ('d \<Rightarrow> 'd) \<Rightarrow> 'd generator \<Rightarrow> int" where
  "first_share F fsqrt g = fp_trunc F (fp_mul F
     (fsqrt (fp_div F (fp_of_word F (percentagem_compressao_entre_blocos g)) (fp_of_int F 100)))
     (fp_of_word F (total_unique_blocks g)))"

lemma load_models_ok:
  assumes "bytes_ok fbytes" and "4096 \<le> blockSize g" and "modelos g = []"
    and "atribuicao g = []" and "nr_models g = 100"
    and "0 \<le> first_share F fsqrt g" and "first_share F fsqrt g \<le> uint (total_unique_blocks g)"
  shows "\<exists>g'. loadModels F fsqrt fbytes seeds g = Inr (1, g') \<and> models_ok (modelos g') 100
    \<and> models_sized (unat (blockSize g div 4096) * 4096) (modelos g')
    \<and> length (atribuicao g') = 100 \<and> usum (atribuicao g') = unat (total_unique_blocks g)
    \<and> g' = g\<lparr>modelos := modelos g', atribuicao := atribuicao g'\<rparr>"
proof -
  obtain rows where rows: "load_rows F fbytes (blockSize g) (map seeds [0 ..< 100]) [] = (True, rows)"
    "models_ok rows 100" "models_sized (unat (blockSize g div 4096) * 4096) rows" using load_rows_ok [OF assms(1,2), where seeds = "map seeds [0 ..< 100]" and ms = "[]" and F = F] by auto
  let ?x = "word_of_int (first_share F fsqrt g) :: u32"
  have "uint ?x = first_share F fsqrt g"
    using assms(6,7) uint_lt2p [of "total_unique_blocks g"]
    by (simp add: uint_word_of_int_eq take_bit_int_eq_self)
  then have "?x \<le> total_unique_blocks g" using assms(7) by (simp add: word_le_def)
  from allocate_ok [OF this, of 100] obtain as where "allocate 100 (total_unique_blocks g) ?x = Inr as"
    "length as = 100" "usum as = unat (total_unique_blocks g)" by auto
  with rows assms(3-5) show ?thesis
    by (simp add: loadModels_def first_share_def [symmetric] Let_def)
qed

lemma initialize_steps:
  assumes F: "bytes_ok fbytes" and bs: "4096 \<le> bs" and pc: "1 \<le> pc" "pc \<le> 100"
    and pa: "0 < sint pa" "sint pa < 100"
    and read: "foldR (read_line F stof) (getlines CHR 0x0A text) (0, new_generator F bs blocos pa pc) = Inr (base, g1)"
    and total: "blocks_of (linhas g1) < 2 ^ 31"
    and cs: "\<forall>l \<in> set (linhas g1). 10 \<le> length (compression l)"
    and draws: "\<forall>i. 1 \<le> unat (draws i) \<and> unat (draws i) \<le> blocks_of (linhas g1)"
    and share: "0 \<le> first_share F fsqrt g1" "first_share F fsqrt g1 \<le> uint (total_unique_blocks g1)"
  shows "if media_count g1 pa < 2
    then generator_initialize F fsqrt fbytes stof (Some text) draws seeds (new_generator F bs blocos pa pc) info
           = Inl DivByZero
    else \<exists>g' info'. generator_initialize F fsqrt fbytes stof (Some text) draws seeds
             (new_generator F bs blocos pa pc) info = Inr (1, g', info')
           \<and> gen_ok g' \<and> models_sized (unat (bs div 4096) * 4096) (modelos g')
           \<and> linhas g' = linhas g1 \<and> nr_models g' = 100
           \<and> zero_copy_blocks info' = ucast (zeroCopiesBlocks g1)
           \<and> unat (zero_copy_blocks info') + unat (duplicated_blocks info') = blocks_of (linhas g1)
           \<and> total_blocks info' = ucast blocos \<and> u_count info' = duplicated_blocks info' + 1"
proof -
  let ?g0 = "new_generator F bs blocos pa pc"
  have inv: "read_inv ?g0 (base, g1)"
    using read by (rule read_file_inv) (simp_all add: new_generator_def)
  from inv total have lf: "lines_from 0 (linhas g1)"
    and t: "unat (total_unique_blocks g1) = blocks_of (linhas g1)"
    and z: "unat (zeroCopiesBlocks g1) \<le> blocks_of (linhas g1)"
    and f: "blockSize g1 = bs" "nr_models g1 = 100" "modelos g1 = []" "atribuicao g1 = []"
      "percentage_unique_blocks_analyze g1 = pa" "blocosAGerar g1 = blocos"
    by (auto simp: read_inv_def new_generator_def)
  have pct: "percentage_unique_blocks_analyze ?g0 = pa" "blockSize ?g0 = bs"
    "percentagem_compressao_entre_blocos ?g0 = pc"
    and same: "?g0\<lparr>zeroCopiesBlocks := 0, total_unique_blocks := 0\<rparr> = ?g0"
    by (simp_all add: new_generator_def)
  have run: "generator_initialize F fsqrt fbytes stof (Some text) draws seeds ?g0 info =
      bindR (get_media_inter F draws g1) (\<lambda>ci.
      bindR (loadModels F fsqrt fbytes seeds (g1\<lparr>compressions_inter := ci\<rparr>)) (\<lambda>(ret, g).
        let z = zeroCopiesBlocks g; d = total_unique_blocks g - zeroCopiesBlocks g
        in Inr (ret, g, info\<lparr>zero_copy_blocks := ucast z, duplicated_blocks := ucast d,
             total_blocks := ucast (blocosAGerar g), u_count := ucast d + 1\<rparr>)))"
  proof -
    have "\<not> bs < 4096" using bs by simp
    with pc read show ?thesis by (simp add: generator_initialize_def pct same)
  qed
  note m = media_result [OF lf _ total, of draws F, unfolded f(5)]
  show ?thesis
  proof (cases "media_count g1 pa < 2")
    case True
    with m cs draws pa show ?thesis by (simp add: run)
  next
    case False
    then obtain ci where ci: "get_media_inter F draws g1 = Inr ci"
      using m cs draws pa by (auto split: if_splits)
    let ?g = "g1\<lparr>compressions_inter := ci\<rparr>"
    have "\<exists>g'. loadModels F fsqrt fbytes seeds ?g = Inr (1, g') \<and> models_ok (modelos g') 100
      \<and> models_sized (unat (bs div 4096) * 4096) (modelos g')
      \<and> length (atribuicao g') = 100 \<and> usum (atribuicao g') = unat (total_unique_blocks ?g)
      \<and> g' = ?g\<lparr>modelos := modelos g', atribuicao := atribuicao g'\<rparr>"
      using F bs f share load_models_ok [of fbytes ?g F fsqrt seeds] by (simp add: first_share_def)
    then obtain g' where g': "loadModels F fsqrt fbytes seeds ?g = Inr (1, g')" "models_ok (modelos g') 100"
      and sized: "models_sized (unat (bs div 4096) * 4096) (modelos g')"
      and g'': "length (atribuicao g') = 100" "usum (atribuicao g') = unat (total_unique_blocks g1)"
      "g' = ?g\<lparr>modelos := modelos g', atribuicao := atribuicao g'\<rparr>" by auto
    have same': "linhas g' = linhas g1" "nr_models g' = 100" "total_unique_blocks g' = total_unique_blocks g1"
      "zeroCopiesBlocks g' = zeroCopiesBlocks g1" "blocosAGerar g' = blocos"
      by (subst g''(3), simp add: f)+
    have "gen_ok g'" using lf t cs g'(2) g''(1,2) by (simp add: gen_ok_def same')
    moreover have "unat (total_unique_blocks g1 - zeroCopiesBlocks g1)
        = blocks_of (linhas g1) - unat (zeroCopiesBlocks g1)"
      using t z by (simp add: unat_minus_small word_le_nat_alt)
    then have "unat (ucast (zeroCopiesBlocks g1) :: u64)
        + unat (ucast (total_unique_blocks g1 - zeroCopiesBlocks g1) :: u64) = blocks_of (linhas g1)"
      using z by (simp add: unat_ucast_up)
    ultimately show ?thesis using False ci g'(1) sized by (simp add: run same' Let_def)
  qed
qed

section \<open>Properties\<close>

text \<open>
  C14: reading a distribution file whose block numbers stay below 2^31, with ten compressions in every
  line and at least two blocks to sample, \<open>initialize\<close> returns 1 and establishes the invariant: the
  lines number the unique blocks from 1 without gap or overlap, there are 100 models of 10 buffers,
  each of the block size rounded down to 4096 bytes, that serve all of them, and the counts given to the benchmark (without copies, with copies) add up
  to the number of unique blocks.  The hypothesis on \<open>first_share\<close> says of the floating-point
  product \<open>sqrt(p) * blocks\<close> that it is at most \<open>blocks\<close>, as \<open>p\<close> is at most 1.
\<close>

theorem generator_initializes:
  assumes "bytes_ok fbytes" and "4096 \<le> bs" and "1 \<le> pc" and "pc \<le> 100"
    and "0 < sint pa" and "sint pa < 100"
    and "foldR (read_line F stof) (getlines CHR 0x0A text) (0, new_generator F bs blocos pa pc) = Inr (base, g1)"
    and "blocks_of (linhas g1) < 2 ^ 31"
    and "\<forall>l \<in> set (linhas g1). 10 \<le> length (compression l)"
    and "\<forall>i. 1 \<le> unat (draws i) \<and> unat (draws i) \<le> blocks_of (linhas g1)"
    and "0 \<le> first_share F fsqrt g1" and "first_share F fsqrt g1 \<le> uint (total_unique_blocks g1)"
    and "2 \<le> media_count g1 pa"
  shows "\<exists>g' info'. generator_initialize F fsqrt fbytes stof (Some text) draws seeds
             (new_generator F bs blocos pa pc) info = Inr (1, g', info')
           \<and> gen_ok g' \<and> models_sized (unat (bs div 4096) * 4096) (modelos g')
           \<and> linhas g' = linhas g1 \<and> nr_models g' = 100
           \<and> zero_copy_blocks info' = ucast (zeroCopiesBlocks g1)
           \<and> unat (zero_copy_blocks info') + unat (duplicated_blocks info') = blocks_of (linhas g1)
           \<and> total_blocks info' = ucast blocos \<and> u_count info' = duplicated_blocks info' + 1"
  using initialize_steps [OF assms(1-12)] assms(13) by simp

text \<open>
  Under the same conditions, when the sampled percentage of the unique blocks is fewer than two
  blocks, \<open>get_media_inter\<close> divides by zero pairs and the program dies in \<open>initialize\<close>.
\<close>

lemma small_sample_divides_by_zero:
  assumes "bytes_ok fbytes" and "4096 \<le> bs" and "1 \<le> pc" and "pc \<le> 100"
    and "0 < sint pa" and "sint pa < 100"
    and "foldR (read_line F stof) (getlines CHR 0x0A text) (0, new_generator F bs blocos pa pc) = Inr (base, g1)"
    and "blocks_of (linhas g1) < 2 ^ 31"
    and "\<forall>l \<in> set (linhas g1). 10 \<le> length (compression l)"
    and "\<forall>i. 1 \<le> unat (draws i) \<and> unat (draws i) \<le> blocks_of (linhas g1)"
    and "0 \<le> first_share F fsqrt g1" and "first_share F fsqrt g1 \<le> uint (total_unique_blocks g1)"
    and "media_count g1 pa < 2"
  shows "generator_initialize F fsqrt fbytes stof (Some text) draws seeds
           (new_generator F bs blocos pa pc) info = Inl DivByZero"
  using initialize_steps [OF assms(1-12)] assms(13) by simp

text \<open>
  C13: for every draw in the ranges of its distributions \<open>nextBlock\<close> succeeds and keeps the
  invariant; the block it describes is one of its line, the flag says whether that line has copies,
  the compression index is below 10, and the buffer delivered begins with the identifiers of the
  content and of the block.
\<close>

theorem next_block_valid:
  assumes "gen_ok g" and "d_line dr < length (linhas g)" and "l = linhas g ! d_line dr"
    and "1 \<le> d_block dr" and "d_block dr \<le> nrBlocks l"
  shows "\<exists>info' p g'. nextBlock F dr g info = Inr (info', p, g') \<and> gen_ok g' \<and> linhas g' = linhas g
    \<and> unat (block_id info') = unat (nrBase l) + unat (d_block dr)
    \<and> unat (block_id info') \<le> unat (total_unique_blocks g)
    \<and> unat (compression_index info') < 10 \<and> flag_unique_block info' = (nrCopies l = 0)
    \<and> proc_id info' = proc_id info
    \<and> read32 (buffer_at g' p) 0 = cont_id info' \<and> read32 (buffer_at g' p) 4 = block_id info'"
  using next_block_step [OF assms] by blast

text \<open>
  C20: when the first line is the one without copies, the content of a block of any other line is
  identified by the block itself, so two writes of such blocks have equal content exactly when they
  are copies; a block of the first line gets a drawn content, except the last block of the line,
  which is written with its own identifier every time and so is duplicated although it is counted
  as a block without copies.
\<close>

theorem content_identity:
  assumes "gen_ok g" and "linhas g = z # ls" and "nrCopies z = 0"
    and "d_line dr < length (linhas g)" and "1 \<le> d_block dr" and "d_block dr \<le> nrBlocks (linhas g ! d_line dr)"
  shows "\<exists>info' p g'. nextBlock F dr g info = Inr (info', p, g')
    \<and> cont_id info' = (if d_line dr = 0 \<and> d_block dr \<noteq> nrBlocks z then d_content dr else block_id info')
    \<and> (d_line dr = 0) = (block_id info' \<le> nrBlocks z)"
proof -
  from next_block_step [OF assms(1,4) refl assms(5,6), of F info] obtain info' p g' where
    n: "nextBlock F dr g info = Inr (info', p, g')"
    "unat (block_id info') = unat (nrBase (linhas g ! d_line dr)) + unat (d_block dr)"
    "cont_id info' = content_of g (d_content dr) (block_id info')" by blast
  have lf: "lines_from 0 (linhas g)" by (rule gen_okD [OF assms(1)])
  have c: "content_of g (d_content dr) b = (if b < nrBlocks z then d_content dr else b)" for b
    using assms(2,3) by (simp add: content_of_def)
  show ?thesis
  proof (cases "d_line dr")
    case 0
    then have b: "block_id info' = d_block dr"
      using n(2) lf assms(2) by (simp add: word_unat_eq_iff)
    with 0 n c show ?thesis using assms(2,6) by (auto simp: linorder_not_less order_less_le)
  next
    case (Suc j)
    have "blocks_of (take (d_line dr) (linhas g)) = unat (nrBlocks z) + blocks_of (take j ls)"
      using Suc assms(2) by simp
    with lines_from_nth [OF lf assms(4)] n(2) assms(5)
    have "unat (nrBlocks z) < unat (block_id info')" by (simp add: word_le_nat_alt)
    with n c Suc show ?thesis by (auto simp: word_less_nat_alt word_le_nat_alt)
  qed
qed

text \<open>
  Every unique block has a model: an identifier up to the number of unique blocks is served by
  exactly the model in whose share it falls, and an identifier above it throws.
\<close>

lemma model_of_every_block:
  assumes "gen_ok g" and "cx < 10"
  shows "if unat bid \<le> unat (total_unique_blocks g)
    then \<exists>k < nr_models g. get_model_by_id_and_compression g bid cx = Inr (k, cx)
      \<and> unat bid \<le> usum (take (Suc k) (atribuicao g))
      \<and> (k = 0 \<or> usum (take k (atribuicao g)) < unat bid)
    else get_model_by_id_and_compression g bid cx = Inl Thrown"
proof -
  note g = gen_okD [OF assms(1)]
  note m = model_index_range [OF g(8,7), of bid, unfolded g(5,6)]
  show ?thesis
  proof (cases "unat bid \<le> unat (total_unique_blocks g)")
    case True
    with m obtain k where k: "k < nr_models g" "model_index g bid = Inr k"
      "unat bid \<le> usum (take (Suc k) (atribuicao g))"
      "0 < k \<longrightarrow> usum (take k (atribuicao g)) < unat bid" by auto
    from model_found [OF assms(1) True assms(2)] obtain k' where
      "get_model_by_id_and_compression g bid cx = Inr (k', cx)" by metis
    with k(2) have "get_model_by_id_and_compression g bid cx = Inr (k, cx)"
      by (auto simp: get_model_by_id_and_compression_def elim!: bindR_InrE)
    with True k show ?thesis by auto
  next
    case False
    with m show ?thesis by (simp add: get_model_by_id_and_compression_def)
  qed
qed


section \<open>Concrete runs\<close>

definition demo_gen :: "rat generator" where
  "demo_gen = \<lparr>blockSize = 4096, blocosAGerar = 7, percentage_unique_blocks_analyze = 50,
     percentagem_compressao_entre_blocos = 50, zeroCopiesBlocks = 3, total_unique_blocks = 5,
     compressions_inter = (0, 0),
     linhas = [\<lparr>nrCopies = 0, nrBlocks = 3, nrBase = 0, compression = replicate 10 10\<rparr>,
               \<lparr>nrCopies = 1, nrBlocks = 2, nrBase = 3, compression = replicate 10 10\<rparr>],
     weights = [43, 57], modelos = replicate 2 (replicate 10 (replicate 8 0)),
     atribuicao = [2, 3], nr_models = 2\<rparr>"

lemma demo_gen_ok: "gen_ok demo_gen"
  by (simp add: gen_ok_def demo_gen_def models_ok_def)

lemma demo_gen_sel [simp]:
  "linhas demo_gen = [\<lparr>nrCopies = 0, nrBlocks = 3, nrBase = 0, compression = replicate 10 10\<rparr>,
     \<lparr>nrCopies = 1, nrBlocks = 2, nrBase = 3, compression = replicate 10 10\<rparr>]"
  "total_unique_blocks demo_gen = 5" "nr_models demo_gen = 2" "atribuicao demo_gen = [2, 3]"
  by (simp_all add: demo_gen_def)

definition demo_info :: block_info where
  "demo_info = \<lparr>cont_id = 0, proc_id = 4, block_id = 0, compression_index = 0, flag_unique_block = False\<rparr>"

definition demo_dup_info :: duplicates_info where
  "demo_dup_info = \<lparr>total_blocks = 0, zero_copy_blocks = 0, duplicated_blocks = 0, statistics = None,
     zerodups = None, u_count = 0, content_tracker = None\<rparr>"

theorem next_block_valid_witness:
  "\<exists>info' p g'. nextBlock exact_fpu \<lparr>d_line = 1, d_block = 2, d_content = 9\<rparr> demo_gen demo_info
       = Inr (info', p, g') \<and> unat (block_id info') = 5 \<and> \<not> flag_unique_block info' \<and> proc_id info' = 4
       \<and> read32 (buffer_at g' p) 4 = block_id info'"
  using next_block_valid [OF demo_gen_ok, where dr = "\<lparr>d_line = 1, d_block = 2, d_content = 9\<rparr>"
      and l = "linhas demo_gen ! 1" and F = exact_fpu and info = demo_info]
  by (auto simp: demo_info_def)

theorem content_identity_witness:
  "\<exists>info' p g'. nextBlock exact_fpu \<lparr>d_line = 0, d_block = 3, d_content = 9\<rparr> demo_gen demo_info
       = Inr (info', p, g') \<and> cont_id info' = block_id info' \<and> block_id info' \<le> 3"
  using content_identity [OF demo_gen_ok demo_gen_sel(1), where dr = "\<lparr>d_line = 0, d_block = 3, d_content = 9\<rparr>"
      and F = exact_fpu and info = demo_info]
  by auto

lemma model_of_every_block_witness:
  "get_model_by_id_and_compression demo_gen 3 9 = Inr (1, 9)
   \<and> get_model_by_id_and_compression demo_gen 6 9 = Inl Thrown"
proof
  have "\<exists>k < 2. get_model_by_id_and_compression demo_gen 3 9 = Inr (k, 9)
      \<and> 3 \<le> usum (take (Suc k) [2, 3])"
    using model_of_every_block [OF demo_gen_ok, of 9 3] by auto
  then show "get_model_by_id_and_compression demo_gen 3 9 = Inr (1, 9)"
    by (auto dest!: less_2_cases)
  show "get_model_by_id_and_compression demo_gen 6 9 = Inl Thrown"
    using model_of_every_block [OF demo_gen_ok, of 9 6] by simp
qed

definition demo_bytes :: "rat \<Rightarrow> u8 list" where
  "demo_bytes x = replicate 8 (word_of_int (floor x))"

lemma demo_bytes_ok: "bytes_ok demo_bytes"
  by (simp add: bytes_ok_def demo_bytes_def)


text \<open>A distribution file of two lines, read with a whole-number \<open>stof\<close>.\<close>

definition demo_file :: string where
  "demo_file = ''0 50 100 0 0 0 0 0 0 0 0 0'' @ [CHR 0x0A] @ ''1 50 90 10 0 0 0 0 0 0 0 0''"

definition demo_stof :: "string \<Rightarrow> rat option" where
  "demo_stof s = map_option rat_of_int (strtol s)"

definition demo_read :: "u32 \<Rightarrow> rat generator" where
  "demo_read pa = (new_generator exact_fpu 4096 100 pa 100)
     \<lparr>zeroCopiesBlocks := 50, total_unique_blocks := 75,
      linhas := [\<lparr>nrCopies = 0, nrBlocks = 50, nrBase = 0, compression = [100, 0, 0, 0, 0, 0, 0, 0, 0, 0]\<rparr>,
                 \<lparr>nrCopies = 1, nrBlocks = 25, nrBase = 50, compression = [90, 10, 0, 0, 0, 0, 0, 0, 0, 0]\<rparr>],
      weights := [50, 50]\<rparr>"

lemma demo_lines: "getlines CHR 0x0A demo_file =
    [''0 50 100 0 0 0 0 0 0 0 0 0'', ''1 50 90 10 0 0 0 0 0 0 0 0'']"
  by code_simp

lemma demo_tokens:
  "getlines CHR '' '' ''0 50 100 0 0 0 0 0 0 0 0 0'' =
     [''0'', ''50'', ''100'', ''0'', ''0'', ''0'', ''0'', ''0'', ''0'', ''0'', ''0'', ''0'']"
  "getlines CHR '' '' ''1 50 90 10 0 0 0 0 0 0 0 0'' =
     [''1'', ''50'', ''90'', ''10'', ''0'', ''0'', ''0'', ''0'', ''0'', ''0'', ''0'', ''0'']"
  by code_simp+

lemma demo_numbers:
  "strtol ''0'' = Some 0" "strtol ''1'' = Some 1" "strtol ''10'' = Some 10" "strtol ''50'' = Some 50"
  "strtol ''90'' = Some 90" "strtol ''100'' = Some 100"
  by code_simp+

lemma demo_read_ok:
  "foldR (read_line exact_fpu demo_stof) (getlines CHR 0x0A demo_file)
     (0, new_generator exact_fpu 4096 100 pa 100) = Inr (75, demo_read pa)"
  unfolding demo_lines
  by (simp add: read_line_def demo_tokens demo_numbers stoi_def stofR_def demo_stof_def Let_def
      blocks_of_line_def new_generator_def exact_fpu_def fp_of_word_def demo_read_def)

theorem generator_initializes_witness:
  "\<exists>g' info'. generator_initialize exact_fpu (\<lambda>x. x) demo_bytes demo_stof (Some demo_file) (\<lambda>_. 1) (\<lambda>_. 3 / 2)
       (new_generator exact_fpu 4096 100 10 100) demo_dup_info = Inr (1, g', info')
     \<and> gen_ok g' \<and> unat (zero_copy_blocks info') = 50
     \<and> unat (zero_copy_blocks info') + unat (duplicated_blocks info') = 75"
proof -
  have "\<exists>g' info'. generator_initialize exact_fpu (\<lambda>x. x) demo_bytes demo_stof (Some demo_file) (\<lambda>_. 1) (\<lambda>_. 3 / 2)
       (new_generator exact_fpu 4096 100 10 100) demo_dup_info = Inr (1, g', info')
     \<and> gen_ok g' \<and> models_sized (unat ((4096 :: u32) div 4096) * 4096) (modelos g')
     \<and> linhas g' = linhas (demo_read 10) \<and> nr_models g' = 100
     \<and> zero_copy_blocks info' = ucast (zeroCopiesBlocks (demo_read 10))
     \<and> unat (zero_copy_blocks info') + unat (duplicated_blocks info') = blocks_of (linhas (demo_read 10))
     \<and> total_blocks info' = ucast (100 :: u32) \<and> u_count info' = duplicated_blocks info' + 1"
    by (rule generator_initializes [OF demo_bytes_ok _ _ _ _ _ demo_read_ok])
      (simp_all add: demo_read_def new_generator_def media_count_def first_share_def exact_fpu_def
        fp_of_word_def unat_div)
  then show ?thesis by (force simp: demo_read_def)
qed

lemma small_sample_divides_by_zero_witness:
  "generator_initialize exact_fpu (\<lambda>x. x) demo_bytes demo_stof (Some demo_file) (\<lambda>_. 1) (\<lambda>_. 3 / 2)
       (new_generator exact_fpu 4096 100 1 100) demo_dup_info = Inl DivByZero"
  by (rule small_sample_divides_by_zero [OF demo_bytes_ok _ _ _ _ _ demo_read_ok])
    (simp_all add: demo_read_def new_generator_def media_count_def first_share_def exact_fpu_def
      fp_of_word_def unat_div)

end
