(* ===== verification/Utils.thy ===== *)
theory Utils
  imports Prelude
begin

text \<open>
  \<open>utils/utils.c\<close>: the integer power and the order of magnitude (the number of decimal digits)
  that the histograms of \<open>io/plotio.c\<close> and \<open>utils/db/berk.c\<close> use; \<open>berk.c\<close> repeats both
  functions under the names \<open>powr\<close> and \<open>find_bucket\<close>, and they are modelled once.  With them the
  histogram position of a count, which both files compute by the same statements.
\<close>

section \<open>Definitions\<close>

text \<open>
  \<open>int powr(int base, int exp)\<close>.  The loop ends because \<open>exp\<close> is halved; the exponents of the
  program are digit counts, so \<open>exp\<close> is a natural number here.  The products are those of a
  32-bit word.
\<close>

function powr_loop :: "cint \<Rightarrow> nat \<Rightarrow> cint \<Rightarrow> cint" where
  "powr_loop base e result =
     (if e = 0 then result
      else powr_loop (base * base) (e div 2) (if odd e then result * base else result))"
  by pat_completeness auto
termination
  by (relation "measure (\<lambda>(base, e, result). e)") auto

declare powr_loop.simps [simp del]

definition powr_int :: "cint \<Rightarrow> nat \<Rightarrow> cint" where
  "powr_int base e = powr_loop base e 1"

text \<open>\<open>int order_of_magnitude(unsigned long long key)\<close>.\<close>

function order_loop :: "u64 \<Rightarrow> nat \<Rightarrow> nat" where
  "order_loop key bucket = (if key = 0 then bucket else order_loop (key div 10) (Suc bucket))"
  by pat_completeness auto
termination
proof (relation "measure (\<lambda>(key, bucket). unat key)")
  fix key :: u64 and bucket :: nat
  assume "key \<noteq> 0"
  then show "((key div 10, Suc bucket), key, bucket) \<in> measure (\<lambda>(key, bucket). unat key)"
    by (simp add: unat_div word_neq_0_conv_unat)
qed simp

declare order_loop.simps [simp del]

definition order_of_magnitude :: "u64 \<Rightarrow> nat" where
  "order_of_magnitude key = order_loop key 0"

text \<open>
  The position of a count in a histogram: \<open>bucket = find_bucket(key); power = powr(10, bucket)\<close>,
  the correction when \<open>key\<close> reaches \<open>power\<close>, then the upper or the lower half of the decade.  The
  comparisons convert the \<open>int\<close> \<open>power\<close> to \<open>unsigned long long\<close> with its sign.
\<close>

definition arr_pos :: "u64 \<Rightarrow> int" where
  "arr_pos key =
     (let bucket = order_of_magnitude key;
          power = powr_int 10 bucket;
          up = (scast power :: u64) \<le> key;
          bucket' = (if up then Suc bucket else bucket);
          power' = (if up then power * 10 else power);
          half = (word_of_int (c_half (sint power')) :: u64)
      in if half \<le> key then int bucket' * 2 else int bucket' * 2 - 1)"

section \<open>The power\<close>

lemma powr_loop_eq: "powr_loop base e result = result * base ^ e"
proof (induction base e result rule: powr_loop.induct)
  case (1 base e result)
  show ?case
  proof (cases "e = 0")
    case True
    then show ?thesis by (simp add: powr_loop.simps)
  next
    case False
    have sq: "(base * base) ^ (e div 2) = base ^ (2 * (e div 2))"
      by (simp add: power_mult power2_eq_square)
    have "odd e \<Longrightarrow> base * base ^ (2 * (e div 2)) = base ^ e"
      by (metis odd_two_times_div_two_succ power_Suc Suc_eq_plus1)
    with False show ?thesis
      by (subst powr_loop.simps) (auto simp: 1 sq mult.assoc)
  qed
qed

lemma powr_int_eq: "powr_int base e = base ^ e"
  by (simp add: powr_int_def powr_loop_eq)

text \<open>Powers of ten are exact up to the ninth, the last that fits in an \<open>int\<close>.\<close>

lemma powr10_exact:
  assumes "e \<le> 9"
  shows "sint (powr_int 10 e) = 10 ^ e"
proof -
  have "e \<in> {0,1,2,3,4,5,6,7,8,9}" using assms by auto
  then show ?thesis by (auto simp: powr_int_eq)
qed

section \<open>The number of digits\<close>

lemma order_loop_shift: "order_loop key b = b + order_loop key 0"
proof (induction "unat key" arbitrary: key b rule: less_induct)
  case less
  show ?case
  proof (cases "key = 0")
    case True
    then show ?thesis by (simp add: order_loop.simps)
  next
    case False
    then have "unat (key div 10) < unat key" by (simp add: unat_div word_neq_0_conv_unat)
    from less [OF this, of "Suc b"] less [OF this, of "Suc 0"] False show ?thesis
      by (simp add: order_loop.simps [of key])
  qed
qed

lemma order_of_magnitude_0 [simp]: "order_of_magnitude 0 = 0"
  by (simp add: order_of_magnitude_def order_loop.simps)

lemma order_of_magnitude_rec:
  "key \<noteq> 0 \<Longrightarrow> order_of_magnitude key = Suc (order_of_magnitude (key div 10))"
  using order_loop_shift [of "key div 10" "Suc 0"]
  by (simp add: order_of_magnitude_def order_loop.simps [of key])

lemma order_of_magnitude_upper: "unat key < 10 ^ order_of_magnitude key"
proof (induction "unat key" arbitrary: key rule: less_induct)
  case less
  show ?case
  proof (cases "key = 0")
    case False
    then have "unat (key div 10) < unat key" by (simp add: unat_div word_neq_0_conv_unat)
    from less [OF this] have "unat key div 10 < 10 ^ order_of_magnitude (key div 10)"
      by (simp add: unat_div)
    with False show ?thesis by (simp add: order_of_magnitude_rec)
  qed simp
qed

lemma order_of_magnitude_lower:
  "key \<noteq> 0 \<Longrightarrow> 10 ^ (order_of_magnitude key - 1) \<le> unat key"
proof (induction "unat key" arbitrary: key rule: less_induct)
  case less
  show ?case
  proof (cases "key div 10 = 0")
    case True
    with less.prems show ?thesis
      by (simp add: order_of_magnitude_rec word_neq_0_conv_unat)
  next
    case False
    have "unat (key div 10) < unat key"
      using less.prems by (simp add: unat_div word_neq_0_conv_unat)
    from less.hyps [OF this False]
    have "10 ^ (order_of_magnitude (key div 10) - 1) \<le> unat key div 10" by (simp add: unat_div)
    then have "10 * 10 ^ (order_of_magnitude (key div 10) - 1) \<le> unat key" by linarith
    moreover have "order_of_magnitude (key div 10) \<noteq> 0"
      using False by (simp add: order_of_magnitude_rec)
    ultimately show ?thesis
      using less.prems by (simp add: order_of_magnitude_rec flip: power_Suc)
  qed
qed

lemma order_of_magnitude_le:
  assumes "unat key < 10 ^ n"
  shows "order_of_magnitude key \<le> n"
proof (rule ccontr)
  assume "\<not> order_of_magnitude key \<le> n"
  then have "n \<le> order_of_magnitude key - 1" and "key \<noteq> 0" by (auto intro: ccontr)
  then have "(10::nat) ^ n \<le> 10 ^ (order_of_magnitude key - 1)" by (simp add: power_increasing)
  also have "\<dots> \<le> unat key" using \<open>key \<noteq> 0\<close> by (rule order_of_magnitude_lower)
  finally show False using assms by simp
qed

section \<open>The histogram position\<close>

lemma scast_powr10:
  assumes "e \<le> 9"
  shows "(scast (powr_int 10 e) :: u64) = word_of_int (10 ^ e)"
  by (simp add: scast_eq powr10_exact [OF assms])

lemma uint_word64_power10:
  assumes "e \<le> 9" and "0 \<le> k" and "k \<le> 10 ^ e"
  shows "uint (word_of_int k :: u64) = k"
proof -
  have "(10::int) ^ e \<le> 10 ^ 9" using assms(1) by (intro power_increasing) auto
  also have "\<dots> < 2 ^ 64" by simp
  finally have "k < 2 ^ 64" using assms(3) by linarith
  with assms(2) show ?thesis by (simp add: uint_word_of_int_eq take_bit_int_eq_self)
qed

lemma arr_pos_small:
  assumes "unat key < 10 ^ 9"
  shows "arr_pos key =
    (if 10 ^ order_of_magnitude key div 2 \<le> unat key
     then 2 * int (order_of_magnitude key) else 2 * int (order_of_magnitude key) - 1)"
proof -
  let ?b = "order_of_magnitude key"
  have b: "?b \<le> 9" using assms by (rule order_of_magnitude_le)
  have conv: "word_of_int k \<le> key \<longleftrightarrow> nat k \<le> unat key" if "0 \<le> k" "k \<le> 10 ^ ?b" for k
    using uint_word64_power10 [OF b that] by (simp only: word_le_def nat_le_iff uint_nat)
  have nup: "\<not> (scast (powr_int 10 ?b) :: u64) \<le> key"
    using order_of_magnitude_upper [of key] conv [of "10 ^ ?b"]
    by (simp add: scast_powr10 [OF b] nat_power_eq)
  have "nat (10 ^ ?b div 2) = 10 ^ ?b div 2" by (simp add: nat_div_distrib nat_power_eq)
  moreover have "(10::int) ^ ?b div 2 \<le> 10 ^ ?b" 
    using zdiv_mono2 [of "10 ^ ?b" 1 2] by simp
  ultimately show ?thesis
    using nup conv [of "10 ^ ?b div 2"] by (simp add: arr_pos_def Let_def powr10_exact [OF b])
qed

text \<open>
  The interval printed for a position \<open>p > 0\<close>: the lower or the upper half of a decade.
\<close>

definition label_lo :: "nat \<Rightarrow> nat" where
  "label_lo p = (if odd p then 10 ^ (p div 2) else 10 ^ (p div 2) div 2)"

definition label_hi :: "nat \<Rightarrow> nat" where
  "label_hi p = (if odd p then 10 ^ Suc (p div 2) div 2 else 10 ^ (p div 2))"

lemma arr_pos_interval:
  assumes "key \<noteq> 0" and "unat key < 10 ^ 9"
  shows "0 < arr_pos key \<and> arr_pos key \<le> 18
    \<and> label_lo (nat (arr_pos key)) \<le> unat key \<and> unat key < label_hi (nat (arr_pos key))"
proof -
  let ?b = "order_of_magnitude key"
  obtain c where c: "?b = Suc c"
    using order_of_magnitude_rec [OF assms(1)] by blast
  have le: "?b \<le> 9" using assms(2) by (rule order_of_magnitude_le)
  have up: "unat key < 10 ^ Suc c" using order_of_magnitude_upper [of key] c by simp
  have lo: "10 ^ c \<le> unat key" using order_of_magnitude_lower [OF assms(1)] c by simp
  show ?thesis
  proof (cases "10 ^ Suc c div 2 \<le> unat key")
    case True
    then have "arr_pos key = int (2 * Suc c)"
      using arr_pos_small [OF assms(2)] c by simp
    then have "nat (arr_pos key) = 2 * Suc c" "0 < arr_pos key" "arr_pos key \<le> 18"
      using le c by auto
    with True up le c show ?thesis by (simp add: label_lo_def label_hi_def del: power_Suc mult_Suc_right)
  next
    case False
    then have "arr_pos key = int (2 * c + 1)"
      using arr_pos_small [OF assms(2)] c by simp
    then have "nat (arr_pos key) = 2 * c + 1" "0 < arr_pos key" "arr_pos key \<le> 18"
      using le c by auto
    with False lo le c show ?thesis by (simp add: label_lo_def label_hi_def del: power_Suc)
  qed
qed

section \<open>Properties\<close>

text \<open>
  The histogram helpers compute what they are named for: \<open>order_of_magnitude\<close> is the number
  of decimal digits, and \<open>powr\<close> is exponentiation (by squaring) modulo 2^32.
\<close>

lemma magnitude_and_power:
  "unat key < 10 ^ order_of_magnitude key
    \<and> (key = 0 \<or> 10 ^ (order_of_magnitude key - 1) \<le> unat key)
    \<and> powr_int base e = base ^ e"
  using order_of_magnitude_upper order_of_magnitude_lower by (auto simp: powr_int_eq)

end
