(* ===== verification/Berk.thy ===== *)
theory Berk
  imports Utils
begin

text \<open>
  \<open>utils/db/berk.c\<close>: the access layer over Berkeley DB and the printing of the duplicate
  distribution.  The Berkeley DB library is a parameter: the record \<open>bdb\<close> of the calls the source
  makes, with its documented behaviour as the locale \<open>hash_store\<close>.  Over it the locale
  \<open>counter_table\<close> is the contract the clients use (a table of counters that are increased), which
  \<open>hash_store\<close> provides through \<open>get_db\<close> and \<open>put_db\<close>.
\<close>

section \<open>The library\<close>

text \<open>What \<open>DB->get\<close> returns: the value stored, \<open>DB_NOTFOUND\<close>, or another error code.\<close>

datatype db_ret = RET_OK u64 | DB_NOTFOUND | DB_ERR

text \<open>
  \<open>bdb_get\<close> and \<open>bdb_put\<close> are \<open>DB->get\<close> and \<open>DB->put\<close> without flags (a put returns its error code);
  \<open>bdb_seq\<close> lists the records that repeated \<open>DBC->get\<close> with \<open>DB_NEXT\<close> delivers on a new cursor.
\<close>

record ('k, 's) bdb =
  bdb_get :: "'s \<Rightarrow> 'k \<Rightarrow> db_ret"
  bdb_put :: "'s \<Rightarrow> 'k \<Rightarrow> u64 \<Rightarrow> int \<times> 's"
  bdb_seq :: "'s \<Rightarrow> ('k \<times> u64) list"

text \<open>A handle: the database behind it, and whether it is still open.\<close>

record 's db =
  store :: 's
  is_open :: bool

section \<open>Access\<close>

text \<open>
  \<open>put_db\<close> and \<open>put_db_print\<close> (the same code, for string and for integer keys): a failing put closes
  the database and its environment, and the function returns 0 all the same.
\<close>

definition put_db :: "('k, 's) bdb \<Rightarrow> 'k \<Rightarrow> u64 \<Rightarrow> 's db \<Rightarrow> 's db res" where
  "put_db B hash v d =
     (if \<not> is_open d then Inl BadHandle
      else case bdb_put B (store d) hash v of
        (ret, s) \<Rightarrow> Inr (if ret \<noteq> 0 then \<lparr>store = s, is_open = False\<rparr> else d\<lparr>store := s\<rparr>))"

text \<open>\<open>get_db\<close>: the code of the library call, with the value it delivers.\<close>

definition get_db :: "('k, 's) bdb \<Rightarrow> 'k \<Rightarrow> 's db \<Rightarrow> db_ret res" where
  "get_db B hash d = (if \<not> is_open d then Inl BadHandle else Inr (bdb_get B (store d) hash))"

text \<open>
  \<open>put_db_print\<close> and \<open>get_db_print\<close>, the copies of the two for the databases whose keys are numbers of
  duplicates.
\<close>

definition put_db_print :: "('k, 's) bdb \<Rightarrow> 'k \<Rightarrow> u64 \<Rightarrow> 's db \<Rightarrow> 's db res" where
  "put_db_print B hash v d =
     (if \<not> is_open d then Inl BadHandle
      else case bdb_put B (store d) hash v of
        (ret, s) \<Rightarrow> Inr (if ret \<noteq> 0 then \<lparr>store = s, is_open = False\<rparr> else d\<lparr>store := s\<rparr>))"

definition get_db_print :: "('k, 's) bdb \<Rightarrow> 'k \<Rightarrow> 's db \<Rightarrow> db_ret res" where
  "get_db_print B hash d = (if \<not> is_open d then Inl BadHandle else Inr (bdb_get B (store d) hash))"

lemma db_print_same [simp]: "put_db_print = put_db" "get_db_print = get_db"
  by (auto simp: fun_eq_iff put_db_print_def put_db_def get_db_print_def get_db_def)

text \<open>The records a cursor loop runs over.\<close>

definition cursor :: "('k, 's) bdb \<Rightarrow> 's db \<Rightarrow> ('k \<times> u64) list res" where
  "cursor B d = (if \<not> is_open d then Inl BadHandle else Inr (bdb_seq B (store d)))"

text \<open>
  The statements all clients share: look the key up; store the amount if it is absent, else add it
  to the counter.  After a failing get other than \<open>DB_NOTFOUND\<close> the counter is an uninitialised
  variable.
\<close>

definition count_up :: "('k, 's) bdb \<Rightarrow> 'k \<Rightarrow> u64 \<Rightarrow> 's db \<Rightarrow> 's db res" where
  "count_up B hash n d =
     bindR (get_db_print B hash d) (\<lambda>ret.
       case ret of
         DB_NOTFOUND \<Rightarrow> put_db_print B hash n d
       | RET_OK v \<Rightarrow> put_db_print B hash (v + n) d
       | DB_ERR \<Rightarrow> Inl UninitRead)"

section \<open>Contracts\<close>

text \<open>
  A table of counters: \<open>add k n\<close> adds \<open>n\<close> to the counter of \<open>k\<close>, which starts from zero.
\<close>

locale counter_table =
  fixes add :: "'k \<Rightarrow> u64 \<Rightarrow> 'd \<Rightarrow> 'd res"
    and table :: "'d \<Rightarrow> 'k \<Rightarrow> u64 option"
    and inv :: "'d \<Rightarrow> bool"
  assumes add_ok: "inv d \<Longrightarrow> \<exists>d'. add k n d = Inr d' \<and> inv d'
      \<and> table d' = (table d)(k \<mapsto> n + (case table d k of None \<Rightarrow> 0 | Some v \<Rightarrow> v))"
begin

text \<open>Adding a list of amounts: every key has the sum of its amounts, added to what it had.\<close>

lemma add_all:
  assumes "inv d"
  shows "\<exists>d'. foldR (\<lambda>(k, n). add k n) ps d = Inr d' \<and> inv d'
    \<and> table d' = (\<lambda>k. if k \<in> fst ` set ps
        then Some (sum_list (map snd (filter (\<lambda>p. fst p = k) ps))
                   + (case table d k of None \<Rightarrow> 0 | Some v \<Rightarrow> v))
        else table d k)"
  using assms
proof (induction ps arbitrary: d)
  case (Cons p ps)
  obtain k n where p: "p = (k, n)" by (cases p)
  from add_ok [OF Cons.prems, of k n] obtain d1 where d1: "add k n d = Inr d1" "inv d1"
    "table d1 = (table d)(k \<mapsto> n + (case table d k of None \<Rightarrow> 0 | Some v \<Rightarrow> v))" by blast
  from Cons.IH [OF d1(2)] obtain d2 where d2: "foldR (\<lambda>(k, n). add k n) ps d1 = Inr d2" "inv d2"
    "table d2 = (\<lambda>k. if k \<in> fst ` set ps
        then Some (sum_list (map snd (filter (\<lambda>p. fst p = k) ps))
                   + (case table d1 k of None \<Rightarrow> 0 | Some v \<Rightarrow> v))
        else table d1 k)" by blast
  have none: "filter (\<lambda>q. fst q = j) ps = []" if "j \<notin> fst ` set ps" for j
    using that by (auto simp: filter_empty_conv)
  have "table d2 = (\<lambda>j. if j \<in> fst ` set (p # ps)
        then Some (sum_list (map snd (filter (\<lambda>q. fst q = j) (p # ps)))
                   + (case table d j of None \<Rightarrow> 0 | Some v \<Rightarrow> v))
        else table d j)"
    by (rule ext) (auto simp: d2(3) d1(3) p none ac_simps)
  with d1 d2 p show ?case by auto
qed simp

end

text \<open>A handle in use, and the records behind it.\<close>

definition db_ok :: "('s \<Rightarrow> bool) \<Rightarrow> 's db \<Rightarrow> bool" where
  "db_ok ok d \<longleftrightarrow> is_open d \<and> ok (store d)"

definition db_table :: "('s \<Rightarrow> 'k \<Rightarrow> u64 option) \<Rightarrow> 's db \<Rightarrow> 'k \<Rightarrow> u64 option" where
  "db_table content d = content (store d)"

text \<open>
  The documented behaviour of a Berkeley DB hash database without duplicates: a get sees the last
  put, a put succeeds, and a cursor delivers every record once.
\<close>

locale hash_store =
  fixes B :: "('k, 's) bdb"
    and ok :: "'s \<Rightarrow> bool"
    and content :: "'s \<Rightarrow> 'k \<Rightarrow> u64 option"
  assumes get_content: "ok s \<Longrightarrow>
      bdb_get B s k = (case content s k of None \<Rightarrow> DB_NOTFOUND | Some v \<Rightarrow> RET_OK v)"
    and put_content: "ok s \<Longrightarrow>
      \<exists>s'. bdb_put B s k v = (0, s') \<and> ok s' \<and> content s' = (content s)(k \<mapsto> v)"
    and seq_content: "ok s \<Longrightarrow>
      distinct (map fst (bdb_seq B s)) \<and> map_of (bdb_seq B s) = content s"
begin

lemma get_db_ok: "db_ok ok d \<Longrightarrow>
    get_db B k d = Inr (case db_table content d k of None \<Rightarrow> DB_NOTFOUND | Some v \<Rightarrow> RET_OK v)"
  by (simp add: get_db_def db_ok_def db_table_def get_content)

lemma put_db_ok: "db_ok ok d \<Longrightarrow>
    \<exists>d'. put_db B k v d = Inr d' \<and> db_ok ok d' \<and> db_table content d' = (db_table content d)(k \<mapsto> v)"
  using put_content [of "store d" k v] by (auto simp: put_db_def db_ok_def db_table_def)

lemma cursor_ok: "db_ok ok d \<Longrightarrow>
    \<exists>rs. cursor B d = Inr rs \<and> distinct (map fst rs) \<and> map_of rs = db_table content d"
  using seq_content [of "store d"] by (auto simp: cursor_def db_ok_def db_table_def)

lemma count_up_ok:
  assumes "db_ok ok d"
  shows "\<exists>d'. count_up B k n d = Inr d' \<and> db_ok ok d'
    \<and> db_table content d' = (db_table content d)(k \<mapsto> n + (case db_table content d k of None \<Rightarrow> 0 | Some v \<Rightarrow> v))"
  using get_db_ok [OF assms, of k] put_db_ok [OF assms, of k]
  by (cases "db_table content d k") (auto simp: count_up_def add.commute)

end

sublocale hash_store \<subseteq> counter_table "count_up B" "db_table content" "db_ok ok"
  by unfold_locales (rule count_up_ok)

section \<open>An in-memory database\<close>

text \<open>
  A database that keeps its records in a list, newest first: a concrete library that behaves as
  documented, for runs on concrete data.
\<close>

definition mem_bdb :: "('k, ('k \<times> u64) list) bdb" where
  "mem_bdb = \<lparr>bdb_get = (\<lambda>s k. case map_of s k of None \<Rightarrow> DB_NOTFOUND | Some v \<Rightarrow> RET_OK v),
     bdb_put = (\<lambda>s k v. (0, (k, v) # filter (\<lambda>p. fst p \<noteq> k) s)), bdb_seq = (\<lambda>s. s)\<rparr>"

definition mem_ok :: "('k \<times> u64) list \<Rightarrow> bool" where
  "mem_ok s \<longleftrightarrow> distinct (map fst s)"

definition mem_new :: "('k \<times> u64) list db" where
  "mem_new = \<lparr>store = [], is_open = True\<rparr>"

lemma map_of_filter_neq: "map_of (filter (\<lambda>p. fst p \<noteq> k) s) = (map_of s)(k := None)"
  by (induction s) (auto simp: fun_eq_iff)

lemma distinct_map_filter_fst: "distinct (map fst s) \<Longrightarrow> distinct (map fst (filter P s))"
  by (induction s) auto

interpretation mem: hash_store mem_bdb mem_ok map_of
  by unfold_locales (auto simp: mem_bdb_def mem_ok_def map_of_filter_neq distinct_map_filter_fst)

section \<open>Opening and closing\<close>

text \<open>
  A handle pointer: NULL, created (open or not yet), or closed.  The library calls of \<open>init_db\<close>
  are given by their return codes, in the order of the source.
\<close>

datatype handle_ptr = PNull | PLive | PClosed

record db_codes =
  c_env_create :: int
  c_env_open :: int
  c_db_create :: int
  c_db_open :: int
  c_db_close :: int
  c_env_close :: int

text \<open>
  The closing statements that \<open>close_db\<close>, the error exit of \<open>init_db\<close> and the error exit of
  \<open>put_db\<close> share: the code of the last failing close, else the code they start from.
\<close>

definition close_handles :: "db_codes \<Rightarrow> handle_ptr \<times> handle_ptr \<Rightarrow> int \<Rightarrow> int \<times> handle_ptr \<times> handle_ptr"
where
  "close_handles c = (\<lambda>(dbp, envp) ret.
     let (ret, dbp) = (if dbp = PNull then (ret, dbp)
           else (if c_db_close c \<noteq> 0 then c_db_close c else ret, PClosed));
         (ret, envp) = (if envp = PNull then (ret, envp)
           else (if c_env_close c \<noteq> 0 then c_env_close c else ret, PClosed))
     in (ret, dbp, envp))"

definition close_db :: "db_codes \<Rightarrow> handle_ptr \<times> handle_ptr \<Rightarrow> int \<times> handle_ptr \<times> handle_ptr" where
  "close_db c hs = close_handles c hs 0"

definition EXIT_FAILURE :: int where "EXIT_FAILURE = 1"

definition init_db :: "db_codes \<Rightarrow> int \<times> handle_ptr \<times> handle_ptr" where
  "init_db c =
     (if c_env_create c \<noteq> 0 then (EXIT_FAILURE, PNull, PNull)
      else if c_env_open c \<noteq> 0 then
        (0, snd (close_handles c (PNull, PLive) (c_env_open c)))
      else if c_db_create c \<noteq> 0 then
        (0, snd (close_handles c (PNull, PLive) (c_db_create c)))
      else if c_db_open c \<noteq> 0 then
        (0, snd (close_handles c (PLive, PLive) (c_db_open c)))
      else (0, PLive, PLive))"

text \<open>
  \<open>remove_db\<close> removes the file of a database; the result of the library call is not looked at.
\<close>

definition remove_db :: "string \<Rightarrow> (string \<Rightarrow> 's option) \<Rightarrow> int \<times> (string \<Rightarrow> 's option)" where
  "remove_db nome disk = (0, disk(nome @ ''dht.db'' := None))"

section \<open>Printing the distribution\<close>

text \<open>
  \<open>print_elements_print\<close> writes one line per record to \<open>fp\<close> and an aggregated histogram to
  \<open>fpcumul\<close>.  A line of the histogram is the count of unduplicated blocks or a range
  \<open>[lo,hi[\<close> with its count; \<open>fpcumul\<close> may be NULL (\<open>cumul\<close> is false), and writing to it then
  fails.
\<close>

datatype cumul_line = ZeroLine u64 | RangeLine cint cint u64

record dist_print =
  dups :: "u64 list"
  max_pos :: int
  fp_lines :: "(u64 \<times> u64) list"
  cumul_lines :: "cumul_line list"

definition emit :: "bool \<Rightarrow> cumul_line \<Rightarrow> cumul_line list \<Rightarrow> cumul_line list res" where
  "emit cumul l ls = (if cumul then Inr (ls @ [l]) else Inl NullStream)"

text \<open>
  One record: a zero key sets \<open>dups[0]\<close>; any other key is added at its histogram position, after
  the array has been doubled once if the position is past its end.
\<close>

definition dist_record :: "bool \<Rightarrow> u64 \<times> u64 \<Rightarrow> dist_print \<Rightarrow> dist_print res" where
  "dist_record cumul = (\<lambda>(key, cont) p.
     let p = p\<lparr>fp_lines := fp_lines p @ [(key, cont)]\<rparr> in
     if key = 0 then
       bindR (emit cumul (ZeroLine cont) (cumul_lines p)) (\<lambda>ls.
       bindR (aset (dups p) 0 cont) (\<lambda>ds. Inr (p\<lparr>dups := ds, cumul_lines := ls\<rparr>)))
     else
       let pos = arr_pos key;
           len = length (dups p);
           ds = (if int len \<le> pos then dups p @ replicate len 0 else dups p)
       in if pos < 0 then Inl OutOfBounds
          else bindR (aget ds (nat pos)) (\<lambda>n.
               bindR (aset ds (nat pos) (n + cont)) (\<lambda>ds.
                 Inr (p\<lparr>dups := ds, max_pos := max (max_pos p) pos\<rparr>))))"

text \<open>
  The second loop folds small tail buckets into the bucket below: it stops at the first bucket
  above 300.  At bucket 0 it writes \<open>dups[-1]\<close>.
\<close>

primrec merge_tail :: "nat \<Rightarrow> u64 list \<Rightarrow> u64 list res" where
  "merge_tail 0 ds = (if ds ! 0 \<le> 300 then Inl OutOfBounds else Inr ds)"
| "merge_tail (Suc i) ds =
     (if ds ! Suc i \<le> 300 then merge_tail i (ds[i := ds ! i + ds ! Suc i, Suc i := 0])
      else Inr ds)"

text \<open>
  The third loop prints the buckets from 1 in pairs, the lower and the upper half of a decade, with
  the bounds \<open>init\<close> and \<open>final\<close>, which are \<open>int\<close>s multiplied by 10 after each pair.
\<close>

function print_ranges ::
  "bool \<Rightarrow> u64 list \<Rightarrow> nat \<Rightarrow> cint \<Rightarrow> cint \<Rightarrow> cumul_line list \<Rightarrow> cumul_line list res" where
  "print_ranges cumul ds i ini final ls =
     (if length ds \<le> i then Inr ls
      else
        bindR (if ds ! i \<noteq> 0
               then emit cumul (RangeLine ini (signed_drop_bit 1 final) (ds ! i)) ls
               else Inr ls) (\<lambda>ls.
        bindR (if Suc i < length ds \<and> ds ! Suc i \<noteq> 0
               then emit cumul (RangeLine (signed_drop_bit 1 final) (ini * 10) (ds ! Suc i)) ls
               else Inr ls) (\<lambda>ls.
        print_ranges cumul ds (i + 2) final (final * 10) ls)))"
  by pat_completeness auto
termination
  by (relation "measure (\<lambda>(cumul, ds, i, ini, final, ls). length ds - i)") auto

declare print_ranges.simps [simp del]

definition DUPS_LEN :: nat where "DUPS_LEN = 50"

definition print_elements_print ::
  "(u64, 's) bdb \<Rightarrow> bool \<Rightarrow> 's db \<Rightarrow> ((u64 \<times> u64) list \<times> cumul_line list) res" where
  "print_elements_print B cumul d =
     bindR (cursor B d) (\<lambda>rs.
     bindR (foldR (dist_record cumul) rs
       \<lparr>dups = replicate DUPS_LEN 0, max_pos = 0, fp_lines = [], cumul_lines = []\<rparr>) (\<lambda>p.
     bindR (merge_tail (nat (max_pos p)) (dups p)) (\<lambda>ds.
     bindR (print_ranges cumul ds 1 1 10 (cumul_lines p)) (\<lambda>ls.
       Inr (fp_lines p, ls)))))"

text \<open>\<open>print_elements\<close>, the dump of a database as it is.\<close>

definition print_elements :: "('k, 's) bdb \<Rightarrow> 's db \<Rightarrow> ('k \<times> u64) list res" where
  "print_elements B d = cursor B d"

section \<open>The tail of the histogram\<close>

definition suffix_sum :: "u64 list \<Rightarrow> nat \<Rightarrow> nat \<Rightarrow> u64" where
  "suffix_sum ds c i = sum_list (map ((!) ds) [c ..< Suc i])"

lemma suffix_sum_last: "suffix_sum ds i i = ds ! i"
  by (simp add: suffix_sum_def)

lemma suffix_sum_Suc: "c \<le> i \<Longrightarrow> suffix_sum ds c (Suc i) = suffix_sum ds c i + ds ! Suc i"
  by (simp add: suffix_sum_def)

lemma suffix_sum_fold:
  assumes "c \<le> i" and "Suc i < length ds"
  shows "suffix_sum (ds[i := ds ! i + ds ! Suc i, Suc i := 0]) c i = suffix_sum ds c (Suc i)"
proof -
  have "map ((!) (ds[i := ds ! i + ds ! Suc i, Suc i := 0])) [c ..< i] = map ((!) ds) [c ..< i]"
    by (rule map_cong) auto
  then have "sum_list (map ((!) (ds[i := ds ! i + ds ! Suc i, Suc i := 0])) [c ..< i])
      = sum_list (map ((!) ds) [c ..< i])" by (rule arg_cong)
  with assms show ?thesis by (simp add: suffix_sum_def add.assoc)
qed

lemma merge_tail_cut:
  assumes "i < length ds" and "merge_tail i ds = Inr ds'"
  shows "\<exists>c \<le> i. length ds' = length ds \<and> 300 < ds' ! c \<and> ds' ! c = suffix_sum ds c i
    \<and> (\<forall>j < c. ds' ! j = ds ! j) \<and> (\<forall>j. c < j \<and> j \<le> i \<longrightarrow> ds' ! j = 0)
    \<and> (\<forall>j. i < j \<and> j < length ds \<longrightarrow> ds' ! j = ds ! j)
    \<and> (\<forall>e. c < e \<and> e \<le> i \<longrightarrow> suffix_sum ds e i \<le> 300)"
  using assms
proof (induction i arbitrary: ds)
  case 0
  then show ?case by (auto simp: suffix_sum_last split: if_splits)
next
  case (Suc i)
  show ?case
  proof (cases "ds ! Suc i \<le> 300")
    case False
    with Suc.prems show ?thesis by (intro exI [of _ "Suc i"]) (auto simp: suffix_sum_last)
  next
    case True
    let ?ds = "ds[i := ds ! i + ds ! Suc i, Suc i := 0]"
    have len: "i < length ?ds" "length ?ds = length ds" using Suc.prems by auto
    from True Suc.prems have "merge_tail i ?ds = Inr ds'" by simp
    from Suc.IH [OF len(1) this] obtain c where c: "c \<le> i" "length ds' = length ds" "300 < ds' ! c"
      "ds' ! c = suffix_sum ?ds c i" "\<forall>j < c. ds' ! j = ?ds ! j"
      "\<forall>j. c < j \<and> j \<le> i \<longrightarrow> ds' ! j = 0" "\<forall>j. i < j \<and> j < length ds \<longrightarrow> ds' ! j = ?ds ! j"
      "\<forall>e. c < e \<and> e \<le> i \<longrightarrow> suffix_sum ?ds e i \<le> 300" unfolding len(2) by blast
    have s: "suffix_sum ?ds e i = suffix_sum ds e (Suc i)" if "e \<le> i" for e
      using that Suc.prems by (intro suffix_sum_fold) auto
    have "\<forall>e. c < e \<and> e \<le> Suc i \<longrightarrow> suffix_sum ds e (Suc i) \<le> 300"
      using c(8) s True by (auto simp: le_Suc_eq suffix_sum_last)
    moreover have "\<forall>j. c < j \<and> j \<le> Suc i \<longrightarrow> ds' ! j = 0"
      using c(6,7) Suc.prems by (auto simp: le_Suc_eq)
    ultimately show ?thesis using c s
      by (intro exI [of _ c]) auto
  qed
qed

text \<open>A histogram whose sums all stay at 300 or below is folded past its first element.\<close>

lemma merge_tail_small:
  assumes "i < length ds" and "\<And>c. c \<le> i \<Longrightarrow> suffix_sum ds c i \<le> 300"
  shows "merge_tail i ds = Inl OutOfBounds"
proof (cases "merge_tail i ds")
  case (Inl e)
  have "merge_tail i ds = Inl e \<Longrightarrow> e = OutOfBounds" for e
    by (induction i arbitrary: ds) (auto split: if_splits)
  with Inl show ?thesis by simp
next
  case (Inr ds')
  from merge_tail_cut [OF assms(1) this] assms(2) show ?thesis by (auto simp flip: not_le)
qed

section \<open>The printed ranges\<close>

definition range_lo :: "nat \<Rightarrow> cint" where
  "range_lo j = (if odd j then 10 ^ (j div 2) else signed_drop_bit 1 (10 ^ (j div 2)))"

definition range_hi :: "nat \<Rightarrow> cint" where
  "range_hi j = (if odd j then signed_drop_bit 1 (10 ^ Suc (j div 2)) else 10 ^ (j div 2))"

definition range_lines :: "u64 list \<Rightarrow> nat \<Rightarrow> cumul_line list" where
  "range_lines ds i = map (\<lambda>j. RangeLine (range_lo j) (range_hi j) (ds ! j))
     (filter (\<lambda>j. ds ! j \<noteq> 0) [i ..< length ds])"

lemma range_lines_step:
  assumes "i < length ds"
  shows "range_lines ds i =
    (if ds ! i \<noteq> 0 then [RangeLine (range_lo i) (range_hi i) (ds ! i)] else []) @ range_lines ds (Suc i)"
  using assms by (simp add: range_lines_def upt_conv_Cons)

lemma range_lines_end: "length ds \<le> i \<Longrightarrow> range_lines ds i = []"
  by (simp add: range_lines_def)

lemma print_ranges_lines:
  assumes "i = 2 * k + 1" and "ini = 10 ^ k" and "final = 10 ^ Suc k"
  shows "print_ranges True ds i ini final ls = Inr (ls @ range_lines ds i)"
  using assms
proof (induction "length ds - i" arbitrary: i k ini final ls rule: less_induct)
  case less
  show ?case
  proof (cases "length ds \<le> i")
    case True
    then show ?thesis by (simp add: print_ranges.simps range_lines_end)
  next
    case False
    then have "length ds - (i + 2) < length ds - i" by simp
    from less.hyps [OF this, of "Suc k" final "final * 10"] less.prems
    have IH: "print_ranges True ds (i + 2) final (final * 10) ls' = Inr (ls' @ range_lines ds (i + 2))"
      for ls' by simp
    have lbl: "range_lo i = ini" "range_hi i = signed_drop_bit 1 final"
      "range_lo (Suc i) = signed_drop_bit 1 final" "range_hi (Suc i) = ini * 10"
      using less.prems by (simp_all add: range_lo_def range_hi_def mult.commute)
    show ?thesis
    proof (cases "Suc i < length ds")
      case True
      then show ?thesis using False IH lbl
        by (simp add: print_ranges.simps [of True ds i ini final] emit_def range_lines_step)
    next
      case nxt: False
      then have "print_ranges True ds (i + 2) final (final * 10) ls' = Inr ls'" for ls'
        by (simp add: print_ranges.simps)
      then show ?thesis using False nxt lbl
        by (simp add: print_ranges.simps [of True ds i ini final] emit_def range_lines_step range_lines_end)
    qed
  qed
qed

text \<open>Without a stream the first bucket to print ends the program.\<close>

lemma print_ranges_null:
  assumes "i \<le> j" and "j < length ds" and "ds ! j \<noteq> 0"
  shows "print_ranges False ds i ini final ls = Inl NullStream"
  using assms
proof (induction "length ds - i" arbitrary: i ini final ls rule: less_induct)
  case less
  then have "length ds - (i + 2) < length ds - i" by simp
  note IH = less.hyps [OF this]
  show ?case
  proof (cases "j = i \<or> j = Suc i")
    case True
    with less.prems show ?thesis
      by (auto simp: print_ranges.simps [of False ds i] emit_def)
  next
    case False
    with less.prems IH show ?thesis
      by (auto simp: print_ranges.simps [of False ds i] emit_def)
  qed
qed

section \<open>Collecting the histogram\<close>

lemma arr_pos_pos: "key \<noteq> 0 \<Longrightarrow> 1 \<le> arr_pos key"
  using order_of_magnitude_rec [of key] by (simp add: arr_pos_def Let_def)

definition hist_sum :: "(u64 \<times> u64) list \<Rightarrow> nat \<Rightarrow> u64" where
  "hist_sum rs j = sum_list (map snd (filter (\<lambda>(k, v). k \<noteq> 0 \<and> arr_pos k = int j) rs))"

definition zero_count :: "(u64 \<times> u64) list \<Rightarrow> u64" where
  "zero_count rs = (case filter (\<lambda>(k, v). k = 0) (rev rs) of [] \<Rightarrow> 0 | p # _ \<Rightarrow> snd p)"

definition zero_lines :: "(u64 \<times> u64) list \<Rightarrow> cumul_line list" where
  "zero_lines rs = map (\<lambda>(k, v). ZeroLine v) (filter (\<lambda>(k, v). k = 0) rs)"

definition print_start :: dist_print where
  "print_start = \<lparr>dups = replicate DUPS_LEN 0, max_pos = 0, fp_lines = [], cumul_lines = []\<rparr>"

definition collected :: "(u64 \<times> u64) list \<Rightarrow> dist_print \<Rightarrow> bool" where
  "collected rs p \<longleftrightarrow> length (dups p) = DUPS_LEN \<and> 0 \<le> max_pos p \<and> max_pos p < int DUPS_LEN
     \<and> (\<forall>j. 0 < j \<and> j < DUPS_LEN \<longrightarrow> dups p ! j = hist_sum rs j)
     \<and> (\<forall>j. int j > max_pos p \<and> j < DUPS_LEN \<longrightarrow> dups p ! j = 0)
     \<and> dups p ! 0 = zero_count rs
     \<and> (\<forall>(k, v) \<in> set rs. k \<noteq> 0 \<longrightarrow> arr_pos k \<le> max_pos p)
     \<and> fp_lines p = rs \<and> cumul_lines p = zero_lines rs"

lemma hist_sum_snoc:
  "hist_sum (rs @ [(k, v)]) j = hist_sum rs j + (if k \<noteq> 0 \<and> arr_pos k = int j then v else 0)"
  by (simp add: hist_sum_def)

lemma zero_count_snoc: "zero_count (rs @ [(k, v)]) = (if k = 0 then v else zero_count rs)"
  by (simp add: zero_count_def)

lemma zero_lines_snoc: "zero_lines (rs @ [(k, v)]) = zero_lines rs @ (if k = 0 then [ZeroLine v] else [])"
  by (simp add: zero_lines_def)

lemmas collect_snoc = hist_sum_snoc zero_count_snoc zero_lines_snoc

lemma dist_record_zero:
  "dups p \<noteq> [] \<Longrightarrow> dist_record True (0, v) p = Inr (p\<lparr>fp_lines := fp_lines p @ [(0, v)],
     dups := (dups p)[0 := v], cumul_lines := cumul_lines p @ [ZeroLine v]\<rparr>)"
  by (simp add: dist_record_def emit_def aset_def Let_def)

lemma dist_record_pos:
  "k \<noteq> 0 \<Longrightarrow> arr_pos k = int j \<Longrightarrow> j < length (dups p) \<Longrightarrow>
     dist_record c (k, v) p = Inr (p\<lparr>fp_lines := fp_lines p @ [(k, v)],
       dups := (dups p)[j := dups p ! j + v], max_pos := max (max_pos p) (int j)\<rparr>)"
  by (simp add: dist_record_def aget_def aset_def Let_def)

lemma collect_step:
  assumes c: "collected rs p" and "k \<noteq> 0 \<longrightarrow> arr_pos k < int DUPS_LEN"
  shows "\<exists>p'. dist_record True (k, v) p = Inr p' \<and> collected (rs @ [(k, v)]) p'"
proof (cases "k = 0")
  case True
  have "dups p \<noteq> []" using c by (auto simp: collected_def DUPS_LEN_def)
  with c True show ?thesis
    by (auto simp: dist_record_zero collected_def collect_snoc)
next
  case False
  then have "1 \<le> arr_pos k" by (rule arr_pos_pos)
  then obtain j where j: "arr_pos k = int j" "0 < j"
    by (metis int_one_le_iff_zero_less zero_less_imp_eq_int)
  with False assms(2) have "j < DUPS_LEN" by simp
  with c False j show ?thesis
    by (auto simp: dist_record_pos collected_def collect_snoc nth_list_update max_def)
qed

lemma collect_all:
  assumes "\<And>k v. (k, v) \<in> set rs \<Longrightarrow> k \<noteq> 0 \<Longrightarrow> arr_pos k < int DUPS_LEN"
  shows "\<exists>p. foldR (dist_record True) rs print_start = Inr p \<and> collected rs p"
  using assms
proof (induction rs rule: rev_induct)
  case Nil
  show ?case by (auto simp: collected_def print_start_def hist_sum_def zero_lines_def
      zero_count_def DUPS_LEN_def)
next
  case (snoc r rs)
  then obtain p where p: "foldR (dist_record True) rs print_start = Inr p" "collected rs p"
    by auto
  obtain k v where r: "r = (k, v)" by (cases r)
  from collect_step [OF p(2), of k v] snoc.prems [of k v] r p(1) show ?case
    by (auto simp: foldR_append)
qed

text \<open>Without a stream: only records with a key get through, and \<open>dups[0]\<close> stays zero.\<close>

definition collected_null :: "dist_print \<Rightarrow> bool" where
  "collected_null p \<longleftrightarrow> dups p \<noteq> [] \<and> dups p ! 0 = 0 \<and> 0 \<le> max_pos p
     \<and> nat (max_pos p) < length (dups p)"

lemma collect_null_step:
  assumes "dist_record False (k, v) p = Inr p'" and "collected_null p"
  shows "collected_null p'"
proof (cases "k = 0")
  case True
  with assms(1) show ?thesis by (simp add: dist_record_def emit_def)
next
  case False
  with arr_pos_pos obtain j where j: "arr_pos k = int j" "0 < j"
    by (metis int_one_le_iff_zero_less zero_less_imp_eq_int)
  with False assms show ?thesis
    by (auto simp: dist_record_def collected_null_def aget_eq_Inr aset_eq_Inr Let_def nth_append
        nth_list_update elim!: bindR_InrE split: if_splits)
qed

section \<open>Sums over the records\<close>

lemma label_lo_mono: "i \<le> j \<Longrightarrow> label_lo i \<le> label_lo j"
proof (induction j rule: dec_induct)
  case (step j)
  have "label_lo j \<le> label_lo (Suc j)"
    by (cases "even j") (auto simp: label_lo_def elim!: evenE oddE)
  with step show ?case by simp
qed simp

lemma label_hi_lo: "label_hi j = label_lo (Suc j)"
  by (cases "even j") (auto simp: label_lo_def label_hi_def elim!: evenE oddE)

lemma label_lo_pos: "label_lo c = 0 \<longleftrightarrow> c = 0"
proof -
  have "label_lo 1 \<le> label_lo c" if "c \<noteq> 0" using that by (intro label_lo_mono) simp
  then show ?thesis by (cases c) (auto simp: label_lo_def)
qed

lemma label_lo_arr_pos:
  assumes "unat k < 10 ^ 9"
  shows "label_lo c \<le> unat k \<longleftrightarrow> c = 0 \<or> (k \<noteq> 0 \<and> int c \<le> arr_pos k)"
proof (cases "k = 0")
  case True
  then show ?thesis by (simp add: label_lo_pos)
next
  case False
  note p = arr_pos_interval [OF False assms]
  let ?j = "nat (arr_pos k)"
  have "label_lo c \<le> unat k \<longleftrightarrow> c \<le> ?j"
  proof
    assume "label_lo c \<le> unat k"
    then have "label_lo c < label_lo (Suc ?j)" using p label_hi_lo by simp
    then show "c \<le> ?j" using label_lo_mono [of "Suc ?j" c] by (meson not_less not_less_eq_eq)
  next
    assume "c \<le> ?j"
    then show "label_lo c \<le> unat k" using p label_lo_mono [of c ?j] by simp
  qed
  with p False show ?thesis by (auto simp: le_nat_iff)
qed

text \<open>The count of all records from the lower bound of a position upwards.\<close>

definition tail_count :: "(u64 \<times> u64) list \<Rightarrow> nat \<Rightarrow> u64" where
  "tail_count rs c = sum_list (map snd (filter (\<lambda>(k, v). label_lo c \<le> unat k) rs))"

lemma hist_sum_cells:
  "sum (hist_sum rs) {c .. i} =
     sum_list (map snd (filter (\<lambda>(k, v). k \<noteq> 0 \<and> int c \<le> arr_pos k \<and> arr_pos k \<le> int i) rs))"
proof (induction rs rule: rev_induct)
  case Nil
  show ?case by (simp add: hist_sum_def)
next
  case (snoc r rs)
  obtain k v where r: "r = (k, v)" by (cases r)
  have "sum (\<lambda>j. if k \<noteq> 0 \<and> arr_pos k = int j then v else 0) {c .. i} =
      (if k \<noteq> 0 \<and> int c \<le> arr_pos k \<and> arr_pos k \<le> int i then v else 0)"
  proof (cases "k = 0")
    case False
    then obtain j where "arr_pos k = int j"
      using arr_pos_pos by (metis int_one_le_iff_zero_less zero_less_imp_eq_int)
    with False show ?thesis by auto
  qed simp
  then show ?case by (auto simp: r hist_sum_snoc sum.distrib snoc)
qed

lemma zero_count_sum:
  assumes "distinct (map fst rs)"
  shows "zero_count rs = sum_list (map snd (filter (\<lambda>(k, v). k = 0) rs))"
  using assms
proof (induction rs rule: rev_induct)
  case (snoc r rs)
  obtain k v where r: "r = (k, v)" by (cases r)
  have "k = 0 \<Longrightarrow> filter (\<lambda>(k, v). k = 0) rs = []"
    using snoc.prems r by (force simp: filter_empty_conv)
  with snoc r show ?case by (auto simp: zero_count_snoc)
qed (simp add: zero_count_def)

lemma suffix_sum_set: "suffix_sum ds c i = sum ((!) ds) {c .. i}"
  by (simp only: suffix_sum_def interv_sum_list_conv_sum_set_nat set_upt atLeastLessThanSuc_atLeastAtMost)

lemma filter_split_sum:
  "(\<And>r. r \<in> set rs \<Longrightarrow> P r \<longleftrightarrow> Q r \<or> R r) \<Longrightarrow> (\<And>r. r \<in> set rs \<Longrightarrow> \<not> (Q r \<and> R r)) \<Longrightarrow>
   sum_list (map snd (filter P rs)) =
     sum_list (map snd (filter Q rs)) + (sum_list (map snd (filter R rs)) :: 'n::len word)"
  by (induction rs) (auto simp: ac_simps)

lemma suffix_tail_count:
  assumes c: "collected rs p" and d: "distinct (map fst rs)"
    and small: "\<And>k v. (k, v) \<in> set rs \<Longrightarrow> unat k < 10 ^ 9" and le: "e \<le> nat (max_pos p)"
  shows "suffix_sum (dups p) e (nat (max_pos p)) = tail_count rs e"
proof -
  let ?m = "nat (max_pos p)"
  from c have m: "?m < DUPS_LEN" "int ?m = max_pos p" by (auto simp: collected_def)
  have pos: "sum ((!) (dups p)) {Suc a .. ?m} = sum_list (map snd
      (filter (\<lambda>(k, v). k \<noteq> 0 \<and> int (Suc a) \<le> arr_pos k) rs))" for a
  proof -
    have "sum ((!) (dups p)) {Suc a .. ?m} = sum (hist_sum rs) {Suc a .. ?m}"
      using c m by (intro sum.cong) (auto simp: collected_def)
    also have "\<dots> = sum_list (map snd (filter (\<lambda>(k, v). k \<noteq> 0 \<and> int (Suc a) \<le> arr_pos k) rs))"
      unfolding hist_sum_cells using c
      by (intro arg_cong [where f = "\<lambda>xs. sum_list (map snd xs)"] filter_cong)
        (auto simp: collected_def m(2))
    finally show ?thesis .
  qed
  show ?thesis
  proof (cases e)
    case (Suc a)
    have "filter (\<lambda>(k, v). k \<noteq> 0 \<and> int (Suc a) \<le> arr_pos k) rs
        = filter (\<lambda>(k, v). label_lo (Suc a) \<le> unat k) rs"
      using small by (intro filter_cong) (auto simp: label_lo_arr_pos label_lo_pos)
    with pos [of a] Suc show ?thesis by (simp add: suffix_sum_set tail_count_def)
  next
    case 0
    have "sum ((!) (dups p)) {0 .. ?m} = dups p ! 0 + sum ((!) (dups p)) {Suc 0 .. ?m}"
      by (simp add: sum.atLeast_Suc_atMost)
    also have "\<dots> = zero_count rs + sum_list (map snd (filter (\<lambda>(k, v). k \<noteq> 0 \<and> 1 \<le> arr_pos k) rs))"
      using c pos [of 0] by (simp add: collected_def)
    also have "\<dots> = sum_list (map snd (filter (\<lambda>(k, v). True) rs))"
      unfolding zero_count_sum [OF d]
      by (rule filter_split_sum [symmetric]) (auto simp: arr_pos_pos)
    finally show ?thesis by (simp add: 0 suffix_sum_set tail_count_def label_lo_def)
  qed
qed


definition range_count :: "(u64 \<times> u64) list \<Rightarrow> nat \<Rightarrow> u64" where
  "range_count rs j = sum_list (map snd (filter (\<lambda>(k, v). label_lo j \<le> unat k \<and> unat k < label_hi j) rs))"

lemma hist_sum_range:
  assumes "\<And>k v. (k, v) \<in> set rs \<Longrightarrow> unat k < 10 ^ 9" and "0 < j"
  shows "hist_sum rs j = range_count rs j"
  unfolding hist_sum_def range_count_def
proof (intro arg_cong [where f = "\<lambda>xs. sum_list (map snd xs)"] filter_cong refl)
  fix r assume "r \<in> set rs"
  moreover obtain k v where r: "r = (k, v)" by (cases r)
  ultimately have k: "unat k < 10 ^ 9" using assms(1) by auto
  have a: "label_lo j \<le> unat k \<longleftrightarrow> k \<noteq> 0 \<and> int j \<le> arr_pos k"
    using label_lo_arr_pos [OF k, of j] assms(2) by simp
  have b: "unat k < label_hi j \<longleftrightarrow> \<not> (k \<noteq> 0 \<and> int (Suc j) \<le> arr_pos k)"
    unfolding label_hi_lo using label_lo_arr_pos [OF k, of "Suc j"] by (metis nat.distinct(1) not_le)
  show "(case r of (k, v) \<Rightarrow> k \<noteq> 0 \<and> arr_pos k = int j) \<longleftrightarrow>
      (case r of (k, v) \<Rightarrow> label_lo j \<le> unat k \<and> unat k < label_hi j)"
    unfolding r prod.case a b by linarith
qed

text \<open>The bucket of a position after the tail above \<open>c\<close> has been folded into \<open>c\<close>.\<close>

definition printed_cell :: "(u64 \<times> u64) list \<Rightarrow> nat \<Rightarrow> nat \<Rightarrow> u64" where
  "printed_cell rs c j = (if j < c then range_count rs j else if j = c then tail_count rs c else 0)"

definition printed_ranges :: "(u64 \<times> u64) list \<Rightarrow> nat \<Rightarrow> cumul_line list" where
  "printed_ranges rs c = map (\<lambda>j. RangeLine (range_lo j) (range_hi j) (printed_cell rs c j))
     (filter (\<lambda>j. printed_cell rs c j \<noteq> 0) [1 ..< DUPS_LEN])"

lemma merge_tail_Inl:
  "merge_tail i ds = Inl e \<Longrightarrow> i < length ds \<Longrightarrow> e = OutOfBounds \<and> (\<forall>c \<le> i. suffix_sum ds c i \<le> 300)"
proof (induction i arbitrary: ds)
  case (Suc i)
  then have t: "ds ! Suc i \<le> 300" and
    m: "merge_tail i (ds[i := ds ! i + ds ! Suc i, Suc i := 0]) = Inl e"
    by (auto split: if_splits)
  from Suc.IH [OF m] Suc.prems(2) suffix_sum_fold [of _ i ds] t show ?case
    by (auto simp: le_Suc_eq suffix_sum_last)
qed (auto simp: suffix_sum_last split: if_splits)

lemma distribution_printed_records:
  assumes d: "distinct (map fst rs)" and small: "\<And>k v. (k, v) \<in> set rs \<Longrightarrow> unat k < 10 ^ 9"
    and cur: "cursor B d = Inr rs"
  shows "(print_elements_print B True d = Inl OutOfBounds \<and> (\<forall>c. tail_count rs c \<le> 300))
    \<or> (\<exists>c. c \<le> 18 \<and> 300 < tail_count rs c \<and> (\<forall>e > c. tail_count rs e \<le> 300)
        \<and> print_elements_print B True d = Inr (rs, zero_lines rs @ printed_ranges rs c))"
proof -
  have pos: "arr_pos k \<le> 18" if "(k, v) \<in> set rs" "k \<noteq> 0" for k v
    using arr_pos_interval [OF that(2) small [OF that(1)]] by simp
  then obtain p where p: "foldR (dist_record True) rs print_start = Inr p" "collected rs p"
    using collect_all [of rs] by (fastforce simp: DUPS_LEN_def)
  let ?m = "nat (max_pos p)"
  have m: "?m < length (dups p)" using p(2) by (auto simp: collected_def)
  have s: "suffix_sum (dups p) c ?m = tail_count rs c" if "c \<le> ?m" for c
    using suffix_tail_count [OF p(2) d small that] .
  have above: "tail_count rs c = 0" if "?m < c" for c
  proof -
    have "filter (\<lambda>(k, v). label_lo c \<le> unat k) rs = []"
      using p(2) that label_lo_arr_pos [OF small, of _ _ c]
      by (fastforce simp: filter_empty_conv collected_def)
    then show ?thesis by (simp add: tail_count_def)
  qed
  have run: "print_elements_print B True d = bindR (merge_tail ?m (dups p)) (\<lambda>ds.
     bindR (print_ranges True ds 1 1 10 (zero_lines rs)) (\<lambda>ls. Inr (rs, ls)))"
    using p cur by (simp add: print_elements_print_def collected_def flip: print_start_def)
  show ?thesis
  proof (cases "merge_tail ?m (dups p)")
    case (Inl e)
    with merge_tail_Inl [OF Inl m] s above run show ?thesis by (metis bindR_Inl not_le word_zero_le)
  next
    case (Inr ds)
    then obtain c where c: "c \<le> ?m" "length ds = length (dups p)" "300 < ds ! c"
      "ds ! c = suffix_sum (dups p) c ?m" "\<forall>j < c. ds ! j = dups p ! j"
      "\<forall>j. c < j \<and> j \<le> ?m \<longrightarrow> ds ! j = 0"
      "\<forall>j. ?m < j \<and> j < length (dups p) \<longrightarrow> ds ! j = dups p ! j"
      "\<forall>e. c < e \<and> e \<le> ?m \<longrightarrow> suffix_sum (dups p) e ?m \<le> 300"
      using merge_tail_cut [OF m] by blast
    have len: "length ds = DUPS_LEN" using c(2) p(2) by (simp add: collected_def)
    have cell: "ds ! j = printed_cell rs c j" if j: "0 < j" "j < DUPS_LEN" for j
    proof -
      have h: "dups p ! j = range_count rs j"
        using p(2) j hist_sum_range [OF small] by (simp add: collected_def)
      have z: "?m < j \<Longrightarrow> dups p ! j = 0" using p(2) j unfolding collected_def
        by (metis nat_less_iff)
      consider "j < c" | "j = c" | "c < j" "j \<le> ?m" | "c < j" "?m < j" by linarith
      then show ?thesis
        using c len h z j s [OF c(1)] by cases (simp_all add: printed_cell_def)
    qed
    have "filter (\<lambda>j. ds ! j \<noteq> 0) [1 ..< DUPS_LEN] = filter (\<lambda>j. printed_cell rs c j \<noteq> 0) [1 ..< DUPS_LEN]"
      by (rule filter_cong) (simp_all add: cell)
    then have "range_lines ds 1 = printed_ranges rs c"
      unfolding range_lines_def printed_ranges_def len by (simp add: cell)
    moreover have "c \<le> 18"
    proof (rule ccontr)
      assume "\<not> c \<le> 18"
      then have "filter (\<lambda>(k, v). label_lo c \<le> unat k) rs = []"
        using label_lo_arr_pos [OF small, of _ _ c] pos
        by (fastforce simp: filter_empty_conv)
      with c(1,3,4) s show False by (simp add: tail_count_def)
    qed
    moreover have "\<forall>e > c. tail_count rs e \<le> 300"
      using c(8) s above by (metis not_le word_zero_le)
    ultimately show ?thesis
      using run Inr c(1,3,4) s print_ranges_lines [of 1 0 1 10 ds] by auto
  qed
qed


section \<open>Properties\<close>

lemma unat_sum_le: "unat (sum_list ws) \<le> sum_list (map unat (ws :: 'n::len word list))"
proof (induction ws)
  case (Cons w ws)
  have "unat (w + sum_list ws) \<le> unat w + unat (sum_list ws)"
    by (simp add: unat_plus_if')
  with Cons show ?case by simp
qed simp

lemma tail_count_le_total: "unat (tail_count rs c) \<le> sum_list (map (unat \<circ> snd) rs)"
proof -
  have "sum_list (map unat (map snd (filter P rs))) \<le> sum_list (map (unat \<circ> snd) rs)" for P
    by (induction rs) auto
  from order_trans [OF unat_sum_le this] show ?thesis by (simp add: tail_count_def)
qed

lemma null_cumul_fails: "\<exists>e. print_elements_print B False d = Inl e"
proof (rule ccontr)
  assume "\<not> ?thesis"
  then obtain out where "print_elements_print B False d = Inr out"
    by (cases "print_elements_print B False d") auto
  then obtain rs p ds ls where p: "foldR (dist_record False) rs print_start = Inr p"
    and m: "merge_tail (nat (max_pos p)) (dups p) = Inr ds"
    and r: "print_ranges False ds 1 1 10 (cumul_lines p) = Inr ls"
    unfolding print_elements_print_def print_start_def by (auto elim!: bindR_InrE)
  have st: "collected_null print_start"
    by (simp add: print_start_def collected_null_def DUPS_LEN_def)
  have inv: "collected_null p"
    using foldR_invariant [OF p, of collected_null] st by (metis collect_null_step prod.exhaust)
  let ?m = "nat (max_pos p)"
  from inv have len: "?m < length (dups p)" and z: "dups p ! 0 = 0" by (auto simp: collected_null_def)
  from merge_tail_cut [OF len m] obtain c where c: "c \<le> ?m" "length ds = length (dups p)"
    "300 < ds ! c" "ds ! c = suffix_sum (dups p) c ?m"
    "\<forall>e. c < e \<and> e \<le> ?m \<longrightarrow> suffix_sum (dups p) e ?m \<le> 300" by blast
  have "c \<noteq> 0"
  proof
    assume [simp]: "c = 0"
    have "suffix_sum (dups p) 0 ?m \<le> 300"
    proof (cases ?m)
      case 0
      then show ?thesis using z by (simp add: suffix_sum_last)
    next
      case (Suc k)
      have "suffix_sum (dups p) 0 ?m = suffix_sum (dups p) (Suc 0) ?m"
        using z by (simp add: suffix_sum_set sum.atLeast_Suc_atMost)
      with c(5) Suc show ?thesis by simp
    qed
    with c(3,4) show False by simp
  qed
  with c len have "print_ranges False ds 1 1 10 (cumul_lines p) = Inl NullStream"
    by (intro print_ranges_null [of _ c]) auto
  with r show False by simp
qed

text \<open>
  C11:  For a database whose keys are below 10^9, let \<open>c\<close> be the highest histogram position such
  that the counts from its lower bound upwards sum to more than 300.  Then \<open>print_elements_print\<close>
  writes every record once to \<open>fp\<close>, and to \<open>fpcumul\<close> the count of unduplicated blocks and, for
  every position up to \<open>c\<close>, the range of its keys with the sum of the counts of the keys in that
  range, where the range of \<open>c\<close> takes all counts above it too.
\<close>

theorem distribution_printed:
  assumes "hash_store B ok content" and "db_ok ok d" and "cursor B d = Inr rs"
    and "\<forall>(k, v) \<in> set rs. unat k < 10 ^ 9"
    and "300 < tail_count rs c" and "\<forall>e > c. tail_count rs e \<le> 300"
  shows "print_elements_print B True d = Inr (rs, zero_lines rs @ printed_ranges rs c)"
proof -
  have "distinct (map fst rs)" using hash_store.cursor_ok [OF assms(1,2)] assms(3) by auto
  from distribution_printed_records [OF this _ assms(3)] assms(4-6) show ?thesis
    by (metis (no_types, lifting) case_prodD linorder_neqE_nat not_le)
qed

definition demo_db :: "(u64 \<times> u64) list db" where
  "demo_db = \<lparr>store = [(0, 1000), (1, 400), (3, 310), (7, 20), (120, 2)], is_open = True\<rparr>"

lemma demo_db_ok: "db_ok mem_ok demo_db"
  by (simp add: db_ok_def demo_db_def mem_ok_def)

lemma demo_db_cursor:
  "cursor mem_bdb demo_db = Inr [(0, 1000), (1, 400), (3, 310), (7, 20), (120, 2)]"
  by (simp add: cursor_def demo_db_def mem_bdb_def)

theorem distribution_printed_witness:
  "print_elements_print mem_bdb True demo_db = Inr
     ([(0, 1000), (1, 400), (3, 310), (7, 20), (120, 2)],
      [ZeroLine 1000, RangeLine 1 5 732])"
proof -
  let ?rs = "[(0, 1000), (1, 400), (3, 310), (7, 20), (120, 2)] :: (u64 \<times> u64) list"
  have "print_elements_print mem_bdb True demo_db = Inr (?rs, zero_lines ?rs @ printed_ranges ?rs 1)"
  proof (rule distribution_printed [OF mem.hash_store_axioms demo_db_ok demo_db_cursor])
    show "\<forall>e > 1. tail_count ?rs e \<le> 300"
    proof (intro allI impI)
      fix e :: nat assume "1 < e"
      then have "5 \<le> label_lo e" using label_lo_mono [of 2 e] by (simp add: label_lo_def)
      then show "tail_count ?rs e \<le> 300" by (auto simp: tail_count_def)
    qed
  qed (simp_all add: tail_count_def label_lo_def)
  also have "printed_ranges ?rs 1 = [RangeLine 1 5 732]"
    by code_simp
  finally show ?thesis by (simp add: zero_lines_def)
qed

text \<open>When all the counts of the database together are at most 300, the fold of the tail runs
  below the first element of the array and writes \<open>dups[-1]\<close>.\<close>

lemma small_distribution_underflows:
  assumes "hash_store B ok content" and "db_ok ok d" and "cursor B d = Inr rs"
    and "\<forall>(k, v) \<in> set rs. unat k < 10 ^ 9" and "sum_list (map (unat \<circ> snd) rs) \<le> 300"
  shows "print_elements_print B True d = Inl OutOfBounds"
proof -
  have "distinct (map fst rs)" using hash_store.cursor_ok [OF assms(1,2)] assms(3) by auto
  moreover have "tail_count rs c \<le> 300" for c
    using order_trans [OF tail_count_le_total assms(5)] by (simp add: word_le_nat_alt)
  ultimately show ?thesis
    using distribution_printed_records [of rs B d] assms(3,4) by (fastforce simp flip: not_le)
qed

lemma small_distribution_underflows_witness:
  "print_elements_print mem_bdb True \<lparr>store = [(0, 200), (1, 40), (17, 60)], is_open = True\<rparr>
     = Inl OutOfBounds"
  by (rule small_distribution_underflows
        [OF mem.hash_store_axioms, where rs = "[(0, 200), (1, 40), (17, 60)]"])
    (simp_all add: db_ok_def mem_ok_def cursor_def mem_bdb_def)

text \<open>With \<open>fpcumul\<close> NULL, as \<open>DEDISgen-utils\<close> calls it, \<open>print_elements_print\<close> never
  completes, whatever the database holds.\<close>

lemma null_cumul_never_prints: "print_elements_print B False d \<noteq> Inr out"
  using null_cumul_fails [of B d] by auto

text \<open>
  \<open>init_db\<close> reports failure only when creating the environment fails: after every later
  failure it has closed what it had opened and returns 0, as for success.
\<close>

lemma init_db_swallows_errors:
  "(fst (init_db c) = 0) = (c_env_create c = 0)
   \<and> (snd (init_db c) = (PLive, PLive)) =
       (c_env_create c = 0 \<and> c_env_open c = 0 \<and> c_db_create c = 0 \<and> c_db_open c = 0)
   \<and> (snd (snd (init_db c)) = PClosed) = (c_env_create c = 0 \<and> snd (init_db c) \<noteq> (PLive, PLive))"
  by (auto simp: init_db_def EXIT_FAILURE_def close_handles_def Let_def)

end
