(* ===== verification/Sfmt.thy ===== *)
theory Sfmt
  imports Prelude
begin

text \<open>
  The SIMD-oriented Fast Mersenne Twister that \<open>utils/random/random.c\<close> includes
  (\<open>utils/random/randomgen/SFMT.c\<close>, \<open>SFMT-params19937.h\<close>), in the configuration of the build:
  MEXP 19937, portable C, little endian.  The 128-bit shifts, the recursion, the refill of the state
  array, the two read operations, the seeding and the period certification.
\<close>

unbundle bit_operations_syntax

section \<open>Parameters and state\<close>

definition SFMT_N :: nat where "SFMT_N = 156"
definition N32 :: nat where "N32 = SFMT_N * 4"
definition POS1 :: nat where "POS1 = 122"
definition SL1 :: nat where "SL1 = 18"
definition SL2 :: nat where "SL2 = 1"
definition SR1 :: nat where "SR1 = 11"
definition SR2 :: nat where "SR2 = 1"
definition MSK1 :: u32 where "MSK1 = 0xdfffffef"
definition MSK2 :: u32 where "MSK2 = 0xddfecb7f"
definition MSK3 :: u32 where "MSK3 = 0xbffaffff"
definition MSK4 :: u32 where "MSK4 = 0xbffffff6"
definition parity :: "u32 list" where "parity = [0x00000001, 0x00000000, 0x00000000, 0x13c9e684]"

lemmas sfmt_params = SFMT_N_def N32_def POS1_def SL1_def SL2_def SR1_def SR2_def

datatype w128_t = W128 (u0: u32) (u1: u32) (u2: u32) (u3: u32)

text \<open>
  The file's static variables: the array \<open>sfmt\<close>, the index \<open>idx\<close> into its 32-bit view and the
  flag \<open>initialized\<close>.
\<close>

record sfmt_state =
  sfmt :: "w128_t list"
  idx :: nat
  initialized :: bool

text \<open>The views \<open>psfmt32\<close> and \<open>psfmt64\<close> of the array, and a write through \<open>psfmt32\<close>.\<close>

definition psfmt32 :: "w128_t list \<Rightarrow> nat \<Rightarrow> u32" where
  "psfmt32 st i = (case st ! (i div 4) of W128 a b c d \<Rightarrow> [a, b, c, d] ! (i mod 4))"

definition set32 :: "nat \<Rightarrow> u32 \<Rightarrow> w128_t list \<Rightarrow> w128_t list" where
  "set32 i v st = st[i div 4 := (case st ! (i div 4) of W128 a b c d \<Rightarrow>
     (if i mod 4 = 0 then W128 v b c d else if i mod 4 = 1 then W128 a v c d
      else if i mod 4 = 2 then W128 a b v d else W128 a b c v))]"

definition psfmt64 :: "w128_t list \<Rightarrow> nat \<Rightarrow> u64" where
  "psfmt64 st j = (case st ! (j div 2) of W128 a b c d \<Rightarrow>
     (if even j then push_bit 32 (ucast b) OR ucast a else push_bit 32 (ucast d) OR ucast c))"

section \<open>The recursion\<close>

definition rshift128 :: "w128_t \<Rightarrow> nat \<Rightarrow> w128_t" where
  "rshift128 w shift =
     (let th = push_bit 32 (ucast (u3 w) :: u64) OR ucast (u2 w);
          tl = push_bit 32 (ucast (u1 w) :: u64) OR ucast (u0 w);
          oh = drop_bit (shift * 8) th;
          ol = drop_bit (shift * 8) tl OR push_bit (64 - shift * 8) th
      in W128 (ucast ol) (ucast (drop_bit 32 ol)) (ucast oh) (ucast (drop_bit 32 oh)))"

definition lshift128 :: "w128_t \<Rightarrow> nat \<Rightarrow> w128_t" where
  "lshift128 w shift =
     (let th = push_bit 32 (ucast (u3 w) :: u64) OR ucast (u2 w);
          tl = push_bit 32 (ucast (u1 w) :: u64) OR ucast (u0 w);
          oh = push_bit (shift * 8) th OR drop_bit (64 - shift * 8) tl;
          ol = push_bit (shift * 8) tl
      in W128 (ucast ol) (ucast (drop_bit 32 ol)) (ucast oh) (ucast (drop_bit 32 oh)))"

definition do_recursion :: "w128_t \<Rightarrow> w128_t \<Rightarrow> w128_t \<Rightarrow> w128_t \<Rightarrow> w128_t" where
  "do_recursion a b c d =
     (let x = lshift128 a SL2; y = rshift128 c SR2
      in W128
        (u0 a XOR u0 x XOR (drop_bit SR1 (u0 b) AND MSK1) XOR u0 y XOR push_bit SL1 (u0 d))
        (u1 a XOR u1 x XOR (drop_bit SR1 (u1 b) AND MSK2) XOR u1 y XOR push_bit SL1 (u1 d))
        (u2 a XOR u2 x XOR (drop_bit SR1 (u2 b) AND MSK3) XOR u2 y XOR push_bit SL1 (u2 d))
        (u3 a XOR u3 x XOR (drop_bit SR1 (u3 b) AND MSK4) XOR u3 y XOR push_bit SL1 (u3 d)))"

text \<open>
  \<open>gen_rand_all\<close>: the two loops over the array in place.  \<open>r1\<close> and \<open>r2\<close> are the pointers of the
  source as indices: they are read when the recursion runs, after the writes before it.
\<close>

definition gen_step :: "nat \<Rightarrow> nat \<Rightarrow> w128_t list \<times> nat \<times> nat \<Rightarrow> w128_t list \<times> nat \<times> nat" where
  "gen_step i off = (\<lambda>(st, r1, r2).
     (st[i := do_recursion (st ! i) (st ! off) (st ! r1) (st ! r2)], r2, i))"

definition gen_rand_all :: "w128_t list \<Rightarrow> w128_t list" where
  "gen_rand_all st = fst (
     fold (\<lambda>i. gen_step i (i + POS1 - SFMT_N)) [SFMT_N - POS1 ..< SFMT_N]
       (fold (\<lambda>i. gen_step i (i + POS1)) [0 ..< SFMT_N - POS1] (st, SFMT_N - 2, SFMT_N - 1)))"

section \<open>Reading numbers\<close>

definition refill :: "sfmt_state \<Rightarrow> sfmt_state" where
  "refill s = (if N32 \<le> idx s then s\<lparr>sfmt := gen_rand_all (sfmt s), idx := 0\<rparr> else s)"

definition gen_rand32 :: "sfmt_state \<Rightarrow> (u32 \<times> sfmt_state) res" where
  "gen_rand32 s =
     (if \<not> initialized s then Inl AssertFailed
      else let s' = refill s in Inr (psfmt32 (sfmt s') (idx s'), s'\<lparr>idx := idx s' + 1\<rparr>))"

definition gen_rand64 :: "sfmt_state \<Rightarrow> (u64 \<times> sfmt_state) res" where
  "gen_rand64 s =
     (if \<not> initialized s \<or> odd (idx s) then Inl AssertFailed
      else let s' = refill s in Inr (psfmt64 (sfmt s') (idx s' div 2), s'\<lparr>idx := idx s' + 2\<rparr>))"

section \<open>Seeding\<close>

text \<open>
  \<open>period_certification\<close>: \<open>inner\<close> is an \<open>int\<close>, so its right shifts are arithmetic.  The search
  for a bit to flip runs over the parity words and, in each, over the bits from the lowest.
\<close>

definition inner_parity :: "w128_t list \<Rightarrow> cint" where
  "inner_parity st =
     (let inner = fold (\<lambda>i acc. acc XOR (psfmt32 st i AND parity ! i)) [0 ..< 4] 0;
          inner = fold (\<lambda>i acc. acc XOR signed_drop_bit i acc) [16, 8, 4, 2, 1] inner
      in inner AND 1)"

definition period_certification :: "w128_t list \<Rightarrow> w128_t list" where
  "period_certification st =
     (if inner_parity st = 1 then st
      else case find (\<lambda>(i, j). push_bit j 1 AND parity ! i \<noteq> 0)
                  (List.product [0 ..< 4] [0 ..< 32]) of
        None \<Rightarrow> st
      | Some (i, j) \<Rightarrow> set32 i (psfmt32 st i XOR push_bit j 1) st)"

definition seed_step :: "nat \<Rightarrow> w128_t list \<Rightarrow> w128_t list" where
  "seed_step i st =
     (let p = psfmt32 st (i - 1)
      in set32 i (1812433253 * (p XOR drop_bit 30 p) + word_of_nat i) st)"

definition init_gen_rand :: "u32 \<Rightarrow> sfmt_state \<Rightarrow> sfmt_state" where
  "init_gen_rand seed s =
     \<lparr>sfmt = period_certification (fold seed_step [1 ..< N32] (set32 0 seed (sfmt s))),
      idx = N32, initialized = True\<rparr>"

section \<open>The 128-bit shifts\<close>

text \<open>The element as one 128-bit number, \<open>u[3]\<close> the most significant word.\<close>

definition to128 :: "w128_t \<Rightarrow> 128 word" where
  "to128 w = push_bit 96 (ucast (u3 w)) OR push_bit 64 (ucast (u2 w))
     OR push_bit 32 (ucast (u1 w)) OR ucast (u0 w)"

lemma bit_to128: "bit (to128 w) n \<longleftrightarrow> n < 128 \<and>
   (if n < 32 then bit (u0 w) n else if n < 64 then bit (u1 w) (n - 32)
    else if n < 96 then bit (u2 w) (n - 64) else bit (u3 w) (n - 96))"
  by (auto simp: to128_def bit_simps dest: bit_imp_le_length)

lemma rshift128_to128:
  "to128 (rshift128 w 1) = drop_bit 8 (to128 w)"
  by (intro bit_word_eqI) (auto simp: bit_to128 rshift128_def Let_def bit_simps dest: bit_imp_le_length)

lemma lshift128_to128:
  "to128 (lshift128 w 1) = push_bit 8 (to128 w)"
  by (intro bit_word_eqI) (auto simp: bit_to128 lshift128_def Let_def bit_simps dest: bit_imp_le_length)

section \<open>The refill computes the recurrence\<close>

text \<open>The sequence of the generator as a recurrence, with the old array as its first terms.\<close>
function sfmt_seq :: "w128_t list \<Rightarrow> nat \<Rightarrow> w128_t" where
  "sfmt_seq st k =
     (if k < SFMT_N then st ! k
      else do_recursion (sfmt_seq st (k - SFMT_N)) (sfmt_seq st (k - SFMT_N + POS1))
             (sfmt_seq st (k - 2)) (sfmt_seq st (k - 1)))"
  by pat_completeness auto
termination
  by (relation "measure snd") (auto simp: sfmt_params)

declare sfmt_seq.simps [simp del]

definition gen_inv :: "w128_t list \<Rightarrow> nat \<Rightarrow> w128_t list \<times> nat \<times> nat \<Rightarrow> bool" where
  "gen_inv st i = (\<lambda>(ys, r1, r2). length ys = SFMT_N
     \<and> (\<forall>m < SFMT_N. ys ! m = sfmt_seq st (if m < i then m + SFMT_N else m))
     \<and> r1 = (i + SFMT_N - 2) mod SFMT_N \<and> r2 = (i + SFMT_N - 1) mod SFMT_N)"

lemma gen_step_inv:
  assumes inv: "gen_inv st i t" and i: "i < SFMT_N" and off: "off = (i + POS1) mod SFMT_N"
  shows "gen_inv st (Suc i) (gen_step i off t)"
proof -
  obtain ys r1 r2 where t: "t = (ys, r1, r2)" by (cases t)
  have ys: "length ys = SFMT_N"
      "\<And>m. m < SFMT_N \<Longrightarrow> ys ! m = sfmt_seq st (if m < i then m + SFMT_N else m)"
    and r: "r1 = (i + SFMT_N - 2) mod SFMT_N" "r2 = (i + SFMT_N - 1) mod SFMT_N"
    using inv by (auto simp: gen_inv_def t)
  have "ys ! i = sfmt_seq st i" using ys i by simp
  moreover have "ys ! off = sfmt_seq st (i + POS1)"
    using i off ys(2) [of off]
    by (cases "i + POS1 < SFMT_N") (auto simp: sfmt_params le_mod_geq add.commute)
  moreover have "ys ! r1 = sfmt_seq st (i + SFMT_N - 2)"
    using i r(1) ys(2) [of r1] by (cases "i < 2") (auto simp: sfmt_params le_mod_geq)
  moreover have "ys ! r2 = sfmt_seq st (i + SFMT_N - 1)"
    using i r(2) ys(2) [of r2] by (cases "i < 1") (auto simp: sfmt_params le_mod_geq)
  ultimately have new: "do_recursion (ys ! i) (ys ! off) (ys ! r1) (ys ! r2)
      = sfmt_seq st (i + SFMT_N)"
    by (subst sfmt_seq.simps) (simp add: add.commute)
  have "r2 = (Suc i + SFMT_N - 2) mod SFMT_N" "i = (Suc i + SFMT_N - 1) mod SFMT_N"
    using r i by (simp_all add: sfmt_params)
  with new ys i show ?thesis
    by (auto simp: gen_inv_def t gen_step_def nth_list_update less_Suc_eq)
qed

lemma gen_fold_inv:
  assumes "gen_inv st a t" and "a \<le> b" and "b \<le> SFMT_N"
    and "\<And>i. a \<le> i \<Longrightarrow> i < b \<Longrightarrow> off i = (i + POS1) mod SFMT_N"
  shows "gen_inv st b (fold (\<lambda>i. gen_step i (off i)) [a ..< b] t)"
  using assms(2-4)
proof (induction b rule: dec_induct)
  case base
  then show ?case using assms(1) by simp
next
  case (step n)
  then have "gen_inv st n (fold (\<lambda>i. gen_step i (off i)) [a ..< n] t)" by simp
  from gen_step_inv [OF this] step show ?case by simp
qed

lemma gen_rand_all_seq:
  assumes "length st = SFMT_N"
  shows "length (gen_rand_all st) = SFMT_N"
    and "i < SFMT_N \<Longrightarrow> gen_rand_all st ! i = sfmt_seq st (SFMT_N + i)"
proof -
  have "gen_inv st 0 (st, SFMT_N - 2, SFMT_N - 1)"
    using assms by (auto simp: gen_inv_def sfmt_seq.simps sfmt_params)
  then have "gen_inv st (SFMT_N - POS1)
      (fold (\<lambda>i. gen_step i (i + POS1)) [0 ..< SFMT_N - POS1] (st, SFMT_N - 2, SFMT_N - 1))"
    by (rule gen_fold_inv) (auto simp: sfmt_params)
  then have "gen_inv st SFMT_N
      (fold (\<lambda>i. gen_step i (i + POS1 - SFMT_N)) [SFMT_N - POS1 ..< SFMT_N]
       (fold (\<lambda>i. gen_step i (i + POS1)) [0 ..< SFMT_N - POS1] (st, SFMT_N - 2, SFMT_N - 1)))"
    by (rule gen_fold_inv) (auto simp: sfmt_params le_mod_geq)
  then show "length (gen_rand_all st) = SFMT_N"
    and "i < SFMT_N \<Longrightarrow> gen_rand_all st ! i = sfmt_seq st (SFMT_N + i)"
    by (auto simp: gen_inv_def gen_rand_all_def split_beta add.commute)
qed

section \<open>The state invariant\<close>

text \<open>The generator is seeded and its index is inside the array or just past its end.\<close>

definition sfmt_ok :: "sfmt_state \<Rightarrow> bool" where
  "sfmt_ok s \<longleftrightarrow> initialized s \<and> length (sfmt s) = SFMT_N \<and> idx s \<le> N32"

lemma refill_ok: "sfmt_ok s \<Longrightarrow> sfmt_ok (refill s) \<and> idx (refill s) < N32"
  by (auto simp: sfmt_ok_def refill_def gen_rand_all_seq(1) N32_def SFMT_N_def)

lemma gen_rand32_ok:
  assumes "sfmt_ok s"
  shows "\<exists>s'. gen_rand32 s = Inr (psfmt32 (sfmt s') (idx s' - 1), s') \<and> sfmt_ok s'
    \<and> 0 < idx s' \<and> idx s' = idx (refill s) + 1"
  using refill_ok [OF assms] assms by (auto simp: gen_rand32_def sfmt_ok_def Let_def)

lemma gen_rand64_ok:
  assumes "sfmt_ok s" and "even (idx s)"
  shows "\<exists>x s'. gen_rand64 s = Inr (x, s') \<and> sfmt_ok s' \<and> even (idx s')"
proof -
  have ev: "even (idx (refill s))" using assms(2) by (simp add: refill_def)
  moreover have "even N32" by (simp add: sfmt_params)
  ultimately obtain a b where ab: "idx (refill s) = 2 * a" "N32 = 2 * b" by (auto elim!: evenE)
  have "2 * a < 2 * b" using refill_ok [OF assms(1)] by (simp flip: ab)
  then have "2 * a + 2 \<le> 2 * b" by simp
  then have "idx (refill s) + 2 \<le> N32" by (simp only: ab)
  then show ?thesis
    using refill_ok [OF assms(1)] assms ev by (auto simp: gen_rand64_def sfmt_ok_def Let_def)
qed

section \<open>Seeding\<close>

definition fold_bits :: "cint \<Rightarrow> cint" where
 "fold_bits x = fold (\<lambda>i acc. acc XOR signed_drop_bit i acc) [16, 8, 4, 2, 1] x"

lemma signed_drop_bit_xor:
  "signed_drop_bit i (a XOR b :: 'n::len word) = signed_drop_bit i a XOR signed_drop_bit i b"
  by (rule bit_word_eqI) (auto simp: bit_simps)

lemma fold_bits_xor: "fold_bits (a XOR b) = fold_bits a XOR fold_bits b"
  by (simp add: fold_bits_def signed_drop_bit_xor ac_simps)

lemma fold_bits_1: "fold_bits 1 = 1"
  unfolding fold_bits_def by simp

lemma upt4: "[0 ..< 4] = [0, 1, 2, 3]"
  by (simp add: upt_rec)

lemma mod4_cases: "(i::nat) mod 4 = 0 \<or> i mod 4 = 1 \<or> i mod 4 = 2 \<or> i mod 4 = 3"
  by linarith

lemma psfmt32_set32:
  assumes "i div 4 < length st"
  shows "psfmt32 (set32 i v st) j = (if i = j then v else psfmt32 st j)"
proof (cases "i div 4 = j div 4")
  case True
  then have "i = j \<longleftrightarrow> i mod 4 = j mod 4" by (metis mod_mult_div_eq)
  with True assms mod4_cases [of i] mod4_cases [of j] show ?thesis
    by (cases "st ! (i div 4)") (auto simp: psfmt32_def set32_def)
next
  case False
  then show ?thesis by (auto simp: psfmt32_def set32_def)
qed

lemma length_set32 [simp]: "length (set32 i v st) = length st"
  by (simp add: set32_def)

lemma inner_parity_eq:
  "inner_parity st = fold_bits ((psfmt32 st 0 AND 1) XOR (psfmt32 st 3 AND 0x13c9e684)) AND 1"
  by (simp add: inner_parity_def fold_bits_def upt4 parity_def Let_def numeral_eq_Suc)

lemma and1_cases: "(x AND 1 :: cint) = 0 \<or> x AND 1 = 1"
  by (metis and_one_eq odd_iff_mod_2_eq_one not_mod_2_eq_1_eq_0)

lemma xor_and1: "(x XOR y) AND 1 = (x AND 1) XOR (y AND 1 :: cint)"
  by (rule bit_word_eqI) (auto simp: bit_simps)

lemma length_period_certification [simp]: "length (period_certification st) = length st"
  by (auto simp: period_certification_def split: option.splits)

lemma length_fold_seed [simp]: "length (fold seed_step is st) = length st"
  by (induction "is" arbitrary: st) (simp_all add: seed_step_def Let_def)

lemma period_certified:
  assumes "st \<noteq> []"
  shows "inner_parity (period_certification st) = 1"
proof (cases "inner_parity st = 1")
  case False
  let ?p = "psfmt32 st 0" and ?q = "psfmt32 st 3 AND 0x13c9e684"
  have "find (\<lambda>(i, j). push_bit j 1 AND parity ! i \<noteq> 0) (List.product [0 ..< 4] [0 ..< 32])
      = Some (0, 0)"
    by (simp add: upt_rec parity_def)
  then have pc: "period_certification st = set32 0 (?p XOR 1) st"
    using False by (simp add: period_certification_def)
  have "((?p XOR 1) AND 1) XOR ?q = ((?p AND 1) XOR ?q) XOR 1"
    by (rule bit_word_eqI) (auto simp: bit_simps)
  then have "inner_parity (period_certification st) = inner_parity st XOR 1"
    using assms by (simp add: pc inner_parity_eq psfmt32_set32 fold_bits_xor fold_bits_1 xor_and1)
  moreover have "inner_parity st = 0"
    using False and1_cases by (metis inner_parity_eq)
  ultimately show ?thesis by simp
qed (simp add: period_certification_def)

lemma init_gen_rand_ok:
  "length (sfmt s) = SFMT_N \<Longrightarrow> sfmt_ok (init_gen_rand seed s) \<and> even (idx (init_gen_rand seed s))"
  by (simp add: init_gen_rand_def sfmt_ok_def sfmt_params)

section \<open>The recurrence and the certification\<close>

text \<open>A seeded state with a zero array, for concrete runs.\<close>

definition zero_sfmt :: sfmt_state where
  "zero_sfmt = \<lparr>sfmt = replicate SFMT_N (W128 0 0 0 0), idx = 0, initialized = True\<rparr>"

lemma length_zero_sfmt: "length (sfmt zero_sfmt) = SFMT_N"
  by (simp add: zero_sfmt_def)

lemma zero_sfmt_ok: "sfmt_ok zero_sfmt"
  by (simp add: sfmt_ok_def zero_sfmt_def)

text \<open>
  The in-place refill of the array, with its two loops and its moving pointers, computes the
  linear recurrence of the generator: every element is the recursion applied to the elements
  N, N - POS1, 2 and 1 places before it in the sequence that continues the old array.
\<close>

lemma refill_follows_recurrence:
  assumes "length st = SFMT_N" and "i < SFMT_N"
  shows "gen_rand_all st ! i = sfmt_seq st (SFMT_N + i)
    \<and> sfmt_seq st (SFMT_N + i) = do_recursion (sfmt_seq st i) (sfmt_seq st (i + POS1))
        (sfmt_seq st (SFMT_N + i - 2)) (sfmt_seq st (SFMT_N + i - 1))"
  using gen_rand_all_seq(2) [OF assms] by (subst (2) sfmt_seq.simps) simp

lemma refill_follows_recurrence_witness:
  "gen_rand_all (sfmt zero_sfmt) ! 3 = sfmt_seq (sfmt zero_sfmt) 159"
  using refill_follows_recurrence [OF length_zero_sfmt, of 3] by (simp add: SFMT_N_def)

text \<open>
  After seeding with any value, from any contents of the array, the state passes the period
  certification (the masked parity is 1).
\<close>

lemma init_gen_rand_certified:
  assumes "length (sfmt s) = SFMT_N"
  shows "inner_parity (sfmt (init_gen_rand seed s)) = 1"
proof -
  have "fold seed_step [1 ..< N32] (set32 0 seed (sfmt s)) \<noteq> []"
    using assms by (simp add: SFMT_N_def flip: length_greater_0_conv)
  from period_certified [OF this] show ?thesis by (simp add: init_gen_rand_def)
qed

end
