(* ===== verification/Rand.thy ===== *)
theory Rand
  imports Sfmt
begin

text \<open>
  \<open>utils/random/random.c\<close>: seeding, and the bounded draw \<open>genrand\<close> every access pattern uses.
\<close>

definition init_rand :: "u64 \<Rightarrow> sfmt_state \<Rightarrow> sfmt_state" where
  "init_rand seed s = init_gen_rand (ucast seed) s"

definition INT64_MAX :: u64 where
  "INT64_MAX = 0x7fffffffffffffff"

text \<open>
  \<open>while (t >= INT64_MAX/max * max) t = gen_rand64(); return t % max;\<close> with \<open>bnd\<close> the
  (constant) bound of the loop test.  The loop has no other exit, so it may run forever.
\<close>

partial_function (option) genrand_loop ::
  "u64 \<Rightarrow> u64 \<Rightarrow> u64 \<Rightarrow> sfmt_state \<Rightarrow> (u64 \<times> sfmt_state) res option" where
  "genrand_loop t mx bnd s =
     (if bnd \<le> t then
        (case gen_rand64 s of
          Inl e \<Rightarrow> Some (Inl e)
        | Inr (t', s') \<Rightarrow> genrand_loop t' mx bnd s')
      else Some (Inr (t mod mx, s)))"

definition genrand :: "u64 \<Rightarrow> sfmt_state \<Rightarrow> (u64 \<times> sfmt_state) res" where
  "genrand mx s =
     bindR (gen_rand32 s) (\<lambda>(t, s').
       bindR (cdiv INT64_MAX mx) (\<lambda>q.
         of_loop (genrand_loop (ucast t) mx (q * mx) s')))"

text \<open>The largest bound for which the rejection loop is known to be skipped.\<close>

definition rand_limit :: nat where
  "rand_limit = 2 ^ 63 - 2 ^ 32"

lemma rejection_bound:
  assumes "mx \<noteq> 0" and "unat mx \<le> rand_limit"
  shows "(ucast (t :: u32) :: u64) < INT64_MAX div mx * mx"
proof -
  let ?m = "unat mx"
  have "unat INT64_MAX = 2 ^ 63 - 1" by (simp add: INT64_MAX_def)
  moreover have "unat INT64_MAX div ?m * ?m + unat INT64_MAX mod ?m = unat INT64_MAX"
    by (rule div_mult_mod_eq)
  moreover have "unat INT64_MAX mod ?m < ?m" using assms(1) by (simp add: word_neq_0_conv_unat)
  ultimately have "2 ^ 32 \<le> unat INT64_MAX div ?m * ?m"
    using assms(2) unfolding rand_limit_def by linarith
  moreover have "unat (INT64_MAX div mx * mx) = unat INT64_MAX div ?m * ?m"
    using unat_mult_small [of "INT64_MAX div mx" mx] unsigned_less [where 'a = nat, of INT64_MAX]
    by (simp add: unat_div order_le_less_trans [OF div_times_less_eq_dividend])
  moreover have "unat (ucast t :: u64) < 2 ^ 32"
    using unsigned_less [where 'a = nat, of t] by (simp add: unsigned_ucast_eq take_bit_nat_eq_self)
  ultimately show ?thesis by (simp add: word_less_nat_alt)
qed

lemma genrand_eq:
  assumes "sfmt_ok s" and "mx \<noteq> 0" and "unat mx \<le> rand_limit"
  shows "\<exists>t s'. gen_rand32 s = Inr (t, s') \<and> genrand mx s = Inr (ucast t mod mx, s') \<and> sfmt_ok s'"
proof -
  obtain t s' where g: "gen_rand32 s = Inr (t, s')" "sfmt_ok s'"
    using gen_rand32_ok [OF assms(1)] by blast
  have "\<not> INT64_MAX div mx * mx \<le> ucast t"
    using rejection_bound [OF assms(2,3)] by (simp add: not_le)
  then have "genrand_loop (ucast t) mx (INT64_MAX div mx * mx) s' = Some (Inr (ucast t mod mx, s'))"
    by (subst genrand_loop.simps) simp
  then show ?thesis using g assms(2) by (simp add: genrand_def cdiv_nz)
qed

lemma genrand_ok:
  assumes "sfmt_ok s" and "mx \<noteq> 0" and "unat mx \<le> rand_limit"
  shows "\<exists>v s'. genrand mx s = Inr (v, s') \<and> v < mx \<and> sfmt_ok s'"
  using genrand_eq [OF assms] assms(2) by (auto simp: word_mod_less word_gt_0)

lemma genrand_0: "sfmt_ok s \<Longrightarrow> genrand 0 s = Inl DivByZero"
  using gen_rand32_ok [of s] by (auto simp: genrand_def cdiv_0)

text \<open>With a zero bound the loop test is always true: the loop delivers no number.\<close>

lemma genrand_loop_0:
  assumes ret: "genrand_loop t mx bnd s = Some res" and "bnd = 0"
  shows "res \<noteq> Inr r"
proof -
  have "bnd = 0 \<longrightarrow> (\<forall>r. res \<noteq> Inr r)"
  proof (rule genrand_loop.raw_induct [where P = "\<lambda>t mx bnd s res. bnd = 0 \<longrightarrow> (\<forall>r. res \<noteq> Inr r)",
        OF _ ret])
    fix f and t mx bnd :: u64 and s res
    assume IH: "\<And>t mx bnd s res. f t mx bnd s = Some res \<Longrightarrow> bnd = 0 \<longrightarrow> (\<forall>r. res \<noteq> Inr r)"
      and eq: "(if bnd \<le> t then
        (case gen_rand64 s of Inl e \<Rightarrow> Some (Inl e) | Inr (t', s') \<Rightarrow> f t' mx bnd s')
        else Some (Inr (t mod mx, s))) = Some res"
    show "bnd = 0 \<longrightarrow> (\<forall>r. res \<noteq> Inr r)"
      using eq by (auto split: sum.splits prod.splits dest!: IH)
  qed
  with assms(2) show ?thesis by (cases r) simp
qed

lemma genrand_huge:
  assumes "INT64_MAX < mx"
  shows "genrand mx s \<noteq> Inr r"
proof
  assume "genrand mx s = Inr r"
  then obtain t s' q where "cdiv INT64_MAX mx = Inr q"
      and l: "of_loop (genrand_loop t mx (q * mx) s') = Inr r"
    by (auto simp: genrand_def elim!: bindR_InrE)
  then have "q = 0" using assms by (auto simp: cdiv_def div_word_less split: if_splits)
  with l show False by (auto simp: of_loop_def split: option.splits dest: genrand_loop_0 [where r = r])
qed

section \<open>Properties\<close>

text \<open>
  C34: for a bound between 1 and 2^63 - 2^32 the draw returns, below its bound: it is the next
  32-bit output of the generator reduced by the bound, and the rejection loop never runs.
\<close>

theorem genrand_bounded:
  assumes "sfmt_ok s" and "mx \<noteq> 0" and "unat mx \<le> rand_limit"
  shows "\<exists>t s'. gen_rand32 s = Inr (t, s') \<and> genrand mx s = Inr (ucast t mod mx, s')
    \<and> ucast t mod mx < mx \<and> sfmt_ok s'"
  using genrand_eq [OF assms] assms(2) by (auto simp: word_mod_less word_gt_0)

theorem genrand_bounded_witness:
  "\<exists>v s'. genrand 10 zero_sfmt = Inr (v, s') \<and> v < 10"
  using genrand_bounded [OF zero_sfmt_ok, of 10] by (auto simp: rand_limit_def)

text \<open>
  Outside that range the draw fails: the bound 0 is a division by zero, and a bound above
  INT64_MAX makes the acceptance threshold 0, so no number is ever returned.
\<close>

lemma genrand_bad_bound:
  assumes "sfmt_ok s" and "mx = 0 \<or> INT64_MAX < mx"
  shows "\<nexists>v s'. genrand mx s = Inr (v, s')"
  using genrand_0 [OF assms(1)] genrand_huge [of mx s] assms(2) by auto

lemma genrand_bad_bound_witness:
  "\<nexists>v s'. genrand 0xffffffffffffffff zero_sfmt = Inr (v, s')"
  using genrand_bad_bound [OF zero_sfmt_ok, of "0xffffffffffffffff"] by (simp add: INT64_MAX_def)

end
