(* ===== verification/Iodist.thy ===== *)
theory Iodist
  imports Structs Rand
begin

text \<open>
  \<open>benchcore/accesses/iodist.c\<close>: where the next I/O operation goes.  Three access patterns
  (sequential, uniform, and the NURand hotspot of TPC-C) share one contract, the locale
  \<open>block_position\<close>: a block-aligned offset inside the blocks given.  \<open>get_ioposition\<close> selects the
  pattern and, on a raw device, shifts the offset into the region of the process.
\<close>

unbundle bit_operations_syntax

section \<open>Definitions\<close>

text \<open>The file's globals \<open>c_nurand\<close> and \<open>a_nurand\<close>, with the state of the random generator.\<close>

record access_state =
  c_nurand :: u64
  a_nurand :: u64
  rng :: sfmt_state

definition draw :: "u64 \<Rightarrow> access_state \<Rightarrow> (u64 \<times> access_state) res" where
  "draw mx s = bindR (genrand mx (rng s)) (\<lambda>(v, g). Inr (v, s\<lparr>rng := g\<rparr>))"

definition initialize_nurand :: "u64 \<Rightarrow> access_state \<Rightarrow> access_state res" where
  "initialize_nurand totb s =
     (let s = s\<lparr>a_nurand := totb div 10\<rparr>
      in bindR (draw (a_nurand s + 1) s) (\<lambda>(c, s). Inr (s\<lparr>c_nurand := c\<rparr>)))"

definition init_ioposition :: "'d user_confs \<Rightarrow> access_state \<Rightarrow> access_state res" where
  "init_ioposition conf s =
     (if accesstype conf = TPCC then initialize_nurand (totblocks conf) s else Inr s)"

text \<open>
  \<open>init_io\<close> of \<open>benchcore/io.c\<close>: every process seeds its generator with \<open>seed + procid\<close>.
\<close>

definition init_io :: "'d user_confs \<Rightarrow> int \<Rightarrow> access_state \<Rightarrow> access_state res" where
  "init_io conf procid s =
     init_ioposition conf (s\<lparr>rng := init_rand (seed conf + word_of_int procid) (rng s)\<rparr>)"

text \<open>
  NURand.  C leaves the order of the two \<open>genrand\<close> calls open; the left one is taken first.  The
  range messages of the source write to standard error only.
\<close>

definition get_ioposition_tpcc :: "u64 \<Rightarrow> u64 \<Rightarrow> access_state \<Rightarrow> (u64 \<times> access_state) res" where
  "get_ioposition_tpcc totb bs s =
     (let x = 0; y = totb - 1
      in bindR (draw (a_nurand s) s) (\<lambda>(g1, s).
         bindR (draw y s) (\<lambda>(g2, s).
         bindR (cmod ((g1 OR g2) + c_nurand s) (y - x + 1)) (\<lambda>m.
           let res = m + x in Inr (res * bs, s)))))"

definition get_ioposition_uniform :: "u64 \<Rightarrow> u64 \<Rightarrow> access_state \<Rightarrow> (u64 \<times> access_state) res" where
  "get_ioposition_uniform totb bs s =
     bindR (draw (totb - 1) s) (\<lambda>(res, s). Inr (res * bs, s))"

definition get_ioposition_seq :: "u64 \<Rightarrow> u64 \<Rightarrow> u64 \<Rightarrow> u64 res" where
  "get_ioposition_seq totb cont bs = bindR (cmod cont totb) (\<lambda>r. Inr (r * bs))"

text \<open>The blocks one process addresses: its share of a raw device, or its whole file.\<close>

definition proc_blocks :: "'d user_confs \<Rightarrow> u64 res" where
  "proc_blocks conf =
     (if rawdevice conf then cdiv (totblocks conf) (word_of_int (nprocs conf))
      else Inr (totblocks conf))"

definition get_ioposition ::
  "'d user_confs \<Rightarrow> 'd stats \<Rightarrow> int \<Rightarrow> access_state \<Rightarrow> (u64 \<times> access_state) res" where
  "get_ioposition conf stat idproc s =
     bindR (proc_blocks conf) (\<lambda>total.
     bindR (if accesstype conf = SEQUENTIAL
              then bindR (get_ioposition_seq total (tot_ops stat) (block_size conf))
                     (\<lambda>off. Inr (off, s))
            else if accesstype conf = UNIFORM
              then get_ioposition_uniform total (block_size conf) s
            else get_ioposition_tpcc total (block_size conf) s) (\<lambda>(off, s).
       Inr (if rawdevice conf
            then ((total * block_size conf) * word_of_int idproc + off, s) else (off, s))))"

section \<open>The contract of an access pattern\<close>

locale block_position =
  fixes pos :: "u64 \<Rightarrow> u64 \<Rightarrow> access_state \<Rightarrow> (u64 \<times> access_state) res"
    and ready :: "u64 \<Rightarrow> access_state \<Rightarrow> bool"
  assumes pos_ready: "ready totb s \<Longrightarrow>
    \<exists>r s'. pos totb bs s = Inr (r * bs, s') \<and> r < totb \<and> ready totb s'"
begin

text \<open>The offset a process of region \<open>p\<close> gets: block \<open>totb * p + r\<close> with \<open>r < totb\<close>.\<close>

lemma placed:
  assumes "ready totb s" and fits: "unat totb * Suc p * unat bs < 2 ^ 64"
  obtains r off s' where "pos totb bs s = Inr (off, s')" and "ready totb s'" and "r < unat totb"
    and "unat off = r * unat bs"
    and "unat ((totb * bs) * word_of_nat p + off) = (unat totb * p + r) * unat bs"
proof -
  obtain w s' where pos: "pos totb bs s = Inr (w * bs, s')" "w < totb" "ready totb s'"
    using pos_ready [OF assms(1)] by blast
  let ?t = "unat totb" and ?b = "unat bs" and ?r = "unat w"
  have r: "?r < ?t" using pos(2) by (simp add: word_less_nat_alt)
  have "?t * p + ?r \<le> ?t * Suc p" using r by simp
  then have "(?t * p + ?r) * ?b \<le> ?t * Suc p * ?b" by (rule mult_right_mono) simp
  then have all: "(?t * p + ?r) * ?b < 2 ^ 64" using fits by (rule order_le_less_trans)
  then have "?r * ?b < 2 ^ 64" by (simp add: algebra_simps)
  then have off: "unat (w * bs) = ?r * ?b" by (simp add: unat_mult_small)
  have "(totb * bs) * word_of_nat p + w * bs = word_of_nat ((?t * p + ?r) * ?b)"
    by (simp add: algebra_simps)
  then have "unat ((totb * bs) * word_of_nat p + w * bs) = (?t * p + ?r) * ?b"
    using unat_of_nat_small [where 'n = 64, of "(?t * p + ?r) * ?b"] all by (simp only: len64)
  then show thesis using that [OF pos(1,3) r off] by simp
qed

end

section \<open>The three patterns keep the contract\<close>

definition seq_pos :: "u64 \<Rightarrow> u64 \<Rightarrow> u64 \<Rightarrow> access_state \<Rightarrow> (u64 \<times> access_state) res" where
  "seq_pos cont totb bs s = bindR (get_ioposition_seq totb cont bs) (\<lambda>off. Inr (off, s))"

definition seq_ready :: "u64 \<Rightarrow> access_state \<Rightarrow> bool" where
  "seq_ready totb s \<longleftrightarrow> totb \<noteq> 0"

definition uniform_ready :: "u64 \<Rightarrow> access_state \<Rightarrow> bool" where
  "uniform_ready totb s \<longleftrightarrow> sfmt_ok (rng s) \<and> 1 < totb \<and> unat totb \<le> rand_limit"

definition tpcc_ready :: "u64 \<Rightarrow> access_state \<Rightarrow> bool" where
  "tpcc_ready totb s \<longleftrightarrow> sfmt_ok (rng s) \<and> 1 < totb \<and> unat totb \<le> rand_limit
     \<and> a_nurand s \<noteq> 0 \<and> unat (a_nurand s) \<le> rand_limit"

lemmas ready_defs = seq_ready_def uniform_ready_def tpcc_ready_def

lemma draw_ok:
  assumes "sfmt_ok (rng s)" and "mx \<noteq> 0" and "unat mx \<le> rand_limit"
  obtains v g where "draw mx s = Inr (v, s\<lparr>rng := g\<rparr>)" and "v < mx" and "sfmt_ok g"
  using genrand_ok [OF assms] by (auto simp: draw_def)

lemma seq_contract: "seq_ready totb s \<Longrightarrow>
    \<exists>r s'. seq_pos cont totb bs s = Inr (r * bs, s') \<and> r < totb \<and> seq_ready totb s'"
  by (auto simp: seq_pos_def get_ioposition_seq_def seq_ready_def cmod_nz word_mod_less word_gt_0)

lemma minus1_bound:
  assumes "1 < (totb :: u64)" and "unat totb \<le> rand_limit"
  shows "totb - 1 \<noteq> 0" and "unat (totb - 1) \<le> rand_limit" and "unat (totb - 1) = unat totb - 1"
proof -
  show eq: "unat (totb - 1) = unat totb - 1"
    using assms(1) by (simp add: unat_minus_small)
  from assms eq show "totb - 1 \<noteq> 0" and "unat (totb - 1) \<le> rand_limit" by auto
qed

lemma uniform_draw:
  assumes "uniform_ready totb s"
  shows "\<exists>r s'. get_ioposition_uniform totb bs s = Inr (r * bs, s') \<and> r < totb - 1
    \<and> uniform_ready totb s'"
proof -
  from assms have ok: "sfmt_ok (rng s)" and t: "1 < totb" "unat totb \<le> rand_limit"
    by (auto simp: uniform_ready_def)
  obtain v g where "draw (totb - 1) s = Inr (v, s\<lparr>rng := g\<rparr>)" "v < totb - 1" "sfmt_ok g"
    using draw_ok [OF ok minus1_bound(1,2) [OF t]] .
  with t show ?thesis by (auto simp: get_ioposition_uniform_def uniform_ready_def)
qed

lemma uniform_contract: "uniform_ready totb s \<Longrightarrow>
    \<exists>r s'. get_ioposition_uniform totb bs s = Inr (r * bs, s') \<and> r < totb \<and> uniform_ready totb s'"
  using uniform_draw [of totb s bs] minus1_bound [of totb]
  by (fastforce simp: uniform_ready_def word_less_nat_alt)

lemma tpcc_contract:
  assumes "tpcc_ready totb s"
  shows "\<exists>r s'. get_ioposition_tpcc totb bs s = Inr (r * bs, s') \<and> r < totb \<and> tpcc_ready totb s'"
proof -
  from assms have ok: "sfmt_ok (rng s)" and t: "1 < totb" "unat totb \<le> rand_limit"
    and a: "a_nurand s \<noteq> 0" "unat (a_nurand s) \<le> rand_limit" by (auto simp: tpcc_ready_def)
  obtain v g where d1: "draw (a_nurand s) s = Inr (v, s\<lparr>rng := g\<rparr>)" "sfmt_ok g"
    using draw_ok [OF ok a] by metis
  then have ok': "sfmt_ok (rng (s\<lparr>rng := g\<rparr>))" by simp
  obtain w h where d2: "draw (totb - 1) (s\<lparr>rng := g\<rparr>) = Inr (w, s\<lparr>rng := g\<rparr>\<lparr>rng := h\<rparr>)" "sfmt_ok h"
    using draw_ok [OF ok' minus1_bound(1,2) [OF t]] by metis
  from t have "totb \<noteq> 0" by auto
  then show ?thesis
    using d1 d2 t a by (simp add: get_ioposition_tpcc_def Let_def cmod_nz tpcc_ready_def)
      (rule exI [of _ "((v OR w) + c_nurand s) mod totb"], simp add: word_mod_less word_gt_0)
qed

interpretation seq: block_position "seq_pos cont" seq_ready for cont
  by unfold_locales (rule seq_contract)

interpretation uniform: block_position get_ioposition_uniform uniform_ready
  by unfold_locales (rule uniform_contract)

interpretation tpcc: block_position get_ioposition_tpcc tpcc_ready
  by unfold_locales (rule tpcc_contract)

section \<open>The position of a process\<close>

text \<open>What a pattern needs of the blocks it is given and of the generator.\<close>

definition access_ready :: "access_type \<Rightarrow> u64 \<Rightarrow> access_state \<Rightarrow> bool" where
  "access_ready acc totb s =
     (case acc of SEQUENTIAL \<Rightarrow> seq_ready totb s
      | UNIFORM \<Rightarrow> uniform_ready totb s
      | TPCC \<Rightarrow> tpcc_ready totb s)"

text \<open>The region of a process: its index on a raw device, none in its own file.\<close>

definition region :: "'d user_confs \<Rightarrow> nat \<Rightarrow> nat" where
  "region conf p = (if rawdevice conf then p else 0)"

lemma get_ioposition_placed:
  assumes total: "proc_blocks conf = Inr tb"
    and ready: "access_ready (accesstype conf) tb s"
    and fits: "unat tb * Suc (region conf p) * unat (block_size conf) < 2 ^ 64"
  shows "\<exists>r off s'. get_ioposition conf stat (int p) s = Inr (off, s')
    \<and> access_ready (accesstype conf) tb s' \<and> r < unat tb
    \<and> unat off = (unat tb * region conf p + r) * unat (block_size conf)"
proof -
  let ?bs = "block_size conf"
  have gen: "\<exists>r off s'. get_ioposition conf stat (int p) s = Inr (off, s')
    \<and> access_ready (accesstype conf) tb s' \<and> r < unat tb
    \<and> unat off = (unat tb * region conf p + r) * unat ?bs"
    if "pos tb ?bs s = Inr (off, s')" "access_ready (accesstype conf) tb s'" "r < unat tb"
      "unat off = r * unat ?bs"
      "unat ((tb * ?bs) * word_of_nat (region conf p) + off)
         = (unat tb * region conf p + r) * unat ?bs"
      "get_ioposition conf stat (int p) s = bindR (pos tb ?bs s) (\<lambda>(off, s).
         Inr (if rawdevice conf then ((tb * ?bs) * word_of_nat p + off, s) else (off, s)))"
    for pos r off s'
    using that by (auto simp: region_def split: if_splits)
  show ?thesis
  proof (cases "accesstype conf")
    case SEQUENTIAL
    with ready have "seq_ready tb s" by (simp add: access_ready_def)
    from seq.placed [OF this fits] obtain r off s' where
      "seq_pos (tot_ops stat) tb ?bs s = Inr (off, s')" "seq_ready tb s'" "r < unat tb"
      "unat off = r * unat ?bs" "unat ((tb * ?bs) * word_of_nat (region conf p) + off)
         = (unat tb * region conf p + r) * unat ?bs" .
    then show ?thesis using total
      by (intro gen [of "seq_pos (tot_ops stat)"])
        (auto simp: get_ioposition_def seq_pos_def access_ready_def SEQUENTIAL)
  next
    case UNIFORM
    with ready have "uniform_ready tb s" by (simp add: access_ready_def)
    from uniform.placed [OF this fits] obtain r off s' where
      "get_ioposition_uniform tb ?bs s = Inr (off, s')" "uniform_ready tb s'" "r < unat tb"
      "unat off = r * unat ?bs" "unat ((tb * ?bs) * word_of_nat (region conf p) + off)
         = (unat tb * region conf p + r) * unat ?bs" .
    then show ?thesis using total
      by (intro gen [of get_ioposition_uniform])
        (auto simp: get_ioposition_def access_ready_def UNIFORM)
  next
    case TPCC
    with ready have "tpcc_ready tb s" by (simp add: access_ready_def)
    from tpcc.placed [OF this fits] obtain r off s' where
      "get_ioposition_tpcc tb ?bs s = Inr (off, s')" "tpcc_ready tb s'" "r < unat tb"
      "unat off = r * unat ?bs" "unat ((tb * ?bs) * word_of_nat (region conf p) + off)
         = (unat tb * region conf p + r) * unat ?bs" .
    then show ?thesis using total
      by (intro gen [of get_ioposition_tpcc])
        (auto simp: get_ioposition_def access_ready_def TPCC)
  qed
qed

section \<open>Properties\<close>

lemma proc_blocks_raw:
  assumes "rawdevice conf" and "0 < nprocs conf" and "nprocs conf < 2 ^ 31"
    and "proc_blocks conf = Inr tb"
  shows "unat tb = unat (totblocks conf) div nat (nprocs conf)"
proof -
  have "uint (word_of_int (nprocs conf) :: u64) = nprocs conf"
    using assms(2,3) by (simp add: uint_word_of_int_eq take_bit_int_eq_self)
  then have "unat (word_of_int (nprocs conf) :: u64) = nat (nprocs conf)"
    by (simp only: unat_eq_nat_uint)
  with assms show ?thesis by (auto simp: proc_blocks_def cdiv_def unat_div split: if_splits)
qed

text \<open>The blocks of all regions are blocks of the file, and the file holds them.\<close>

lemma region_blocks:
  assumes "proc_blocks conf = Inr tb"
    and "rawdevice conf \<longrightarrow> int p < nprocs conf \<and> nprocs conf < 2 ^ 31"
  shows "unat tb * Suc (region conf p) \<le> unat (totblocks conf)"
proof (cases "rawdevice conf")
  case True
  let ?n = "nat (nprocs conf)"
  from True assms have p: "Suc p \<le> ?n" by (simp add: Suc_le_eq zless_nat_eq_int_zless)
  from True assms have "unat tb = unat (totblocks conf) div ?n" by (intro proc_blocks_raw) auto
  then have "unat tb * ?n \<le> unat (totblocks conf)" by simp
  with p have "unat tb * Suc p \<le> unat (totblocks conf)" by (meson le_trans mult_le_mono2)
  with True show ?thesis by (simp add: region_def)
next
  case False
  with assms(1) show ?thesis by (simp add: region_def proc_blocks_def)
qed

lemma totblocks_fit:
  assumes "totblocks conf = filesize conf div block_size conf"
  shows "unat (totblocks conf) * unat (block_size conf) \<le> unat (filesize conf)"
  by (simp add: assms unat_div)

lemma region_fits:
  assumes "proc_blocks conf = Inr tb"
    and "rawdevice conf \<longrightarrow> int p < nprocs conf \<and> nprocs conf < 2 ^ 31"
    and "totblocks conf = filesize conf div block_size conf"
  shows "unat tb * Suc (region conf p) * unat (block_size conf) \<le> unat (filesize conf)"
  using mult_le_mono1 [OF region_blocks [OF assms(1,2)]] totblocks_fit [OF assms(3)]
  by (rule order_trans)

lemma region_fits_word:
  assumes "proc_blocks conf = Inr tb"
    and "rawdevice conf \<longrightarrow> int p < nprocs conf \<and> nprocs conf < 2 ^ 31"
    and "totblocks conf = filesize conf div block_size conf"
  shows "unat tb * Suc (region conf p) * unat (block_size conf) < 2 ^ 64"
  using region_fits [OF assms] unsigned_less [where 'a = nat, of "filesize conf"] by simp


text \<open>
  On a raw device two different processes never touch the same bytes: the blocks they access
  are at least one block apart, whatever the state of their generators.
\<close>

lemma raw_regions_disjoint:
  assumes raw: "rawdevice conf" and blocks: "proc_blocks conf = Inr tb"
    and n: "nprocs conf < 2 ^ 31" and p: "int p < nprocs conf" and q: "int q < nprocs conf"
    and "p \<noteq> q"
    and ready: "access_ready (accesstype conf) tb s" "access_ready (accesstype conf) tb t"
    and tot: "totblocks conf = filesize conf div block_size conf"
    and gp: "get_ioposition conf stat (int p) s = Inr (offp, s')"
    and gq: "get_ioposition conf stat' (int q) t = Inr (offq, t')"
  shows "unat offp + unat (block_size conf) \<le> unat offq
    \<or> unat offq + unat (block_size conf) \<le> unat offp"
proof -
  let ?b = "unat (block_size conf)" and ?t = "unat tb"
  have reg: "region conf m = m" for m using raw by (simp add: region_def)
  obtain r where r: "r < ?t" "unat offp = (?t * p + r) * ?b"
    using get_ioposition_placed [OF blocks ready(1), of p stat]
      region_fits_word [OF blocks _ tot, of p] gp n p by (auto simp: reg)
  obtain r' where r': "r' < ?t" "unat offq = (?t * q + r') * ?b"
    using get_ioposition_placed [OF blocks ready(2), of q stat']
      region_fits_word [OF blocks _ tot, of q] gq n q by (auto simp: reg)
  have sep: "(?t * i + k) * ?b + ?b \<le> (?t * j + l) * ?b" if "i < j" "k < ?t" for i j k l
  proof -
    have "Suc (?t * i + k) \<le> ?t * Suc i" using that(2) by simp
    also have "\<dots> \<le> ?t * j + l" using that(1) by (meson Suc_leI le_add1 le_trans mult_le_mono2)
    finally have "Suc (?t * i + k) * ?b \<le> (?t * j + l) * ?b" by (rule mult_le_mono1)
    then show ?thesis by (simp add: add.commute)
  qed
  from \<open>p \<noteq> q\<close> consider "p < q" | "q < p" by linarith
  then show ?thesis using sep [of p q r r'] sep [of q p r' r] r r' by cases simp_all
qed

text \<open>
  The uniform pattern draws from one block too few: the last block of the file is never
  accessed.
\<close>

lemma uniform_never_last_block:
  assumes "accesstype conf = UNIFORM" and "\<not> rawdevice conf"
    and ready: "uniform_ready (totblocks conf) s"
    and tot: "totblocks conf = filesize conf div block_size conf" and "block_size conf \<noteq> 0"
    and g: "get_ioposition conf stat p s = Inr (off, s')"
  shows "unat off div unat (block_size conf) < unat (totblocks conf) - 1"
proof -
  let ?b = "unat (block_size conf)"
  from uniform_draw [OF ready, of "block_size conf"] g assms(1,2)
  obtain r where r: "off = r * block_size conf" "r < totblocks conf - 1"
    by (auto simp: get_ioposition_def proc_blocks_def)
  have "1 < totblocks conf" "unat (totblocks conf) \<le> rand_limit"
    using ready by (simp_all add: uniform_ready_def)
  with r have k: "unat r < unat (totblocks conf) - 1"
    by (simp add: minus1_bound word_less_nat_alt)
  then have "unat r * ?b \<le> unat (totblocks conf) * ?b" by (intro mult_le_mono1) simp
  also have "\<dots> \<le> unat (filesize conf)" using tot by (rule totblocks_fit)
  also have "\<dots> < 2 ^ 64" using unsigned_less [where 'a = nat, of "filesize conf"] by simp
  finally have "unat r * ?b < 2 ^ LENGTH(64)" by simp
  then have "unat off = unat r * ?b" by (simp add: r(1) unat_mult_small)
  moreover have "0 < ?b" using assms(5) by (simp add: unat_gt_0)
  ultimately show ?thesis using k by simp
qed

text \<open>
  On a file of fewer than ten blocks the hotspot pattern has \<open>A = totblocks / 10 = 0\<close>, and
  every access after \<open>init_io\<close> ends in a division by zero in \<open>genrand\<close>.
\<close>

lemma hotspot_small_file_fails:
  assumes "accesstype conf = TPCC" and "totblocks conf < 10" and "length (sfmt (rng s)) = SFMT_N"
    and "proc_blocks conf = Inr tb"
    and init: "init_io conf procid s = Inr s'"
  shows "get_ioposition conf stat p s' = Inl DivByZero"
proof -
  let ?g = "init_rand (seed conf + word_of_int procid) (rng s)"
  have "totblocks conf div 10 = 0" using assms(2) by (simp add: div_word_less)
  moreover have "sfmt_ok ?g" using init_gen_rand_ok [OF assms(3)] by (simp add: init_rand_def)
  ultimately have "a_nurand s' = 0" "sfmt_ok (rng s')"
    using init assms(1) genrand_ok [of ?g 1]
    by (auto simp: init_io_def init_ioposition_def initialize_nurand_def draw_def rand_limit_def
        elim!: bindR_InrE)
  then show ?thesis
    using assms(1,4)
    by (simp add: get_ioposition_def get_ioposition_tpcc_def draw_def genrand_0)
qed

text \<open>
  \<open>init_io\<close> makes every pattern ready: from any state of the static generator array, for
  every seed and process, the accesses that follow are ready to stay in bounds.
\<close>

lemma init_io_ready:
  assumes "length (sfmt (rng s)) = SFMT_N"
    and "accesstype conf \<noteq> SEQUENTIAL \<longrightarrow> 1 < tb" and "tb \<noteq> 0" and "unat tb \<le> rand_limit"
    and "accesstype conf = TPCC \<longrightarrow> 10 \<le> totblocks conf"
  shows "\<exists>s'. init_io conf procid s = Inr s' \<and> access_ready (accesstype conf) tb s'"
proof -
  let ?g = "init_rand (seed conf + word_of_int procid) (rng s)"
  have g: "sfmt_ok ?g" using init_gen_rand_ok [OF assms(1)] by (simp add: init_rand_def)
  show ?thesis
  proof (cases "accesstype conf = TPCC")
    case True
    let ?a = "totblocks conf div 10"
    have a: "unat ?a = unat (totblocks conf) div 10" by (simp add: unat_div)
    have lim: "unat ?a + 1 \<le> rand_limit"
      using unsigned_less [where 'a = nat, of "totblocks conf"] a by (simp add: rand_limit_def)
    have "0 < unat ?a" using True assms(5) a by (simp add: word_le_nat_alt div_greater_zero_iff)
    moreover have "unat (?a + 1) = Suc (unat ?a)"
      using lim by (intro unat_Suc_small) (simp add: rand_limit_def)
    ultimately have "?a \<noteq> 0" and "?a + 1 \<noteq> 0" and "unat (?a + 1) \<le> rand_limit"
      using lim by (auto simp: unat_gt_0)
    with genrand_ok [OF g, of "?a + 1"] True assms lim show ?thesis
      by (auto simp: init_io_def init_ioposition_def initialize_nurand_def draw_def
          access_ready_def tpcc_ready_def)
  next
    case False
    with assms g show ?thesis
      by (cases "accesstype conf") (auto simp: init_io_def init_ioposition_def access_ready_def
          seq_ready_def uniform_ready_def)
  qed
qed

section \<open>Witnesses\<close>

definition zero_access :: access_state where
  "zero_access = \<lparr>c_nurand = 0, a_nurand = 2, rng = zero_sfmt\<rparr>"

definition demo_conf :: "access_type \<Rightarrow> bool \<Rightarrow> u64 \<Rightarrow> rat user_confs" where
  "demo_conf acc raw blocks = (initial_conf exact_fpu 0)\<lparr>accesstype := acc, rawdevice := raw,
     filesize := blocks * 4096, totblocks := blocks\<rparr>"

lemma demo_conf_sel [simp]:
  "accesstype (demo_conf acc raw blocks) = acc" "rawdevice (demo_conf acc raw blocks) = raw"
  "totblocks (demo_conf acc raw blocks) = blocks" "block_size (demo_conf acc raw blocks) = 4096"
  "filesize (demo_conf acc raw blocks) = blocks * 4096" "nprocs (demo_conf acc raw blocks) = 4"
  by (simp_all add: demo_conf_def initial_conf_def)

lemma zero_access_rng: "rng zero_access = zero_sfmt" "length (sfmt (rng zero_access)) = SFMT_N"
  by (simp_all add: zero_access_def length_zero_sfmt)

lemma demo_ready: "access_ready TPCC 25 zero_access" "uniform_ready 100 zero_access"
  by (simp_all add: access_ready_def tpcc_ready_def uniform_ready_def zero_sfmt_ok
      rand_limit_def zero_access_def)

lemma demo_blocks: "proc_blocks (demo_conf acc True 100) = Inr 25"
  "proc_blocks (demo_conf acc False blocks) = Inr blocks"
  by (simp_all add: proc_blocks_def cdiv_def)


lemma raw_regions_disjoint_witness:
  "\<exists>o1 s1 o2 s2. get_ioposition (demo_conf TPCC True 100) (initial_stats exact_fpu) 1 zero_access
      = Inr (o1, s1)
    \<and> get_ioposition (demo_conf TPCC True 100) (initial_stats exact_fpu) 2 zero_access = Inr (o2, s2)
    \<and> (unat o1 + 4096 \<le> unat o2 \<or> unat o2 + 4096 \<le> unat o1)"
proof -
  let ?c = "demo_conf TPCC True 100" and ?st = "initial_stats exact_fpu"
  have placed: "\<exists>a s'. get_ioposition ?c ?st (int p) zero_access = Inr (a, s')" if "p < 4" for p
    using get_ioposition_placed [OF demo_blocks(1), of TPCC zero_access p ?st] that
    by (auto simp: demo_ready region_def)
  obtain o1 s1 where g1: "get_ioposition ?c ?st (int 1) zero_access = Inr (o1, s1)"
    using placed [of 1] by auto
  obtain o2 s2 where g2: "get_ioposition ?c ?st (int 2) zero_access = Inr (o2, s2)"
    using placed [of 2] by auto
  show ?thesis
    using raw_regions_disjoint [OF _ demo_blocks(1) _ _ _ _ _ _ _ g1 g2] g1 g2
    by (auto simp: demo_ready)
qed

lemma uniform_never_last_block_witness:
  "\<exists>off s'. get_ioposition (demo_conf UNIFORM False 100) (initial_stats exact_fpu) 0 zero_access
      = Inr (off, s') \<and> unat off div 4096 < 99"
proof -
  let ?c = "demo_conf UNIFORM False 100" and ?st = "initial_stats exact_fpu"
  obtain off s' where g: "get_ioposition ?c ?st (int 0) zero_access = Inr (off, s')"
    using get_ioposition_placed [OF demo_blocks(2), of UNIFORM 100 zero_access 0 ?st]
    by (auto simp: demo_ready region_def access_ready_def)
  show ?thesis
    using uniform_never_last_block [of ?c zero_access ?st "int 0" off s'] g
    by (auto simp: demo_ready)
qed

lemma init_io_ready_witness:
  "\<exists>s'. init_io (demo_conf TPCC False 100) 2 zero_access = Inr s' \<and> access_ready TPCC 100 s'"
  using init_io_ready [of zero_access "demo_conf TPCC False 100" 100 2]
  by (simp add: zero_access_rng length_zero_sfmt rand_limit_def)

lemma hotspot_small_file_fails_witness:
  "\<exists>s'. init_io (demo_conf TPCC False 4) 0 zero_access = Inr s'
    \<and> get_ioposition (demo_conf TPCC False 4) (initial_stats exact_fpu) 0 s' = Inl DivByZero"
proof -
  let ?c = "demo_conf TPCC False 4" and ?g = "init_rand 0 zero_sfmt"
  have "sfmt_ok ?g" using init_gen_rand_ok [OF length_zero_sfmt] by (simp add: init_rand_def)
  then obtain s' where i: "init_io ?c 0 zero_access = Inr s'"
    using genrand_ok [of ?g 1]
    by (auto simp: init_io_def init_ioposition_def initialize_nurand_def draw_def rand_limit_def
        demo_conf_def initial_conf_def zero_access_rng)
  show ?thesis
    using hotspot_small_file_fails [OF _ _ zero_access_rng(2) demo_blocks(2) i] i by simp
qed

end
