(* ===== verification/Duplicatedist.thy ===== *)
theory Duplicatedist
  imports Sharedmem Generator Berk Iodist
begin

text \<open>
  \<open>benchcore/duplicates/duplicatedist.c\<close> and the request functions of \<open>benchcore/io.c\<close>: the
  initialisation of the content generator, the content of one write, and the log of the duplicates
  a run has written, from the shared counters into the distribution database.
\<close>

section \<open>Definitions\<close>

text \<open>A cell of the mapping through a pointer of \<open>duplicates_info\<close>.\<close>

definition cell_at :: "nat option \<Rightarrow> nat \<Rightarrow> shared \<Rightarrow> u64 res" where
  "cell_at p i mem = (case p of None \<Rightarrow> Inl NullPointer | Some b \<Rightarrow> aget (cells mem) (b + i))"

definition set_cell :: "nat option \<Rightarrow> nat \<Rightarrow> u64 \<Rightarrow> shared \<Rightarrow> shared res" where
  "set_cell p i v mem = (case p of None \<Rightarrow> Inl NullPointer
     | Some b \<Rightarrow> bindR (aset (cells mem) (b + i) v) (\<lambda>cs. Inr (mem\<lparr>cells := cs\<rparr>)))"

text \<open>
  \<open>init\<close>.  The counters are cleared, from the second on, when the distribution is to be written.
  \<open>main\<close> calls \<open>init\<close> before \<open>loadmmap\<close>: the pointer \<open>statistics\<close> is still NULL then.
\<close>

definition clear_statistics :: "'d user_confs \<Rightarrow> duplicates_info \<Rightarrow> shared \<Rightarrow> shared res" where
  "clear_statistics conf info mem =
     foldR (\<lambda>z mem.
       if distout conf
       then set_cell (statistics info) z 0 mem
       else Inr mem) [1 ..< unat (duplicated_blocks info)] mem"

definition init_duplicates ::
  "(duplicates_info \<Rightarrow> (int \<times> 'd generator \<times> duplicates_info) res) \<Rightarrow> 'd user_confs \<Rightarrow>
   duplicates_info \<Rightarrow> shared \<Rightarrow> ('d generator \<times> duplicates_info \<times> shared) res" where
  "init_duplicates initialize conf info mem =
     bindR (initialize info) (\<lambda>(i, g, info).
       if i \<noteq> 1 then Inl (Exited 0)
       else bindR (clear_statistics conf info mem) (\<lambda>mem. Inr (g, info, mem)))"

text \<open>\<open>get_writecontent\<close>, and the two requests of \<open>io.c\<close>.\<close>

definition get_writecontent ::
  "'d fpu \<Rightarrow> block_draw \<Rightarrow> 'd generator \<Rightarrow> u64 \<Rightarrow> block_info \<Rightarrow> (block_info \<times> (nat \<times> nat) \<times> 'd generator) res"
where
  "get_writecontent F dr g idproc info =
     bindR (nextBlock F dr g info) (\<lambda>(info, buf, g). Inr (info\<lparr>proc_id := idproc\<rparr>, buf, g))"

definition write_request ::
  "'d fpu \<Rightarrow> block_draw \<Rightarrow> 'd generator \<Rightarrow> int \<Rightarrow> block_info \<Rightarrow> 'd user_confs \<Rightarrow> 'd stats \<Rightarrow> access_state \<Rightarrow>
   (u64 \<times> block_info \<times> (nat \<times> nat) \<times> 'd generator \<times> access_state) res" where
  "write_request F dr g idproc info conf stat acc =
     bindR (get_writecontent F dr g (word_of_int idproc) info) (\<lambda>(info, buf, g).
     bindR (get_ioposition conf stat idproc acc) (\<lambda>(off, acc). Inr (off, info, buf, g, acc)))"

definition read_request :: "'d user_confs \<Rightarrow> 'd stats \<Rightarrow> int \<Rightarrow> access_state \<Rightarrow> (u64 \<times> access_state) res" where
  "read_request conf stat idproc acc = get_ioposition conf stat idproc acc"

text \<open>
  \<open>gen_outputdist\<close>.  The state of its loop: the lines of \<open>headerdist\<close>, the mapping with the
  counters and \<open>zerodups\<close>, and the database.  \<open>header\<close> says whether \<open>headerdist\<close> could be opened;
  writing to it and closing it fail otherwise.
\<close>

record 's outdist =
  header_lines :: "(u64 \<times> u64) list"
  dist_mem :: shared
  dist_db :: "'s db"

definition header_line :: "bool \<Rightarrow> u64 \<times> u64 \<Rightarrow> 's outdist \<Rightarrow> 's outdist res" where
  "header_line header l s = (if header then Inr (s\<lparr>header_lines := header_lines s @ [l]\<rparr>) else Inl NullStream)"

definition outdist_step ::
  "(u64, 's) bdb \<Rightarrow> bool \<Rightarrow> duplicates_info \<Rightarrow> nat \<Rightarrow> 's outdist \<Rightarrow> 's outdist res" where
  "outdist_step B header info i s =
     bindR (cell_at (statistics info) i (dist_mem s)) (\<lambda>n.
       let bid = word_of_nat i + zero_copy_blocks info in
       if n = 1 then
         bindR (cell_at (zerodups info) 0 (dist_mem s)) (\<lambda>z.
         bindR (set_cell (zerodups info) 0 (z + 1) (dist_mem s)) (\<lambda>mem.
           header_line header (bid, n) (s\<lparr>dist_mem := mem\<rparr>)))
       else if n > 1 then
         bindR (count_up B (n - 1) 1 (dist_db s)) (\<lambda>d. header_line header (bid, n) (s\<lparr>dist_db := d\<rparr>))
       else Inr s)"

definition gen_outputdist ::
  "(u64, 's) bdb \<Rightarrow> bool \<Rightarrow> duplicates_info \<Rightarrow> shared \<Rightarrow> 's db \<Rightarrow> 's outdist res"
where
  "gen_outputdist B header info mem d =
     bindR (foldR (outdist_step B header info) [0 ..< unat (duplicated_blocks info)]
       \<lparr>header_lines = [], dist_mem = mem, dist_db = d\<rparr>) (\<lambda>s.
     bindR (cell_at (zerodups info) 0 (dist_mem s)) (\<lambda>z.
     bindR (count_up B 0 z (dist_db s)) (\<lambda>d.
       if header then Inr (s\<lparr>dist_db := d\<rparr>) else Inl NullStream)))"

section \<open>What is logged\<close>

definition singles :: "(nat \<Rightarrow> u64) \<Rightarrow> nat list \<Rightarrow> u64" where
  "singles f is = word_of_nat (length (filter (\<lambda>i. f i = 1) is))"

definition dup_keys :: "(nat \<Rightarrow> u64) \<Rightarrow> nat list \<Rightarrow> (u64 \<times> u64) list" where
  "dup_keys f is = map (\<lambda>i. (f i - 1, 1)) (filter (\<lambda>i. 1 < f i) is)"

definition log_lines :: "u64 \<Rightarrow> (nat \<Rightarrow> u64) \<Rightarrow> nat list \<Rightarrow> (u64 \<times> u64) list" where
  "log_lines zc f is = map (\<lambda>i. (word_of_nat i + zc, f i)) (filter (\<lambda>i. f i \<noteq> 0) is)"

lemma log_Nil: "singles f [] = 0" "dup_keys f [] = []" "log_lines zc f [] = []"
  by (simp_all add: singles_def dup_keys_def log_lines_def)

lemma log_Cons:
  "singles f (i # is) = (if f i = 1 then 1 else 0) + singles f is"
  "dup_keys f (i # is) = (if 1 < f i then [(f i - 1, 1)] else []) @ dup_keys f is"
  "log_lines zc f (i # is) = (if f i \<noteq> 0 then [(word_of_nat i + zc, f i)] else []) @ log_lines zc f is"
  by (simp_all add: singles_def dup_keys_def log_lines_def)

lemma one_less_word: "1 < (n :: u64) \<longleftrightarrow> n \<noteq> 0 \<and> n \<noteq> 1"
proof -
  have "1 < n \<longleftrightarrow> 1 < unat n" by (simp add: word_less_nat_alt)
  also have "\<dots> \<longleftrightarrow> unat n \<noteq> 0 \<and> unat n \<noteq> 1" by linarith
  also have "\<dots> \<longleftrightarrow> n \<noteq> 0 \<and> n \<noteq> 1" by (simp add: word_unat_eq_iff)
  finally show ?thesis .
qed

lemma outdist_fold:
  assumes "statistics info = Some 0" and "zerodups info = Some z"
    and "z < length (cells (dist_mem s))" and "\<And>i. i \<in> set is \<Longrightarrow> i < z"
    and "\<And>i. i < z \<Longrightarrow> cells (dist_mem s) ! i = f i"
  shows "foldR (outdist_step B True info) is s =
    bindR (foldR (\<lambda>(k, n). count_up B k n) (dup_keys f is) (dist_db s)) (\<lambda>d.
      Inr (s\<lparr>header_lines := header_lines s @ log_lines (zero_copy_blocks info) f is,
             dist_mem := (dist_mem s)\<lparr>cells := (cells (dist_mem s))[z := cells (dist_mem s) ! z + singles f is]\<rparr>,
             dist_db := d\<rparr>))"
  using assms(3-5)
proof (induction "is" arbitrary: s)
  case (Cons i "is")
  have fi: "cells (dist_mem s) ! i = f i" "i < z" "i < length (cells (dist_mem s))"
    using Cons.prems(1) Cons.prems(2) [of i] Cons.prems(3) [of i] by auto
  consider "f i = 0" | "f i = 1" | "f i \<noteq> 0" "f i \<noteq> 1" by blast
  then show ?case
  proof cases
    case 1
    then have "outdist_step B True info i s = Inr s"
      using fi assms(1,2) by (simp add: outdist_step_def cell_at_def aget_def)
    with 1 Cons.IH [of s] Cons.prems show ?thesis by (simp add: log_Cons one_less_word)
  next
    case 2
    let ?s = "s\<lparr>header_lines := header_lines s @ [(word_of_nat i + zero_copy_blocks info, 1)],
      dist_mem := (dist_mem s)\<lparr>cells := (cells (dist_mem s))[z := cells (dist_mem s) ! z + 1]\<rparr>\<rparr>"
    have "outdist_step B True info i s = Inr ?s"
      using 2 fi assms(1,2) Cons.prems(1)
      by (simp add: outdist_step_def cell_at_def set_cell_def aget_def aset_def header_line_def Let_def)
    with 2 Cons.IH [of ?s] Cons.prems show ?thesis by (simp add: log_Cons add.assoc)
  next
    case 3
    let ?s = "\<lambda>d. s\<lparr>dist_db := d, header_lines := header_lines s @ [(word_of_nat i + zero_copy_blocks info, f i)]\<rparr>"
    have "outdist_step B True info i s = bindR (count_up B (f i - 1) 1 (dist_db s)) (\<lambda>d. Inr (?s d))"
      using 3 fi assms(1,2)
      by (simp add: outdist_step_def cell_at_def aget_def header_line_def one_less_word Let_def)
    moreover have "foldR (outdist_step B True info) is (?s d) =
      bindR (foldR (\<lambda>(k, n). count_up B k n) (dup_keys f is) d) (\<lambda>d.
        Inr (s\<lparr>header_lines := header_lines s @ (word_of_nat i + zero_copy_blocks info, f i)
                 # log_lines (zero_copy_blocks info) f is,
             dist_mem := (dist_mem s)\<lparr>cells := (cells (dist_mem s))[z := cells (dist_mem s) ! z + singles f is]\<rparr>,
             dist_db := d\<rparr>))" for d
      using Cons.IH [of "?s d"] Cons.prems by simp
    ultimately show ?thesis using 3 by (cases s) (simp add: log_Cons one_less_word bindR_assoc)
  qed
qed (simp add: log_Nil)

text \<open>The counter of a key; an absent key counts zero.\<close>

definition tally :: "('k \<Rightarrow> u64 option) \<Rightarrow> 'k \<Rightarrow> u64" where
  "tally t k = (case t k of None \<Rightarrow> 0 | Some v \<Rightarrow> v)"

lemma sum_list_ones: "sum_list (map (\<lambda>i. 1 :: 'n::len word) xs) = word_of_nat (length xs)"
  by (induction xs) auto

lemma dup_keys_sum:
  "sum_list (map snd (filter (\<lambda>p. fst p = k) (dup_keys f is)))
     = word_of_nat (length (filter (\<lambda>i. 1 < f i \<and> f i = k + 1) is))"
proof -
  have "filter (\<lambda>p. fst p = k) (dup_keys f is)
      = map (\<lambda>i. (f i - 1, 1)) (filter (\<lambda>i. 1 < f i \<and> f i = k + 1) is)"
    by (induction "is") (auto simp: log_Nil log_Cons)
  then show ?thesis by (simp add: comp_def sum_list_ones)
qed

lemma dup_keys_keys: "k \<in> fst ` set (dup_keys f is) \<longleftrightarrow> filter (\<lambda>i. 1 < f i \<and> f i = k + 1) is \<noteq> []"
  by (auto simp: dup_keys_def filter_empty_conv image_iff)

lemma length_filter_upt: "length (filter P [0 ..< n]) = card {i. i < n \<and> P i}"
  by (subst distinct_card [symmetric]) (auto intro: arg_cong [where f = card])

lemma logged:
  assumes h: "hash_store B ok content" and d: "db_ok ok d"
    and p: "statistics info = Some 0" "zerodups info = Some (unat (duplicated_blocks info))"
    and len: "unat (duplicated_blocks info) < length (cells mem)"
  shows "\<exists>s. gen_outputdist B True info mem d = Inr s \<and> db_ok ok (dist_db s)
    \<and> header_lines s = log_lines (zero_copy_blocks info) ((!) (cells mem)) [0 ..< unat (duplicated_blocks info)]
    \<and> (\<forall>k. k \<noteq> 0 \<longrightarrow> tally (db_table content (dist_db s)) k = tally (db_table content d) k
         + word_of_nat (card {i. i < unat (duplicated_blocks info) \<and> 1 < cells mem ! i \<and> cells mem ! i = k + 1}))
    \<and> tally (db_table content (dist_db s)) 0 = tally (db_table content d) 0
         + (cells mem ! unat (duplicated_blocks info)
            + word_of_nat (card {i. i < unat (duplicated_blocks info) \<and> cells mem ! i = 1}))"
proof -
  let ?n = "unat (duplicated_blocks info)" and ?f = "(!) (cells mem)"
  let ?zc = "zero_copy_blocks info"
  have ct: "counter_table (count_up B) (db_table content) (db_ok ok)"
    using hash_store.count_up_ok [OF h] by (intro counter_table.intro) blast
  from counter_table.add_all [OF ct d, of "dup_keys ?f [0 ..< ?n]"] obtain d1 where
    d1: "foldR (\<lambda>(k, n). count_up B k n) (dup_keys ?f [0 ..< ?n]) d = Inr d1" "db_ok ok d1"
    "db_table content d1 = (\<lambda>k. if k \<in> fst ` set (dup_keys ?f [0 ..< ?n])
        then Some (sum_list (map snd (filter (\<lambda>p. fst p = k) (dup_keys ?f [0 ..< ?n])))
                   + (case db_table content d k of None \<Rightarrow> 0 | Some v \<Rightarrow> v))
        else db_table content d k)" by blast
  have t1: "tally (db_table content d1) k = tally (db_table content d) k
      + word_of_nat (card {i. i < ?n \<and> 1 < ?f i \<and> ?f i = k + 1})" for k
  proof (cases "k \<in> fst ` set (dup_keys ?f [0 ..< ?n])")
    case True
    then show ?thesis
      by (simp add: d1(3) tally_def dup_keys_sum length_filter_upt add.commute)
  next
    case False
    then have "filter (\<lambda>i. 1 < ?f i \<and> ?f i = k + 1) [0 ..< ?n] = []" by (simp add: dup_keys_keys)
    then have "card {i. i < ?n \<and> 1 < ?f i \<and> ?f i = k + 1} = 0"
      by (simp only: length_filter_upt [symmetric] list.size)
    with False show ?thesis by (simp only: d1(3) tally_def if_False) simp
  qed
  let ?mem = "mem\<lparr>cells := (cells mem)[?n := cells mem ! ?n + singles ?f [0 ..< ?n]]\<rparr>"
  let ?z = "cells mem ! ?n + singles ?f [0 ..< ?n]"
  from hash_store.count_up_ok [OF h d1(2), of 0 ?z] obtain d2 where
    d2: "count_up B 0 ?z d1 = Inr d2" "db_ok ok d2"
    "db_table content d2 = (db_table content d1)
       (0 \<mapsto> ?z + (case db_table content d1 0 of None \<Rightarrow> 0 | Some v \<Rightarrow> v))" by blast
  let ?s = "\<lparr>header_lines = log_lines ?zc ?f [0 ..< ?n], dist_mem = ?mem, dist_db = d2\<rparr>"
  have "foldR (outdist_step B True info) [0 ..< ?n] \<lparr>header_lines = [], dist_mem = mem, dist_db = d\<rparr>
      = Inr \<lparr>header_lines = log_lines ?zc ?f [0 ..< ?n], dist_mem = ?mem, dist_db = d1\<rparr>"
    using outdist_fold [OF p, of "\<lparr>header_lines = [], dist_mem = mem, dist_db = d\<rparr>" "[0 ..< ?n]" ?f B]
      len d1(1) by simp
  then have run: "gen_outputdist B True info mem d = Inr ?s"
    using p d2(1) len by (simp add: gen_outputdist_def cell_at_def aget_def)
  have e: "{i. i < ?n \<and> 1 < ?f i \<and> ?f i = 0 + 1} = {}" by auto
  have "tally (db_table content d1) 0 = tally (db_table content d) 0"
    using t1 [of 0] unfolding e by simp
  then have "tally (db_table content d2) 0 = tally (db_table content d) 0 + ?z"
    by (simp add: d2(3) tally_def)
  moreover have "\<forall>k. k \<noteq> 0 \<longrightarrow> tally (db_table content d2) k = tally (db_table content d1) k"
    by (simp add: d2(3) tally_def)
  ultimately show ?thesis using run d2(2) t1
    by (simp add: singles_def length_filter_upt)
qed

section \<open>Properties\<close>

text \<open>
  C12: \<open>gen_outputdist\<close> turns the counters of the blocks written into the distribution: every block
  with copies that was written once counts as a block without duplicates, with those the counter
  \<open>zerodups\<close> has already, and every block written \<open>k + 1\<close> times adds one to the entry of \<open>k\<close>; the
  header lists the blocks written, in order, with their identifiers in the whole range of blocks
  and their counts.
\<close>

theorem duplicates_logged:
  assumes "hash_store B ok content" and "db_ok ok d" and "statistics info = Some 0"
    and "zerodups info = Some (unat (duplicated_blocks info))"
    and "unat (duplicated_blocks info) < length (cells mem)"
  shows "\<exists>s. gen_outputdist B True info mem d = Inr s \<and> db_ok ok (dist_db s)
    \<and> header_lines s = log_lines (zero_copy_blocks info) ((!) (cells mem)) [0 ..< unat (duplicated_blocks info)]
    \<and> (\<forall>k. k \<noteq> 0 \<longrightarrow> tally (db_table content (dist_db s)) k = tally (db_table content d) k
         + word_of_nat (card {i. i < unat (duplicated_blocks info) \<and> 1 < cells mem ! i \<and> cells mem ! i = k + 1}))
    \<and> tally (db_table content (dist_db s)) 0 = tally (db_table content d) 0
         + (cells mem ! unat (duplicated_blocks info)
            + word_of_nat (card {i. i < unat (duplicated_blocks info) \<and> cells mem ! i = 1}))"
  using logged [OF assms] .

text \<open>A run with four blocks with copies, written once, three times, never and three times.\<close>

definition log_info :: duplicates_info where
  "log_info = \<lparr>total_blocks = 0, zero_copy_blocks = 10, duplicated_blocks = 4, statistics = Some 0,
     zerodups = Some 4, u_count = 5, content_tracker = None\<rparr>"

definition log_mem :: shared where
  "log_mem = \<lparr>cells = [1, 3, 0, 3, 6], content_map = []\<rparr>"

theorem duplicates_logged_witness:
  "\<exists>s. gen_outputdist mem_bdb True log_info log_mem mem_new = Inr s
     \<and> header_lines s = [(10, 1), (11, 3), (13, 3)]
     \<and> tally (db_table map_of (dist_db s)) 0 = 7 \<and> tally (db_table map_of (dist_db s)) 2 = 2"
proof -
  have p: "statistics log_info = Some 0" "zerodups log_info = Some (unat (duplicated_blocks log_info))"
    "unat (duplicated_blocks log_info) < length (cells log_mem)" "duplicated_blocks log_info = 4"
    "zero_copy_blocks log_info = 10" "cells log_mem = [1, 3, 0, 3, 6]"
    by (simp_all add: log_info_def log_mem_def)
  have ok: "db_ok mem_ok (mem_new :: (u64 \<times> u64) list db)"
    by (simp add: db_ok_def mem_new_def mem_ok_def)
  have new: "db_table map_of (mem_new :: (u64 \<times> u64) list db) = (\<lambda>_. None)"
    by (simp add: db_table_def mem_new_def)
  from duplicates_logged [OF mem.hash_store_axioms ok p(1-3)] obtain s where
    s: "gen_outputdist mem_bdb True log_info log_mem mem_new = Inr s"
    "header_lines s = log_lines 10 ((!) [1, 3, 0, 3, 6]) [0 ..< 4]"
    "\<forall>k. k \<noteq> 0 \<longrightarrow> tally (db_table map_of (dist_db s)) k = word_of_nat
         (card {i. i < 4 \<and> 1 < [1, 3, 0, 3, 6 :: u64] ! i \<and> [1, 3, 0, 3, 6] ! i = k + 1})"
    "tally (db_table map_of (dist_db s)) 0 =
       [1, 3, 0, 3, 6] ! 4 + word_of_nat (card {i. i < 4 \<and> [1, 3, 0, 3, 6 :: u64] ! i = 1})"
    by (auto simp: p(4-6) new tally_def)
  have u: "[0 ..< 4] = [0, 1, 2, 3 :: nat]" by code_simp
  have "header_lines s = [(10, 1), (11, 3), (13, 3)]" by (simp add: s(2) u log_lines_def)
  moreover have "tally (db_table map_of (dist_db s)) 2 = 2"
    using s(3) [rule_format, of 2] by (simp add: length_filter_upt [symmetric] u)
  moreover have "tally (db_table map_of (dist_db s)) 0 = 7"
    using s(4) by (simp add: length_filter_upt [symmetric] u)
  ultimately show ?thesis using s(1) by blast
qed

text \<open>
  With the option that writes the distribution and more than one block with copies, \<open>init\<close>
  writes through the null pointer \<open>statistics\<close> unless the mapping has been loaded before it.
\<close>

lemma init_before_loadmmap_crashes:
  assumes "initialize info = Inr (1, g, info')" and "distout conf" and "1 < unat (duplicated_blocks info')"
    and "statistics info' = None"
  shows "init_duplicates initialize conf info mem = Inl NullPointer"
  using assms by (simp add: init_duplicates_def clear_statistics_def set_cell_def upt_conv_Cons)

lemma init_before_loadmmap_crashes_witness:
  "init_duplicates (\<lambda>info. Inr (1, demo_gen, info)) (shm_conf\<lparr>distout := True\<rparr>) shm_info log_mem
     = Inl NullPointer"
  by (rule init_before_loadmmap_crashes [OF refl]) (simp_all add: shm_info_def)

end
