(* ===== verification/Files.thy ===== *)
theory Files
  imports Prelude
begin

text \<open>
  The files the program writes blocks to: \<open>pwrite\<close> and \<open>pread\<close> on a list of bytes, and the loop that
  \<open>real_populate\<close> and \<open>file_integrity\<close> share, which runs over a file in steps of the block size.
\<close>

section \<open>Reading and writing\<close>

text \<open>A write behind the end of a file fills the gap with zeros; a read stops at the end.\<close>

definition pwrite_file :: "u8 list \<Rightarrow> nat \<Rightarrow> u8 list \<Rightarrow> u8 list" where
  "pwrite_file f off dat = take off (f @ replicate (off - length f) 0) @ dat @ drop (off + length dat) f"

definition pread_file :: "u8 list \<Rightarrow> nat \<Rightarrow> nat \<Rightarrow> u8 list" where
  "pread_file f off n = take n (drop off f)"

lemma nth_pwrite_in: "i < length dat \<Longrightarrow> pwrite_file f off dat ! (off + i) = dat ! i"
proof -
  assume i: "i < length dat"
  let ?h = "take off (f @ replicate (off - length f) 0)"
  have h: "length ?h = off" by simp
  have "(?h @ dat @ drop (off + length dat) f) ! (length ?h + i) = dat ! i"
    using i by (simp only: nth_append_length_plus) (simp add: nth_append)
  then show ?thesis unfolding h pwrite_file_def .
qed

lemma length_pwrite [simp]: "length (pwrite_file f off dat) = max (length f) (off + length dat)"
  by (simp add: pwrite_file_def)

lemma nth_pwrite_out:
  assumes "i < length f" and "i < off \<or> off + length dat \<le> i"
  shows "pwrite_file f off dat ! i = f ! i"
  using assms by (auto simp: pwrite_file_def nth_append min_def)

lemma pread_pwrite_same: "pread_file (pwrite_file f off dat) off (length dat) = dat"
  by (rule nth_equalityI) (auto simp: pread_file_def nth_pwrite_in)

lemma pread_pwrite_other:
  assumes "off' + n \<le> off \<or> off + length dat \<le> off'" and "off' + n \<le> length f"
  shows "pread_file (pwrite_file f off dat) off' n = pread_file f off' n"
  using assms by (intro nth_equalityI) (auto simp: pread_file_def nth_pwrite_out)

section \<open>The loop over the blocks of a file\<close>

text \<open>
  \<open>while (off < filesize) { ...; off += block_size; }\<close> with \<open>uint64_t\<close> variables: it does not end for
  every file and block size.
\<close>

partial_function (option) block_loop ::
  "(u64 \<Rightarrow> 's \<Rightarrow> 's res) \<Rightarrow> u64 \<Rightarrow> u64 \<Rightarrow> u64 \<Rightarrow> 's \<Rightarrow> (u64 \<times> 's) res option" where
  "block_loop step bs fsz off s =
     (if off < fsz
      then (case step off s of Inl e \<Rightarrow> Some (Inl e) | Inr s \<Rightarrow> block_loop step bs fsz (off + bs) s)
      else Some (Inr (off, s)))"

definition run_blocks :: "(u64 \<Rightarrow> 's \<Rightarrow> 's res) \<Rightarrow> u64 \<Rightarrow> u64 \<Rightarrow> 's \<Rightarrow> (u64 \<times> 's) res" where
  "run_blocks step bs fsz s = of_loop (block_loop step bs fsz 0 s)"

definition block_count :: "u64 \<Rightarrow> u64 \<Rightarrow> nat" where
  "block_count bs fsz = (unat fsz + unat bs - 1) div unat bs"

definition offset_of :: "u64 \<Rightarrow> nat \<Rightarrow> u64" where
  "offset_of bs k = word_of_nat (k * unat bs)"

text \<open>When the last step does not wrap around, the loop runs once per block, in order.\<close>

lemma block_count_bounds:
  assumes "0 < unat bs" and "k < block_count bs fsz"
  shows "k * unat bs < unat fsz"
proof -
  have "Suc k * unat bs \<le> unat fsz + unat bs - 1"
    using assms by (simp add: block_count_def less_eq_div_iff_mult_less_eq Suc_le_eq [symmetric] del: mult_Suc)
  with assms(1) show ?thesis by simp
qed

lemma block_count_end:
  assumes "0 < unat bs"
  shows "unat fsz \<le> block_count bs fsz * unat bs" "block_count bs fsz * unat bs \<le> unat fsz + unat bs - 1"
proof -
  have "(unat fsz + unat bs - 1) mod unat bs < unat bs" using assms by simp
  then show "unat fsz \<le> block_count bs fsz * unat bs"
    using div_mult_mod_eq [of "unat fsz + unat bs - 1" "unat bs"] unfolding block_count_def by linarith
  show "block_count bs fsz * unat bs \<le> unat fsz + unat bs - 1"
    by (simp add: block_count_def)
qed

lemma block_loop_blocks:
  assumes "0 < unat bs" and "unat fsz + unat bs \<le> 2 ^ 64" and "k \<le> block_count bs fsz"
  shows "block_loop step bs fsz (offset_of bs k) s =
    Some (bindR (foldR (\<lambda>k. step (offset_of bs k)) [k ..< block_count bs fsz] s)
            (\<lambda>s. Inr (offset_of bs (block_count bs fsz), s)))"
  using assms(3)
proof (induction "block_count bs fsz - k" arbitrary: k s)
  case 0
  then have k: "k = block_count bs fsz" by simp
  have "k * unat bs < 2 ^ 64" using block_count_end(2) [OF assms(1), of fsz] assms(1,2) k by simp
  then have "unat (offset_of bs k) = k * unat bs" unfolding offset_of_def by (intro unat_of_nat_small) simp
  then have "\<not> offset_of bs k < fsz"
    using block_count_end(1) [OF assms(1), of fsz] k by (simp add: word_less_nat_alt)
  with k show ?case by (simp add: block_loop.simps)
next
  case (Suc d)
  then have k: "k < block_count bs fsz" by simp
  note b = block_count_bounds [OF assms(1) k]
  have "k * unat bs < 2 ^ 64" using b by (rule order_less_trans) (simp add: unsigned_less [where 'a = nat, of fsz, simplified])
  then have "unat (offset_of bs k) = k * unat bs" unfolding offset_of_def by (intro unat_of_nat_small) simp
  then have lt: "offset_of bs k < fsz" using b by (simp add: word_less_nat_alt)
  have nxt: "offset_of bs k + bs = offset_of bs (Suc k)"
    by (simp add: offset_of_def add.commute)
  have u: "[k ..< block_count bs fsz] = k # [Suc k ..< block_count bs fsz]" using k by (simp add: upt_conv_Cons)
  have "block_loop step bs fsz (offset_of bs (Suc k)) t =
    Some (bindR (foldR (\<lambda>k. step (offset_of bs k)) [Suc k ..< block_count bs fsz] t)
            (\<lambda>s. Inr (offset_of bs (block_count bs fsz), s)))" for t
    using Suc k by (intro Suc.hyps(1)) auto
  then show ?case
    by (subst block_loop.simps) (simp add: lt nxt u split: sum.split)
qed

lemma run_blocks_eq:
  assumes "0 < unat bs" and "unat fsz + unat bs \<le> 2 ^ 64"
  shows "run_blocks step bs fsz s =
    bindR (foldR (\<lambda>k. step (offset_of bs k)) [0 ..< block_count bs fsz] s)
      (\<lambda>s. Inr (offset_of bs (block_count bs fsz), s))"
  using block_loop_blocks [OF assms, of 0 step s] by (simp add: run_blocks_def offset_of_def)

lemma offset_div:
  assumes "0 < unat bs" and "k < block_count bs fsz"
  shows "unat (offset_of bs k) = k * unat bs" "unat (offset_of bs k div bs) = k"
proof -
  have "k * unat bs < 2 ^ 64" using block_count_bounds [OF assms]
    by (rule order_less_trans) (simp add: unsigned_less [where 'a = nat, of fsz, simplified])
  then show "unat (offset_of bs k) = k * unat bs" unfolding offset_of_def by (intro unat_of_nat_small) simp
  with assms(1) show "unat (offset_of bs k div bs) = k" by (simp add: unat_div)
qed

end
