(* ===== verification/Populate.thy ===== *)
theory Populate
  imports Duplicatedist Files
begin

text \<open>
  \<open>populate/populate.c\<close>: the names of the files of the processes, opening and removing them, and
  filling them before a test, with \<open>dd\<close> or with generated content.  The shared counters and the
  content trackers record what is written.

  The file system maps names to bytes, and the name stands for the descriptor.  Which files can be
  opened, the result of each \<open>pwrite\<close> (as a function of its offset), the draws of the generator (as
  a function of the offset they serve) and the effect of the \<open>dd\<close> command are inputs.
\<close>

section \<open>Files of the processes\<close>

type_synonym fs = "string \<Rightarrow> u8 list option"

definition TMP_FILE :: string where "TMP_FILE = ''dedisbench_0010test''"

text \<open>Building a string in an array of \<open>n\<close> characters.\<close>

definition sprintf_into :: "nat \<Rightarrow> string \<Rightarrow> string res" where
  "sprintf_into n s = (if length s < n then Inr s else Inl OutOfBounds)"

definition pfile_name :: "'d user_confs \<Rightarrow> int \<Rightarrow> string res" where
  "pfile_name conf procid =
     bindR (sprintf_into 4 (show_int procid)) (\<lambda>id.
       sprintf_into PATH_SIZE (tempfilespath conf @ TMP_FILE @ id))"

definition open_rawdev :: "(string \<Rightarrow> bool) \<Rightarrow> 'd user_confs \<Rightarrow> fs \<Rightarrow> string res" where
  "open_rawdev ok conf fs =
     (if ok (rawpath conf) \<and> fs (rawpath conf) \<noteq> None then Inr (rawpath conf) else Inl (Exited 0))"

definition create_pfile :: "(string \<Rightarrow> bool) \<Rightarrow> int \<Rightarrow> 'd user_confs \<Rightarrow> fs \<Rightarrow> (string \<times> fs) res" where
  "create_pfile ok procid conf fs =
     bindR (pfile_name conf procid) (\<lambda>name.
       if \<not> ok name then Inl (Exited 0)
       else Inr (name, case fs name of None \<Rightarrow> fs(name \<mapsto> []) | Some _ \<Rightarrow> fs))"

text \<open>\<open>destroy_pfile\<close> builds \<open>rm <name>\<close> in an array of the same size; \<open>sys\<close> is \<open>system\<close>.\<close>

definition destroy_pfile :: "(string \<Rightarrow> fs \<Rightarrow> fs) \<Rightarrow> int \<Rightarrow> 'd user_confs \<Rightarrow> fs \<Rightarrow> fs res" where
  "destroy_pfile sys procid conf fs =
     bindR (sprintf_into 4 (show_int procid)) (\<lambda>id.
     bindR (sprintf_into PATH_SIZE (''rm '' @ tempfilespath conf @ TMP_FILE @ id)) (\<lambda>cmd.
       Inr (sys cmd fs)))"

section \<open>Recording a block\<close>

text \<open>\<open>content_tracker[pos][idx] = bi\<close>, with \<open>pos\<close> 0 on a raw device.\<close>

definition track_base :: "'d user_confs \<Rightarrow> duplicates_info \<Rightarrow> int \<Rightarrow> nat res" where
  "track_base conf info idproc =
     (let pos = (if rawdevice conf then 0 else idproc)
      in case content_tracker info of None \<Rightarrow> Inl NullPointer
         | Some ts \<Rightarrow> if pos < 0 then Inl OutOfBounds else aget ts (nat pos))"

definition track_block ::
  "'d user_confs \<Rightarrow> duplicates_info \<Rightarrow> int \<Rightarrow> u64 \<Rightarrow> block_info \<Rightarrow> shared \<Rightarrow> shared res" where
  "track_block conf info idproc off bi mem =
     (if integrity conf \<ge> 1 then
        bindR (cdiv off (block_size conf)) (\<lambda>q.
        bindR (track_base conf info idproc) (\<lambda>b.
        bindR (aset (content_map mem) (b + unat q) bi) (\<lambda>cm. Inr (mem\<lparr>content_map := cm\<rparr>))))
      else Inr mem)"

text \<open>\<open>statistics[cont_id - zero_copy_blocks]++\<close> for a block with copies.\<close>

definition count_block :: "'d user_confs \<Rightarrow> duplicates_info \<Rightarrow> block_info \<Rightarrow> shared \<Rightarrow> shared res" where
  "count_block conf info bi mem =
     (if distout conf \<and> \<not> flag_unique_block bi then
        let i = unat (ucast (cont_id bi) - zero_copy_blocks info)
        in bindR (cell_at (statistics info) i mem) (\<lambda>n. set_cell (statistics info) i (n + 1) mem)
      else Inr mem)"

text \<open>
  \<open>pwrite(fd, buf, n, off)\<close>: reading \<open>n\<close> bytes from a shorter buffer is out of bounds; \<open>result\<close> is
  the number of bytes written, or -1.
\<close>

definition write_block :: "int \<Rightarrow> string \<Rightarrow> u8 list \<Rightarrow> u64 \<Rightarrow> u64 \<Rightarrow> fs \<Rightarrow> fs res" where
  "write_block result name buf n off fs =
     (if length buf < unat n then Inl OutOfBounds
      else if result \<le> 0 then Inr fs
      else Inr (fs(name \<mapsto> pwrite_file (case fs name of None \<Rightarrow> [] | Some f \<Rightarrow> f) (unat off)
             (take (nat result) (take (unat n) buf)))))"

section \<open>Populating\<close>

record 'd pop_state =
  p_gen :: "'d generator"
  p_mem :: shared
  p_fs :: fs
  p_rng :: sfmt_state

definition blank_info :: block_info where
  "blank_info = \<lparr>cont_id = 0, proc_id = 0, block_id = 0, compression_index = 0, flag_unique_block = False\<rparr>"

text \<open>One round of the loop of \<open>real_populate\<close>.  \<open>write_request\<close> is commented out there.\<close>

definition populate_step ::
  "'d fpu \<Rightarrow> (u64 \<Rightarrow> block_draw) \<Rightarrow> (u64 \<Rightarrow> int) \<Rightarrow> 'd user_confs \<Rightarrow> duplicates_info \<Rightarrow> int \<Rightarrow> string \<Rightarrow>
   u64 \<Rightarrow> 'd pop_state \<Rightarrow> 'd pop_state res" where
  "populate_step F draws wres conf info idproc name off s =
     bindR (get_writecontent F (draws off) (p_gen s) (word_of_int idproc) blank_info) (\<lambda>(bi, buf, g).
     bindR (count_block conf info bi (p_mem s)) (\<lambda>mem.
     bindR (write_block (wres off) name (buffer_at g buf) (block_size conf) off (p_fs s)) (\<lambda>fs.
     bindR (track_block conf info idproc off bi mem) (\<lambda>mem.
       Inr (s\<lparr>p_gen := g, p_mem := mem, p_fs := fs\<rparr>)))))"

definition real_populate ::
  "'d fpu \<Rightarrow> (u64 \<Rightarrow> block_draw) \<Rightarrow> (u64 \<Rightarrow> int) \<Rightarrow> 'd user_confs \<Rightarrow> duplicates_info \<Rightarrow> int \<Rightarrow> string \<Rightarrow>
   'd pop_state \<Rightarrow> (u64 \<times> 'd pop_state) res" where
  "real_populate F draws wres conf info idproc name s =
     run_blocks (populate_step F draws wres conf info idproc name) (block_size conf) (filesize conf)
       (s\<lparr>p_rng := init_rand (seed conf + word_of_int (nprocs conf)) (p_rng s)\<rparr>)"

definition dd_populate :: "(string \<Rightarrow> fs \<Rightarrow> fs) \<Rightarrow> string \<Rightarrow> 'd user_confs \<Rightarrow> fs \<Rightarrow> (u64 \<times> fs) res" where
  "dd_populate sys name conf fs =
     bindR (sprintf_into 10 (show_nat (unat (filesize conf div 1024 div 1024)))) (\<lambda>count.
     bindR (sprintf_into PATH_SIZE (''dd if=/dev/zero of='' @ name @ '' bs=1M count='' @ count)) (\<lambda>cmd.
       Inr (filesize conf, sys cmd fs)))"

text \<open>The file of one process, by \<open>dd\<close> or with generated content.\<close>

definition populate_file ::
  "'d fpu \<Rightarrow> (string \<Rightarrow> fs \<Rightarrow> fs) \<Rightarrow> (string \<Rightarrow> bool) \<Rightarrow> (int \<Rightarrow> u64 \<Rightarrow> block_draw) \<Rightarrow> (int \<Rightarrow> u64 \<Rightarrow> int) \<Rightarrow>
   'd user_confs \<Rightarrow> duplicates_info \<Rightarrow> int \<Rightarrow> u64 \<times> 'd pop_state \<Rightarrow> (u64 \<times> 'd pop_state) res" where
  "populate_file F sys ok draws wres conf info i = (\<lambda>(total, s).
     bindR (pfile_name conf i) (\<lambda>name.
       if populate_opt conf = DDPOP
       then bindR (dd_populate sys name conf (p_fs s)) (\<lambda>(n, fs). Inr (total + n, s\<lparr>p_fs := fs\<rparr>))
       else bindR (create_pfile ok i conf (p_fs s)) (\<lambda>(name, fs).
            bindR (real_populate F (draws i) (wres i) conf info i name (s\<lparr>p_fs := fs\<rparr>)) (\<lambda>(n, s).
              Inr (total + n, s)))))"

definition work_procs :: "'d user_confs \<Rightarrow> int" where
  "work_procs conf = (if mixedIO conf then c_half (nprocs conf) else nprocs conf)"

definition populate ::
  "'d fpu \<Rightarrow> (string \<Rightarrow> fs \<Rightarrow> fs) \<Rightarrow> (string \<Rightarrow> bool) \<Rightarrow> (int \<Rightarrow> u64 \<Rightarrow> block_draw) \<Rightarrow> (int \<Rightarrow> u64 \<Rightarrow> int) \<Rightarrow>
   'd user_confs \<Rightarrow> duplicates_info \<Rightarrow> 'd pop_state \<Rightarrow> (u64 \<times> 'd pop_state) res" where
  "populate F sys ok draws wres conf info s =
     (if \<not> rawdevice conf
      then foldR (\<lambda>i. populate_file F sys ok draws wres conf info (int i)) [0 ..< nat (work_procs conf)] (0, s)
      else if populate_opt conf = DDPOP
        then bindR (dd_populate sys (rawpath conf) conf (p_fs s)) (\<lambda>(n, fs). Inr (n, s\<lparr>p_fs := fs\<rparr>))
        else bindR (open_rawdev ok conf (p_fs s)) (\<lambda>name.
               real_populate F (draws 0) (wres 0) conf info 0 name s))"

end
