(* ===== verification/Integrity.thy ===== *)
theory Integrity
  imports Populate
begin

text \<open>
  \<open>benchcore/integrity/integrity.c\<close>: rebuilding the content a block should have from its
  identifiers, comparing it with what was read, and the check of all files after a run.
\<close>

section \<open>The expected content\<close>

text \<open>
  \<open>get_block_content\<close>: the buffer (its place in the store of models) a block should be equal to.
  \<open>content\<close> is the draw of \<open>generate_data\<close>, whose result is compared with -1.
\<close>

definition get_block_content ::
  "'d generator \<Rightarrow> u32 \<Rightarrow> block_info \<Rightarrow> ((nat \<times> nat) \<times> 'd generator) res" where
  "get_block_content g content bi =
     bindR (generate_data g content (block_id bi) (unat (compression_index bi))) (\<lambda>(cid, (i, c), g).
       if cid = -1 then Inl (Exited 0)
       else if flag_unique_block bi then
         Inr ((i, c), g\<lparr>modelos := (modelos g)[i := (modelos g ! i)[c :=
                bytes32 (cont_id bi) @ drop 4 (modelos g ! i ! c)]]\<rparr>)
       else Inr ((i, c), g))"

text \<open>\<open>memcmp(a, b, n) == 0\<close>\<close>

definition memcmp0 :: "u8 list \<Rightarrow> u8 list \<Rightarrow> u64 \<Rightarrow> bool res" where
  "memcmp0 a b n =
     (if length a < unat n \<or> length b < unat n then Inl OutOfBounds
      else Inr (take (unat n) a = take (unat n) b))"

text \<open>
  \<open>check_block_content\<close>: whether a block that is not the expected one is well built, judged by the
  identifiers in it.  The result is true for the 0 of the source.
\<close>

definition check_block_content ::
  "'d fpu \<Rightarrow> 'd generator \<Rightarrow> u32 \<Rightarrow> u8 list \<Rightarrow> u64 \<Rightarrow> duplicates_info \<Rightarrow> (bool \<times> 'd generator) res" where
  "check_block_content F g content buf n info =
     (if length buf < 8 then Inl OutOfBounds
      else
        let cid = read32 buf 0; bid = read32 buf 4
        in if zero_copy_blocks info + duplicated_blocks info \<le> ucast bid then Inr (False, g)
           else bindR (get_block_compression_by_id F g bid) (\<lambda>ci.
             if ci = -1 then Inl (Exited 0)
             else bindR (get_block_content g content
                    \<lparr>cont_id = cid, proc_id = -1, block_id = bid, compression_index = word_of_int (ci div 10),
                     flag_unique_block = (cid \<noteq> bid)\<rparr>) (\<lambda>(p, g).
                  bindR (memcmp0 buf (buffer_at g p) n) (\<lambda>eq. Inr (eq, g)))))"

datatype check_msg = Header | WellBuilt u32 | Mismatch u32 | ReadFailed u64 int | Found int | NoIssues

definition log_msg :: "bool \<Rightarrow> check_msg \<Rightarrow> check_msg list \<Rightarrow> check_msg list res" where
  "log_msg fpi m ms = (if fpi then Inr (ms @ [m]) else Inl NullStream)"

text \<open>
  \<open>online_check\<close>: 0 when the block is the expected one, else 1, with a message.  \<open>c1\<close> and \<open>c2\<close> are
  the draws of its two calls of \<open>get_block_content\<close>.
\<close>

definition online_check ::
  "'d fpu \<Rightarrow> u32 \<Rightarrow> u32 \<Rightarrow> u8 list \<Rightarrow> block_info \<Rightarrow> u64 \<Rightarrow> bool \<Rightarrow> int \<Rightarrow> duplicates_info \<Rightarrow>
   'd generator \<times> check_msg list \<Rightarrow> (int \<times> 'd generator \<times> check_msg list) res" where
  "online_check F c1 c2 buf bi n fpi final_check info = (\<lambda>(g, ms).
     bindR (get_block_content g c1 bi) (\<lambda>(p, g).
     bindR (memcmp0 buf (buffer_at g p) n) (\<lambda>eq.
       if eq then Inr (0, g, ms)
       else bindR (check_block_content F g c2 buf n info) (\<lambda>(ok, g).
         bindR (log_msg fpi (if ok \<and> final_check = 0 then WellBuilt (cont_id bi) else Mismatch (cont_id bi)) ms)
           (\<lambda>ms. Inr (1, g, ms))))))"

section \<open>Checking files\<close>

record 'd int_state =
  i_gen :: "'d generator"
  i_buf :: "u8 list"
  i_errs :: int
  i_msgs :: "check_msg list"

text \<open>
  One block of \<open>file_integrity\<close>.  \<open>rfail\<close> tells where \<open>pread\<close> fails; a short read leaves the rest of
  the buffer as it was.  \<open>draws\<close> are the contents drawn for the block at an offset.
\<close>

definition integrity_step ::
  "'d fpu \<Rightarrow> (u64 \<Rightarrow> u32 \<times> u32) \<Rightarrow> (u64 \<Rightarrow> bool) \<Rightarrow> 'd user_confs \<Rightarrow> duplicates_info \<Rightarrow> shared \<Rightarrow> int \<Rightarrow>
   u8 list \<Rightarrow> bool \<Rightarrow> u64 \<Rightarrow> 'd int_state \<Rightarrow> 'd int_state res" where
  "integrity_step F draws rfail conf info mem idproc f fpi off s =
     (let dat = pread_file f (unat off) (unat (block_size conf));
          r = (if rfail off then -1 else int (length dat))
      in if r \<le> 0 then
           bindR (log_msg fpi (ReadFailed off r) (i_msgs s)) (\<lambda>ms.
             Inr (s\<lparr>i_errs := i_errs s + 1, i_msgs := ms\<rparr>))
         else
           let buf = dat @ drop (length dat) (i_buf s)
           in bindR (cdiv off (block_size conf)) (\<lambda>q.
              bindR (case content_tracker info of None \<Rightarrow> Inl NullPointer
                     | Some ts \<Rightarrow> if idproc < 0 then Inl OutOfBounds else aget ts (nat idproc)) (\<lambda>b.
              bindR (aget (content_map mem) (b + unat q)) (\<lambda>bi.
              bindR (online_check F (fst (draws off)) (snd (draws off)) buf bi (block_size conf) fpi 1 info
                       (i_gen s, i_msgs s)) (\<lambda>(e, g, ms).
                Inr (s\<lparr>i_gen := g, i_buf := buf, i_errs := i_errs s + e, i_msgs := ms\<rparr>))))))"

definition file_integrity ::
  "'d fpu \<Rightarrow> (u64 \<Rightarrow> u32 \<times> u32) \<Rightarrow> (u64 \<Rightarrow> bool) \<Rightarrow> u8 list \<Rightarrow> 'd user_confs \<Rightarrow> duplicates_info \<Rightarrow> shared \<Rightarrow>
   int \<Rightarrow> u8 list \<Rightarrow> bool \<Rightarrow> 'd generator \<times> check_msg list \<Rightarrow> (int \<times> 'd generator \<times> check_msg list) res" where
  "file_integrity F draws rfail buf0 conf info mem idproc f fpi = (\<lambda>(g, ms).
     bindR (run_blocks (integrity_step F draws rfail conf info mem idproc f fpi) (block_size conf)
       (filesize conf) \<lparr>i_gen = g, i_buf = buf0, i_errs = 0, i_msgs = ms\<rparr>) (\<lambda>(off, s).
       Inr (i_errs s, i_gen s, i_msgs s)))"

text \<open>
  \<open>static_check\<close> over all files (or the device), with the buffers \<open>malloc\<close> gives for each
  (\<open>bufs\<close>).  It writes a header and a summary; \<open>fpi\<close> says whether the results file could be opened.
\<close>

definition check_pfile ::
  "'d fpu \<Rightarrow> (string \<Rightarrow> bool) \<Rightarrow> (int \<Rightarrow> u64 \<Rightarrow> u32 \<times> u32) \<Rightarrow> (int \<Rightarrow> u64 \<Rightarrow> bool) \<Rightarrow> (int \<Rightarrow> u8 list) \<Rightarrow>
   'd user_confs \<Rightarrow> duplicates_info \<Rightarrow> shared \<Rightarrow> bool \<Rightarrow> int \<Rightarrow> int \<times> 'd generator \<times> fs \<times> check_msg list \<Rightarrow>
   (int \<times> 'd generator \<times> fs \<times> check_msg list) res" where
  "check_pfile F ok draws rfail bufs conf info mem fpi i = (\<lambda>(errs, g, fs, ms).
     bindR (pfile_name conf i) (\<lambda>name.
     bindR (create_pfile ok i conf fs) (\<lambda>(name, fs).
     bindR (file_integrity F (draws i) (rfail i) (bufs i) conf info mem i
              (case fs name of None \<Rightarrow> [] | Some f \<Rightarrow> f) fpi (g, ms)) (\<lambda>(e, g, ms).
       Inr (errs + e, g, fs, ms)))))"

definition static_check ::
  "'d fpu \<Rightarrow> (string \<Rightarrow> bool) \<Rightarrow> (int \<Rightarrow> u64 \<Rightarrow> u32 \<times> u32) \<Rightarrow> (int \<Rightarrow> u64 \<Rightarrow> bool) \<Rightarrow> (int \<Rightarrow> u8 list) \<Rightarrow>
   'd user_confs \<Rightarrow> duplicates_info \<Rightarrow> shared \<Rightarrow> bool \<Rightarrow> 'd generator \<Rightarrow> fs \<Rightarrow>
   (int \<times> 'd generator \<times> fs \<times> check_msg list) res" where
  "static_check F ok draws rfail bufs conf info mem fpi g fs =
     bindR (log_msg fpi Header []) (\<lambda>ms.
     bindR (if \<not> rawdevice conf
            then foldR (\<lambda>i. check_pfile F ok draws rfail bufs conf info mem fpi (int i))
                   [0 ..< nat (work_procs conf)] (0, g, fs, ms)
            else bindR (open_rawdev ok conf fs) (\<lambda>name.
                 bindR (file_integrity F (draws 0) (rfail 0) (bufs 0) conf info mem 0
                          (case fs name of None \<Rightarrow> [] | Some f \<Rightarrow> f) fpi (g, ms)) (\<lambda>(e, g, ms).
                   Inr (e, g, fs, ms)))) (\<lambda>(errs, g, fs, ms).
     bindR (log_msg fpi (if errs > 0 then Found errs else NoIssues) ms) (\<lambda>ms.
       Inr (errs, g, fs, ms))))"

section \<open>The content of a block\<close>

text \<open>
  Two generators with the same lines, shares and model data; the identifiers at the head of the
  buffers may differ.
\<close>

definition tails :: "'d generator \<Rightarrow> u8 list list list" where
  "tails g = map (map (drop 8)) (modelos g)"

definition same_gen :: "'d generator \<Rightarrow> 'd generator \<Rightarrow> bool" where
  "same_gen g g' \<longleftrightarrow> tails g' = tails g \<and> (\<exists>ms. g' = g\<lparr>modelos := ms\<rparr>)"

lemma same_gen_refl [simp]: "same_gen g g"
  unfolding same_gen_def by (rule conjI, simp) (rule exI [of _ "modelos g"], simp)

lemma same_gen_trans: "same_gen g g' \<Longrightarrow> same_gen g' g'' \<Longrightarrow> same_gen g g''"
  by (auto simp: same_gen_def)

lemma same_gen_tails: "same_gen g g' \<Longrightarrow> tails g' = tails g"
  by (simp add: same_gen_def)

lemma same_gen_fields:
  assumes "same_gen g g'"
  shows "linhas g' = linhas g" "total_unique_blocks g' = total_unique_blocks g"
    "atribuicao g' = atribuicao g" "nr_models g' = nr_models g"
    "model_index g' b = model_index g b" "content_of g' c b = content_of g c b"
    "get_block_compression_by_id F g' b = get_block_compression_by_id F g b"
proof -
  obtain ms where g': "g' = g\<lparr>modelos := ms\<rparr>" using assms by (auto simp: same_gen_def)
  show "linhas g' = linhas g" "total_unique_blocks g' = total_unique_blocks g"
    "atribuicao g' = atribuicao g" "nr_models g' = nr_models g"
    "model_index g' b = model_index g b" "content_of g' c b = content_of g c b"
    "get_block_compression_by_id F g' b = get_block_compression_by_id F g b"
    by (simp_all add: g' model_index_def content_of_def get_block_compression_by_id_def)
qed

definition block_tail :: "'d generator \<Rightarrow> u32 \<Rightarrow> nat \<Rightarrow> u8 list" where
  "block_tail g bid c = (case model_index g bid of Inl e \<Rightarrow> [] | Inr k \<Rightarrow> tails g ! k ! c)"

text \<open>The content a description stands for.\<close>

definition expected :: "'d generator \<Rightarrow> block_info \<Rightarrow> u8 list" where
  "expected g bi = bytes32 (cont_id bi) @ bytes32 (block_id bi)
     @ block_tail g (block_id bi) (unat (compression_index bi))"

text \<open>
  A description of a block of this generator: an existing block and compression, and for a block
  with copies the content that is its own identifier.
\<close>

definition valid_info :: "'d generator \<Rightarrow> block_info \<Rightarrow> bool" where
  "valid_info g bi \<longleftrightarrow> unat (block_id bi) \<le> unat (total_unique_blocks g)
     \<and> unat (compression_index bi) < 10
     \<and> (flag_unique_block bi \<or> cont_id bi = block_id bi \<and> (\<forall>c. content_of g c (block_id bi) = block_id bi))"

lemma same_expected:
  "same_gen g g' \<Longrightarrow> expected g' bi = expected g bi"
  by (simp add: expected_def block_tail_def same_gen_fields same_gen_tails split: sum.split)

lemma same_valid: "same_gen g g' \<Longrightarrow> valid_info g' bi = valid_info g bi"
  by (simp add: valid_info_def same_gen_fields)

text \<open>All buffers are long enough for \<open>n\<close> bytes.\<close>

definition buffers_hold :: "nat \<Rightarrow> 'd generator \<Rightarrow> bool" where
  "buffers_hold n g \<longleftrightarrow> (\<forall>row \<in> set (tails g). \<forall>b \<in> set row. n \<le> 8 + length b)"

lemma same_buffers: "same_gen g g' \<Longrightarrow> buffers_hold n g' = buffers_hold n g"
  by (simp add: buffers_hold_def same_gen_tails)

lemma tails_nth: "k < length (modelos g) \<Longrightarrow> c < length (modelos g ! k) \<Longrightarrow>
    tails g ! k ! c = drop 8 (modelos g ! k ! c)"
  by (simp add: tails_def)

text \<open>Writing the head of a buffer.\<close>

lemma head_update:
  assumes g: "gen_ok g" and k: "k < length (modelos g)" "c < length (modelos g ! k)"
    and b: "8 \<le> length b" "drop 8 b = drop 8 (modelos g ! k ! c)"
  defines "g' \<equiv> g\<lparr>modelos := (modelos g)[k := (modelos g ! k)[c := b]]\<rparr>"
  shows "gen_ok g'" "same_gen g g'" "buffer_at g' (k, c) = b"
proof -
  show "gen_ok g'" using g models_ok_update [OF _ k b(1)] by (simp add: g'_def gen_ok_def)
  have "map (drop 8) ((modelos g ! k)[c := b]) = map (drop 8) (modelos g ! k)"
    using k(2) b(2) by (simp add: map_update list_update_id [symmetric] del: list_update_id)
      (metis list_update_id nth_map)
  then have "tails g' = tails g"
    using k(1) by (simp add: tails_def g'_def map_update) (metis list_update_id nth_map)
  then show "same_gen g g'" by (auto simp: same_gen_def g'_def)
  show "buffer_at g' (k, c) = b" using k by (simp add: buffer_at_def g'_def)
qed

lemma length_bytes32 [simp]: "length (bytes32 w) = 4"
  by (simp add: bytes32_def)

lemma generate_data_ok:
  assumes g: "gen_ok g" and bid: "unat bid \<le> unat (total_unique_blocks g)" and cx: "cx < 10"
  shows "\<exists>p g'. generate_data g content bid cx = Inr (content_of g content bid, p, g')
    \<and> gen_ok g' \<and> same_gen g g' \<and> fst p < length (modelos g') \<and> snd p < length (modelos g' ! fst p)
    \<and> buffer_at g' p = bytes32 (content_of g content bid) @ bytes32 bid @ block_tail g bid cx"
proof -
  obtain k where k: "get_model_by_id_and_compression g bid cx = Inr (k, cx)"
    "k < length (modelos g)" "cx < length (modelos g ! k)" "8 \<le> length (modelos g ! k ! cx)"
    using model_found [OF g bid cx] by metis
  then have "model_index g bid = Inr k"
    by (auto simp: get_model_by_id_and_compression_def elim!: bindR_InrE)
  then have tail: "block_tail g bid cx = drop 8 (modelos g ! k ! cx)"
    using k by (simp add: block_tail_def tails_nth)
  let ?b = "set_ids (content_of g content bid) bid (modelos g ! k ! cx)"
  have b: "8 \<le> length ?b" "drop 8 ?b = drop 8 (modelos g ! k ! cx)" by (simp_all add: set_ids_def)
  note u = head_update [OF g k(2,3) b]
  show ?thesis
    by (rule exI [of _ "(k, cx)"], rule exI [of _ "g\<lparr>modelos := (modelos g)[k := (modelos g ! k)[cx := ?b]]\<rparr>"])
      (use k u tail in \<open>simp add: generate_data_def Let_def set_ids_def\<close>)
qed

text \<open>
  \<open>get_block_content\<close> always delivers a buffer with the identifier and the data of the block; its content
  identifier is the recorded one for a block without copies and the generated one for the others.
\<close>

lemma block_content_form:
  assumes g: "gen_ok g" and bid: "unat (block_id bi) \<le> unat (total_unique_blocks g)"
    and cx: "unat (compression_index bi) < 10" and c: "content \<noteq> -1"
    and t: "unat (total_unique_blocks g) < 2 ^ 32 - 1"
  shows "\<exists>p g'. get_block_content g content bi = Inr (p, g') \<and> gen_ok g' \<and> same_gen g g'
    \<and> buffer_at g' p = bytes32 (if flag_unique_block bi then cont_id bi else content_of g content (block_id bi))
        @ bytes32 (block_id bi) @ block_tail g (block_id bi) (unat (compression_index bi))"
proof -
  let ?bid = "block_id bi" and ?cx = "unat (compression_index bi)"
  from generate_data_ok [OF g bid cx, of content] obtain k j g1 where
    g1: "generate_data g content ?bid ?cx = Inr (content_of g content ?bid, (k, j), g1)"
    "gen_ok g1" "same_gen g g1" "k < length (modelos g1)" "j < length (modelos g1 ! k)"
    "buffer_at g1 (k, j) = bytes32 (content_of g content ?bid) @ bytes32 ?bid @ block_tail g ?bid ?cx"
    by auto
  have "unat (-1 :: u32) = 2 ^ 32 - 1" by (simp add: unsigned_minus_1_eq_mask mask_eq_exp_minus_1)
  then have "?bid \<noteq> -1" using bid t by auto
  then have nz: "content_of g content ?bid \<noteq> -1" using c by (auto simp: content_of_def split: option.split)
  show ?thesis
  proof (cases "flag_unique_block bi")
    case True
    let ?b = "bytes32 (cont_id bi) @ drop 4 (modelos g1 ! k ! j)"
    have m: "modelos g1 ! k ! j = bytes32 (content_of g content ?bid) @ bytes32 ?bid @ block_tail g ?bid ?cx"
      using g1(6) by (simp add: buffer_at_def)
    have b: "8 \<le> length ?b" "drop 8 ?b = drop 8 (modelos g1 ! k ! j)" by (simp_all add: m)
    note u = head_update [OF g1(2,4,5) b]
    show ?thesis using g1 u nz True same_gen_trans [OF g1(3) u(2)]
      by (simp add: get_block_content_def m)
  qed (use g1 nz in \<open>simp add: get_block_content_def\<close>)
qed

lemma block_content_ok:
  assumes g: "gen_ok g" and v: "valid_info g bi" and c: "content \<noteq> -1"
    and t: "unat (total_unique_blocks g) < 2 ^ 32 - 1"
  shows "\<exists>p g'. get_block_content g content bi = Inr (p, g') \<and> gen_ok g' \<and> same_gen g g'
    \<and> buffer_at g' p = expected g bi"
  using block_content_form [OF g _ _ c t, of bi] v by (auto simp: valid_info_def expected_def)

text \<open>An intact block passes the check.\<close>

lemma online_check_intact:
  assumes g: "gen_ok g" and v: "valid_info g bi" and c: "c1 \<noteq> -1"
    and t: "unat (total_unique_blocks g) < 2 ^ 32 - 1"
    and b: "unat n \<le> length buf" "unat n \<le> length (expected g bi)"
    and eq: "take (unat n) buf = take (unat n) (expected g bi)"
  shows "\<exists>g'. online_check F c1 c2 buf bi n fpi fc info (g, ms) = Inr (0, g', ms) \<and> gen_ok g' \<and> same_gen g g'"
proof -
  from block_content_ok [OF g v c t] obtain p g' where
    p: "get_block_content g c1 bi = Inr (p, g')" "gen_ok g'" "same_gen g g'" "buffer_at g' p = expected g bi"
    by blast
  have "memcmp0 buf (expected g bi) n = Inr True" using b eq by (simp add: memcmp0_def)
  with p show ?thesis by (simp add: online_check_def)
qed

text \<open>A block that differs is never accepted.\<close>

lemma online_check_differs:
  assumes g: "gen_ok g" and v: "valid_info g bi" and c: "c1 \<noteq> -1"
    and t: "unat (total_unique_blocks g) < 2 ^ 32 - 1"
    and b: "unat n \<le> length buf" "unat n \<le> length (expected g bi)"
    and neq: "take (unat n) buf \<noteq> take (unat n) (expected g bi)"
    and r: "online_check F c1 c2 buf bi n fpi fc info (g, ms) = Inr (e, g', ms')"
  shows "e = 1 \<and> (\<exists>m. ms' = ms @ [m])"
proof -
  from block_content_ok [OF g v c t] obtain p g1 where
    p: "get_block_content g c1 bi = Inr (p, g1)" "buffer_at g1 p = expected g bi" by blast
  have "memcmp0 buf (expected g bi) n = Inr False" using b neq by (simp add: memcmp0_def)
  with p r show ?thesis
    by (auto simp: online_check_def log_msg_def elim!: bindR_InrE split: if_splits)
qed

text \<open>What \<open>get_writecontent\<close> delivers is the expected content of what it describes.\<close>

definition zero_first :: "'d generator \<Rightarrow> bool" where
  "zero_first g \<longleftrightarrow> (\<forall>l \<in> set (tl (linhas g)). nrCopies l \<noteq> 0)"

definition draw_ok :: "'d generator \<Rightarrow> block_draw \<Rightarrow> bool" where
  "draw_ok g dr \<longleftrightarrow> d_line dr < length (linhas g) \<and> 1 \<le> d_block dr
     \<and> d_block dr \<le> nrBlocks (linhas g ! d_line dr)"

lemma zero_first_content:
  assumes g: "gen_ok g" and z: "zero_first g" and i: "i < length (linhas g)" "nrCopies (linhas g ! i) \<noteq> 0"
    and b: "unat (nrBase (linhas g ! i)) < unat bid"
  shows "content_of g c bid = bid"
proof -
  obtain l ls where ls: "linhas g = l # ls" using i(1) by (cases "linhas g") auto
  show ?thesis
  proof (cases "nrCopies l = 0")
    case True
    then obtain j where j: "i = Suc j" using i(2) ls by (cases i) auto
    have "unat (nrBase (linhas g ! i)) = blocks_of (take i (linhas g))"
      using lines_from_nth [OF gen_okD(1) [OF g] i(1)] by simp
    then have "unat (nrBlocks l) < unat bid" using b by (simp add: ls j)
    then show ?thesis using True by (simp add: content_of_def ls word_less_nat_alt)
  next
    case False
    have "find (\<lambda>l. nrCopies l = 0) (linhas g) = None"
      using False z by (auto simp: find_None_iff ls zero_first_def)
    then show ?thesis by (simp add: content_of_def)
  qed
qed

lemma writecontent_ok:
  assumes g: "gen_ok g" and z: "zero_first g" and d: "draw_ok g dr"
  shows "\<exists>bi p g'. get_writecontent F dr g idproc bi0 = Inr (bi, p, g') \<and> gen_ok g' \<and> same_gen g g'
    \<and> valid_info g bi \<and> buffer_at g' p = expected g bi \<and> proc_id bi = idproc"
proof -
  let ?l = "linhas g ! d_line dr"
  from d have i: "d_line dr < length (linhas g)" and r: "1 \<le> d_block dr" "d_block dr \<le> nrBlocks ?l"
    by (auto simp: draw_ok_def)
  from next_block_step [OF g i refl r, of F bi0] obtain bi p g' where
    n: "nextBlock F dr g bi0 = Inr (bi, p, g')" "unat (block_id bi) = unat (nrBase ?l) + unat (d_block dr)"
    "unat (block_id bi) \<le> unat (total_unique_blocks g)" "cont_id bi = content_of g (d_content dr) (block_id bi)"
    "unat (compression_index bi) < 10" "flag_unique_block bi = (nrCopies ?l = 0)" by blast
  have v: "valid_info g bi"
  proof (cases "nrCopies ?l = 0")
    case False
    have "unat (nrBase ?l) < unat (block_id bi)" using n(2) r(1) by (simp add: word_le_nat_alt)
    from zero_first_content [OF g z i False this] n show ?thesis by (simp add: valid_info_def)
  qed (use n in \<open>simp add: valid_info_def\<close>)
  from n(1) obtain cx where cx: "giveMyCompression F ?l (d_block dr) = Inr cx"
    "generate_data g (d_content dr) (d_block dr + nrBase ?l) cx = Inr (cont_id bi, p, g')"
    "block_id bi = d_block dr + nrBase ?l" "compression_index bi = word_of_nat cx"
    using i by (auto simp: nextBlock_def vat_def Let_def elim!: bindR_InrE)
  have "10 \<le> length (compression ?l)" using i by (intro gen_okD(3) [OF g]) simp
  then obtain cx' where "giveMyCompression F ?l (d_block dr) = Inr cx'" "cx' < 10"
    using compression_loop_ok [of 0 10 "compression ?l" F] unfolding giveMyCompression_def by force
  with cx(1) have c10: "cx < 10" by simp
  then have ucx: "unat (compression_index bi) = cx" using cx(4) by (simp add: unat_of_nat_small)
  from generate_data_ok [OF g _ c10, of "block_id bi" "d_content dr"] n(3) cx(2,3)
  have "gen_ok g'" "same_gen g g'" "buffer_at g' p = expected g bi"
    by (auto simp: expected_def ucx)
  with n(1) v show ?thesis
    by (simp add: get_writecontent_def valid_info_def expected_def)
qed

section \<open>Populated files\<close>

text \<open>
  The first \<open>n\<close> blocks of a file hold the contents that \<open>trk\<close> describes.
\<close>

definition file_ok :: "'d generator \<Rightarrow> nat \<Rightarrow> nat \<Rightarrow> u8 list \<Rightarrow> (nat \<Rightarrow> block_info) \<Rightarrow> bool" where
  "file_ok g bs n f trk \<longleftrightarrow> n * bs \<le> length f
     \<and> (\<forall>s < n. valid_info g (trk s) \<and> pread_file f (s * bs) bs = take bs (expected g (trk s)))"

lemma file_ok_same: "same_gen g g' \<Longrightarrow> file_ok g' bs n f trk = file_ok g bs n f trk"
  by (simp add: file_ok_def same_valid same_expected)

lemma file_ok_cong: "(\<And>s. s < n \<Longrightarrow> trk s = trk' s) \<Longrightarrow> file_ok g bs n f trk = file_ok g bs n f trk'"
  by (simp add: file_ok_def)

lemma block_tail_length:
  assumes "gen_ok g" and "buffers_hold n g"
    and v: "unat bid \<le> unat (total_unique_blocks g)" "c < 10"
  shows "n \<le> 8 + length (block_tail g bid c)"
proof -
  obtain k where k: "get_model_by_id_and_compression g bid c = Inr (k, c)"
    "k < length (modelos g)" "c < length (modelos g ! k)"
    using model_found [OF assms(1) v] by metis
  then have m: "model_index g bid = Inr k"
    by (auto simp: get_model_by_id_and_compression_def elim!: bindR_InrE)
  have "tails g ! k \<in> set (tails g)" "tails g ! k ! c \<in> set (tails g ! k)"
    using k(2,3) by (simp_all add: tails_def)
  then show ?thesis using assms(2) by (auto simp: buffers_hold_def block_tail_def m)
qed

lemma expected_length:
  assumes "gen_ok g" and "buffers_hold n g" and "valid_info g bi"
  shows "n \<le> length (expected g bi)"
  using block_tail_length [OF assms(1,2), of "block_id bi" "unat (compression_index bi)"] assms(3)
  by (simp add: valid_info_def expected_def)

text \<open>What populating one file needs, and what it leaves alone.\<close>

definition pop_ready :: "'d user_confs \<Rightarrow> duplicates_info \<Rightarrow> int \<Rightarrow> nat \<Rightarrow> 'd generator \<Rightarrow> bool" where
  "pop_ready conf info idproc b g \<longleftrightarrow> gen_ok g \<and> zero_first g \<and> buffers_hold (unat (block_size conf)) g
     \<and> 1 \<le> integrity conf \<and> \<not> distout conf \<and> track_base conf info idproc = Inr b
     \<and> 0 < unat (block_size conf) \<and> unat (filesize conf) + unat (block_size conf) \<le> 2 ^ 64"

definition untouched :: "string \<Rightarrow> nat \<Rightarrow> nat \<Rightarrow> 'd pop_state \<Rightarrow> 'd pop_state \<Rightarrow> bool" where
  "untouched name b n s s' \<longleftrightarrow> same_gen (p_gen s) (p_gen s')
     \<and> (\<forall>x. x \<noteq> name \<longrightarrow> p_fs s' x = p_fs s x) \<and> cells (p_mem s') = cells (p_mem s)
     \<and> length (content_map (p_mem s')) = length (content_map (p_mem s))
     \<and> (\<forall>j. j < b \<or> b + n \<le> j \<longrightarrow> content_map (p_mem s') ! j = content_map (p_mem s) ! j)"

definition file_of :: "fs \<Rightarrow> string \<Rightarrow> u8 list" where
  "file_of fs name = (case fs name of None \<Rightarrow> [] | Some f \<Rightarrow> f)"

lemma same_draw: "same_gen g g' \<Longrightarrow> draw_ok g' dr = draw_ok g dr"
  by (simp add: draw_ok_def same_gen_fields)

lemma same_zero_first: "same_gen g g' \<Longrightarrow> zero_first g' = zero_first g"
  by (simp add: zero_first_def same_gen_fields)

lemma pop_ready_same: "pop_ready conf info i b g \<Longrightarrow> same_gen g g' \<Longrightarrow> gen_ok g' \<Longrightarrow> pop_ready conf info i b g'"
  by (simp add: pop_ready_def same_zero_first same_buffers)

lemma populate_step_ok:
  assumes r: "pop_ready conf info idproc b (p_gen s)" and d: "\<And>off. draw_ok (p_gen s) (draws off)"
    and w: "\<And>off. wres off = int (unat (block_size conf))"
    and k: "k < block_count (block_size conf) (filesize conf)"
    and room: "b + block_count (block_size conf) (filesize conf) \<le> length (content_map (p_mem s))"
    and f: "file_ok (p_gen s) (unat (block_size conf)) k (file_of (p_fs s) name) (\<lambda>j. content_map (p_mem s) ! (b + j))"
  shows "\<exists>s'. populate_step F draws wres conf info idproc name (offset_of (block_size conf) k) s = Inr s'
    \<and> gen_ok (p_gen s') \<and> untouched name b (block_count (block_size conf) (filesize conf)) s s'
    \<and> file_ok (p_gen s') (unat (block_size conf)) (Suc k) (file_of (p_fs s') name) (\<lambda>j. content_map (p_mem s') ! (b + j))"
proof -
  let ?bs = "unat (block_size conf)" and ?off = "offset_of (block_size conf) k"
  from r have g: "gen_ok (p_gen s)" and z: "zero_first (p_gen s)" and hold: "buffers_hold ?bs (p_gen s)"
    and c: "1 \<le> integrity conf" "\<not> distout conf" "track_base conf info idproc = Inr b" "0 < ?bs"
    by (auto simp: pop_ready_def)
  note off = offset_div [OF c(4) k]
  from writecontent_ok [OF g z d [of ?off], of F "word_of_int idproc" blank_info] obtain bi p g' where
    wc: "get_writecontent F (draws ?off) (p_gen s) (word_of_int idproc) blank_info = Inr (bi, p, g')"
    "gen_ok g'" "same_gen (p_gen s) g'" "valid_info (p_gen s) bi" "buffer_at g' p = expected (p_gen s) bi" by blast
  let ?E = "expected (p_gen s) bi" and ?old = "file_of (p_fs s) name"
  have len: "?bs \<le> length ?E" by (rule expected_length [OF g hold wc(4)])
  let ?new = "pwrite_file ?old (k * ?bs) (take ?bs ?E)"
  have wb: "write_block (wres ?off) name ?E (block_size conf) ?off (p_fs s) = Inr ((p_fs s)(name \<mapsto> ?new))"
  proof -
    have "nat (wres ?off) = ?bs" unfolding w by (rule nat_int)
    moreover from this have "\<not> wres ?off \<le> 0" using c(4) by linarith
    ultimately show ?thesis using len by (simp add: write_block_def off file_of_def)
  qed
  let ?mem = "(p_mem s)\<lparr>content_map := (content_map (p_mem s))[b + k := bi]\<rparr>"
  have bk: "b + k < length (content_map (p_mem s))" using k room by simp
  have bs0: "block_size conf \<noteq> 0" using c(4) by auto
  have tb: "track_block conf info idproc ?off bi (p_mem s) = Inr ?mem"
    using c bk off bs0 by (simp add: track_block_def cdiv_def aset_def)
  let ?s = "s\<lparr>p_gen := g', p_mem := ?mem, p_fs := (p_fs s)(name \<mapsto> ?new)\<rparr>"
  have "populate_step F draws wres conf info idproc name ?off s = Inr ?s"
    using wc(1,5) wb tb c(2) by (simp add: populate_step_def count_block_def)
  moreover have "untouched name b (block_count (block_size conf) (filesize conf)) s ?s"
    using wc(3) k by (simp add: untouched_def)
  moreover have "file_ok (p_gen s) ?bs (Suc k) ?new (\<lambda>j. content_map ?mem ! (b + j))"
    unfolding file_ok_def
  proof (intro conjI allI impI)
    show "Suc k * ?bs \<le> length ?new" using len by simp
    fix j assume "j < Suc k"
    then consider "j < k" | "j = k" by linarith
    then show "valid_info (p_gen s) (content_map ?mem ! (b + j))"
      using f wc(4) bk by cases (simp_all add: file_ok_def)
    show "pread_file ?new (j * ?bs) ?bs = take ?bs (expected (p_gen s) (content_map ?mem ! (b + j)))"
    proof (cases "j = k")
      case True
      have "pread_file ?new (k * ?bs) (length (take ?bs ?E)) = take ?bs ?E" by (rule pread_pwrite_same)
      with True len bk show ?thesis by simp
    next
      case False
      with \<open>j < Suc k\<close> have j: "Suc j \<le> k" by simp
      then have "Suc j * ?bs \<le> k * ?bs" by (rule mult_right_mono) simp
      then have "j * ?bs + ?bs \<le> k * ?bs" by simp
      moreover have "k * ?bs \<le> length ?old" using f by (simp add: file_ok_def)
      ultimately have "pread_file ?new (j * ?bs) ?bs = pread_file ?old (j * ?bs) ?bs"
        by (intro pread_pwrite_other) simp_all
      with f j show ?thesis by (simp add: file_ok_def)
    qed
  qed
  ultimately show ?thesis using wc(2,3)
    by (intro exI [of _ ?s]) (simp add: file_ok_same file_of_def)
qed

lemma untouched_trans:
  "untouched name b n s s' \<Longrightarrow> untouched name b n s' s'' \<Longrightarrow> untouched name b n s s''"
  by (auto simp: untouched_def intro: same_gen_trans)

lemma populate_fold_ok:
  assumes r: "pop_ready conf info idproc b (p_gen s)" and d: "\<And>off. draw_ok (p_gen s) (draws off)"
    and w: "\<And>off. wres off = int (unat (block_size conf))"
    and room: "b + block_count (block_size conf) (filesize conf) \<le> length (content_map (p_mem s))"
    and m: "m \<le> block_count (block_size conf) (filesize conf)"
  shows "\<exists>s'. foldR (\<lambda>k. populate_step F draws wres conf info idproc name (offset_of (block_size conf) k)) [0 ..< m] s
      = Inr s' \<and> gen_ok (p_gen s') \<and> untouched name b (block_count (block_size conf) (filesize conf)) s s'
    \<and> file_ok (p_gen s') (unat (block_size conf)) m (file_of (p_fs s') name) (\<lambda>j. content_map (p_mem s') ! (b + j))"
  using m
proof (induction m)
  case 0
  then show ?case using r by (simp add: file_ok_def untouched_def pop_ready_def)
next
  case (Suc m)
  then obtain s1 where s1: "foldR (\<lambda>k. populate_step F draws wres conf info idproc name (offset_of (block_size conf) k)) [0 ..< m] s
      = Inr s1" "gen_ok (p_gen s1)" "untouched name b (block_count (block_size conf) (filesize conf)) s s1"
    "file_ok (p_gen s1) (unat (block_size conf)) m (file_of (p_fs s1) name) (\<lambda>j. content_map (p_mem s1) ! (b + j))" by auto
  have sg: "same_gen (p_gen s) (p_gen s1)" "length (content_map (p_mem s1)) = length (content_map (p_mem s))"
    using s1(3) by (auto simp: untouched_def)
  have "\<exists>s'. populate_step F draws wres conf info idproc name (offset_of (block_size conf) m) s1 = Inr s'
    \<and> gen_ok (p_gen s') \<and> untouched name b (block_count (block_size conf) (filesize conf)) s1 s'
    \<and> file_ok (p_gen s') (unat (block_size conf)) (Suc m) (file_of (p_fs s') name) (\<lambda>j. content_map (p_mem s') ! (b + j))"
    using pop_ready_same [OF r sg(1) s1(2)] d w room sg s1(4) Suc.prems
    by (intro populate_step_ok) (simp_all add: same_draw)
  with s1 show ?case by (auto simp: foldR_append intro: untouched_trans)
qed

lemma real_populate_ok:
  assumes r: "pop_ready conf info idproc b (p_gen s)" and d: "\<And>off. draw_ok (p_gen s) (draws off)"
    and w: "\<And>off. wres off = int (unat (block_size conf))"
    and room: "b + block_count (block_size conf) (filesize conf) \<le> length (content_map (p_mem s))"
  shows "\<exists>n s'. real_populate F draws wres conf info idproc name s = Inr (n, s') \<and> gen_ok (p_gen s')
    \<and> untouched name b (block_count (block_size conf) (filesize conf)) s s'
    \<and> file_ok (p_gen s') (unat (block_size conf)) (block_count (block_size conf) (filesize conf))
        (file_of (p_fs s') name) (\<lambda>j. content_map (p_mem s') ! (b + j))"
proof -
  let ?s = "s\<lparr>p_rng := init_rand (seed conf + word_of_int (nprocs conf)) (p_rng s)\<rparr>"
  from r have bs: "0 < unat (block_size conf)" "unat (filesize conf) + unat (block_size conf) \<le> 2 ^ 64"
    by (auto simp: pop_ready_def)
  have "\<exists>s'. foldR (\<lambda>k. populate_step F draws wres conf info idproc name (offset_of (block_size conf) k))
        [0 ..< block_count (block_size conf) (filesize conf)] ?s = Inr s' \<and> gen_ok (p_gen s')
    \<and> untouched name b (block_count (block_size conf) (filesize conf)) ?s s'
    \<and> file_ok (p_gen s') (unat (block_size conf)) (block_count (block_size conf) (filesize conf))
        (file_of (p_fs s') name) (\<lambda>j. content_map (p_mem s') ! (b + j))"
    using r d w room by (intro populate_fold_ok) simp_all
  then show ?thesis by (auto simp: real_populate_def run_blocks_eq [OF bs] untouched_def)
qed

section \<open>Checking intact files\<close>

text \<open>What checking needs: a generator whose models hold a block, and draws other than -1.\<close>

definition check_ready :: "'d user_confs \<Rightarrow> 'd generator \<Rightarrow> bool" where
  "check_ready conf g \<longleftrightarrow> gen_ok g \<and> buffers_hold (unat (block_size conf)) g
     \<and> unat (total_unique_blocks g) < 2 ^ 32 - 1
     \<and> 0 < unat (block_size conf) \<and> unat (filesize conf) + unat (block_size conf) \<le> 2 ^ 64"

lemma check_ready_same: "check_ready conf g \<Longrightarrow> same_gen g g' \<Longrightarrow> gen_ok g' \<Longrightarrow> check_ready conf g'"
  by (simp add: check_ready_def same_gen_fields same_buffers)

lemma integrity_step_ok:
  assumes r: "check_ready conf (i_gen s)" and d: "\<And>off. fst (draws off) \<noteq> -1"
    and k: "k < block_count (block_size conf) (filesize conf)"
    and ts: "content_tracker info = Some ts" "0 \<le> idproc" "nat idproc < length ts" "ts ! nat idproc = b"
    and room: "b + block_count (block_size conf) (filesize conf) \<le> length (content_map mem)"
    and f: "file_ok (i_gen s) (unat (block_size conf)) (block_count (block_size conf) (filesize conf)) f
              (\<lambda>j. content_map mem ! (b + j))"
  shows "\<exists>s'. integrity_step F draws (\<lambda>_. False) conf info mem idproc f fpi (offset_of (block_size conf) k) s = Inr s'
    \<and> gen_ok (i_gen s') \<and> same_gen (i_gen s) (i_gen s') \<and> i_errs s' = i_errs s \<and> i_msgs s' = i_msgs s"
proof -
  let ?bs = "unat (block_size conf)" and ?off = "offset_of (block_size conf) k"
  from r have g: "gen_ok (i_gen s)" and hold: "buffers_hold ?bs (i_gen s)"
    and t: "unat (total_unique_blocks (i_gen s)) < 2 ^ 32 - 1" and bs: "0 < ?bs"
    by (auto simp: check_ready_def)
  note off = offset_div [OF bs k]
  let ?bi = "content_map mem ! (b + k)"
  from f k have v: "valid_info (i_gen s) ?bi" and p: "pread_file f (k * ?bs) ?bs = take ?bs (expected (i_gen s) ?bi)"
    by (auto simp: file_ok_def)
  have len: "?bs \<le> length (expected (i_gen s) ?bi)" by (rule expected_length [OF g hold v])
  let ?dat = "take ?bs (expected (i_gen s) ?bi)"
  let ?buf = "?dat @ drop ?bs (i_buf s)"
  from online_check_intact [OF g v d [of ?off] t, of "block_size conf" ?buf F "snd (draws ?off)" fpi 1 info "i_msgs s"]
  obtain g' where o: "online_check F (fst (draws ?off)) (snd (draws ?off)) ?buf ?bi (block_size conf) fpi 1 info
      (i_gen s, i_msgs s) = Inr (0, g', i_msgs s)" "gen_ok g'" "same_gen (i_gen s) g'"
    using len by auto
  have dl: "length ?dat = ?bs" using len by simp
  then have pos: "\<not> int (length ?dat) \<le> 0" using bs by linarith
  have bs0: "block_size conf \<noteq> 0" using bs by auto
  have bk: "b + k < length (content_map mem)" using k room by simp
  have "integrity_step F draws (\<lambda>_. False) conf info mem idproc f fpi ?off s
      = Inr (s\<lparr>i_gen := g', i_buf := ?buf, i_errs := i_errs s + 0, i_msgs := i_msgs s\<rparr>)"
    unfolding integrity_step_def off(1) p Let_def if_False using pos
    by (simp only: if_False dl)
      (use ts o(1) bs0 bk in \<open>simp add: cdiv_def aget_def off(2)\<close>)
  with o(2,3) show ?thesis by simp
qed

lemma integrity_fold_ok:
  assumes r: "check_ready conf (i_gen s)" and d: "\<And>off. fst (draws off) \<noteq> -1"
    and m: "m \<le> block_count (block_size conf) (filesize conf)"
    and ts: "content_tracker info = Some ts" "0 \<le> idproc" "nat idproc < length ts" "ts ! nat idproc = b"
    and room: "b + block_count (block_size conf) (filesize conf) \<le> length (content_map mem)"
    and f: "file_ok (i_gen s) (unat (block_size conf)) (block_count (block_size conf) (filesize conf)) f
              (\<lambda>j. content_map mem ! (b + j))"
  shows "\<exists>s'. foldR (\<lambda>k. integrity_step F draws (\<lambda>_. False) conf info mem idproc f fpi (offset_of (block_size conf) k))
      [0 ..< m] s = Inr s'
    \<and> gen_ok (i_gen s') \<and> same_gen (i_gen s) (i_gen s') \<and> i_errs s' = i_errs s \<and> i_msgs s' = i_msgs s"
  using m
proof (induction m)
  case 0
  then show ?case using r by (simp add: check_ready_def)
next
  case (Suc m)
  then obtain s1 where s1: "foldR (\<lambda>k. integrity_step F draws (\<lambda>_. False) conf info mem idproc f fpi (offset_of (block_size conf) k))
      [0 ..< m] s = Inr s1" "gen_ok (i_gen s1)" "same_gen (i_gen s) (i_gen s1)" "i_errs s1 = i_errs s" "i_msgs s1 = i_msgs s"
    by auto
  have "\<exists>s'. integrity_step F draws (\<lambda>_. False) conf info mem idproc f fpi (offset_of (block_size conf) m) s1 = Inr s'
    \<and> gen_ok (i_gen s') \<and> same_gen (i_gen s1) (i_gen s') \<and> i_errs s' = i_errs s1 \<and> i_msgs s' = i_msgs s1"
    using check_ready_same [OF r s1(3,2)] d Suc.prems ts room f s1(3)
    by (intro integrity_step_ok) (simp_all add: file_ok_same)
  with s1 show ?case by (auto simp: foldR_append intro: same_gen_trans)
qed

lemma file_integrity_ok:
  assumes r: "check_ready conf g" and d: "\<And>off. fst (draws off) \<noteq> -1"
    and ts: "content_tracker info = Some ts" "0 \<le> idproc" "nat idproc < length ts" "ts ! nat idproc = b"
    and room: "b + block_count (block_size conf) (filesize conf) \<le> length (content_map mem)"
    and f: "file_ok g (unat (block_size conf)) (block_count (block_size conf) (filesize conf)) f
              (\<lambda>j. content_map mem ! (b + j))"
  shows "\<exists>g'. file_integrity F draws (\<lambda>_. False) buf0 conf info mem idproc f fpi (g, ms) = Inr (0, g', ms)
    \<and> gen_ok g' \<and> same_gen g g'"
proof -
  from r have bs: "0 < unat (block_size conf)" "unat (filesize conf) + unat (block_size conf) \<le> 2 ^ 64"
    by (auto simp: check_ready_def)
  let ?s = "\<lparr>i_gen = g, i_buf = buf0, i_errs = 0, i_msgs = ms\<rparr>"
  have "\<exists>s'. foldR (\<lambda>k. integrity_step F draws (\<lambda>_. False) conf info mem idproc f fpi (offset_of (block_size conf) k))
      [0 ..< block_count (block_size conf) (filesize conf)] ?s = Inr s'
    \<and> gen_ok (i_gen s') \<and> same_gen (i_gen ?s) (i_gen s') \<and> i_errs s' = i_errs ?s \<and> i_msgs s' = i_msgs ?s"
    using r d ts room f by (intro integrity_fold_ok) simp_all
  then obtain s' where
    "foldR (\<lambda>k. integrity_step F draws (\<lambda>_. False) conf info mem idproc f fpi (offset_of (block_size conf) k))
      [0 ..< block_count (block_size conf) (filesize conf)] ?s = Inr s'"
    "gen_ok (i_gen s')" "same_gen g (i_gen s')" "i_errs s' = 0" "i_msgs s' = ms" by auto
  then show ?thesis by (simp add: file_integrity_def run_blocks_eq [OF bs])
qed

section \<open>All files of a run\<close>

lemma pfile_name_inj: "pfile_name conf i = Inr n \<Longrightarrow> pfile_name conf j = Inr n \<Longrightarrow> i = j"
  by (auto simp: pfile_name_def sprintf_into_def show_int_inj elim!: bindR_InrE split: if_splits)

text \<open>The files of the first \<open>n\<close> processes hold what their trackers say.\<close>

definition files_ok :: "'d user_confs \<Rightarrow> nat list \<Rightarrow> nat \<Rightarrow> 'd generator \<Rightarrow> fs \<Rightarrow> shared \<Rightarrow> bool" where
  "files_ok conf ts n g fs mem \<longleftrightarrow> (\<forall>i < n. \<forall>name. pfile_name conf (int i) = Inr name \<longrightarrow>
     file_ok g (unat (block_size conf)) (block_count (block_size conf) (filesize conf)) (file_of fs name)
       (\<lambda>j. content_map mem ! (ts ! i + j)))"

text \<open>The set-up of a run on files: names, openable files, room and disjoint trackers.\<close>

definition run_ready :: "(string \<Rightarrow> bool) \<Rightarrow> 'd user_confs \<Rightarrow> duplicates_info \<Rightarrow> nat list \<Rightarrow> nat \<Rightarrow> bool" where
  "run_ready ok conf info ts len \<longleftrightarrow> \<not> rawdevice conf \<and> content_tracker info = Some ts
     \<and> nat (work_procs conf) \<le> length ts
     \<and> (\<forall>i < nat (work_procs conf). \<exists>name. pfile_name conf (int i) = Inr name \<and> ok name)
     \<and> (\<forall>i < nat (work_procs conf). ts ! i + block_count (block_size conf) (filesize conf) \<le> len)
     \<and> (\<forall>i < nat (work_procs conf). \<forall>j < i.
          ts ! j + block_count (block_size conf) (filesize conf) \<le> ts ! i
          \<or> ts ! i + block_count (block_size conf) (filesize conf) \<le> ts ! j)"

definition pop_conf_ok :: "'d user_confs \<Rightarrow> 'd generator \<Rightarrow> bool" where
  "pop_conf_ok conf g \<longleftrightarrow> check_ready conf g \<and> zero_first g \<and> 1 \<le> integrity conf \<and> \<not> distout conf
     \<and> populate_opt conf \<noteq> DDPOP"

lemma populate_file_ok:
  assumes c: "pop_conf_ok conf (p_gen s)" and d: "\<And>i off. draw_ok (p_gen s) (draws i off)"
    and w: "\<And>i off. wres i off = int (unat (block_size conf))"
    and run: "run_ready ok conf info ts (length (content_map (p_mem s)))"
    and i: "i < nat (work_procs conf)" and prev: "files_ok conf ts i (p_gen s) (p_fs s) (p_mem s)"
  shows "\<exists>t' s'. populate_file F sys ok draws wres conf info (int i) (t, s) = Inr (t', s')
    \<and> gen_ok (p_gen s') \<and> same_gen (p_gen s) (p_gen s') \<and> cells (p_mem s') = cells (p_mem s)
    \<and> length (content_map (p_mem s')) = length (content_map (p_mem s))
    \<and> files_ok conf ts (Suc i) (p_gen s') (p_fs s') (p_mem s')"
proof -
  let ?n = "block_count (block_size conf) (filesize conf)"
  from run i obtain name where name: "pfile_name conf (int i) = Inr name" "ok name"
    by (auto simp: run_ready_def)
  from run i have room: "ts ! i + ?n \<le> length (content_map (p_mem s))" and it: "i < length ts"
    and tr: "content_tracker info = Some ts" "\<not> rawdevice conf"
    by (auto simp: run_ready_def)
  have tb: "track_base conf info (int i) = Inr (ts ! i)"
    using tr it by (simp add: track_base_def aget_def)
  let ?fs = "case p_fs s name of None \<Rightarrow> (p_fs s)(name \<mapsto> []) | Some _ \<Rightarrow> p_fs s"
  have cp: "create_pfile ok (int i) conf (p_fs s) = Inr (name, ?fs)"
    using name by (simp add: create_pfile_def)
  have ready: "pop_ready conf info (int i) (ts ! i) (p_gen (s\<lparr>p_fs := ?fs\<rparr>))"
    using c tb by (simp add: pop_ready_def pop_conf_ok_def check_ready_def)
  have rp: "\<exists>n s'. real_populate F (draws (int i)) (wres (int i)) conf info (int i) name (s\<lparr>p_fs := ?fs\<rparr>) = Inr (n, s')
    \<and> gen_ok (p_gen s') \<and> untouched name (ts ! i) ?n (s\<lparr>p_fs := ?fs\<rparr>) s'
    \<and> file_ok (p_gen s') (unat (block_size conf)) ?n (file_of (p_fs s') name) (\<lambda>j. content_map (p_mem s') ! (ts ! i + j))"
    using ready d w room by (intro real_populate_ok) simp_all
  then obtain n s' where s': "real_populate F (draws (int i)) (wres (int i)) conf info (int i) name (s\<lparr>p_fs := ?fs\<rparr>) = Inr (n, s')"
    "gen_ok (p_gen s')" "untouched name (ts ! i) ?n (s\<lparr>p_fs := ?fs\<rparr>) s'"
    "file_ok (p_gen s') (unat (block_size conf)) ?n (file_of (p_fs s') name) (\<lambda>j. content_map (p_mem s') ! (ts ! i + j))"
    by blast
  from s'(3) have same: "same_gen (p_gen s) (p_gen s')" by (simp add: untouched_def)
  have "files_ok conf ts (Suc i) (p_gen s') (p_fs s') (p_mem s')"
    unfolding files_ok_def
  proof (intro allI impI)
    fix j nm assume j: "j < Suc i" and nm: "pfile_name conf (int j) = Inr nm"
    show "file_ok (p_gen s') (unat (block_size conf)) ?n (file_of (p_fs s') nm) (\<lambda>k. content_map (p_mem s') ! (ts ! j + k))"
    proof (cases "j = i")
      case True
      with name nm s'(4) show ?thesis by simp
    next
      case False
      with j have ji: "j < i" by simp
      have "nm \<noteq> name" using pfile_name_inj [of conf "int j" nm "int i"] nm name(1) False by auto
      then have "p_fs s' nm = p_fs s nm" using s'(3) by (auto simp: untouched_def split: option.split)
      then have fo: "file_of (p_fs s') nm = file_of (p_fs s) nm" by (simp add: file_of_def)
      have "content_map (p_mem s') ! (ts ! j + k) = content_map (p_mem s) ! (ts ! j + k)" if "k < ?n" for k
      proof -
        have "ts ! j + ?n \<le> ts ! i \<or> ts ! i + ?n \<le> ts ! j" using run i ji by (auto simp: run_ready_def)
        then have "ts ! j + k < ts ! i \<or> ts ! i + ?n \<le> ts ! j + k" using that by auto
        then show ?thesis using s'(3) by (auto simp: untouched_def)
      qed
      moreover have "file_ok (p_gen s) (unat (block_size conf)) ?n (file_of (p_fs s) nm) (\<lambda>k. content_map (p_mem s) ! (ts ! j + k))"
        using prev ji nm by (simp add: files_ok_def)
      ultimately show ?thesis
        unfolding file_ok_same [OF same] fo by (simp cong: file_ok_cong)
    qed
  qed
  moreover have "populate_file F sys ok draws wres conf info (int i) (t, s) = Inr (t + n, s')"
    using name c cp s'(1) by (simp add: populate_file_def pop_conf_ok_def)
  ultimately show ?thesis using s'(2,3) same by (auto simp: untouched_def)
qed

lemma pop_conf_ok_same: "pop_conf_ok conf g \<Longrightarrow> same_gen g g' \<Longrightarrow> gen_ok g' \<Longrightarrow> pop_conf_ok conf g'"
  by (auto simp: pop_conf_ok_def same_zero_first intro: check_ready_same)

lemma populate_all_ok:
  assumes c: "pop_conf_ok conf (p_gen s)" and d: "\<And>i off. draw_ok (p_gen s) (draws i off)"
    and w: "\<And>i off. wres i off = int (unat (block_size conf))"
    and run: "run_ready ok conf info ts (length (content_map (p_mem s)))"
    and n: "n \<le> nat (work_procs conf)"
  shows "\<exists>t s'. foldR (\<lambda>i. populate_file F sys ok draws wres conf info (int i)) [0 ..< n] (0, s) = Inr (t, s')
    \<and> gen_ok (p_gen s') \<and> same_gen (p_gen s) (p_gen s') \<and> cells (p_mem s') = cells (p_mem s)
    \<and> length (content_map (p_mem s')) = length (content_map (p_mem s))
    \<and> files_ok conf ts n (p_gen s') (p_fs s') (p_mem s')"
  using n
proof (induction n)
  case 0
  then show ?case using c by (simp add: files_ok_def pop_conf_ok_def check_ready_def)
next
  case (Suc n)
  then obtain t s1 where s1: "foldR (\<lambda>i. populate_file F sys ok draws wres conf info (int i)) [0 ..< n] (0, s) = Inr (t, s1)"
    "gen_ok (p_gen s1)" "same_gen (p_gen s) (p_gen s1)" "cells (p_mem s1) = cells (p_mem s)"
    "length (content_map (p_mem s1)) = length (content_map (p_mem s))"
    "files_ok conf ts n (p_gen s1) (p_fs s1) (p_mem s1)" by auto
  have "\<exists>t' s'. populate_file F sys ok draws wres conf info (int n) (t, s1) = Inr (t', s')
    \<and> gen_ok (p_gen s') \<and> same_gen (p_gen s1) (p_gen s') \<and> cells (p_mem s') = cells (p_mem s1)
    \<and> length (content_map (p_mem s')) = length (content_map (p_mem s1))
    \<and> files_ok conf ts (Suc n) (p_gen s') (p_fs s') (p_mem s')"
    using pop_conf_ok_same [OF c s1(3,2)] d w run s1 Suc.prems
    by (intro populate_file_ok) (simp_all add: same_draw)
  with s1 show ?case by (auto simp: foldR_append intro: same_gen_trans)
qed

lemma check_all_ok:
  assumes r: "check_ready conf g" and d: "\<And>i off. fst (draws i off) \<noteq> -1"
    and run: "run_ready ok conf info ts (length (content_map mem))"
    and f: "files_ok conf ts (nat (work_procs conf)) g fs mem"
    and n: "n \<le> nat (work_procs conf)"
    and ex: "\<And>i name. i < nat (work_procs conf) \<Longrightarrow> pfile_name conf (int i) = Inr name \<Longrightarrow> fs name \<noteq> None"
  shows "\<exists>g'. foldR (\<lambda>i. check_pfile F ok draws (\<lambda>_ _. False) bufs conf info mem fpi (int i)) [0 ..< n] (0, g, fs, ms)
      = Inr (0, g', fs, ms) \<and> gen_ok g' \<and> same_gen g g'"
  using n
proof (induction n)
  case 0
  then show ?case using r by (simp add: check_ready_def)
next
  case (Suc n)
  then obtain g1 where g1: "foldR (\<lambda>i. check_pfile F ok draws (\<lambda>_ _. False) bufs conf info mem fpi (int i)) [0 ..< n] (0, g, fs, ms)
      = Inr (0, g1, fs, ms)" "gen_ok g1" "same_gen g g1" by auto
  have i: "n < nat (work_procs conf)" using Suc.prems by simp
  from run i obtain name where name: "pfile_name conf (int n) = Inr name" "ok name"
    by (auto simp: run_ready_def)
  from run i have room: "ts ! n + block_count (block_size conf) (filesize conf) \<le> length (content_map mem)"
    and it: "n < length ts" and tr: "content_tracker info = Some ts" by (auto simp: run_ready_def)
  have fs: "(case fs name of None \<Rightarrow> fs(name \<mapsto> []) | Some _ \<Rightarrow> fs) = fs"
    using ex [OF i name(1)] by auto
  have "\<exists>g'. file_integrity F (draws (int n)) (\<lambda>_. False) (bufs (int n)) conf info mem (int n) (file_of fs name) fpi (g1, ms)
      = Inr (0, g', ms) \<and> gen_ok g' \<and> same_gen g1 g'"
    using check_ready_same [OF r g1(3,2)] d tr it room f i name(1)
    by (intro file_integrity_ok [where b = "ts ! n"])
      (auto simp: files_ok_def file_ok_same [OF g1(3)])
  then obtain g' where g': "file_integrity F (draws (int n)) (\<lambda>_. False) (bufs (int n)) conf info mem (int n) (file_of fs name) fpi (g1, ms)
      = Inr (0, g', ms)" "gen_ok g'" "same_gen g1 g'" by blast
  have "check_pfile F ok draws (\<lambda>_ _. False) bufs conf info mem fpi (int n) (0, g1, fs, ms) = Inr (0, g', fs, ms)"
    using name fs g'(1) by (simp add: check_pfile_def create_pfile_def file_of_def)
  with g1 g' show ?case by (auto simp: foldR_append intro: same_gen_trans)
qed

lemma file_ok_exists:
  assumes "files_ok conf ts n g fs mem" and "i < n" and "pfile_name conf (int i) = Inr name"
    and "0 < block_count (block_size conf) (filesize conf)" and "0 < unat (block_size conf)"
  shows "fs name \<noteq> None"
proof
  assume none: "fs name = None"
  have "file_ok g (unat (block_size conf)) (block_count (block_size conf) (filesize conf)) (file_of fs name)
       (\<lambda>j. content_map mem ! (ts ! i + j))" using assms(1-3) by (auto simp: files_ok_def)
  then have "block_count (block_size conf) (filesize conf) * unat (block_size conf) \<le> 0"
    using none by (simp add: file_ok_def file_of_def)
  then show False using assms(4,5) by simp
qed

section \<open>A planted error\<close>

text \<open>
  \<open>insert_bug\<close> overwrites a block of the file with the letter b.  It is there for testing: nothing calls it.
\<close>

definition insert_bug :: "u8 list \<Rightarrow> nat \<Rightarrow> nat \<Rightarrow> u8 list" where
  "insert_bug f bs off = pwrite_file f off (replicate bs 0x62)"

lemma insert_bug_read: "pread_file (insert_bug f n off) off n = replicate n 0x62"
  using pread_pwrite_same [of f off "replicate n 0x62"] by (simp add: insert_bug_def)

lemma read32_bug:
  assumes "8 \<le> n"
  shows "read32 (replicate n 0x62) 4 = 0x62626262"
  using assms by (simp add: read32_def)

lemma bug_differs:
  assumes g: "gen_ok g" and v: "valid_info g bi" and t: "unat (total_unique_blocks g) < 0x62626262"
    and n: "8 \<le> n" "n \<le> length (expected g bi)"
  shows "take n (replicate n 0x62) \<noteq> take n (expected g bi)"
proof
  assume eq: "take n (replicate n 0x62) = take n (expected g bi)"
  have "expected g bi ! (4 + i) = bytes32 (block_id bi) ! i" if "i < 4" for i
    using that by (auto simp: expected_def nth_append)
  moreover have "expected g bi ! j = 0x62" if "j < 8" for j
    using arg_cong [OF eq, of "\<lambda>xs. xs ! j"] that n by simp
  ultimately have b: "\<forall>i < 4. replicate n 0x62 ! (4 + i) = bytes32 (block_id bi) ! i"
    using n by auto
  have "read32 (replicate n 0x62) 4 = block_id bi" by (rule read32_bytes32 [OF b])
  then have "block_id bi = 0x62626262" by (simp only: read32_bug [OF n(1)])
  moreover have "unat (block_id bi) < 0x62626262" using v t by (simp add: valid_info_def)
  ultimately show False by simp
qed

section \<open>Properties\<close>

text \<open>
  C2: population and integrity check agree: when every write is complete, populating the files of
  all processes and checking them afterwards finds no integrity issue, whatever the draws of both
  phases are (the check draws contents other than 2^32 - 1).  \<open>run_ready\<close> says that the names of the
  files fit their arrays, that the files can be opened, and that the trackers of the processes are
  disjoint and inside the mapping; \<open>pop_conf_ok\<close> that the generator is initialised, its first line
  is the only one without copies, and its buffers hold a block.
\<close>

theorem populate_then_check_clean:
  assumes "pop_conf_ok conf (p_gen s)" and "\<forall>i off. draw_ok (p_gen s) (draws i off)"
    and "\<forall>i off. wres i off = int (unat (block_size conf))"
    and "run_ready ok conf info ts (length (content_map (p_mem s)))"
    and "0 < unat (filesize conf)" and "\<forall>i off. fst (contents i off) \<noteq> -1"
  shows "\<exists>t s' g'. populate F sys ok draws wres conf info s = Inr (t, s')
    \<and> static_check F ok contents (\<lambda>_ _. False) bufs conf info (p_mem s') True (p_gen s') (p_fs s')
        = Inr (0, g', p_fs s', [Header, NoIssues])"
proof -
  let ?n = "nat (work_procs conf)"
  have raw: "\<not> rawdevice conf" using assms(4) by (simp add: run_ready_def)
  have "\<exists>t s'. foldR (\<lambda>i. populate_file F sys ok draws wres conf info (int i)) [0 ..< ?n] (0, s) = Inr (t, s')
    \<and> gen_ok (p_gen s') \<and> same_gen (p_gen s) (p_gen s') \<and> cells (p_mem s') = cells (p_mem s)
    \<and> length (content_map (p_mem s')) = length (content_map (p_mem s))
    \<and> files_ok conf ts ?n (p_gen s') (p_fs s') (p_mem s')"
    using assms(1-4) by (intro populate_all_ok) simp_all
  then obtain t s' where p: "populate F sys ok draws wres conf info s = Inr (t, s')" "gen_ok (p_gen s')"
    "same_gen (p_gen s) (p_gen s')" "length (content_map (p_mem s')) = length (content_map (p_mem s))"
    "files_ok conf ts ?n (p_gen s') (p_fs s') (p_mem s')"
    using raw by (auto simp: populate_def)
  have c: "check_ready conf (p_gen s')"
    using assms(1) p(2,3) by (auto simp: pop_conf_ok_def intro: check_ready_same)
  then have bs: "0 < unat (block_size conf)" by (simp add: check_ready_def)
  have cnt: "0 < block_count (block_size conf) (filesize conf)"
    using bs assms(5) by (simp add: block_count_def div_greater_zero_iff)
  have "\<exists>g'. foldR (\<lambda>i. check_pfile F ok contents (\<lambda>_ _. False) bufs conf info (p_mem s') True (int i)) [0 ..< ?n]
      (0, p_gen s', p_fs s', [Header]) = Inr (0, g', p_fs s', [Header]) \<and> gen_ok g' \<and> same_gen (p_gen s') g'"
    using c p assms(4,6) file_ok_exists [OF p(5) _ _ cnt bs] by (intro check_all_ok) auto
  then have "\<exists>g'. static_check F ok contents (\<lambda>_ _. False) bufs conf info (p_mem s') True (p_gen s') (p_fs s')
        = Inr (0, g', p_fs s', [Header, NoIssues])"
    using raw by (auto simp: static_check_def log_msg_def)
  with p(1) show ?thesis by blast
qed

text \<open>
  C16: the check of one block is exact: \<open>online_check\<close> returns 0 if and only if the bytes read are
  those that the description of the block stands for.
\<close>

theorem online_check_exact:
  assumes "gen_ok g" and "valid_info g bi" and "c1 \<noteq> -1" and "unat (total_unique_blocks g) < 2 ^ 32 - 1"
    and "unat n \<le> length buf" and "unat n \<le> length (expected g bi)"
  shows "(\<exists>g' ms'. online_check F c1 c2 buf bi n fpi fc info (g, ms) = Inr (0, g', ms'))
    = (take (unat n) buf = take (unat n) (expected g bi))"
  using online_check_intact [OF assms, of F c2 fpi fc info ms] online_check_differs [OF assms, of F c2 fpi fc info ms]
  by (metis zero_neq_one)

text \<open>
  C37: a block whose identifiers have been overwritten with zeros, as on a file filled by \<open>dd\<close>, is
  not reported: block 0 has no line, and the check ends the whole program with exit status 0.
\<close>

theorem zero_block_ends_check:
  assumes "gen_ok g" and "valid_info g bi" and "c1 \<noteq> -1" and "unat (total_unique_blocks g) < 2 ^ 31"
    and "unat n \<le> length buf" and "unat n \<le> length (expected g bi)" and "8 \<le> length buf"
    and "take (unat n) buf \<noteq> take (unat n) (expected g bi)" and "read32 buf 4 = 0"
    and "zero_copy_blocks info + duplicated_blocks info \<noteq> 0"
  shows "online_check F c1 c2 buf bi n fpi fc info (g, ms) = Inl (Exited 0)"
proof -
  have t: "unat (total_unique_blocks g) < 2 ^ 32 - 1" using assms(4) by simp
  from block_content_ok [OF assms(1-3) t] obtain p g' where
    p: "get_block_content g c1 bi = Inr (p, g')" "gen_ok g'" "same_gen g g'" "buffer_at g' p = expected g bi"
    by blast
  have lf: "lines_from 0 (linhas g')" and tot: "blocks_of (linhas g') < 2 ^ 31"
    using gen_okD(1,2) [OF p(2)] assms(4) same_gen_fields(2) [OF p(3)] by auto
  have "\<not> in_line l 0" if l: "l \<in> set (linhas g')" for l
  proof -
    have "1 \<le> unat (nrBlocks l)" using lf l
    proof -
      obtain i where "i < length (linhas g')" "l = linhas g' ! i" using l by (auto simp: in_set_conv_nth)
      with lines_from_nth [OF lf, of i] show ?thesis by simp
    qed
    then have b: "unat (nrBase l) + 1 < 2 ^ 31" using lines_in_range [OF lf l] tot by simp
    then have "unat (nrBase l + 1) = unat (nrBase l) + 1" using unat_Suc_small [of "nrBase l"] by simp
    then have "sint (nrBase l + 1) = int (unat (nrBase l) + 1)" using b by (subst sint_small) simp_all
    then have "\<not> sint (nrBase l + 1) \<le> 0" by linarith
    then show ?thesis by (simp add: in_line_def)
  qed
  then have "find (\<lambda>l. in_line l 0) (linhas g') = None" by (simp add: find_None_iff)
  then have gb: "get_block_compression_by_id F g' 0 = Inr (-1)"
    by (simp add: get_block_compression_by_id_def)
  have "\<not> zero_copy_blocks info + duplicated_blocks info \<le> ucast (0 :: u32)"
    using assms(10) by simp
  then have "check_block_content F g' c2 buf n info = Inl (Exited 0)"
    using assms(7,9) gb by (simp add: check_block_content_def Let_def)
  moreover have "memcmp0 buf (expected g bi) n = Inr False"
    using assms(5,6,8) by (simp add: memcmp0_def)
  ultimately show ?thesis using p by (simp add: online_check_def)
qed

text \<open>
  The processes work on different files: \<open>pfile_name\<close> gives different names to different
  process numbers, and fails exactly when the number has more than three characters or the path does
  not fit the array of 100 characters.
\<close>

lemma pfile_names:
  "(pfile_name conf i = pfile_name conf j \<and> pfile_name conf i \<noteq> Inl OutOfBounds \<longrightarrow> i = j)
   \<and> (pfile_name conf i = Inl OutOfBounds) =
       (4 \<le> length (show_int i) \<or> PATH_SIZE \<le> length (tempfilespath conf) + length TMP_FILE + length (show_int i))"
  by (auto simp: pfile_name_def sprintf_into_def show_int_inj split: if_splits)


section \<open>Concrete runs\<close>

definition chk_conf :: "rat user_confs" where
  "chk_conf = (initial_conf exact_fpu 0)\<lparr>block_size := 8, filesize := 16, totblocks := 2, nprocs := 2,
     integrity := 1, populate_opt := 1, tempfilespath := ''tmp/''\<rparr>"

definition chk_info :: duplicates_info where
  "chk_info = shm_info\<lparr>zero_copy_blocks := 3, duplicated_blocks := 2, statistics := Some 0,
     zerodups := Some 2, content_tracker := Some [0, 2]\<rparr>"

definition chk_state :: "rat pop_state" where
  "chk_state = \<lparr>p_gen = demo_gen, p_mem = \<lparr>cells = [0, 0, 0], content_map = replicate 4 shm_block\<rparr>,
     p_fs = (\<lambda>_. None), p_rng = zero_sfmt\<rparr>"

lemma chk_sel:
  "block_size chk_conf = 8" "filesize chk_conf = 16" "work_procs chk_conf = 2" "\<not> rawdevice chk_conf"
  "integrity chk_conf = 1" "\<not> distout chk_conf" "populate_opt chk_conf = 1" "tempfilespath chk_conf = ''tmp/''"
  by (simp_all add: chk_conf_def initial_conf_def work_procs_def)

lemma chk_names: "i < 2 \<Longrightarrow> \<exists>name. pfile_name chk_conf (int i) = Inr name"
  by (auto dest!: less_2_cases simp: pfile_name_def sprintf_into_def show_int_def show_nat.simps
      chk_sel TMP_FILE_def PATH_SIZE_def)

lemma chk_ready: "check_ready chk_conf demo_gen"
  by (simp add: check_ready_def demo_gen_ok chk_sel buffers_hold_def tails_def)

theorem populate_then_check_clean_witness:
  "\<exists>t s' g'. populate exact_fpu (\<lambda>_ fs. fs) (\<lambda>_. True) (\<lambda>_ _. \<lparr>d_line = 1, d_block = 2, d_content = 9\<rparr>)
      (\<lambda>_ _. 8) chk_conf chk_info chk_state = Inr (t, s')
    \<and> static_check exact_fpu (\<lambda>_. True) (\<lambda>_ _. (7, 7)) (\<lambda>_ _. False) (\<lambda>_. []) chk_conf chk_info (p_mem s') True
        (p_gen s') (p_fs s') = Inr (0, g', p_fs s', [Header, NoIssues])"
proof (rule populate_then_check_clean [where ts = "[0, 2]"])
  show "pop_conf_ok chk_conf (p_gen chk_state)"
    using chk_ready by (simp add: pop_conf_ok_def chk_state_def chk_sel zero_first_def DDPOP_def)
  show "run_ready (\<lambda>_. True) chk_conf chk_info [0, 2] (length (content_map (p_mem chk_state)))"
    using chk_names by (auto dest!: less_2_cases simp: run_ready_def chk_sel chk_info_def chk_state_def
        block_count_def)
qed (simp_all add: draw_ok_def chk_state_def chk_sel)

definition chk_bi :: block_info where
  "chk_bi = \<lparr>cont_id = 5, proc_id = 0, block_id = 5, compression_index = 2, flag_unique_block = False\<rparr>"

lemma chk_bi_ok: "valid_info demo_gen chk_bi" "length (expected demo_gen chk_bi) = 8"
proof -
  show "valid_info demo_gen chk_bi" by (simp add: valid_info_def chk_bi_def content_of_def)
  have "get_model_by_id_and_compression demo_gen 5 2 = Inr (1, 2)"
    by code_simp
  then have m: "model_index demo_gen 5 = Inr 1"
    by (auto simp: get_model_by_id_and_compression_def elim!: bindR_InrE)
  have "tails demo_gen ! 1 ! 2 = []" by (simp add: tails_def demo_gen_def)
  then show "length (expected demo_gen chk_bi) = 8"
    using m by (simp add: expected_def chk_bi_def block_tail_def)
qed

theorem online_check_exact_witness:
  "(\<exists>g' ms'. online_check exact_fpu 7 7 (expected demo_gen chk_bi) chk_bi 8 True 1 chk_info (demo_gen, [])
      = Inr (0, g', ms'))"
  using online_check_exact [OF demo_gen_ok chk_bi_ok(1), of 7 8 "expected demo_gen chk_bi" exact_fpu 7 True 1 chk_info "[]"]
  by (simp add: chk_bi_ok(2))

theorem zero_block_ends_check_witness:
  "online_check exact_fpu 7 7 (replicate 8 0) chk_bi 8 True 1 chk_info (demo_gen, []) = Inl (Exited 0)"
proof (rule zero_block_ends_check [OF demo_gen_ok chk_bi_ok(1)])
  have "hd (expected demo_gen chk_bi) = 5" by (simp add: expected_def chk_bi_def bytes32_def)
  then have h: "hd (take 8 (expected demo_gen chk_bi)) = 5" by (cases "expected demo_gen chk_bi") simp_all
  have "take 8 (replicate 8 (0 :: u8)) \<noteq> take 8 (expected demo_gen chk_bi)"
  proof
    assume "take 8 (replicate 8 (0 :: u8)) = take 8 (expected demo_gen chk_bi)"
    from arg_cong [OF this, of hd] show False by (simp add: h)
  qed
  then show "take (unat (8 :: u64)) (replicate 8 0) \<noteq> take (unat (8 :: u64)) (expected demo_gen chk_bi)"
    by simp
qed (simp_all add: chk_bi_ok(2) read32_def chk_info_def)

lemma pfile_names_witness:
  "pfile_name chk_conf 0 \<noteq> pfile_name chk_conf 1 \<and> pfile_name chk_conf 1000 = Inl OutOfBounds"
proof -
  have "pfile_name chk_conf 0 \<noteq> Inl OutOfBounds" using chk_names [of 0] by auto
  moreover have "length (show_int 1000) = 4" by code_simp
  ultimately show ?thesis
    using pfile_names [of chk_conf 0 1] pfile_names [of chk_conf 1000 1000] by auto
qed


end
