(* ===== verification/Plotio.thy ===== *)
theory Plotio
  imports Utils Populate
begin

text \<open>
  \<open>io/plotio.c\<close>: what a process writes when it ends, the accesses to each block with their histogram
  and the snapshots of latency and throughput, and the scripts that plot these files.  A file is the
  list of its lines; \<open>fopen\<close> tells which files can be opened.
\<close>

section \<open>Plot scripts\<close>

text \<open>The scripts as their lines; \<open>quoted\<close> stands for the quotes around a file name.\<close>

definition quoted :: "string \<Rightarrow> string" where
  "quoted s = CHR 0x27 # s @ [CHR 0x27]"

definition write_plot_file_distribution :: "string \<Rightarrow> string \<Rightarrow> string list" where
  \<open>write_plot_file_distribution distcumulfile distfilename =
     [''set grid ytics lt 0 lw 1 lc rgb "#bbbbbb"'',
      ''set style data histogram'',
      ''set style histogram cluster gap 2'',
      ''set style fill solid'',
      ''set xlabel "Number of duplicates"'',
      ''set ylabel "Number of blocks"'',
      ''set logscale y'',
      ''set boxwidth 0.8'',
      ''set xtic scale 0 font "1"'',
      ''set xtics rotate by 45 right'',
      ''set key outside'',
      ''set key top horizontal'',
      ''plot '' @ quoted distcumulfile @ '' using 2:xtic(1) ti '' @ quoted distfilename
        @ '' noenhanced fillstyle pattern 4 lc rgb "#e70000"'']\<close>

definition write_plot_file_latency_throughput :: "string \<Rightarrow> string \<Rightarrow> string \<Rightarrow> string list" where
  \<open>write_plot_file_latency_throughput distfilename latfile thrfile =
     [''set multiplot layout 2,1 rowsfirst title "Latency and Throughput Plots ('' @ quoted distfilename
        @ '' data set)" noenhanced'',
      ''set grid ytics lt 0 lw 1 lc rgb "#bbbbbb"'',
      ''set offsets 0,30,0.07,0'',
      ''set ylabel "Latency (ms)"'',
      ''set yrange [0.0:*]'',
      ''set xtics rotate by 45 right'',
      ''set xtics nomirror'',
      ''set ytics nomirror'',
      ''set xrange [0.0:*]'',
      ''set pointsize 1.0'',
      ''set key off'',
      ''plot '' @ quoted latfile @ '' using 1:2 with linespoints lc rgb '' @ quoted ''blue''
        @ '' ti '' @ quoted ''Latency (miliseconds)''
        @ ''#,"" using 1:2:(sprintf("%d",$3)) with labels offset char 0,1 notitle'',
      ''set grid ytics lt 0 lw 1 lc rgb "#bbbbbb"'',
      ''set offsets 0,30,1000,0'',
      ''set xlabel "Time(s)"'',
      ''set ylabel "Throughput (blocks/s)"'',
      ''set autoscale y'',
      ''set xrange [0.0:*]'',
      ''set pointsize 1.0'',
      ''plot '' @ quoted thrfile @ '' using 1:2 with linespoints lc rgb '' @ quoted ''red''
        @ '' ti '' @ quoted ''Throughput (blocks/second)''
        @ ''#, "" using 1:2:(sprintf("%d",$3)) with labels offset char 0,1 notitle'',
      ''unset multiplot'']\<close>

definition write_plot_file_accesses :: "string \<Rightarrow> string list" where
  \<open>write_plot_file_accesses cumulaccfile =
     [''set grid ytics lt 0 lw 1 lc rgb "#bbbbbb"'',
      ''set style data histogram'',
      ''set style histogram cluster gap 1'',
      ''set style fill solid'',
      ''set xtics rotate by 45 right'',
      ''set ytics nomirror'',
      ''set xlabel "Number of accesses"'',
      ''set ylabel "Number of Blocks"'',
      ''set logscale y'',
      ''#set key at screen 0.90,screen 1 top right horizontal font "Times-Roman, 9"'',
      ''set key outside'',
      ''set key top horizontal'',
      ''set boxwidth 0.8'',
      ''set xtic scale 0 font "1"'',
      ''plot '' @ quoted cumulaccfile @ '' using 2:xtic(1) ti col fillstyle pattern 4 lc rgb "#e70000"'']\<close>

section \<open>Accesses\<close>

text \<open>\<open>find_bucket\<close> and the position of a count are those of the distribution.\<close>

record access_hist =
  acs :: "u64 list"
  acc_lines :: "(u64 \<times> u64) list"
  pos_touched :: u64
  bytes_processed :: u64

definition ACS_LEN :: nat where "ACS_LEN = 8"

text \<open>One block: the array of buckets is doubled once if the position is past its end.\<close>

definition access_step :: "u64 \<Rightarrow> u64 list \<Rightarrow> nat \<Rightarrow> access_hist \<Rightarrow> access_hist res" where
  "access_step bs accesses i h =
     (let n = accesses ! i;
          h = (if n > 0
               then h\<lparr>pos_touched := pos_touched h + 1, bytes_processed := bytes_processed h + bs * n\<rparr> else h);
          pos = arr_pos n;
          len = length (acs h);
          ds = (if int len \<le> pos then acs h @ replicate len 0 else acs h)
      in if pos < 0 then Inl OutOfBounds
         else bindR (aget ds (nat pos)) (\<lambda>c.
              bindR (aset ds (nat pos) (c + 1)) (\<lambda>ds.
                Inr (h\<lparr>acc_lines := acc_lines h @ [(word_of_nat i, n)], acs := ds\<rparr>))))"

text \<open>The printing loop ends at the first empty bucket of the lower half of a decade.\<close>

function print_acs :: "u64 list \<Rightarrow> nat \<Rightarrow> cint \<Rightarrow> cint \<Rightarrow> (cint \<times> cint \<times> u64) list" where
  "print_acs ds i ini final =
     (if length ds \<le> i \<or> ds ! i = 0 then []
      else (ini, signed_drop_bit 1 final, ds ! i)
        # (if Suc i < length ds \<and> ds ! Suc i \<noteq> 0 then [(signed_drop_bit 1 final, final, ds ! Suc i)] else [])
        @ print_acs ds (i + 2) final (final * 10))"
  by pat_completeness auto
termination
  by (relation "measure (\<lambda>(ds, i, ini, final). length ds - i)") auto

declare print_acs.simps [simp del]

definition access_mode :: "access_type \<Rightarrow> string" where
  "access_mode a = (case a of SEQUENTIAL \<Rightarrow> ''sequential'' | UNIFORM \<Rightarrow> ''uniform'' | TPCC \<Rightarrow> ''hotspot'')"

text \<open>The names: the name of the access log, with the process appended in its own array, and its variants.\<close>

definition access_names :: "'d user_confs \<Rightarrow> string \<Rightarrow> (string \<times> string \<times> string) res" where
  "access_names conf pid =
     bindR (sprintf_into PATH_SIZE (accessfilelog conf @ pid)) (\<lambda>name.
     bindR (sprintf_into 128 (name @ ''cumul'')) (\<lambda>cumul.
     bindR (sprintf_into 128 (cumul @ ''plot'')) (\<lambda>plot. Inr (name, cumul, plot))))"

record access_report =
  ar_lines :: "(u64 \<times> u64) list"
  ar_mode :: string
  ar_hist :: "(cint \<times> cint \<times> u64) list"
  ar_touched :: u64
  ar_bytes :: u64
  ar_plot :: "string list"

text \<open>The result is 1 and nothing is written when a file cannot be opened.\<close>

definition write_access_data ::
  "(string \<Rightarrow> bool) \<Rightarrow> u64 list \<Rightarrow> 'd user_confs \<Rightarrow> string \<Rightarrow> (int \<times> access_report option) res" where
  "write_access_data fopen accesses conf pid =
     bindR (access_names conf pid) (\<lambda>(acc, cumul, plot).
       let dir = ''results/accesses/''
       in if \<not> fopen (dir @ acc) \<or> \<not> fopen (dir @ cumul) \<or> \<not> fopen (dir @ plot) then Inr (1, None)
       else if length accesses < unat (totblocks conf) then Inl OutOfBounds
       else bindR (foldR (access_step (block_size conf) accesses) [0 ..< unat (totblocks conf)]
              \<lparr>acs = replicate ACS_LEN 0, acc_lines = [], pos_touched = 0, bytes_processed = 0\<rparr>) (\<lambda>h.
         Inr (0, Some \<lparr>ar_lines = acc_lines h, ar_mode = access_mode (accesstype conf),
           ar_hist = print_acs (acs h) 1 1 10, ar_touched = pos_touched h, ar_bytes = bytes_processed h,
           ar_plot = write_plot_file_accesses cumul\<rparr>)))"

section \<open>Snapshots\<close>

text \<open>
  The lines of one kind of snapshot (\<open>vals\<close>): time, value and operations for the first file, and the
  seconds since the start for the second.  An element no snapshot has written is an uninitialised
  read.
\<close>

definition snap_elem :: "'a option list \<Rightarrow> int \<Rightarrow> 'a res" where
  "snap_elem xs i =
     (if i < 0 then Inl OutOfBounds
      else bindR (aget xs (nat i)) (\<lambda>v. case v of None \<Rightarrow> Inl UninitRead | Some x \<Rightarrow> Inr x))"

definition snap_line :: "'d stats \<Rightarrow> 'd option list \<Rightarrow> int \<Rightarrow> ((u64 \<times> 'd \<times> 'd) \<times> (int \<times> 'd \<times> 'd)) res" where
  "snap_line stat vals i =
     bindR (snap_elem (snap_time stat) i) (\<lambda>t.
     bindR (snap_elem vals i) (\<lambda>v.
     bindR (snap_elem (snap_ops stat) i) (\<lambda>n. Inr ((t, v, n), (i * 30, v, n)))))"

definition write_snap_data ::
  "'d stats \<Rightarrow> int \<Rightarrow> 'd option list \<Rightarrow> ((u64 \<times> 'd \<times> 'd) list \<times> (int \<times> 'd \<times> 'd) list) res" where
  "write_snap_data stat index vals =
     bindR (foldR (\<lambda>i ls. bindR (snap_line stat vals i) (\<lambda>l. Inr (ls @ [l]))) [index .. iter_snap stat - 1] [])
       (\<lambda>ls. Inr (map fst ls, map snd ls))"

definition write_snaplat_data :: "'d stats \<Rightarrow> int \<Rightarrow> ((u64 \<times> 'd \<times> 'd) list \<times> (int \<times> 'd \<times> 'd) list) res" where
  "write_snaplat_data stat index = write_snap_data stat index (snap_latency stat)"

definition write_snapthr_data :: "'d stats \<Rightarrow> int \<Rightarrow> ((u64 \<times> 'd \<times> 'd) list \<times> (int \<times> 'd \<times> 'd) list) res" where
  "write_snapthr_data stat index = write_snap_data stat index (snap_throughput stat)"

text \<open>
  \<open>write_latency_throughput_snaps\<close>: the name of the result file with the kind of snapshot, the kind of
  operation and the process.  The line with the start of the run is written twice: before the call
  and by the called function.
\<close>

definition snap_names :: "string \<Rightarrow> 'd user_confs \<Rightarrow> string \<Rightarrow> (string \<times> string) res" where
  "snap_names kind conf pid =
     bindR (sprintf_into PATH_SIZE
       (printfile conf @ kind @ (if iotype conf = WRITE then ''write'' else ''read'') @ pid)) (\<lambda>name.
     bindR (sprintf_into PATH_SIZE (name @ ''compat'')) (\<lambda>fmt. Inr (name, fmt)))"

record 'd snap_report =
  sr_begin :: "u64 list"
  sr_lat :: "(u64 \<times> 'd \<times> 'd) list"
  sr_lat_compat :: "(int \<times> 'd \<times> 'd) list"
  sr_thr :: "(u64 \<times> 'd \<times> 'd) list"
  sr_thr_compat :: "(int \<times> 'd \<times> 'd) list"
  sr_plot :: "string list"

definition write_latency_throughput_snaps ::
  "(string \<Rightarrow> bool) \<Rightarrow> 'd stats \<Rightarrow> 'd user_confs \<Rightarrow> string \<Rightarrow> (int \<times> 'd snap_report option) res" where
  "write_latency_throughput_snaps fopen stat conf pid =
     (let dir = ''./results/latthr/'' in
      bindR (snap_names ''snapthr'' conf pid) (\<lambda>(thr, thrfmt).
      bindR (snap_names ''snaplat'' conf pid) (\<lambda>(lat, latfmt).
        if \<not> fopen (dir @ lat) \<or> \<not> fopen (dir @ latfmt) then Inr (1, None)
        else bindR (write_snaplat_data stat (start conf + 1)) (\<lambda>(l, lc).
          if \<not> fopen (dir @ thr) \<or> \<not> fopen (dir @ thrfmt) then Inr (1, None)
          else bindR (write_snapthr_data stat (start conf + 1)) (\<lambda>(t, tc).
               bindR (sprintf_into PATH_SIZE (printfile conf @ pid @ ''plot'')) (\<lambda>plot.
                 if \<not> fopen (''results/latthr/'' @ plot) then Inr (1, None)
                 else Inr (0, Some \<lparr>sr_begin = [beginio stat, beginio stat], sr_lat = l, sr_lat_compat = lc,
                        sr_thr = t, sr_thr_compat = tc,
                        sr_plot = write_plot_file_latency_throughput (distfile conf) latfmt thrfmt\<rparr>)))))))"

section \<open>The access report\<close>

text \<open>The number of blocks of a list of access counts in a bucket, and a bucket of an array of either length.\<close>

definition in_bucket :: "u64 list \<Rightarrow> nat \<Rightarrow> nat" where
  "in_bucket ns p = length (filter (\<lambda>n. arr_pos n = int p) ns)"

definition bucket_at :: "u64 list \<Rightarrow> nat \<Rightarrow> u64" where
  "bucket_at ds p = (if p < length ds then ds ! p else 0)"

lemma bucket_at_doubled: "bucket_at (ds @ replicate k 0) p = bucket_at ds p"
  by (simp add: bucket_at_def nth_append)

lemma bucket_at_update: "i < length ds \<Longrightarrow> bucket_at (ds[i := v]) p = (if p = i then v else bucket_at ds p)"
  by (simp add: bucket_at_def)

lemma arr_pos_7_digits:
  assumes "unat n < 10 ^ 7"
  shows "0 \<le> arr_pos n" "arr_pos n < 16"
proof -
  have "order_of_magnitude n \<le> 7" using assms by (rule order_of_magnitude_le)
  moreover have "n = 0 \<Longrightarrow> arr_pos n = 0" using arr_pos_small [of 0] by simp
  moreover have "n \<noteq> 0 \<Longrightarrow> 0 < arr_pos n" using arr_pos_interval [of n] assms by simp
  moreover have "unat n < 10 ^ 9" using assms by simp
  ultimately show "0 \<le> arr_pos n" "arr_pos n < 16"
    using arr_pos_small [of n] by (cases "n = 0"; auto)+
qed

definition hist_ok :: "u64 \<Rightarrow> u64 list \<Rightarrow> nat \<Rightarrow> access_hist \<Rightarrow> bool" where
  "hist_ok bs accesses k h \<longleftrightarrow>
     acc_lines h = map (\<lambda>i. (word_of_nat i, accesses ! i)) [0 ..< k]
   \<and> pos_touched h = word_of_nat (length (filter (\<lambda>n. 0 < n) (take k accesses)))
   \<and> bytes_processed h = bs * sum_list (take k accesses)
   \<and> length (acs h) \<in> {ACS_LEN, 2 * ACS_LEN}
   \<and> (\<forall>p. bucket_at (acs h) p = word_of_nat (in_bucket (take k accesses) p))"

lemma hist_ok_start:
  "hist_ok bs accesses 0 \<lparr>acs = replicate ACS_LEN 0, acc_lines = [], pos_touched = 0, bytes_processed = 0\<rparr>"
  by (simp add: hist_ok_def bucket_at_def in_bucket_def)

lemma access_step_ok:
  assumes ok: "hist_ok bs accesses k h" and k: "k < length accesses" and n: "unat (accesses ! k) < 10 ^ 7"
  shows "\<exists>h'. access_step bs accesses k h = Inr h' \<and> hist_ok bs accesses (Suc k) h'"
proof -
  let ?n = "accesses ! k"
  let ?p = "nat (arr_pos ?n)"
  obtain ds where ds: "ds = (if int (length (acs h)) \<le> arr_pos ?n then acs h @ replicate (length (acs h)) 0 else acs h)"
    by simp
  let ?h = "\<lparr>acs = ds[?p := ds ! ?p + 1], acc_lines = acc_lines h @ [(word_of_nat k, ?n)],
       pos_touched = pos_touched h + (if ?n > 0 then 1 else 0), bytes_processed = bytes_processed h + bs * ?n\<rparr>"
  note a = arr_pos_7_digits [OF n]
  have len: "length (acs h) \<in> {8, 16}" using ok by (simp add: hist_ok_def ACS_LEN_def)
  with a have p: "?p < length ds" and len': "length ds \<in> {8, 16}" by (auto simp: ds)
  have tk: "take (Suc k) accesses = take k accesses @ [?n]" using k by (rule take_Suc_conv_app_nth)
  have cnt: "in_bucket (take (Suc k) accesses) q = in_bucket (take k accesses) q + (if q = ?p then 1 else 0)" for q
    using a by (auto simp: tk in_bucket_def)
  have old: "bucket_at ds q = word_of_nat (in_bucket (take k accesses) q)" for q
    using ok by (simp add: hist_ok_def bucket_at_doubled ds)
  then have at_p: "ds ! ?p = word_of_nat (in_bucket (take k accesses) ?p)" using p by (metis bucket_at_def)
  have new: "bucket_at (ds[?p := ds ! ?p + 1]) q = word_of_nat (in_bucket (take (Suc k) accesses) q)" for q
    using p by (simp add: bucket_at_update old at_p cnt add.commute)
  have "access_step bs accesses k h = Inr ?h"
    using a len by (cases h) (auto simp: access_step_def Let_def aget_def aset_def word_gt_0 ds)
  moreover have "hist_ok bs accesses (Suc k) ?h"
    unfolding hist_ok_def using ok len' new by (simp add: hist_ok_def tk ACS_LEN_def algebra_simps)
  ultimately show ?thesis by blast
qed

lemma access_fold_ok:
  assumes "\<forall>n \<in> set accesses. unat n < 10 ^ 7" and "k \<le> length accesses"
  shows "\<exists>h. foldR (access_step bs accesses) [0 ..< k]
      \<lparr>acs = replicate ACS_LEN 0, acc_lines = [], pos_touched = 0, bytes_processed = 0\<rparr> = Inr h
    \<and> hist_ok bs accesses k h"
  using assms(2)
proof (induction k)
  case 0
  then show ?case by (simp add: hist_ok_start)
next
  case (Suc k)
  then obtain h where "foldR (access_step bs accesses) [0 ..< k]
      \<lparr>acs = replicate ACS_LEN 0, acc_lines = [], pos_touched = 0, bytes_processed = 0\<rparr> = Inr h"
    "hist_ok bs accesses k h" by auto
  moreover from this access_step_ok [of bs accesses k h] Suc.prems assms(1) obtain h' where
    "access_step bs accesses k h = Inr h'" "hist_ok bs accesses (Suc k) h'" by auto
  ultimately show ?case by (simp add: foldR_append)
qed

lemma take_nth_map: "map (\<lambda>i. (word_of_nat i :: u64, xs ! i)) [0 ..< length xs] = zip (map word_of_nat [0 ..< length xs]) xs"
  by (rule nth_equalityI) simp_all

lemma print_acs_empty: "bucket_at ds i = 0 \<Longrightarrow> print_acs ds i ini final = []"
  by (subst print_acs.simps) (simp add: bucket_at_def split: if_splits)

section \<open>Properties\<close>


section \<open>Concrete runs\<close>

definition acc_conf :: "rat user_confs" where
  "acc_conf = (initial_conf exact_fpu 0)\<lparr>totblocks := 3, accessfilelog := ''log'', accesstype := UNIFORM\<rparr>"


section \<open>The report of the snapshots\<close>

lemma upto_nats: "[int a .. int b - 1] = map int [a ..< b]"
proof (induction b)
  case (Suc b)
  then show ?case by (cases "a \<le> b") (simp_all add: upto_rec2)
qed simp

definition snapshot_at :: "'d stats \<Rightarrow> nat \<Rightarrow> u64 \<Rightarrow> 'd \<Rightarrow> 'd \<Rightarrow> 'd \<Rightarrow> bool" where
  "snapshot_at stat i t la th ops \<longleftrightarrow> i < length (snap_time stat) \<and> snap_time stat ! i = Some t
     \<and> i < length (snap_latency stat) \<and> snap_latency stat ! i = Some la
     \<and> i < length (snap_throughput stat) \<and> snap_throughput stat ! i = Some th
     \<and> i < length (snap_ops stat) \<and> snap_ops stat ! i = Some ops"

lemma snap_lines:
  assumes "\<And>i. i \<in> set is' \<Longrightarrow> snap_line stat vals (int i) = Inr ((t i, v i, n i), (int i * 30, v i, n i))"
  shows "foldR (\<lambda>i ls. bindR (snap_line stat vals i) (\<lambda>l. Inr (ls @ [l]))) (map int is') ls
    = Inr (ls @ map (\<lambda>i. ((t i, v i, n i), (int i * 30, v i, n i))) is')"
  using assms by (induction is' arbitrary: ls) simp_all

lemma write_snap_data_eq:
  assumes "\<And>i. i < nat (iter_snap stat) \<Longrightarrow> snap_line stat vals (int i) = Inr ((t i, v i, n i), (int i * 30, v i, n i))"
    and "0 \<le> index"
  shows "write_snap_data stat index vals =
    Inr (map (\<lambda>i. (t i, v i, n i)) [nat index ..< nat (iter_snap stat)],
         map (\<lambda>i. (int i * 30, v i, n i)) [nat index ..< nat (iter_snap stat)])"
proof (cases "0 \<le> iter_snap stat")
  case True
  then have "[index .. iter_snap stat - 1] = map int [nat index ..< nat (iter_snap stat)]"
    using upto_nats [of "nat index" "nat (iter_snap stat)"] assms(2) by simp
  then show ?thesis using snap_lines [of "[nat index ..< nat (iter_snap stat)]" stat vals t v n "[]"] assms(1)
    by (simp add: write_snap_data_def comp_def)
qed (use assms(2) in \<open>simp add: write_snap_data_def\<close>)


definition one_snapshot :: "rat stats" where
  "one_snapshot = (initial_stats exact_fpu)\<lparr>iter_snap := 1, snap_time := [Some 20], snap_latency := [Some 1],
     snap_throughput := [Some 50], snap_ops := [Some 1000]\<rparr>"

definition snap_conf :: "rat user_confs" where
  "snap_conf = (initial_conf exact_fpu 0)\<lparr>start := 0, printfile := ''run''\<rparr>"


end
