(* ===== verification/Process_run.thy ===== *)
theory Process_run
  imports Integrity Plotio
begin

text \<open>
  \<open>process_run\<close> of \<open>DEDISbench.c\<close>: one process of the benchmark, from its set-up over the loop of
  measured operations to its report.  A process has its own statistics, generators and buffers
  (\<open>proc\<close>); the mapping and the files are shared by all (\<open>sys\<close>).

  What the operating system and the generators deliver during one round of the loop is a \<open>tick\<close>: the
  draws for the block, the times read, and the result of \<open>pwrite\<close> or \<open>pread\<close>.  Messages to standard
  output and the sleep of a process that is ahead of its rate have no part in the state.
\<close>

section \<open>Time\<close>

record timeval =
  tv_sec :: int
  tv_usec :: int

text \<open>\<open>tim.tv_sec * 1000000 + tim.tv_usec\<close>\<close>

definition tv_us :: "timeval \<Rightarrow> int" where
  "tv_us t = tv_sec t * 1000000 + tv_usec t"

definition us64 :: "timeval \<Rightarrow> u64" where
  "us64 t = word_of_int (tv_us t)"

definition get_posix_clock_time :: "(int \<times> int) option \<Rightarrow> u64" where
  "get_posix_clock_time ts = (case ts of None \<Rightarrow> 0
     | Some (sec, nsec) \<Rightarrow> word_of_int (sec * 1000000 + sgn nsec * (\<bar>nsec\<bar> div 1000)))"

text \<open>The microseconds since \<open>base\<close>, through \<open>double\<close>, and the new base.\<close>

definition lap_time :: "'d fpu \<Rightarrow> timeval \<Rightarrow> timeval \<Rightarrow> int \<times> timeval" where
  "lap_time F tv base =
     (fp_trunc F (fp_add F (fp_mul F (fp_of_int F (tv_sec tv - tv_sec base)) (fp_of_int F 1000000))
        (fp_of_int F (tv_usec tv - tv_usec base))), tv)"

section \<open>The state of a process\<close>

record tick =
  tk_draw :: block_draw
  tk_checks :: "u32 \<times> u32"
  tk_before :: timeval
  tk_after :: timeval
  tk_result :: int
  tk_lap :: timeval
  tk_now :: timeval

record 'd proc =
  pr_stat :: "'d stats"
  pr_gen :: "'d generator"
  pr_acc :: access_state
  pr_accesses :: "u64 list"
  pr_buf :: "u8 list"
  pr_errs :: int
  pr_msgs :: "check_msg list"
  pr_log :: "(u64 \<times> u64) list"
  pr_begin_time :: u64
  pr_begin_size :: u64
  pr_base :: timeval
  pr_elapsed :: 'd

record sys =
  sh_mem :: shared
  sh_fs :: fs

text \<open>
  What does not change while a process runs: its arguments, its file, the bounds of its loop, the end
  of the ramp-up (not set when no termination is asked for), and whether the log could be opened.
\<close>

record 'd role =
  ro_idproc :: int
  ro_nproc :: int
  ro_ratio :: 'd
  ro_iotype :: io_type
  ro_name :: string
  ro_end_time :: u64
  ro_end_size :: u64
  ro_ru_begin :: "u64 option"
  ro_log :: bool

section \<open>One operation\<close>

text \<open>Whether the operation is measured: \<open>begin_time >= ru_begin\<close>.\<close>

definition measured :: "'d role \<Rightarrow> 'd proc \<Rightarrow> bool res" where
  "measured ro p = (case ro_ru_begin ro of None \<Rightarrow> Inl UninitRead | Some r \<Rightarrow> Inr (r \<le> pr_begin_time p))"

text \<open>
  The statistics of what has been written.  The index into \<open>statistics\<close> is an \<open>int\<close>, counted from
  the identifier of the block down from \<open>zero_copy_blocks\<close>.
\<close>

definition stat_index :: "duplicates_info \<Rightarrow> block_info \<Rightarrow> int" where
  "stat_index info bi = sint (ucast (zero_copy_blocks info - ucast (block_id bi)) :: cint)"

definition statistics_cell :: "duplicates_info \<Rightarrow> int \<Rightarrow> shared \<Rightarrow> nat res" where
  "statistics_cell info i mem = (case statistics info of None \<Rightarrow> Inl NullPointer
     | Some b \<Rightarrow> if int b + i < 0 \<or> int (length (cells mem)) \<le> int b + i then Inl OutOfBounds
                 else Inr (nat (int b + i)))"

definition count_written ::
  "'d user_confs \<Rightarrow> duplicates_info \<Rightarrow> block_info \<Rightarrow> 'd stats \<Rightarrow> shared \<Rightarrow> ('d stats \<times> shared) res" where
  "count_written conf info bi stat mem =
     (if \<not> distout conf then Inr (stat, mem)
      else if \<not> flag_unique_block bi then
        bindR (statistics_cell info (stat_index info bi) mem) (\<lambda>c.
          let n = cells mem ! c + 1
          in Inr (if n > 1 then stat\<lparr>dupl := dupl stat + 1\<rparr> else stat\<lparr>uni := uni stat + 1\<rparr>,
                  mem\<lparr>cells := (cells mem)[c := n]\<rparr>))
      else
        bindR (cell_at (zerodups info) 0 mem) (\<lambda>z.
        bindR (set_cell (zerodups info) 0 (z + 1) mem) (\<lambda>mem.
          Inr (stat\<lparr>uni := uni stat + 1\<rparr>, mem))))"

definition count_access :: "'d user_confs \<Rightarrow> u64 \<Rightarrow> u64 list \<Rightarrow> u64 list res" where
  "count_access conf off accesses =
     bindR (cdiv off (block_size conf)) (\<lambda>q.
     bindR (aget accesses (unat q)) (\<lambda>n. aset accesses (unat q) (n + 1)))"

text \<open>
  The times of one operation: the begin of the measurement when it is the first measured one, the
  latency when it is measured, and the end.  \<open>beginio\<close> is compared with -1.
\<close>

definition time_operation :: "'d fpu \<Rightarrow> bool \<Rightarrow> timeval \<Rightarrow> timeval \<Rightarrow> 'd stats \<Rightarrow> 'd stats" where
  "time_operation F m before after stat =
     (let t1 = us64 before; t2 = us64 after;
          stat = stat\<lparr>t1snap := t2\<rparr>;
          stat = (if beginio stat = -1 \<and> m then stat\<lparr>beginio := t1, last_snap_time := t2\<rparr> else stat);
          stat = (if m then stat\<lparr>latency := fp_add F (latency stat) (fp_of_word F (t2 - t1)),
                              snap_lat := fp_add F (snap_lat stat) (fp_of_word F (t2 - t1))\<rparr> else stat)
      in stat\<lparr>endio := t2\<rparr>)"

definition log_operation :: "'d user_confs \<Rightarrow> 'd role \<Rightarrow> tick \<Rightarrow> (u64 \<times> u64) list \<Rightarrow> (u64 \<times> u64) list res" where
  "log_operation conf ro tk ls =
     (if logfeature conf \<noteq> 1 then Inr ls
      else if ro_log ro
        then Inr (ls @ [(us64 (tk_after tk) - us64 (tk_before tk), word_of_int (tv_sec (tk_after tk)))])
      else Inl NullStream)"

text \<open>One write.  A failed or short \<open>pwrite\<close> is reported on standard output only.\<close>

definition perform_write ::
  "'d fpu \<Rightarrow> 'd user_confs \<Rightarrow> duplicates_info \<Rightarrow> 'd role \<Rightarrow> tick \<Rightarrow> 'd proc \<times> sys \<Rightarrow> ('d proc \<times> sys) res" where
  "perform_write F conf info ro tk = (\<lambda>(p, sh).
     bindR (write_request F (tk_draw tk) (pr_gen p) (ro_idproc ro) blank_info conf (pr_stat p) (pr_acc p))
       (\<lambda>(off, bi, buf, g, acc).
     bindR (count_written conf info bi (pr_stat p) (sh_mem sh)) (\<lambda>(stat, mem).
     bindR (count_access conf off (pr_accesses p)) (\<lambda>accesses.
     bindR (write_block (tk_result tk) (ro_name ro) (buffer_at g buf) (block_size conf) off (sh_fs sh)) (\<lambda>fs.
     bindR (track_block conf info (ro_idproc ro) off bi mem) (\<lambda>mem.
     bindR (measured ro p) (\<lambda>m.
     bindR (log_operation conf ro tk (pr_log p)) (\<lambda>ls.
       Inr (p\<lparr>pr_stat := time_operation F m (tk_before tk) (tk_after tk) stat, pr_gen := g, pr_acc := acc,
              pr_accesses := accesses, pr_log := ls\<rparr>,
            sh\<lparr>sh_mem := mem, sh_fs := fs\<rparr>)))))))))"

text \<open>
  One read, with the check of its content when it is asked for; \<open>pread\<close> leaves the rest of the buffer
  as it was.
\<close>

definition check_read ::
  "'d fpu \<Rightarrow> 'd user_confs \<Rightarrow> duplicates_info \<Rightarrow> 'd role \<Rightarrow> tick \<Rightarrow> u64 \<Rightarrow> u8 list \<Rightarrow> shared \<Rightarrow> 'd proc \<Rightarrow> 'd proc res" where
  "check_read F conf info ro tk off buf mem p =
     (if integrity conf \<ge> 2 then
        bindR (cdiv off (block_size conf)) (\<lambda>q.
        bindR (track_base conf info (ro_idproc ro)) (\<lambda>b.
        bindR (aget (content_map mem) (b + unat q)) (\<lambda>bi.
        bindR (online_check F (fst (tk_checks tk)) (snd (tk_checks tk)) buf bi (block_size conf)
                 (ro_iotype ro = READ) 0 info (pr_gen p, pr_msgs p)) (\<lambda>(e, g, ms).
          Inr (p\<lparr>pr_errs := pr_errs p + e, pr_gen := g, pr_msgs := ms\<rparr>)))))
      else Inr p)"

definition read_bytes :: "tick \<Rightarrow> u8 list \<Rightarrow> u64 \<Rightarrow> u64 \<Rightarrow> u8 list" where
  "read_bytes tk f off bs = (if tk_result tk < 0 then [] else pread_file f (unat off) (unat bs))"

definition read_count :: "tick \<Rightarrow> u8 list \<Rightarrow> u64" where
  "read_count tk dat = (if tk_result tk < 0 then -1 else word_of_nat (length dat))"

definition perform_read ::
  "'d fpu \<Rightarrow> 'd user_confs \<Rightarrow> duplicates_info \<Rightarrow> 'd role \<Rightarrow> tick \<Rightarrow> 'd proc \<times> sys \<Rightarrow> ('d proc \<times> sys) res" where
  "perform_read F conf info ro tk = (\<lambda>(p, sh).
     bindR (read_request conf (pr_stat p) (ro_idproc ro) (pr_acc p)) (\<lambda>(off, acc).
     bindR (count_access conf off (pr_accesses p)) (\<lambda>accesses.
       let dat = read_bytes tk (file_of (sh_fs sh) (ro_name ro)) off (block_size conf);
           n = read_count tk dat;
           buf = dat @ drop (length dat) (pr_buf p)
       in bindR (check_read F conf info ro tk off buf (sh_mem sh) (p\<lparr>pr_buf := buf\<rparr>)) (\<lambda>p.
          let stat = (if n \<noteq> block_size conf then (pr_stat p)\<lparr>misses_read := misses_read (pr_stat p) + 1\<rparr>
                      else pr_stat p)
          in bindR (measured ro p) (\<lambda>m.
             bindR (log_operation conf ro tk (pr_log p)) (\<lambda>ls.
               Inr (p\<lparr>pr_stat := time_operation F m (tk_before tk) (tk_after tk) stat, pr_acc := acc,
                      pr_accesses := accesses, pr_log := ls\<rparr>, sh)))))))"

section \<open>Snapshots\<close>

text \<open>The four arrays at the index \<open>iter_snap\<close>.\<close>

definition store_snapshot :: "'d fpu \<Rightarrow> 'd stats \<Rightarrow> 'd stats res" where
  "store_snapshot F stat =
     (let i = nat (iter_snap stat);
          secs = fp_div F (fp_of_word F (t1snap stat - last_snap_time stat)) (fp_of_int F 1000000)
      in if iter_snap stat < 0 then Inl OutOfBounds
         else bindR (aset (snap_throughput stat) i (Some (fp_div F (fp_of_word F (snap_totops stat)) secs))) (\<lambda>th.
              bindR (aset (snap_latency stat) i
                (Some (fp_div F (fp_div F (snap_lat stat) (fp_of_word F (snap_totops stat))) (fp_of_int F 1000)))) (\<lambda>la.
              bindR (aset (snap_ops stat) i (Some (fp_of_word F (snap_totops stat)))) (\<lambda>ops.
              bindR (aset (snap_time stat) i (Some (t1snap stat))) (\<lambda>ti.
                Inr (stat\<lparr>snap_throughput := th, snap_latency := la, snap_ops := ops, snap_time := ti\<rparr>))))))"

definition next_snapshot :: "'d fpu \<Rightarrow> 'd stats \<Rightarrow> 'd stats" where
  "next_snapshot F stat =
     stat\<lparr>iter_snap := iter_snap stat + 1, snap_lat := fp_of_int F 0, snap_totops := 0,
          last_snap_time := t1snap stat\<rparr>"

text \<open>After an operation: count it, and take a snapshot when 30 seconds have passed.\<close>

definition snapshot_due :: "'d fpu \<Rightarrow> 'd stats \<Rightarrow> bool" where
  "snapshot_due F stat =
     fp_le F (fp_add F (fp_of_word F (last_snap_time stat)) (fp_of_int F 30000000)) (fp_of_word F (t1snap stat))"

definition count_operation :: "'d fpu \<Rightarrow> bool \<Rightarrow> 'd stats \<Rightarrow> 'd stats res" where
  "count_operation F m stat =
     (let stat = (if m then stat\<lparr>tot_ops := tot_ops stat + 1, snap_totops := snap_totops stat + 1\<rparr> else stat)
      in if snapshot_due F stat
         then bindR (if m then store_snapshot F stat else Inr stat) (\<lambda>stat. Inr (next_snapshot F stat))
         else Inr stat)"

section \<open>The loop\<close>

text \<open>
  Whether an operation is due: always in a peak test, below the rate in a nominal one.  The product
  of \<open>tot_ops\<close> and \<open>nproc\<close> is one of \<open>uint64_t\<close>.
\<close>

definition rate_allows :: "'d fpu \<Rightarrow> 'd user_confs \<Rightarrow> 'd role \<Rightarrow> 'd proc \<Rightarrow> bool res" where
  "rate_allows F conf ro p =
     (let ops = fp_of_word F (tot_ops (pr_stat p) * word_of_int (ro_nproc ro))
      in if \<not> fp_le F (fp_of_int F 0) ops \<or> \<not> fp_less F (fp_of_int F 0) (pr_elapsed p) then Inl AssertFailed
         else Inr (testtype conf = PEAK \<or> fp_less F (fp_div F ops (pr_elapsed p)) (ro_ratio ro)))"

definition operate ::
  "'d fpu \<Rightarrow> 'd user_confs \<Rightarrow> duplicates_info \<Rightarrow> 'd role \<Rightarrow> tick \<Rightarrow> 'd proc \<times> sys \<Rightarrow> ('d proc \<times> sys) res" where
  "operate F conf info ro tk s =
     bindR (if ro_iotype ro = WRITE then perform_write F conf info ro tk s
            else perform_read F conf info ro tk s) (\<lambda>(p, sh).
     bindR (measured ro p) (\<lambda>m.
     bindR (count_operation F m (pr_stat p)) (\<lambda>stat.
       Inr (p\<lparr>pr_stat := stat,
              pr_begin_size := (if flag_termination_size conf then pr_begin_size p + 1 else pr_begin_size p)\<rparr>, sh))))"

definition clock_step :: "'d fpu \<Rightarrow> 'd user_confs \<Rightarrow> tick \<Rightarrow> 'd proc \<Rightarrow> 'd proc" where
  "clock_step F conf tk p =
     (let (d, base) = lap_time F (tk_lap tk) (pr_base p)
      in p\<lparr>pr_elapsed := fp_add F (pr_elapsed p) (fp_of_int F d), pr_base := base,
           pr_begin_time := (if flag_termination_time conf then word_of_int (tv_sec (tk_now tk)) else pr_begin_time p)\<rparr>)"

definition proc_step ::
  "'d fpu \<Rightarrow> 'd user_confs \<Rightarrow> duplicates_info \<Rightarrow> 'd role \<Rightarrow> tick \<Rightarrow> 'd proc \<times> sys \<Rightarrow> ('d proc \<times> sys) res" where
  "proc_step F conf info ro tk s =
     bindR (rate_allows F conf ro (fst s)) (\<lambda>go.
     bindR (if go then operate F conf info ro tk s else Inr s) (\<lambda>(p, sh).
       Inr (clock_step F conf tk p, sh)))"

definition proc_running :: "'d role \<Rightarrow> 'd proc \<Rightarrow> bool" where
  "proc_running ro p \<longleftrightarrow> pr_begin_time p < ro_end_time ro \<and> pr_begin_size p < ro_end_size ro"

text \<open>The loop may run for ever; \<open>k\<close> counts its rounds.\<close>

partial_function (option) process_loop ::
  "'d fpu \<Rightarrow> 'd user_confs \<Rightarrow> duplicates_info \<Rightarrow> 'd role \<Rightarrow> (nat \<Rightarrow> tick) \<Rightarrow> nat \<Rightarrow> 'd proc \<times> sys \<Rightarrow>
   (nat \<times> 'd proc \<times> sys) res option" where
  "process_loop F conf info ro ticks k s =
     (if proc_running ro (fst s)
      then (case proc_step F conf info ro (ticks k) s of
              Inl e \<Rightarrow> Some (Inl e)
            | Inr s \<Rightarrow> process_loop F conf info ro ticks (Suc k) s)
      else Some (Inr (k, s)))"

section \<open>Set-up\<close>

record 'd proc_env =
  pe_open :: "string \<Rightarrow> bool"
  pe_fopen :: "string \<Rightarrow> bool"
  pe_start :: timeval
  pe_base :: timeval
  pe_buf :: "u8 list"
  pe_ticks :: "nat \<Rightarrow> tick"

definition create_plog :: "(string \<Rightarrow> bool) \<Rightarrow> int \<Rightarrow> bool res" where
  "create_plog fopen procid =
     bindR (sprintf_into 4 (show_int procid)) (\<lambda>pid.
     bindR (sprintf_into 32 (''results/logp'' @ pid)) (\<lambda>name. Inr (fopen name)))"

text \<open>An \<open>int\<close> product.\<close>

definition int_mult :: "int \<Rightarrow> int \<Rightarrow> int" where
  "int_mult a b = sint (word_of_int (a * b) :: cint)"

text \<open>
  The bounds of the loop.  A termination that is not asked for gets the bounds -2 and -1, converted
  to \<open>uint64_t\<close>; a size termination sets the end of the ramp-up to 0 even when a time was given.
\<close>

record loop_bounds =
  lb_begin_time :: u64
  lb_end_time :: u64
  lb_begin_size :: u64
  lb_end_size :: u64
  lb_ru_begin :: "u64 option"

definition time_bounds :: "'d user_confs \<Rightarrow> int \<Rightarrow> u64 \<times> u64 \<times> u64 option" where
  "time_bounds conf sec =
     (if flag_termination_time conf
      then let b = word_of_int sec
           in (b, b + word_of_int (time_to_run conf) - word_of_int (int_mult (finish conf) 30),
               Some (b + word_of_int (int_mult (start conf) 30)))
      else (-2, -1, None))"

definition size_bounds :: "'d user_confs \<Rightarrow> int \<Rightarrow> (u64 \<times> u64) res" where
  "size_bounds conf nproc =
     (if flag_termination_size conf
      then bindR (cdiv (number_ops conf) (word_of_int nproc)) (\<lambda>e. Inr (0, e))
      else Inr (-2, -1))"

definition bounds_of :: "'d user_confs \<Rightarrow> int \<Rightarrow> int \<Rightarrow> loop_bounds res" where
  "bounds_of conf sec nproc =
     bindR (size_bounds conf nproc) (\<lambda>(bs, es).
       let (bt, et, ru) = time_bounds conf sec
       in Inr \<lparr>lb_begin_time = bt, lb_end_time = et, lb_begin_size = bs, lb_end_size = es,
               lb_ru_begin = (if flag_termination_size conf then Some 0 else ru)\<rparr>)"

definition proc_number :: "'d user_confs \<Rightarrow> io_type \<Rightarrow> int \<Rightarrow> int" where
  "proc_number conf ty idproc =
     (if mixedIO conf \<and> ty = READ then idproc + c_half (nprocs conf) else idproc)"

definition open_target :: "(string \<Rightarrow> bool) \<Rightarrow> 'd user_confs \<Rightarrow> int \<Rightarrow> fs \<Rightarrow> (string \<times> fs) res" where
  "open_target ok conf idproc fs =
     (if \<not> rawdevice conf then create_pfile ok idproc conf fs
      else bindR (open_rawdev ok conf fs) (\<lambda>name. Inr (name, fs)))"

text \<open>
  The log of the operations and the file of the online check, with its first line.
\<close>

definition open_logs :: "(string \<Rightarrow> bool) \<Rightarrow> 'd user_confs \<Rightarrow> io_type \<Rightarrow> int \<Rightarrow> (bool \<times> check_msg list) res" where
  "open_logs fopen conf ty procid_r =
     bindR (sprintf_into 4 (show_int procid_r)) (\<lambda>pid.
     bindR (if logfeature conf = 1 then create_plog fopen procid_r else Inr False) (\<lambda>lg.
     bindR (if integrity conf \<ge> 2 \<and> ty = READ
            then log_msg (fopen (''./results/intgr_online_check'' @ pid)) Header [] else Inr []) (\<lambda>ms.
       Inr (lg, ms))))"

definition process_start ::
  "'d fpu \<Rightarrow> 'd proc_env \<Rightarrow> 'd user_confs \<Rightarrow> int \<Rightarrow> int \<Rightarrow> 'd \<Rightarrow> io_type \<Rightarrow>
   'd generator \<Rightarrow> access_state \<Rightarrow> sys \<Rightarrow> ('d role \<times> 'd proc \<times> sys) res" where
  "process_start F E conf idproc nproc rate ty g acc sh =
     bindR (init_io conf (proc_number conf ty idproc) acc) (\<lambda>acc.
     bindR (open_target (pe_open E) conf idproc (sh_fs sh)) (\<lambda>(name, fs).
     bindR (open_logs (pe_fopen E) conf ty (proc_number conf ty idproc)) (\<lambda>(lg, ms).
     bindR (bounds_of conf (tv_sec (pe_start E)) nproc) (\<lambda>b.
       Inr (\<lparr>ro_idproc = idproc, ro_nproc = nproc, ro_ratio = rate, ro_iotype = ty, ro_name = name,
              ro_end_time = lb_end_time b, ro_end_size = lb_end_size b, ro_ru_begin = lb_ru_begin b, ro_log = lg\<rparr>,
            \<lparr>pr_stat = initial_stats F, pr_gen = g, pr_acc = acc, pr_accesses = replicate (unat (totblocks conf)) 0,
             pr_buf = pe_buf E, pr_errs = 0, pr_msgs = ms, pr_log = [], pr_begin_time = lb_begin_time b,
             pr_begin_size = lb_begin_size b, pr_base = pe_base E, pr_elapsed = fp_of_int F 1\<rparr>,
            sh\<lparr>sh_fs := fs\<rparr>)))))"

section \<open>The report\<close>

text \<open>The last snapshot, for the operations after the one before.\<close>

definition last_snapshot :: "'d fpu \<Rightarrow> 'd role \<Rightarrow> 'd proc \<Rightarrow> 'd stats res" where
  "last_snapshot F ro p =
     (let stat = pr_stat p
      in if last_snap_time stat < t1snap stat
         then bindR (measured ro p) (\<lambda>m.
              bindR (if m then store_snapshot F stat else Inr stat) (\<lambda>stat. Inr (next_snapshot F stat)))
         else Inr stat)"

definition averages :: "'d fpu \<Rightarrow> 'd stats \<Rightarrow> 'd stats" where
  "averages F stat =
     stat\<lparr>latency := fp_div F (fp_div F (latency stat) (fp_of_word F (tot_ops stat))) (fp_of_int F 1000),
          throughput := fp_div F (fp_of_word F (tot_ops stat))
            (fp_div F (fp_of_word F (endio stat - beginio stat)) (fp_of_int F 1000000))\<rparr>"

text \<open>
  The report: the log is closed, which fails on a NULL stream, then the last snapshot and the averages
  are computed and the files asked for are written.
\<close>

record 'd run_report =
  rr_stat :: "'d stats"
  rr_written :: "(u64 \<times> u64) option"
  rr_snaps :: "(int \<times> 'd snap_report option) option"
  rr_access :: "(int \<times> access_report option) option"
  rr_check :: "(int \<times> check_msg list) option"

definition process_report ::
  "'d fpu \<Rightarrow> (string \<Rightarrow> bool) \<Rightarrow> 'd user_confs \<Rightarrow> 'd role \<Rightarrow> 'd proc \<Rightarrow> 'd run_report res" where
  "process_report F fopen conf ro p =
     bindR (if logfeature conf = 1 \<and> \<not> ro_log ro then Inl NullStream else Inr ()) (\<lambda>_.
     bindR (sprintf_into 4 (show_int (proc_number conf (ro_iotype ro) (ro_idproc ro)))) (\<lambda>pid.
     bindR (last_snapshot F ro p) (\<lambda>stat.
     bindR (measured ro p) (\<lambda>m.
       let stat = (if m then averages F stat else stat)
       in bindR (if printtofile conf \<and> \<not> fopen (''./results/'' @ printfile conf) then Inl NullStream else Inr ())
            (\<lambda>_.
          bindR (if printtofile conf
                 then bindR (write_latency_throughput_snaps fopen stat conf pid) (\<lambda>r. Inr (Some r)) else Inr None)
            (\<lambda>snaps.
          bindR (if accesslog conf
                 then bindR (write_access_data fopen (pr_accesses p) conf pid) (\<lambda>r. Inr (Some r)) else Inr None)
            (\<lambda>acc.
            Inr \<lparr>rr_stat = stat, rr_written = (if distout conf then Some (uni stat, dupl stat) else None),
                 rr_snaps = snaps, rr_access = acc,
                 rr_check = (if integrity conf \<ge> 2 \<and> ro_iotype ro = READ
                   then Some (pr_errs p, if pr_errs p > 0 then pr_msgs p else pr_msgs p @ [NoIssues])
                   else None)\<rparr>)))))))"

definition process_run ::
  "'d fpu \<Rightarrow> 'd proc_env \<Rightarrow> 'd user_confs \<Rightarrow> duplicates_info \<Rightarrow> int \<Rightarrow> int \<Rightarrow> 'd \<Rightarrow> io_type \<Rightarrow>
   'd generator \<Rightarrow> access_state \<Rightarrow> sys \<Rightarrow> (nat \<times> 'd run_report \<times> sys) res" where
  "process_run F E conf info idproc nproc rate ty g acc sh =
     bindR (process_start F E conf idproc nproc rate ty g acc sh) (\<lambda>(ro, p, sh).
     bindR (of_loop (process_loop F conf info ro (pe_ticks E) 0 (p, sh))) (\<lambda>(k, p, sh).
     bindR (process_report F (pe_fopen E) conf ro p) (\<lambda>r. Inr (k, r, sh))))"

end
