(* ===== verification/Process_facts.thy ===== *)
theory Process_facts
  imports Process_run
begin

text \<open>
  What the loop of \<open>process_run\<close> does to the state of its process and to the files: the steps of a
  process that is set up properly succeed, keep its invariants and the agreement between the files
  and the content trackers, and a run that is bounded by a number of operations ends after them.
\<close>

section \<open>The floating-point unit\<close>

text \<open>
  What the loop relies on, which the arithmetic of \<open>double\<close> gives for times below \<open>2 ^ 53\<close>
  microseconds.
\<close>

locale clock_fpu =
  fixes F :: "'d fpu"
  assumes fp_nonneg: "0 \<le> i \<Longrightarrow> i < 2 ^ 64 \<Longrightarrow> fp_le F (fp_of_int F 0) (fp_of_int F i)"
    and fp_one: "fp_less F (fp_of_int F 0) (fp_of_int F 1)"
    and fp_grows: "fp_less F (fp_of_int F 0) x \<Longrightarrow> 0 \<le> d \<Longrightarrow> fp_less F (fp_of_int F 0) (fp_add F x (fp_of_int F d))"
    and fp_lap: "\<bar>s * 1000000\<bar> < 2 ^ 53 \<Longrightarrow> \<bar>u\<bar> < 2 ^ 53 \<Longrightarrow> \<bar>s * 1000000 + u\<bar> < 2 ^ 53 \<Longrightarrow>
      fp_trunc F (fp_add F (fp_mul F (fp_of_int F s) (fp_of_int F 1000000)) (fp_of_int F u)) = s * 1000000 + u"
    and fp_due: "0 \<le> a \<Longrightarrow> a + 30000000 < 2 ^ 53 \<Longrightarrow> 0 \<le> b \<Longrightarrow> b < 2 ^ 53 \<Longrightarrow>
      fp_le F (fp_add F (fp_of_int F a) (fp_of_int F 30000000)) (fp_of_int F b) = (a + 30000000 \<le> b)"
begin

text \<open>A time of day whose microseconds are exact in a \<open>double\<close>.\<close>

lemma lap_exact:
  assumes "0 \<le> tv_sec a" "0 \<le> tv_usec a" "tv_usec a < 1000000" "tv_us a < 2 ^ 52"
    and "0 \<le> tv_sec b" "0 \<le> tv_usec b" "tv_usec b < 1000000" "tv_us b < 2 ^ 52"
  shows "lap_time F b a = (tv_us b - tv_us a, b)"
proof -
  let ?s = "tv_sec b - tv_sec a" and ?u = "tv_usec b - tv_usec a"
  have eq: "?s * 1000000 + ?u = tv_us b - tv_us a" by (simp add: tv_us_def algebra_simps)
  have 1: "\<bar>?s * 1000000\<bar> < 2 ^ 53" using assms unfolding tv_us_def by (simp add: abs_less_iff left_diff_distrib)
  have 2: "\<bar>?u\<bar> < 2 ^ 53" using assms by (simp add: abs_less_iff)
  have 3: "\<bar>?s * 1000000 + ?u\<bar> < 2 ^ 53" unfolding eq using assms by (simp add: abs_less_iff tv_us_def)
  show ?thesis by (simp add: lap_time_def fp_lap [OF 1 2 3]) (simp add: tv_us_def algebra_simps)
qed

lemma due_exact:
  assumes "uint (last_snap_time st) + 30000000 < 2 ^ 53" and "uint (t1snap st) < 2 ^ 53"
  shows "snapshot_due F st = (uint (last_snap_time st) + 30000000 \<le> uint (t1snap st))"
  using assms by (simp add: snapshot_due_def fp_of_word_def fp_due)

lemma rate_assert:
  assumes "fp_less F (fp_of_int F 0) (pr_elapsed p)"
  shows "rate_allows F conf ro p = Inr (testtype conf = PEAK \<or>
    fp_less F (fp_div F (fp_of_word F (tot_ops (pr_stat p) * word_of_int (ro_nproc ro))) (pr_elapsed p)) (ro_ratio ro))"
proof -
  have "fp_le F (fp_of_int F 0) (fp_of_word F (w :: u64))" for w
    using fp_nonneg [of "uint w"] unsigned_less [where 'a = int, of w] by (simp add: fp_of_word_def)
  with assms show ?thesis by (simp add: rate_allows_def)
qed

end

interpretation exact: clock_fpu exact_fpu
proof
  fix s u :: int
  show "fp_trunc exact_fpu (fp_add exact_fpu (fp_mul exact_fpu (fp_of_int exact_fpu s) (fp_of_int exact_fpu 1000000))
    (fp_of_int exact_fpu u)) = s * 1000000 + u"
  proof -
    have n: "fp_trunc exact_fpu (rat_of_int n) = n" for n by (simp add: exact_fpu_def)
    have "fp_add exact_fpu (fp_mul exact_fpu (fp_of_int exact_fpu s) (fp_of_int exact_fpu 1000000)) (fp_of_int exact_fpu u)
      = rat_of_int (s * 1000000 + u)" by (simp add: exact_fpu_def)
    then show ?thesis by (simp only: n)
  qed
next
  fix a b :: int
  have "(rat_of_int a + 30000000 \<le> rat_of_int b) = (rat_of_int (a + 30000000) \<le> rat_of_int b)" by simp
  then show "fp_le exact_fpu (fp_add exact_fpu (fp_of_int exact_fpu a) (fp_of_int exact_fpu 30000000)) (fp_of_int exact_fpu b)
    = (a + 30000000 \<le> b)" by (simp only: of_int_le_iff) (simp add: exact_fpu_def)
qed (simp_all add: exact_fpu_def)

section \<open>The state of a run\<close>

text \<open>
  The circumstances of a process \<open>i\<close> with blocks \<open>tb\<close> and tracker \<open>b\<close> of \<open>n\<close> blocks, without the
  statistics of duplicates.
\<close>

definition steady :: "'d user_confs \<Rightarrow> duplicates_info \<Rightarrow> 'd role \<Rightarrow> nat \<Rightarrow> u64 \<Rightarrow> nat \<Rightarrow> nat \<Rightarrow> bool" where
  "steady conf info ro i tb b n \<longleftrightarrow> ro_idproc ro = int i \<and> proc_blocks conf = Inr tb
     \<and> (rawdevice conf \<longrightarrow> int i < nprocs conf \<and> nprocs conf < 2 ^ 31)
     \<and> totblocks conf = filesize conf div block_size conf \<and> block_size conf \<noteq> 0
     \<and> \<not> distout conf \<and> (logfeature conf = 1 \<longrightarrow> ro_log ro) \<and> unat (totblocks conf) \<le> n
     \<and> (1 \<le> integrity conf \<longrightarrow> track_base conf info (int i) = Inr b)"

definition gen_ready :: "'d user_confs \<Rightarrow> 'd generator \<Rightarrow> bool" where
  "gen_ready conf g \<longleftrightarrow> gen_ok g \<and> zero_first g \<and> buffers_hold (unat (block_size conf)) g
     \<and> unat (total_unique_blocks g) < 2 ^ 32 - 1"

text \<open>
  The snapshots: every one after the first operation, at \<open>t0\<close> or later, has taken 30 seconds.
\<close>

definition snap_ok :: "int \<Rightarrow> 'd stats \<Rightarrow> bool" where
  "snap_ok t0 st \<longleftrightarrow> length (snap_throughput st) = SNAPS \<and> length (snap_latency st) = SNAPS
     \<and> length (snap_ops st) = SNAPS \<and> length (snap_time st) = SNAPS \<and> 0 \<le> iter_snap st
     \<and> (beginio st = -1 \<and> iter_snap st = 0
        \<or> beginio st \<noteq> -1 \<and> t0 + 30000000 * iter_snap st \<le> uint (last_snap_time st)
          \<and> uint (last_snap_time st) < t0 + 30000000 * int SNAPS)"

definition tv_ok :: "timeval \<Rightarrow> bool" where
  "tv_ok t \<longleftrightarrow> 0 \<le> tv_sec t \<and> 0 \<le> tv_usec t \<and> tv_usec t < 1000000 \<and> tv_us t < 2 ^ 52"

text \<open>A process between two rounds; its next operation is measured.\<close>

definition proc_ok :: "'d fpu \<Rightarrow> 'd user_confs \<Rightarrow> 'd role \<Rightarrow> u64 \<Rightarrow> int \<Rightarrow> 'd proc \<Rightarrow> bool" where
  "proc_ok F conf ro tb t0 p \<longleftrightarrow> gen_ready conf (pr_gen p) \<and> access_ready (accesstype conf) tb (pr_acc p)
     \<and> length (pr_accesses p) = unat (totblocks conf)
     \<and> (ro_iotype ro \<noteq> WRITE \<longrightarrow> length (pr_buf p) = unat (block_size conf))
     \<and> snap_ok t0 (pr_stat p) \<and> fp_less F (fp_of_int F 0) (pr_elapsed p) \<and> tv_ok (pr_base p)
     \<and> measured ro p = Inr True"

lemma measured_True: "measured ro p = Inr True \<longleftrightarrow> (\<exists>r. ro_ru_begin ro = Some r \<and> r \<le> pr_begin_time p)"
  by (auto simp: measured_def split: option.splits)

text \<open>The file agrees with the content tracker, when there is one.\<close>

definition store_ok :: "'d user_confs \<Rightarrow> 'd role \<Rightarrow> nat \<Rightarrow> nat \<Rightarrow> 'd generator \<Rightarrow> sys \<Rightarrow> bool" where
  "store_ok conf ro b n g sh \<longleftrightarrow> (1 \<le> integrity conf \<longrightarrow> b + n \<le> length (content_map (sh_mem sh))
     \<and> file_ok g (unat (block_size conf)) n (file_of (sh_fs sh) (ro_name ro)) (\<lambda>j. content_map (sh_mem sh) ! (b + j)))"

definition tick_ok :: "'d user_confs \<Rightarrow> int \<Rightarrow> 'd generator \<Rightarrow> tick \<Rightarrow> bool" where
  "tick_ok conf t0 g tk \<longleftrightarrow> draw_ok g (tk_draw tk) \<and> fst (tk_checks tk) \<noteq> -1
     \<and> (1 \<le> integrity conf \<longrightarrow> tk_result tk = int (unat (block_size conf)))
     \<and> tv_ok (tk_before tk) \<and> tv_ok (tk_after tk) \<and> tv_ok (tk_lap tk)
     \<and> 0 \<le> t0 \<and> t0 \<le> tv_us (tk_after tk) \<and> tv_us (tk_after tk) < t0 + 30000000 * int SNAPS"

text \<open>What one process leaves of the shared state of the others.\<close>

definition shares :: "string \<Rightarrow> nat \<Rightarrow> nat \<Rightarrow> sys \<Rightarrow> sys \<Rightarrow> bool" where
  "shares name b n sh sh' \<longleftrightarrow> (\<forall>x. x \<noteq> name \<longrightarrow> sh_fs sh' x = sh_fs sh x)
     \<and> cells (sh_mem sh') = cells (sh_mem sh)
     \<and> length (content_map (sh_mem sh')) = length (content_map (sh_mem sh))
     \<and> (\<forall>j. j < b \<or> b + n \<le> j \<longrightarrow> content_map (sh_mem sh') ! j = content_map (sh_mem sh) ! j)"

lemma shares_refl [simp]: "shares name b n sh sh"
  by (simp add: shares_def)

lemma shares_trans: "shares name b n sh sh' \<Longrightarrow> shares name b n sh' sh'' \<Longrightarrow> shares name b n sh sh''"
  by (auto simp: shares_def)

lemma gen_ready_same: "gen_ready conf g \<Longrightarrow> same_gen g g' \<Longrightarrow> gen_ok g' \<Longrightarrow> gen_ready conf g'"
  by (simp add: gen_ready_def same_zero_first same_buffers same_gen_fields)

lemma store_ok_same: "same_gen g g' \<Longrightarrow> store_ok conf ro b n g' sh = store_ok conf ro b n g sh"
  by (simp add: store_ok_def file_ok_same)

lemma tick_ok_same: "same_gen g g' \<Longrightarrow> tick_ok conf t0 g' tk = tick_ok conf t0 g tk"
  by (simp add: tick_ok_def same_draw)

section \<open>The parts of an operation\<close>

lemma sum_list_count: "q < length xs \<Longrightarrow> sum_list (xs[q := xs ! q + 1]) = sum_list xs + (1 :: u64)"
  by (induction xs arbitrary: q) (auto split: nat.split)

lemma position_ok:
  assumes "steady conf info ro i tb b n" and "access_ready (accesstype conf) tb s"
  shows "\<exists>q off s'. get_ioposition conf stat (int i) s = Inr (off, s') \<and> access_ready (accesstype conf) tb s'
    \<and> q < unat (totblocks conf) \<and> unat off = q * unat (block_size conf) \<and> unat (off div block_size conf) = q"
proof -
  from assms(1) have blocks: "proc_blocks conf = Inr tb"
    and raw: "rawdevice conf \<longrightarrow> int i < nprocs conf \<and> nprocs conf < 2 ^ 31"
    and tot: "totblocks conf = filesize conf div block_size conf" and bs: "block_size conf \<noteq> 0"
    by (auto simp: steady_def)
  from get_ioposition_placed [OF blocks assms(2) region_fits_word [OF blocks raw tot]]
  obtain r off s' where g: "get_ioposition conf stat (int i) s = Inr (off, s')"
      "access_ready (accesstype conf) tb s'" "r < unat tb"
      "unat off = (unat tb * region conf i + r) * unat (block_size conf)" by blast
  have "unat tb * region conf i + r < unat tb * Suc (region conf i)" using g(3) by simp
  also have "\<dots> \<le> unat (totblocks conf)" by (rule region_blocks [OF blocks raw])
  finally show ?thesis using g bs by (intro exI [of _ "unat tb * region conf i + r"]) (simp add: unat_div unat_gt_0)
qed

lemma count_access_ok:
  assumes "block_size conf \<noteq> 0" and "unat (off div block_size conf) = q" and "q < length xs"
  shows "count_access conf off xs = Inr (xs[q := xs ! q + 1])"
  using assms by (simp add: count_access_def cdiv_def aget_def aset_def)

text \<open>Writing one block of a file that agrees with its tracker.\<close>

lemma file_ok_write:
  assumes f: "file_ok g bs n f trk" and q: "q < n" and v: "valid_info g bi" and len: "bs \<le> length (expected g bi)"
  shows "file_ok g bs n (pwrite_file f (q * bs) (take bs (expected g bi))) (trk(q := bi))"
  unfolding file_ok_def
proof (intro conjI allI impI)
  let ?E = "take bs (expected g bi)"
  have le: "length ?E = bs" using len by simp
  show "n * bs \<le> length (pwrite_file f (q * bs) ?E)" using f by (simp add: file_ok_def le_max_iff_disj)
  fix s assume s: "s < n"
  show "valid_info g ((trk(q := bi)) s)" using f v s by (simp add: file_ok_def)
  show "pread_file (pwrite_file f (q * bs) ?E) (s * bs) bs = take bs (expected g ((trk(q := bi)) s))"
  proof (cases "s = q")
    case True
    with pread_pwrite_same [of f "q * bs" ?E] le show ?thesis by simp
  next
    case False
    then consider "Suc s \<le> q" | "Suc q \<le> s" by linarith
    then have sep: "s * bs + bs \<le> q * bs \<or> q * bs + length ?E \<le> s * bs"
    proof cases
      case 1
      from mult_le_mono1 [OF this, of bs] show ?thesis by simp
    next
      case 2
      from mult_le_mono1 [OF this, of bs] have "q * bs + bs \<le> s * bs" by simp
      then show ?thesis unfolding le by simp
    qed
    have "Suc s * bs \<le> n * bs" using s by (intro mult_right_mono) simp_all
    then have "s * bs + bs \<le> length f" using f by (simp add: file_ok_def)
    with pread_pwrite_other [OF sep] f s False show ?thesis by (simp add: file_ok_def)
  qed
qed

lemma time_operation_sel [simp]:
  "tot_ops (time_operation F m u v st) = tot_ops st" "iter_snap (time_operation F m u v st) = iter_snap st"
  "t1snap (time_operation F m u v st) = us64 v" "snap_totops (time_operation F m u v st) = snap_totops st"
  "snap_throughput (time_operation F m u v st) = snap_throughput st"
  "snap_latency (time_operation F m u v st) = snap_latency st"
  "snap_ops (time_operation F m u v st) = snap_ops st" "snap_time (time_operation F m u v st) = snap_time st"
  "beginio (time_operation F m u v st) = (if beginio st = -1 \<and> m then us64 u else beginio st)"
  "last_snap_time (time_operation F m u v st) = (if beginio st = -1 \<and> m then us64 v else last_snap_time st)"
  "misses_read (time_operation F m u v st) = misses_read st" "uni (time_operation F m u v st) = uni st"
  "dupl (time_operation F m u v st) = dupl st"
  by (simp_all add: time_operation_def Let_def)

lemma tv_ok_word:
  assumes "tv_ok t"
  shows "uint (us64 t) = tv_us t" and "us64 t \<noteq> -1"
proof -
  have r: "0 \<le> tv_us t" "tv_us t < 2 ^ 52" using assms by (auto simp: tv_ok_def tv_us_def)
  then show u: "uint (us64 t) = tv_us t" by (simp add: us64_def uint_word_of_int_eq take_bit_int_eq_self)
  have "uint (-1 :: u64) = 2 ^ 64 - 1" by (simp add: unsigned_minus_1_eq_mask mask_eq_exp_minus_1)
  with u r(2) show "us64 t \<noteq> -1" by auto
qed

lemma log_operation_ok: "logfeature conf = 1 \<longrightarrow> ro_log ro \<Longrightarrow> \<exists>ls. log_operation conf ro tk ls0 = Inr ls"
  by (simp add: log_operation_def)

section \<open>An operation succeeds\<close>

lemma perform_write_ok:
  assumes st: "steady conf info ro i tb b n" and p: "proc_ok F conf ro tb t0 p"
    and s: "store_ok conf ro b n (pr_gen p) sh" and t: "tick_ok conf t0 (pr_gen p) tk"
  shows "\<exists>p' sh' acc accesses g ls. perform_write F conf info ro tk (p, sh) = Inr (p', sh')
    \<and> p' = p\<lparr>pr_stat := time_operation F True (tk_before tk) (tk_after tk) (pr_stat p), pr_gen := g, pr_acc := acc,
              pr_accesses := accesses, pr_log := ls\<rparr>
    \<and> gen_ok g \<and> same_gen (pr_gen p) g \<and> access_ready (accesstype conf) tb acc
    \<and> length accesses = unat (totblocks conf) \<and> sum_list accesses = sum_list (pr_accesses p) + 1
    \<and> store_ok conf ro b n g sh' \<and> (1 \<le> integrity conf \<longrightarrow> shares (ro_name ro) b n sh sh')"
proof -
  let ?bs = "unat (block_size conf)" and ?g = "pr_gen p"
  from p have gr: "gen_ready conf ?g" and acc: "access_ready (accesstype conf) tb (pr_acc p)"
    and la: "length (pr_accesses p) = unat (totblocks conf)" by (auto simp: proc_ok_def)
  from gr have g: "gen_ok ?g" and z: "zero_first ?g" and hold: "buffers_hold ?bs ?g" by (auto simp: gen_ready_def)
  from t have d: "draw_ok ?g (tk_draw tk)" by (simp add: tick_ok_def)
  obtain ru where ru: "ro_ru_begin ro = Some ru" "ru \<le> pr_begin_time p"
    using p by (auto simp: proc_ok_def measured_True)
  from st have c: "ro_idproc ro = int i" "\<not> distout conf" "block_size conf \<noteq> 0"
    and n: "unat (totblocks conf) \<le> n" and lg: "logfeature conf = 1 \<longrightarrow> ro_log ro"
    and tb: "1 \<le> integrity conf \<longrightarrow> track_base conf info (int i) = Inr b" by (auto simp: steady_def)
  from writecontent_ok [OF g z d, of F "word_of_int (int i)" blank_info] obtain bi buf g' where
    wc: "get_writecontent F (tk_draw tk) ?g (word_of_int (int i)) blank_info = Inr (bi, buf, g')"
    "gen_ok g'" "same_gen ?g g'" "valid_info ?g bi" "buffer_at g' buf = expected ?g bi" by blast
  from position_ok [OF st acc, of "pr_stat p"] obtain q off acc' where
    pos: "get_ioposition conf (pr_stat p) (int i) (pr_acc p) = Inr (off, acc')" "access_ready (accesstype conf) tb acc'"
    "q < unat (totblocks conf)" "unat off = q * ?bs" "unat (off div block_size conf) = q" by blast
  have ca: "count_access conf off (pr_accesses p) = Inr ((pr_accesses p)[q := pr_accesses p ! q + 1])"
    using c(3) pos(3,5) la by (intro count_access_ok) simp_all
  let ?E = "expected ?g bi"
  have len: "?bs \<le> length ?E" by (rule expected_length [OF g hold wc(4)])
  obtain fs' where wb: "write_block (tk_result tk) (ro_name ro) ?E (block_size conf) off (sh_fs sh) = Inr fs'"
    "1 \<le> integrity conf \<longrightarrow> fs' = (sh_fs sh)(ro_name ro \<mapsto> pwrite_file (file_of (sh_fs sh) (ro_name ro)) (q * ?bs) (take ?bs ?E))"
  proof (cases "1 \<le> integrity conf")
    case True
    then have r: "tk_result tk = int ?bs" using t by (simp add: tick_ok_def)
    have "0 < ?bs" using c(3) by (simp add: unat_gt_0)
    then have "\<not> tk_result tk \<le> 0" "nat (tk_result tk) = ?bs" unfolding r by linarith (rule nat_int)
    with len pos(4) show thesis
      by (intro that [of "(sh_fs sh)(ro_name ro \<mapsto> pwrite_file (file_of (sh_fs sh) (ro_name ro)) (q * ?bs) (take ?bs ?E))"])
        (simp_all add: write_block_def file_of_def)
  next
    case False
    with len obtain fs' where "write_block (tk_result tk) (ro_name ro) ?E (block_size conf) off (sh_fs sh) = Inr fs'"
      by (cases "tk_result tk \<le> 0") (auto simp: write_block_def)
    with False show thesis by (intro that) simp_all
  qed
  let ?mem = "if 1 \<le> integrity conf then (sh_mem sh)\<lparr>content_map := (content_map (sh_mem sh))[b + q := bi]\<rparr> else sh_mem sh"
  have bq: "1 \<le> integrity conf \<Longrightarrow> b + q < length (content_map (sh_mem sh))"
    using s n pos(3) by (simp add: store_ok_def)
  have tr: "track_block conf info (int i) off bi (sh_mem sh) = Inr ?mem"
    using tb bq c(3) pos(5) by (simp add: track_block_def cdiv_def aset_def)
  obtain ls where ls: "log_operation conf ro tk (pr_log p) = Inr ls"
    using log_operation_ok [OF lg] by blast
  let ?sh = "sh\<lparr>sh_mem := ?mem, sh_fs := fs'\<rparr>"
  let ?p = "p\<lparr>pr_stat := time_operation F True (tk_before tk) (tk_after tk) (pr_stat p), pr_gen := g', pr_acc := acc',
              pr_accesses := (pr_accesses p)[q := pr_accesses p ! q + 1], pr_log := ls\<rparr>"
  have "perform_write F conf info ro tk (p, sh) = Inr (?p, ?sh)"
    using wc(1,5) pos(1) c ru ca wb(1) tr ls
    by (simp add: perform_write_def write_request_def count_written_def measured_def)
  moreover have "store_ok conf ro b n g' ?sh"
  proof -
    have "file_ok ?g ?bs n (pwrite_file (file_of (sh_fs sh) (ro_name ro)) (q * ?bs) (take ?bs ?E))
      ((\<lambda>j. content_map (sh_mem sh) ! (b + j))(q := bi))" if "1 \<le> integrity conf"
      using that s pos(3) n wc(4) len by (intro file_ok_write) (simp_all add: store_ok_def)
    moreover have "file_of fs' (ro_name ro) = pwrite_file (file_of (sh_fs sh) (ro_name ro)) (q * ?bs) (take ?bs ?E)"
      if "1 \<le> integrity conf" using that wb(2) by (simp add: file_of_def)
    moreover have "(\<lambda>j. content_map ?mem ! (b + j)) = (\<lambda>j. content_map (sh_mem sh) ! (b + j))(q := bi)"
      if "1 \<le> integrity conf" using that bq by (auto simp: fun_eq_iff)
    ultimately show ?thesis using s by (simp add: store_ok_def store_ok_same [OF wc(3)] file_ok_same [OF wc(3)])
  qed
  moreover have "1 \<le> integrity conf \<longrightarrow> shares (ro_name ro) b n sh ?sh"
    using wb(2) pos(3) n by (simp add: shares_def)
  moreover have "sum_list ((pr_accesses p)[q := pr_accesses p ! q + 1]) = sum_list (pr_accesses p) + 1"
    using pos(3) la by (intro sum_list_count) simp
  ultimately show ?thesis using wc(2,3) pos(2) la
    by (intro exI [of _ ?p] exI [of _ ?sh] exI [of _ acc'] exI [of _ "(pr_accesses p)[q := pr_accesses p ! q + 1]"]
        exI [of _ g'] exI [of _ ls]) simp
qed

lemma perform_read_ok:
  assumes st: "steady conf info ro i tb b n" and p: "proc_ok F conf ro tb t0 p"
    and s: "store_ok conf ro b n (pr_gen p) sh" and t: "tick_ok conf t0 (pr_gen p) tk"
    and r: "ro_iotype ro \<noteq> WRITE"
  shows "\<exists>p' stat buf acc accesses g ls. perform_read F conf info ro tk (p, sh) = Inr (p', sh)
    \<and> p' = p\<lparr>pr_buf := buf, pr_gen := g, pr_stat := time_operation F True (tk_before tk) (tk_after tk) stat,
              pr_acc := acc, pr_accesses := accesses, pr_log := ls\<rparr>
    \<and> (\<exists>m. stat = (pr_stat p)\<lparr>misses_read := m\<rparr>) \<and> (1 \<le> integrity conf \<longrightarrow> stat = pr_stat p)
    \<and> gen_ok g \<and> same_gen (pr_gen p) g \<and> access_ready (accesstype conf) tb acc
    \<and> length buf = unat (block_size conf)
    \<and> length accesses = unat (totblocks conf) \<and> sum_list accesses = sum_list (pr_accesses p) + 1"
proof -
  let ?bs = "unat (block_size conf)" and ?g = "pr_gen p"
  from p r have gr: "gen_ready conf ?g" and acc: "access_ready (accesstype conf) tb (pr_acc p)"
    and la: "length (pr_accesses p) = unat (totblocks conf)" and lb: "length (pr_buf p) = ?bs"
    by (auto simp: proc_ok_def)
  from gr have g: "gen_ok ?g" and hold: "buffers_hold ?bs ?g" and tot: "unat (total_unique_blocks ?g) < 2 ^ 32 - 1"
    by (auto simp: gen_ready_def)
  obtain ru where ru: "ro_ru_begin ro = Some ru" "ru \<le> pr_begin_time p"
    using p by (auto simp: proc_ok_def measured_True)
  from st have c: "ro_idproc ro = int i" "block_size conf \<noteq> 0"
    and n: "unat (totblocks conf) \<le> n" and lg: "logfeature conf = 1 \<longrightarrow> ro_log ro"
    and tb: "1 \<le> integrity conf \<longrightarrow> track_base conf info (int i) = Inr b" by (auto simp: steady_def)
  from position_ok [OF st acc, of "pr_stat p"] obtain q off acc' where
    pos: "get_ioposition conf (pr_stat p) (int i) (pr_acc p) = Inr (off, acc')" "access_ready (accesstype conf) tb acc'"
    "q < unat (totblocks conf)" "unat off = q * ?bs" "unat (off div block_size conf) = q" by blast
  have ca: "count_access conf off (pr_accesses p) = Inr ((pr_accesses p)[q := pr_accesses p ! q + 1])"
    using c(2) pos(3,5) la by (intro count_access_ok) simp_all
  let ?dat = "read_bytes tk (file_of (sh_fs sh) (ro_name ro)) off (block_size conf)"
  let ?buf = "?dat @ drop (length ?dat) (pr_buf p)"
  have lbuf: "length ?buf = ?bs" using lb by (simp add: read_bytes_def pread_file_def)
  have full: "?dat = take ?bs (expected ?g (content_map (sh_mem sh) ! (b + q)))" "length ?dat = ?bs"
    "valid_info ?g (content_map (sh_mem sh) ! (b + q))" "?bs \<le> length (expected ?g (content_map (sh_mem sh) ! (b + q)))"
    if i: "1 \<le> integrity conf"
  proof -
    have f: "file_ok ?g ?bs n (file_of (sh_fs sh) (ro_name ro)) (\<lambda>j. content_map (sh_mem sh) ! (b + j))"
      using i s by (simp add: store_ok_def)
    have "\<not> tk_result tk < 0" using i t by (simp add: tick_ok_def)
    then have dq: "?dat = pread_file (file_of (sh_fs sh) (ro_name ro)) (q * ?bs) ?bs" by (simp add: read_bytes_def pos(4))
    show v: "valid_info ?g (content_map (sh_mem sh) ! (b + q))" using f pos(3) n by (simp add: file_ok_def)
    show len: "?bs \<le> length (expected ?g (content_map (sh_mem sh) ! (b + q)))" by (rule expected_length [OF g hold v])
    show "?dat = take ?bs (expected ?g (content_map (sh_mem sh) ! (b + q)))"
      using f pos(3) n unfolding dq by (simp add: file_ok_def)
    with len show "length ?dat = ?bs" by simp
  qed
  obtain g' where g': "check_read F conf info ro tk off ?buf (sh_mem sh) (p\<lparr>pr_buf := ?buf\<rparr>)
      = Inr (p\<lparr>pr_buf := ?buf, pr_gen := g'\<rparr>)" "gen_ok g'" "same_gen ?g g'"
  proof (cases "2 \<le> integrity conf")
    case True
    then have i: "1 \<le> integrity conf" by simp
    have bq: "b + q < length (content_map (sh_mem sh))" using i s n pos(3) by (simp add: store_ok_def)
    have d: "fst (tk_checks tk) \<noteq> -1" using t by (simp add: tick_ok_def)
    have "take ?bs ?buf = take ?bs (expected ?g (content_map (sh_mem sh) ! (b + q)))" using full(1,2) [OF i] by simp
    from online_check_intact [OF g full(3) [OF i] d tot _ full(4) [OF i] this, of F "snd (tk_checks tk)" "ro_iotype ro = READ" 0 info "pr_msgs p"]
    obtain g' where "online_check F (fst (tk_checks tk)) (snd (tk_checks tk)) ?buf (content_map (sh_mem sh) ! (b + q))
      (block_size conf) (ro_iotype ro = READ) 0 info (?g, pr_msgs p) = Inr (0, g', pr_msgs p)" "gen_ok g'" "same_gen ?g g'"
      using lbuf by auto
    with True i tb bq c pos(5) show thesis
      by (intro that [of g']) (simp_all add: check_read_def cdiv_def aget_def)
  next
    case False
    with g show thesis by (intro that [of ?g]) (simp_all add: check_read_def)
  qed
  obtain ls where ls: "log_operation conf ro tk (pr_log p) = Inr ls"
    using log_operation_ok [OF lg] by blast
  let ?n = "read_count tk ?dat"
  obtain stat where stat: "stat = (if ?n \<noteq> block_size conf then (pr_stat p)\<lparr>misses_read := misses_read (pr_stat p) + 1\<rparr> else pr_stat p)" by simp
  have m: "\<exists>m. stat = (pr_stat p)\<lparr>misses_read := m\<rparr>"
    unfolding stat by (cases "?n \<noteq> block_size conf") (auto intro: exI [of _ "misses_read (pr_stat p)"])
  have i0: "stat = pr_stat p" if i: "1 \<le> integrity conf"
    using full(2) [OF i] t i by (simp add: tick_ok_def read_count_def stat)
  let ?xs = "(pr_accesses p)[q := pr_accesses p ! q + 1]"
  have "sum_list ?xs = sum_list (pr_accesses p) + 1" using pos(3) la by (intro sum_list_count) simp
  moreover have "perform_read F conf info ro tk (p, sh) = Inr (p\<lparr>pr_buf := ?buf,
      pr_gen := g', pr_stat := time_operation F True (tk_before tk) (tk_after tk) stat, pr_acc := acc',
      pr_accesses := ?xs, pr_log := ls\<rparr>, sh)"
    using pos(1) c ru ca g'(1) ls by (simp add: perform_read_def Let_def read_request_def measured_def stat)
  ultimately show ?thesis using m i0 g'(2,3) pos(2) la lbuf
    by (intro exI [of _ "p\<lparr>pr_buf := ?buf, pr_gen := g', pr_stat := time_operation F True (tk_before tk) (tk_after tk) stat,
          pr_acc := acc', pr_accesses := ?xs, pr_log := ls\<rparr>"]
        exI [of _ stat] exI [of _ ?buf] exI [of _ acc'] exI [of _ ?xs] exI [of _ g'] exI [of _ ls]) simp
qed

section \<open>A round of the loop succeeds\<close>

text \<open>The measured operation leaves the last snapshot at its own time or before.\<close>

lemma snap_ok_timed:
  assumes "snap_ok t0 st" and "tv_ok u" and "tv_ok v" and "t0 \<le> tv_us v" and "tv_us v < t0 + 30000000 * int SNAPS"
  shows "snap_ok t0 (time_operation F True u v st)" "beginio (time_operation F True u v st) \<noteq> -1"
  using assms tv_ok_word [OF assms(2)] tv_ok_word [OF assms(3)] by (auto simp: snap_ok_def)

lemma snap_ok_misses: "snap_ok t0 (st\<lparr>misses_read := m\<rparr>) = snap_ok t0 st"
  by (simp add: snap_ok_def)

lemma count_operation_ok:
  assumes F: "clock_fpu F" and s: "snap_ok t0 st" and b: "beginio st \<noteq> -1" and t: "0 \<le> t0"
    and u: "uint (t1snap st) < t0 + 30000000 * int SNAPS" and small: "t0 + 30000000 * int (Suc SNAPS) < 2 ^ 53"
  shows "\<exists>st'. count_operation F True st = Inr st' \<and> snap_ok t0 st' \<and> beginio st' = beginio st
    \<and> tot_ops st' = tot_ops st + 1 \<and> misses_read st' = misses_read st"
proof -
  let ?s = "st\<lparr>tot_ops := tot_ops st + 1, snap_totops := snap_totops st + 1\<rparr>"
  from s b have len: "length (snap_throughput st) = SNAPS" "length (snap_latency st) = SNAPS"
    "length (snap_ops st) = SNAPS" "length (snap_time st) = SNAPS" and it: "0 \<le> iter_snap st"
    and lo: "t0 + 30000000 * iter_snap st \<le> uint (last_snap_time st)"
    and hi: "uint (last_snap_time st) < t0 + 30000000 * int SNAPS" by (auto simp: snap_ok_def)
  have due: "snapshot_due F ?s = (uint (last_snap_time st) + 30000000 \<le> uint (t1snap st))"
    using clock_fpu.due_exact [OF F, of ?s] hi u small by simp
  show ?thesis
  proof (cases "uint (last_snap_time st) + 30000000 \<le> uint (t1snap st)")
    case True
    have "30000000 * (iter_snap st + 1) < 30000000 * int SNAPS" using True lo u by (simp add: algebra_simps)
    then have i: "iter_snap st + 1 < int SNAPS" by simp
    then have n: "nat (iter_snap st) < SNAPS" using it by linarith
    obtain s' where s': "store_snapshot F ?s = Inr s'" "length (snap_throughput s') = SNAPS"
      "length (snap_latency s') = SNAPS" "length (snap_ops s') = SNAPS" "length (snap_time s') = SNAPS"
      "iter_snap s' = iter_snap st" "beginio s' = beginio st" "t1snap s' = t1snap st" "tot_ops s' = tot_ops st + 1"
      "misses_read s' = misses_read st"
      using it len n by (simp add: store_snapshot_def Let_def aset_def)
    have "snap_ok t0 (next_snapshot F s')"
      using s' b it True lo u by (simp add: snap_ok_def next_snapshot_def algebra_simps)
    with s' due True show ?thesis by (simp add: count_operation_def Let_def next_snapshot_def)
  next
    case False
    with due s show ?thesis by (simp add: count_operation_def Let_def snap_ok_def)
  qed
qed

text \<open>The time that the loop test reads after a round.\<close>

definition next_time :: "'d user_confs \<Rightarrow> tick \<Rightarrow> u64 \<Rightarrow> u64" where
  "next_time conf tk t = (if flag_termination_time conf then word_of_int (tv_sec (tk_now tk)) else t)"

lemma clock_step_ok:
  assumes F: "clock_fpu F" and "tv_ok (pr_base p)" and "tv_ok (tk_lap tk)" and "tv_us (pr_base p) \<le> tv_us (tk_lap tk)"
    and "fp_less F (fp_of_int F 0) (pr_elapsed p)"
  shows "\<exists>x. clock_step F conf tk p = p\<lparr>pr_elapsed := x, pr_base := tk_lap tk,
      pr_begin_time := next_time conf tk (pr_begin_time p)\<rparr> \<and> fp_less F (fp_of_int F 0) x"
proof -
  have "lap_time F (tk_lap tk) (pr_base p) = (tv_us (tk_lap tk) - tv_us (pr_base p), tk_lap tk)"
    using assms(2,3) by (intro clock_fpu.lap_exact [OF F]) (auto simp: tv_ok_def)
  moreover have "fp_less F (fp_of_int F 0)
      (fp_add F (pr_elapsed p) (fp_of_int F (tv_us (tk_lap tk) - tv_us (pr_base p))))"
    using assms(4,5) by (intro clock_fpu.fp_grows [OF F]) simp_all
  ultimately show ?thesis
    by (intro exI [of _ "fp_add F (pr_elapsed p) (fp_of_int F (tv_us (tk_lap tk) - tv_us (pr_base p)))"])
      (simp add: clock_step_def next_time_def)
qed

text \<open>What one operation does.\<close>

lemma operate_ok:
  assumes F: "clock_fpu F" and st: "steady conf info ro i tb b n"
    and p: "proc_ok F conf ro tb t0 p" and s: "store_ok conf ro b n (pr_gen p) sh"
    and t: "tick_ok conf t0 (pr_gen p) tk" and small: "t0 + 30000000 * int (Suc SNAPS) < 2 ^ 53"
  shows "\<exists>p' sh'. operate F conf info ro tk (p, sh) = Inr (p', sh') \<and> proc_ok F conf ro tb t0 p'
    \<and> store_ok conf ro b n (pr_gen p') sh' \<and> same_gen (pr_gen p) (pr_gen p')
    \<and> (1 \<le> integrity conf \<longrightarrow> shares (ro_name ro) b n sh sh') \<and> (ro_iotype ro \<noteq> WRITE \<longrightarrow> sh' = sh)
    \<and> pr_begin_size p' = (if flag_termination_size conf then pr_begin_size p + 1 else pr_begin_size p)
    \<and> pr_base p' = pr_base p \<and> pr_begin_time p' = pr_begin_time p \<and> pr_elapsed p' = pr_elapsed p
    \<and> tot_ops (pr_stat p') = tot_ops (pr_stat p) + 1 \<and> sum_list (pr_accesses p') = sum_list (pr_accesses p) + 1
    \<and> pr_errs p' = pr_errs p \<and> pr_msgs p' = pr_msgs p
    \<and> (1 \<le> integrity conf \<longrightarrow> misses_read (pr_stat p') = misses_read (pr_stat p))"
proof -
  from t have tv: "tv_ok (tk_before tk)" "tv_ok (tk_after tk)" "0 \<le> t0"
    "t0 \<le> tv_us (tk_after tk)" "tv_us (tk_after tk) < t0 + 30000000 * int SNAPS" by (auto simp: tick_ok_def)
  from p have sn: "snap_ok t0 (pr_stat p)" by (simp add: proc_ok_def)
  obtain ru where ru: "ro_ru_begin ro = Some ru" "ru \<le> pr_begin_time p"
    using p by (auto simp: proc_ok_def measured_True)
  obtain q sh' stat where q: "(if ro_iotype ro = WRITE then perform_write F conf info ro tk (p, sh)
      else perform_read F conf info ro tk (p, sh)) = Inr (q, sh')"
    "pr_stat q = time_operation F True (tk_before tk) (tk_after tk) stat" "\<exists>m. stat = (pr_stat p)\<lparr>misses_read := m\<rparr>"
    "1 \<le> integrity conf \<longrightarrow> stat = pr_stat p"
    "gen_ok (pr_gen q)" "same_gen (pr_gen p) (pr_gen q)" "access_ready (accesstype conf) tb (pr_acc q)"
    "length (pr_accesses q) = unat (totblocks conf)" "sum_list (pr_accesses q) = sum_list (pr_accesses p) + 1"
    "ro_iotype ro \<noteq> WRITE \<longrightarrow> length (pr_buf q) = unat (block_size conf)"
    "store_ok conf ro b n (pr_gen q) sh'" "1 \<le> integrity conf \<longrightarrow> shares (ro_name ro) b n sh sh'"
    "ro_iotype ro \<noteq> WRITE \<longrightarrow> sh' = sh" "pr_begin_size q = pr_begin_size p" "pr_begin_time q = pr_begin_time p"
    "pr_base q = pr_base p" "pr_elapsed q = pr_elapsed p" "pr_errs q = pr_errs p" "pr_msgs q = pr_msgs p"
  proof (cases "ro_iotype ro = WRITE")
    case True
    from perform_write_ok [OF st p s t] obtain p' sh' acc xs g ls where
      w: "perform_write F conf info ro tk (p, sh) = Inr (p', sh')"
      "p' = p\<lparr>pr_stat := time_operation F True (tk_before tk) (tk_after tk) (pr_stat p), pr_gen := g, pr_acc := acc,
          pr_accesses := xs, pr_log := ls\<rparr>"
      "gen_ok g" "same_gen (pr_gen p) g" "access_ready (accesstype conf) tb acc" "length xs = unat (totblocks conf)"
      "sum_list xs = sum_list (pr_accesses p) + 1" "store_ok conf ro b n g sh'"
      "1 \<le> integrity conf \<longrightarrow> shares (ro_name ro) b n sh sh'" by blast
    show thesis by (rule that [of p' sh' "pr_stat p"])
      (use w True in \<open>auto intro: exI [of _ "misses_read (pr_stat p)"]\<close>)
  next
    case False
    from perform_read_ok [OF st p s t False] obtain p' stat buf acc xs g ls where
      w: "perform_read F conf info ro tk (p, sh) = Inr (p', sh)"
      "p' = p\<lparr>pr_buf := buf, pr_gen := g, pr_stat := time_operation F True (tk_before tk) (tk_after tk) stat,
              pr_acc := acc, pr_accesses := xs, pr_log := ls\<rparr>"
      "\<exists>m. stat = (pr_stat p)\<lparr>misses_read := m\<rparr>" "1 \<le> integrity conf \<longrightarrow> stat = pr_stat p"
      "gen_ok g" "same_gen (pr_gen p) g" "access_ready (accesstype conf) tb acc" "length buf = unat (block_size conf)"
      "length xs = unat (totblocks conf)" "sum_list xs = sum_list (pr_accesses p) + 1" by blast
    show thesis by (rule that [of p' sh stat]) (use w False s in \<open>auto simp: store_ok_same\<close>)
  qed
  from q(3) obtain m where m: "stat = (pr_stat p)\<lparr>misses_read := m\<rparr>" by blast
  have sq: "snap_ok t0 (pr_stat q)" "beginio (pr_stat q) \<noteq> -1"
    unfolding q(2) using snap_ok_timed [of t0 stat, OF _ tv(1,2,4,5)] sn by (simp_all add: m snap_ok_misses)
  have "uint (t1snap (pr_stat q)) < t0 + 30000000 * int SNAPS"
    using tv_ok_word(1) [OF tv(2)] tv(5) by (simp add: q(2))
  from count_operation_ok [OF F sq tv(3) this small] obtain st' where
    co: "count_operation F True (pr_stat q) = Inr st'" "snap_ok t0 st'" "tot_ops st' = tot_ops (pr_stat q) + 1"
    "misses_read st' = misses_read (pr_stat q)" by blast
  let ?r = "q\<lparr>pr_stat := st',
    pr_begin_size := (if flag_termination_size conf then pr_begin_size q + 1 else pr_begin_size q)\<rparr>"
  have me: "measured ro q = Inr True" "measured ro ?r = Inr True" using ru q(15) by (simp_all add: measured_def)
  have "operate F conf info ro tk (p, sh) = Inr (?r, sh')"
    using q(1) co(1) me(1) by (simp add: operate_def)
  moreover have "gen_ready conf (pr_gen q)" using p q(5,6) by (auto simp: proc_ok_def intro: gen_ready_same)
  then have "proc_ok F conf ro tb t0 ?r"
    using me(2) q(7,8,10,16,17) co(2) p by (simp add: proc_ok_def)
  moreover have "tot_ops stat = tot_ops (pr_stat p)" by (simp add: m)
  ultimately show ?thesis using q(2,4-19) co(2-4)
    by (intro exI [of _ ?r] exI [of _ sh']) simp
qed

text \<open>
  What one round does: an operation when one is due (always in a peak test), and the clock.  The process must be measured
  after the round as well.
\<close>

lemma proc_step_ok:
  assumes F: "clock_fpu F" and st: "steady conf info ro i tb b n"
    and p: "proc_ok F conf ro tb t0 p" and s: "store_ok conf ro b n (pr_gen p) sh"
    and t: "tick_ok conf t0 (pr_gen p) tk" and l: "tv_us (pr_base p) \<le> tv_us (tk_lap tk)"
    and small: "t0 + 30000000 * int (Suc SNAPS) < 2 ^ 53"
    and me: "measured ro (p\<lparr>pr_begin_time := next_time conf tk (pr_begin_time p)\<rparr>) = Inr True"
  shows "\<exists>c p' sh'. proc_step F conf info ro tk (p, sh) = Inr (p', sh') \<and> proc_ok F conf ro tb t0 p'
    \<and> c \<le> 1 \<and> (testtype conf = PEAK \<longrightarrow> c = 1)
    \<and> store_ok conf ro b n (pr_gen p') sh' \<and> same_gen (pr_gen p) (pr_gen p')
    \<and> (1 \<le> integrity conf \<longrightarrow> shares (ro_name ro) b n sh sh') \<and> (ro_iotype ro \<noteq> WRITE \<longrightarrow> sh' = sh)
    \<and> pr_begin_size p' = pr_begin_size p + (if flag_termination_size conf then word_of_nat c else 0)
    \<and> pr_base p' = tk_lap tk \<and> pr_begin_time p' = next_time conf tk (pr_begin_time p)
    \<and> tot_ops (pr_stat p') = tot_ops (pr_stat p) + word_of_nat c
    \<and> sum_list (pr_accesses p') = sum_list (pr_accesses p) + word_of_nat c
    \<and> pr_errs p' = pr_errs p \<and> pr_msgs p' = pr_msgs p
    \<and> (1 \<le> integrity conf \<longrightarrow> misses_read (pr_stat p') = misses_read (pr_stat p))"
proof -
  from p have el: "fp_less F (fp_of_int F 0) (pr_elapsed p)" and ba: "tv_ok (pr_base p)"
    by (auto simp: proc_ok_def)
  from t have lap: "tv_ok (tk_lap tk)" by (simp add: tick_ok_def)
  obtain go where go: "rate_allows F conf ro p = Inr go" "testtype conf = PEAK \<longrightarrow> go"
    using clock_fpu.rate_assert [OF F el] by simp
  let ?c = "if go then 1 else 0 :: nat"
  obtain q sh' where q: "(if go then operate F conf info ro tk (p, sh) else Inr (p, sh)) = Inr (q, sh')"
    "proc_ok F conf ro tb t0 q" "store_ok conf ro b n (pr_gen q) sh'" "same_gen (pr_gen p) (pr_gen q)"
    "1 \<le> integrity conf \<longrightarrow> shares (ro_name ro) b n sh sh'" "ro_iotype ro \<noteq> WRITE \<longrightarrow> sh' = sh"
    "pr_begin_size q = pr_begin_size p + (if flag_termination_size conf then word_of_nat ?c else 0)"
    "pr_base q = pr_base p" "pr_begin_time q = pr_begin_time p" "pr_elapsed q = pr_elapsed p"
    "tot_ops (pr_stat q) = tot_ops (pr_stat p) + word_of_nat ?c"
    "sum_list (pr_accesses q) = sum_list (pr_accesses p) + word_of_nat ?c"
    "pr_errs q = pr_errs p" "pr_msgs q = pr_msgs p"
    "1 \<le> integrity conf \<longrightarrow> misses_read (pr_stat q) = misses_read (pr_stat p)"
  proof (cases go)
    case True
    from operate_ok [OF F st p s t small] obtain q sh' where
      "operate F conf info ro tk (p, sh) = Inr (q, sh')" "proc_ok F conf ro tb t0 q"
      "store_ok conf ro b n (pr_gen q) sh'" "same_gen (pr_gen p) (pr_gen q)"
      "1 \<le> integrity conf \<longrightarrow> shares (ro_name ro) b n sh sh'" "ro_iotype ro \<noteq> WRITE \<longrightarrow> sh' = sh"
      "pr_begin_size q = (if flag_termination_size conf then pr_begin_size p + 1 else pr_begin_size p)"
      "pr_base q = pr_base p" "pr_begin_time q = pr_begin_time p" "pr_elapsed q = pr_elapsed p"
      "tot_ops (pr_stat q) = tot_ops (pr_stat p) + 1" "sum_list (pr_accesses q) = sum_list (pr_accesses p) + 1"
      "pr_errs q = pr_errs p" "pr_msgs q = pr_msgs p"
      "1 \<le> integrity conf \<longrightarrow> misses_read (pr_stat q) = misses_read (pr_stat p)" by blast
    then show thesis using True by (intro that [of q sh']) simp_all
  next
    case False
    then show thesis using p s by (intro that [of p sh]) simp_all
  qed
  have "tv_ok (pr_base q)" "tv_us (pr_base q) \<le> tv_us (tk_lap tk)" "fp_less F (fp_of_int F 0) (pr_elapsed q)"
    using q(8,10) ba l el by simp_all
  from clock_step_ok [OF F this(1) lap this(2,3), of conf] obtain x where
    cl: "clock_step F conf tk q = q\<lparr>pr_elapsed := x, pr_base := tk_lap tk,
      pr_begin_time := next_time conf tk (pr_begin_time p)\<rparr>" "fp_less F (fp_of_int F 0) x"
    unfolding q(9) by blast
  let ?r = "q\<lparr>pr_elapsed := x, pr_base := tk_lap tk, pr_begin_time := next_time conf tk (pr_begin_time p)\<rparr>"
  have "proc_step F conf info ro tk (p, sh) = Inr (?r, sh')"
    using go(1) q(1) cl(1) by (simp add: proc_step_def)
  moreover have "proc_ok F conf ro tb t0 ?r"
    using q(2) me cl(2) lap by (simp add: proc_ok_def measured_True)
  ultimately show ?thesis using q(3-7,11-15) go(2)
    by (intro exI [of _ ?c] exI [of _ ?r] exI [of _ sh']) simp
qed

section \<open>The whole loop\<close>

definition ticks_ok :: "'d user_confs \<Rightarrow> int \<Rightarrow> 'd generator \<Rightarrow> timeval \<Rightarrow> (nat \<Rightarrow> tick) \<Rightarrow> nat \<Rightarrow> bool" where
  "ticks_ok conf t0 g base ticks m \<longleftrightarrow> t0 + 30000000 * int (Suc SNAPS) < 2 ^ 53
     \<and> (\<forall>j < m. tick_ok conf t0 g (ticks j)
        \<and> tv_us (if j = 0 then base else tk_lap (ticks (j - 1))) \<le> tv_us (tk_lap (ticks j)))"

lemma ticks_ok_next:
  assumes "ticks_ok conf t0 g base (\<lambda>j. ticks (k + j)) (Suc m)" and "same_gen g g'"
  shows "ticks_ok conf t0 g' (tk_lap (ticks k)) (\<lambda>j. ticks (Suc k + j)) m"
  unfolding ticks_ok_def
proof (intro conjI allI impI)
  show "t0 + 30000000 * int (Suc SNAPS) < 2 ^ 53" using assms(1) by (simp add: ticks_ok_def)
  fix j assume j: "j < m"
  with assms(1) have t: "tick_ok conf t0 g (ticks (k + Suc j))"
    "tv_us (tk_lap (ticks (k + j))) \<le> tv_us (tk_lap (ticks (k + Suc j)))"
    by (auto simp: ticks_ok_def dest!: spec [of _ "Suc j"])
  then show "tick_ok conf t0 g' (ticks (Suc k + j))" by (simp add: tick_ok_same [OF assms(2)])
  show "tv_us (if j = 0 then tk_lap (ticks k) else tk_lap (ticks (Suc k + (j - 1)))) \<le> tv_us (tk_lap (ticks (Suc k + j)))"
    using t(2) by (cases j) simp_all
qed

text \<open>The time before round \<open>j\<close>, and the condition that all operations up to there are measured.\<close>

definition round_time :: "'d user_confs \<Rightarrow> u64 \<Rightarrow> (nat \<Rightarrow> tick) \<Rightarrow> nat \<Rightarrow> u64" where
  "round_time conf bt ticks j = (if j = 0 then bt else next_time conf (ticks (j - 1)) bt)"

definition times_measured :: "'d user_confs \<Rightarrow> 'd role \<Rightarrow> u64 \<Rightarrow> (nat \<Rightarrow> tick) \<Rightarrow> nat \<Rightarrow> bool" where
  "times_measured conf ro bt ticks m \<longleftrightarrow>
     (\<exists>r. ro_ru_begin ro = Some r \<and> (\<forall>j \<le> m. r \<le> round_time conf bt ticks j))"

lemma next_time_next: "next_time conf tk (next_time conf tk' t) = next_time conf tk t"
  by (simp add: next_time_def)

lemma round_time_Suc:
  "round_time conf (next_time conf (ticks k) bt) (\<lambda>j. ticks (Suc k + j)) j = round_time conf bt (\<lambda>j. ticks (k + j)) (Suc j)"
  by (cases j) (simp_all add: round_time_def next_time_next)

text \<open>A number of rounds, whatever the loop test says: \<open>c\<close> of them make an operation.\<close>

definition rounds ::
  "'d fpu \<Rightarrow> 'd user_confs \<Rightarrow> duplicates_info \<Rightarrow> 'd role \<Rightarrow> (nat \<Rightarrow> tick) \<Rightarrow> nat \<Rightarrow> nat \<Rightarrow> 'd proc \<times> sys \<Rightarrow> ('d proc \<times> sys) res" where
  "rounds F conf info ro ticks k m = foldR (\<lambda>j. proc_step F conf info ro (ticks j)) [k ..< k + m]"

lemma rounds_0 [simp]: "rounds F conf info ro ticks k 0 s = Inr s"
  by (simp add: rounds_def)

lemma rounds_Suc:
  "rounds F conf info ro ticks k (Suc m) s =
     bindR (proc_step F conf info ro (ticks k) s) (rounds F conf info ro ticks (Suc k) m)"
  unfolding rounds_def by (simp add: upt_conv_Cons del: upt_Suc)

lemma rounds_ok:
  assumes F: "clock_fpu F" and st: "steady conf info ro i tb b n"
    and p: "proc_ok F conf ro tb t0 p" and s: "store_ok conf ro b n (pr_gen p) sh"
    and t: "ticks_ok conf t0 (pr_gen p) (pr_base p) (\<lambda>j. ticks (k + j)) m"
    and me: "times_measured conf ro (pr_begin_time p) (\<lambda>j. ticks (k + j)) m"
  shows "\<exists>c p' sh'. rounds F conf info ro ticks k m (p, sh) = Inr (p', sh') \<and> proc_ok F conf ro tb t0 p'
    \<and> c \<le> m \<and> (testtype conf = PEAK \<longrightarrow> c = m)
    \<and> store_ok conf ro b n (pr_gen p') sh' \<and> same_gen (pr_gen p) (pr_gen p')
    \<and> (1 \<le> integrity conf \<longrightarrow> shares (ro_name ro) b n sh sh') \<and> (ro_iotype ro \<noteq> WRITE \<longrightarrow> sh' = sh)
    \<and> pr_begin_size p' = pr_begin_size p + (if flag_termination_size conf then word_of_nat c else 0)
    \<and> pr_begin_time p' = round_time conf (pr_begin_time p) (\<lambda>j. ticks (k + j)) m
    \<and> tot_ops (pr_stat p') = tot_ops (pr_stat p) + word_of_nat c
    \<and> sum_list (pr_accesses p') = sum_list (pr_accesses p) + word_of_nat c
    \<and> pr_errs p' = pr_errs p \<and> pr_msgs p' = pr_msgs p
    \<and> (1 \<le> integrity conf \<longrightarrow> misses_read (pr_stat p') = misses_read (pr_stat p))"
  using p s t me
proof (induction m arbitrary: k p sh)
  case 0
  then show ?case by (intro exI [of _ 0] exI [of _ p] exI [of _ sh]) (simp add: round_time_def)
next
  case (Suc m)
  from Suc.prems(3) have t0: "tick_ok conf t0 (pr_gen p) (ticks k)" "tv_us (pr_base p) \<le> tv_us (tk_lap (ticks k))"
    "t0 + 30000000 * int (Suc SNAPS) < 2 ^ 53" by (auto simp: ticks_ok_def dest!: spec [of _ 0])
  obtain r where r: "ro_ru_begin ro = Some r"
    "\<And>j. j \<le> Suc m \<Longrightarrow> r \<le> round_time conf (pr_begin_time p) (\<lambda>j. ticks (k + j)) j"
    using Suc.prems(4) by (auto simp: times_measured_def)
  have "measured ro (p\<lparr>pr_begin_time := next_time conf (ticks k) (pr_begin_time p)\<rparr>) = Inr True"
    using r(1) r(2) [of 1] by (simp add: measured_True round_time_def)
  from proc_step_ok [OF F st Suc.prems(1,2) t0 this] obtain c1 p1 sh1 where
    s1: "proc_step F conf info ro (ticks k) (p, sh) = Inr (p1, sh1)" "proc_ok F conf ro tb t0 p1"
    "c1 \<le> 1" "testtype conf = PEAK \<longrightarrow> c1 = 1"
    "store_ok conf ro b n (pr_gen p1) sh1" "same_gen (pr_gen p) (pr_gen p1)"
    "1 \<le> integrity conf \<longrightarrow> shares (ro_name ro) b n sh sh1" "ro_iotype ro \<noteq> WRITE \<longrightarrow> sh1 = sh"
    "pr_begin_size p1 = pr_begin_size p + (if flag_termination_size conf then word_of_nat c1 else 0)"
    "pr_base p1 = tk_lap (ticks k)" "pr_begin_time p1 = next_time conf (ticks k) (pr_begin_time p)"
    "tot_ops (pr_stat p1) = tot_ops (pr_stat p) + word_of_nat c1"
    "sum_list (pr_accesses p1) = sum_list (pr_accesses p) + word_of_nat c1"
    "pr_errs p1 = pr_errs p" "pr_msgs p1 = pr_msgs p"
    "1 \<le> integrity conf \<longrightarrow> misses_read (pr_stat p1) = misses_read (pr_stat p)" by blast
  have t1: "ticks_ok conf t0 (pr_gen p1) (pr_base p1) (\<lambda>j. ticks (Suc k + j)) m"
    unfolding s1(10) using Suc.prems(3) s1(6) by (rule ticks_ok_next)
  have "times_measured conf ro (pr_begin_time p1) (\<lambda>j. ticks (Suc k + j)) m"
    using r unfolding times_measured_def s1(11) round_time_Suc by auto
  from Suc.IH [OF s1(2,5) t1 this] obtain c p' sh' where
    s': "rounds F conf info ro ticks (Suc k) m (p1, sh1) = Inr (p', sh')" "proc_ok F conf ro tb t0 p'"
    "c \<le> m" "testtype conf = PEAK \<longrightarrow> c = m"
    "store_ok conf ro b n (pr_gen p') sh'" "same_gen (pr_gen p1) (pr_gen p')"
    "1 \<le> integrity conf \<longrightarrow> shares (ro_name ro) b n sh1 sh'" "ro_iotype ro \<noteq> WRITE \<longrightarrow> sh' = sh1"
    "pr_begin_size p' = pr_begin_size p1 + (if flag_termination_size conf then word_of_nat c else 0)"
    "pr_begin_time p' = round_time conf (pr_begin_time p1) (\<lambda>j. ticks (Suc k + j)) m"
    "tot_ops (pr_stat p') = tot_ops (pr_stat p1) + word_of_nat c"
    "sum_list (pr_accesses p') = sum_list (pr_accesses p1) + word_of_nat c"
    "pr_errs p' = pr_errs p1" "pr_msgs p' = pr_msgs p1"
    "1 \<le> integrity conf \<longrightarrow> misses_read (pr_stat p') = misses_read (pr_stat p1)" by blast
  have "rounds F conf info ro ticks k (Suc m) (p, sh) = Inr (p', sh')"
    by (simp add: rounds_Suc s1(1) s'(1))
  moreover have "pr_begin_time p' = round_time conf (pr_begin_time p) (\<lambda>j. ticks (k + j)) (Suc m)"
    unfolding s'(10) s1(11) by (rule round_time_Suc)
  moreover have "same_gen (pr_gen p) (pr_gen p')" by (rule same_gen_trans [OF s1(6) s'(6)])
  moreover have "1 \<le> integrity conf \<longrightarrow> shares (ro_name ro) b n sh sh'"
    using s1(7) s'(7) by (blast intro: shares_trans)
  ultimately show ?case using s1(3,4,8,9,12-16) s'(2-5,8,9,11-15)
    by (intro exI [of _ "c1 + c"] exI [of _ p'] exI [of _ sh']) (simp add: add.assoc)
qed

text \<open>The loop returns after \<open>m\<close> rounds when its test holds before each of them and not after the last.\<close>

lemma loop_rounds:
  assumes "\<And>j. j \<le> m \<Longrightarrow> \<exists>s'. rounds F conf info ro ticks k j s = Inr s' \<and> proc_running ro (fst s') = (j < m)"
    and "rounds F conf info ro ticks k m s = Inr s'"
  shows "process_loop F conf info ro ticks k s = Some (Inr (k + m, s'))"
  using assms
proof (induction m arbitrary: k s)
  case 0
  from 0(1) [of 0] have "\<not> proc_running ro (fst s)" by simp
  with 0(2) show ?case by (simp add: process_loop.simps)
next
  case (Suc m)
  from Suc.prems(1) [of 0] have run: "proc_running ro (fst s)" by simp
  from Suc.prems(2) obtain s1 where s1: "proc_step F conf info ro (ticks k) s = Inr s1"
    "rounds F conf info ro ticks (Suc k) m s1 = Inr s'" by (auto simp: rounds_Suc elim!: bindR_InrE)
  have "\<exists>s'. rounds F conf info ro ticks (Suc k) j s1 = Inr s' \<and> proc_running ro (fst s') = (j < m)" if "j \<le> m" for j
    using Suc.prems(1) [of "Suc j"] that by (simp add: rounds_Suc s1(1))
  from Suc.IH [OF this s1(2)] show ?case using run s1(1) by (simp add: process_loop.simps [of F conf info ro ticks k])
qed

lemma ticks_ok_le: "ticks_ok conf t0 g base ticks m \<Longrightarrow> j \<le> m \<Longrightarrow> ticks_ok conf t0 g base ticks j"
  by (simp add: ticks_ok_def)

lemma times_measured_le: "times_measured conf ro bt ticks m \<Longrightarrow> j \<le> m \<Longrightarrow> times_measured conf ro bt ticks j"
  by (fastforce simp: times_measured_def)

text \<open>\<open>run\<close> says what the loop test sees before round \<open>j\<close>, when \<open>c\<close> operations have been made.\<close>

lemma loop_ok:
  assumes F: "clock_fpu F" and st: "steady conf info ro i tb b n"
    and p: "proc_ok F conf ro tb t0 p" and s: "store_ok conf ro b n (pr_gen p) sh"
    and t: "ticks_ok conf t0 (pr_gen p) (pr_base p) (\<lambda>j. ticks (k + j)) m"
    and me: "times_measured conf ro (pr_begin_time p) (\<lambda>j. ticks (k + j)) m"
    and run: "\<And>j c. j \<le> m \<Longrightarrow> c \<le> j \<Longrightarrow> (testtype conf = PEAK \<longrightarrow> c = j) \<Longrightarrow>
      (round_time conf (pr_begin_time p) (\<lambda>j. ticks (k + j)) j < ro_end_time ro
       \<and> pr_begin_size p + (if flag_termination_size conf then word_of_nat c else 0) < ro_end_size ro) = (j < m)"
  shows "\<exists>c p' sh'. process_loop F conf info ro ticks k (p, sh) = Some (Inr (k + m, p', sh')) \<and> proc_ok F conf ro tb t0 p'
    \<and> c \<le> m \<and> (testtype conf = PEAK \<longrightarrow> c = m)
    \<and> store_ok conf ro b n (pr_gen p') sh' \<and> same_gen (pr_gen p) (pr_gen p')
    \<and> (1 \<le> integrity conf \<longrightarrow> shares (ro_name ro) b n sh sh') \<and> (ro_iotype ro \<noteq> WRITE \<longrightarrow> sh' = sh)
    \<and> tot_ops (pr_stat p') = tot_ops (pr_stat p) + word_of_nat c
    \<and> pr_errs p' = pr_errs p \<and> pr_msgs p' = pr_msgs p
    \<and> (1 \<le> integrity conf \<longrightarrow> misses_read (pr_stat p') = misses_read (pr_stat p))"
proof -
  have "\<exists>s'. rounds F conf info ro ticks k j (p, sh) = Inr s' \<and> proc_running ro (fst s') = (j < m)" if j: "j \<le> m" for j
  proof -
    from rounds_ok [OF F st p s ticks_ok_le [OF t j] times_measured_le [OF me j]] obtain c p' sh' where
      r: "rounds F conf info ro ticks k j (p, sh) = Inr (p', sh')" "c \<le> j" "testtype conf = PEAK \<longrightarrow> c = j"
      "pr_begin_size p' = pr_begin_size p + (if flag_termination_size conf then word_of_nat c else 0)"
      "pr_begin_time p' = round_time conf (pr_begin_time p) (\<lambda>j. ticks (k + j)) j" by blast
    with run [OF j r(2,3)] show ?thesis by (auto simp: proc_running_def)
  qed
  note l = loop_rounds [OF this]
  from rounds_ok [OF F st p s t me] obtain c p' sh' where
    "rounds F conf info ro ticks k m (p, sh) = Inr (p', sh')" and
    r: "proc_ok F conf ro tb t0 p'" "c \<le> m" "testtype conf = PEAK \<longrightarrow> c = m"
    "store_ok conf ro b n (pr_gen p') sh'" "same_gen (pr_gen p) (pr_gen p')"
    "1 \<le> integrity conf \<longrightarrow> shares (ro_name ro) b n sh sh'" "ro_iotype ro \<noteq> WRITE \<longrightarrow> sh' = sh"
    "tot_ops (pr_stat p') = tot_ops (pr_stat p) + word_of_nat c" "pr_errs p' = pr_errs p" "pr_msgs p' = pr_msgs p"
    "1 \<le> integrity conf \<longrightarrow> misses_read (pr_stat p') = misses_read (pr_stat p)" by blast
  from l [OF _ this(1)] have "process_loop F conf info ro ticks k (p, sh) = Some (Inr (k + m, p', sh'))" by simp
  with r show ?thesis by (intro exI [of _ c] exI [of _ p'] exI [of _ sh']) simp
qed

section \<open>Set-up and report\<close>

text \<open>
  A run without result files; a peak test with a number of operations; a test for a number of seconds, measured from its
  beginning.
\<close>

definition plain_run :: "'d user_confs \<Rightarrow> bool" where
  "plain_run conf \<longleftrightarrow> \<not> distout conf \<and> \<not> printtofile conf \<and> \<not> accesslog conf
     \<and> totblocks conf = filesize conf div block_size conf \<and> block_size conf \<noteq> 0"

definition sized_run :: "'d user_confs \<Rightarrow> bool" where
  "sized_run conf \<longleftrightarrow> flag_termination_size conf \<and> \<not> flag_termination_time conf \<and> testtype conf = PEAK
     \<and> \<not> distout conf \<and> \<not> printtofile conf \<and> \<not> accesslog conf
     \<and> totblocks conf = filesize conf div block_size conf \<and> block_size conf \<noteq> 0"

definition timed_run :: "'d user_confs \<Rightarrow> bool" where
  "timed_run conf \<longleftrightarrow> flag_termination_time conf \<and> \<not> flag_termination_size conf \<and> start conf = 0 \<and> plain_run conf"

lemma sized_plain: "sized_run conf \<Longrightarrow> plain_run conf"
  by (simp add: sized_run_def plain_run_def)

text \<open>The blocks and the tracker of a process, and enough blocks for the access pattern.\<close>

definition blocks_ready :: "'d user_confs \<Rightarrow> duplicates_info \<Rightarrow> nat \<Rightarrow> u64 \<Rightarrow> nat \<Rightarrow> nat \<Rightarrow> bool" where
  "blocks_ready conf info i tb b n \<longleftrightarrow> proc_blocks conf = Inr tb
     \<and> (rawdevice conf \<longrightarrow> int i < nprocs conf \<and> nprocs conf < 2 ^ 31)
     \<and> unat (totblocks conf) \<le> n \<and> (1 \<le> integrity conf \<longrightarrow> track_base conf info (int i) = Inr b)
     \<and> tb \<noteq> 0 \<and> unat tb \<le> rand_limit \<and> (accesstype conf \<noteq> SEQUENTIAL \<longrightarrow> 1 < tb)
     \<and> (accesstype conf = TPCC \<longrightarrow> 10 \<le> totblocks conf)"

text \<open>The files the process opens, its buffer and its clock.\<close>

definition opened ::
  "'d proc_env \<Rightarrow> 'd user_confs \<Rightarrow> io_type \<Rightarrow> nat \<Rightarrow> fs \<Rightarrow> string \<Rightarrow> fs \<Rightarrow> bool \<Rightarrow> check_msg list \<Rightarrow> bool" where
  "opened E conf ty i fs0 name fs lg ms \<longleftrightarrow> open_target (pe_open E) conf (int i) fs0 = Inr (name, fs)
     \<and> open_logs (pe_fopen E) conf ty (proc_number conf ty (int i)) = Inr (lg, ms)
     \<and> (logfeature conf = 1 \<longrightarrow> lg) \<and> (ty \<noteq> WRITE \<longrightarrow> length (pe_buf E) = unat (block_size conf))
     \<and> tv_ok (pe_base E)"

lemma process_start_ok:
  assumes F: "clock_fpu F" and c: "plain_run conf" and b: "blocks_ready conf info i tb b n"
    and o: "opened E conf ty i (sh_fs sh) name fs lg ms" and g: "gen_ready conf g"
    and acc: "length (sfmt (rng acc)) = SFMT_N" and bd: "bounds_of conf (tv_sec (pe_start E)) nproc = Inr bd"
    and ru: "lb_ru_begin bd = Some ru" "ru \<le> lb_begin_time bd"
  shows "\<exists>ro p. process_start F E conf (int i) nproc rate ty g acc sh = Inr (ro, p, sh\<lparr>sh_fs := fs\<rparr>)
    \<and> steady conf info ro i tb b n \<and> proc_ok F conf ro tb t0 p \<and> ro_idproc ro = int i \<and> ro_iotype ro = ty
    \<and> ro_name ro = name \<and> ro_log ro = lg \<and> ro_end_size ro = lb_end_size bd \<and> ro_end_time ro = lb_end_time bd
    \<and> ro_ru_begin ro = Some ru \<and> pr_begin_time p = lb_begin_time bd \<and> pr_begin_size p = lb_begin_size bd
    \<and> pr_gen p = g \<and> pr_base p = pe_base E
    \<and> pr_stat p = initial_stats F \<and> sum_list (pr_accesses p) = 0 \<and> pr_errs p = 0 \<and> pr_msgs p = ms"
proof -
  have "\<exists>acc'. init_io conf (proc_number conf ty (int i)) acc = Inr acc' \<and> access_ready (accesstype conf) tb acc'"
    using b acc by (intro init_io_ready) (auto simp: blocks_ready_def)
  then obtain acc' where acc': "init_io conf (proc_number conf ty (int i)) acc = Inr acc'"
    "access_ready (accesstype conf) tb acc'" by blast
  let ?ro = "\<lparr>ro_idproc = int i, ro_nproc = nproc, ro_ratio = rate, ro_iotype = ty, ro_name = name,
      ro_end_time = lb_end_time bd, ro_end_size = lb_end_size bd, ro_ru_begin = Some ru, ro_log = lg\<rparr>"
  let ?p = "\<lparr>pr_stat = initial_stats F, pr_gen = g, pr_acc = acc', pr_accesses = replicate (unat (totblocks conf)) 0,
      pr_buf = pe_buf E, pr_errs = 0, pr_msgs = ms, pr_log = [], pr_begin_time = lb_begin_time bd,
      pr_begin_size = lb_begin_size bd, pr_base = pe_base E, pr_elapsed = fp_of_int F 1\<rparr>"
  have "process_start F E conf (int i) nproc rate ty g acc sh = Inr (?ro, ?p, sh\<lparr>sh_fs := fs\<rparr>)"
    using acc' bd ru(1) o by (simp add: process_start_def opened_def)
  moreover have "steady conf info ?ro i tb b n"
    using c b o by (simp add: steady_def plain_run_def blocks_ready_def opened_def)
  moreover have "proc_ok F conf ?ro tb t0 ?p"
    using g acc' o clock_fpu.fp_one [OF F] ru(2)
    by (simp add: proc_ok_def opened_def snap_ok_def initial_stats_def measured_True)
  ultimately show ?thesis by (intro exI [of _ ?ro] exI [of _ ?p]) (simp add: sum_list_replicate)
qed

text \<open>The bounds of the two kinds of run.\<close>

lemma sized_bounds:
  assumes "sized_run conf" and "(word_of_int nproc :: u64) \<noteq> 0"
  shows "bounds_of conf sec nproc = Inr \<lparr>lb_begin_time = -2, lb_end_time = -1,
      lb_begin_size = 0, lb_end_size = number_ops conf div word_of_int nproc, lb_ru_begin = Some 0\<rparr>"
  using assms by (simp add: bounds_of_def size_bounds_def time_bounds_def sized_run_def cdiv_def)

definition end_time :: "'d user_confs \<Rightarrow> int \<Rightarrow> u64" where
  "end_time conf sec = word_of_int sec + word_of_int (time_to_run conf) - word_of_int (int_mult (finish conf) 30)"

lemma timed_bounds:
  assumes "timed_run conf"
  shows "bounds_of conf sec nproc = Inr \<lparr>lb_begin_time = word_of_int sec, lb_end_time = end_time conf sec,
      lb_begin_size = -2, lb_end_size = -1, lb_ru_begin = Some (word_of_int sec)\<rparr>"
  using assms by (simp add: bounds_of_def size_bounds_def time_bounds_def timed_run_def end_time_def int_mult_def Let_def)

lemma minus2_less: "(-2 :: u64) < -1"
  by (simp add: word_less_nat_alt unsigned_minus_1_eq_mask mask_eq_exp_minus_1)

lemma last_snapshot_ok:
  assumes p: "proc_ok F conf ro tb t0 p"
  shows "\<exists>st. last_snapshot F ro p = Inr st \<and> tot_ops st = tot_ops (pr_stat p)
    \<and> misses_read st = misses_read (pr_stat p)"
proof -
  let ?s = "pr_stat p"
  have m: "measured ro p = Inr True" using p by (simp add: proc_ok_def)
  have len: "length (snap_throughput ?s) = SNAPS" "length (snap_latency ?s) = SNAPS"
    "length (snap_ops ?s) = SNAPS" "length (snap_time ?s) = SNAPS" "0 \<le> iter_snap ?s"
    using p by (auto simp: proc_ok_def snap_ok_def)
  have "iter_snap ?s = 0 \<or> 30000000 * iter_snap ?s < 30000000 * int SNAPS"
    using p by (auto simp: proc_ok_def snap_ok_def)
  then have "iter_snap ?s < int SNAPS" by (auto simp: SNAPS_def)
  then have "nat (iter_snap ?s) < SNAPS" using len(5) by linarith
  then have "\<exists>s'. store_snapshot F ?s = Inr s' \<and> tot_ops s' = tot_ops ?s \<and> misses_read s' = misses_read ?s"
    using len by (simp add: store_snapshot_def Let_def aset_def)
  then show ?thesis using m by (auto simp: last_snapshot_def Let_def next_snapshot_def)
qed

lemma process_report_ok:
  assumes st: "steady conf info ro i tb b n" and p: "proc_ok F conf ro tb t0 p" and c: "plain_run conf"
    and o: "open_logs fopen conf (ro_iotype ro) (proc_number conf (ro_iotype ro) (int i)) = Inr (lg, ms)"
    and msg: "pr_msgs p = ms" "pr_errs p = 0"
  shows "\<exists>r. process_report F fopen' conf ro p = Inr r \<and> tot_ops (rr_stat r) = tot_ops (pr_stat p)
    \<and> misses_read (rr_stat r) = misses_read (pr_stat p)
    \<and> rr_check r = (if integrity conf \<ge> 2 \<and> ro_iotype ro = READ then Some (0, [Header, NoIssues]) else None)"
proof -
  from last_snapshot_ok [OF p] obtain s where
    s: "last_snapshot F ro p = Inr s" "tot_ops s = tot_ops (pr_stat p)" "misses_read s = misses_read (pr_stat p)"
    by blast
  from st have c': "ro_idproc ro = int i" "logfeature conf = 1 \<longrightarrow> ro_log ro"
    by (auto simp: steady_def)
  from o obtain pid where pid: "sprintf_into 4 (show_int (proc_number conf (ro_iotype ro) (int i))) = Inr pid"
    by (auto simp: open_logs_def elim!: bindR_InrE)
  have h: "integrity conf \<ge> 2 \<and> ro_iotype ro = READ \<Longrightarrow> ms = [Header]"
    using o by (auto simp: open_logs_def log_msg_def elim!: bindR_InrE split: if_splits)
  have m: "measured ro p = Inr True" using p by (simp add: proc_ok_def)
  show ?thesis using s c' pid m c msg h
    by (auto simp: process_report_def plain_run_def averages_def Let_def)
qed

text \<open>A whole run: all its operations, its report, and what it leaves in the files and the mapping.\<close>

definition agrees :: "'d user_confs \<Rightarrow> nat \<Rightarrow> nat \<Rightarrow> 'd generator \<Rightarrow> string \<Rightarrow> sys \<Rightarrow> bool" where
  "agrees conf b n g name sh \<longleftrightarrow> (1 \<le> integrity conf \<longrightarrow> b + n \<le> length (content_map (sh_mem sh))
     \<and> file_ok g (unat (block_size conf)) n (file_of (sh_fs sh) name) (\<lambda>j. content_map (sh_mem sh) ! (b + j)))"

lemma store_ok_agrees: "store_ok conf ro b n g sh = agrees conf b n g (ro_name ro) sh"
  by (simp add: store_ok_def agrees_def)

lemma share_of_operations:
  assumes "0 < nproc" and "nproc < 2 ^ 31"
  shows "(word_of_int nproc :: u64) \<noteq> 0" "unat (ops div word_of_int nproc :: u64) = unat ops div nat nproc"
proof -
  have u: "unat (word_of_int nproc :: u64) = nat nproc" using assms by (intro unat_word_of_int) simp_all
  with assms(1) show "(word_of_int nproc :: u64) \<noteq> 0" by auto
  show "unat (ops div word_of_int nproc :: u64) = unat ops div nat nproc" by (simp only: unat_div u)
qed

text \<open>A whole run from its bounds: what the loop test sees decides after how many rounds it ends.\<close>

lemma bounded_run_ok:
  assumes F: "clock_fpu F" and c: "plain_run conf" and b: "blocks_ready conf info i tb b n"
    and o: "opened E conf ty i (sh_fs sh) name fs lg ms" and g: "gen_ready conf g"
    and acc: "length (sfmt (rng acc)) = SFMT_N" and bd: "bounds_of conf (tv_sec (pe_start E)) nproc = Inr bd"
    and ru: "lb_ru_begin bd = Some ru" "ru \<le> lb_begin_time bd"
    and s: "agrees conf b n g name (sh\<lparr>sh_fs := fs\<rparr>)"
    and t: "ticks_ok conf t0 g (pe_base E) (pe_ticks E) m"
    and me: "\<And>j. j \<le> m \<Longrightarrow> ru \<le> round_time conf (lb_begin_time bd) (pe_ticks E) j"
    and run: "\<And>j c. j \<le> m \<Longrightarrow> c \<le> j \<Longrightarrow> (testtype conf = PEAK \<longrightarrow> c = j) \<Longrightarrow>
      (round_time conf (lb_begin_time bd) (pe_ticks E) j < lb_end_time bd
       \<and> lb_begin_size bd + (if flag_termination_size conf then word_of_nat c else 0) < lb_end_size bd) = (j < m)"
    and small: "m < 2 ^ 64"
  shows "\<exists>c r g' sh'. process_run F E conf info (int i) nproc rate ty g acc sh = Inr (m, r, sh')
    \<and> c \<le> m \<and> (testtype conf = PEAK \<longrightarrow> c = m)
    \<and> unat (tot_ops (rr_stat r)) = c \<and> (1 \<le> integrity conf \<longrightarrow> misses_read (rr_stat r) = 0)
    \<and> rr_check r = (if integrity conf \<ge> 2 \<and> ty = READ then Some (0, [Header, NoIssues]) else None)
    \<and> same_gen g g' \<and> gen_ok g' \<and> agrees conf b n g' name sh' \<and> (ty \<noteq> WRITE \<longrightarrow> sh' = sh\<lparr>sh_fs := fs\<rparr>)
    \<and> (1 \<le> integrity conf \<longrightarrow> shares name b n (sh\<lparr>sh_fs := fs\<rparr>) sh')"
proof -
  from process_start_ok [OF F c b o g acc bd ru, of rate t0] obtain ro p where
    s0: "process_start F E conf (int i) nproc rate ty g acc sh = Inr (ro, p, sh\<lparr>sh_fs := fs\<rparr>)"
    "steady conf info ro i tb b n" "proc_ok F conf ro tb t0 p" "ro_idproc ro = int i" "ro_iotype ro = ty" "ro_name ro = name"
    "ro_end_size ro = lb_end_size bd" "ro_end_time ro = lb_end_time bd" "ro_ru_begin ro = Some ru"
    "pr_begin_time p = lb_begin_time bd" "pr_begin_size p = lb_begin_size bd"
    "pr_gen p = g" "pr_base p = pe_base E" "pr_stat p = initial_stats F" "sum_list (pr_accesses p) = 0"
    "pr_errs p = 0" "pr_msgs p = ms" by blast
  have st: "store_ok conf ro b n (pr_gen p) (sh\<lparr>sh_fs := fs\<rparr>)" using s by (simp add: store_ok_agrees s0)
  have t': "ticks_ok conf t0 (pr_gen p) (pr_base p) (\<lambda>j. pe_ticks E (0 + j)) m" using t by (simp add: s0)
  have me': "times_measured conf ro (pr_begin_time p) (\<lambda>j. pe_ticks E (0 + j)) m"
    using me by (simp add: times_measured_def s0)
  have run': "(round_time conf (pr_begin_time p) (\<lambda>j. pe_ticks E (0 + j)) j < ro_end_time ro
       \<and> pr_begin_size p + (if flag_termination_size conf then word_of_nat c else 0) < ro_end_size ro) = (j < m)"
    if "j \<le> m" "c \<le> j" "testtype conf = PEAK \<longrightarrow> c = j" for j c
    using run [OF that] by (simp add: s0)
  from loop_ok [OF F s0(2,3) st t' me' run', unfolded add_0] obtain c p' sh' where
    l: "process_loop F conf info ro (pe_ticks E) 0 (p, sh\<lparr>sh_fs := fs\<rparr>) = Some (Inr (m, p', sh'))"
    "proc_ok F conf ro tb t0 p'" "c \<le> m" "testtype conf = PEAK \<longrightarrow> c = m"
    "store_ok conf ro b n (pr_gen p') sh'" "same_gen (pr_gen p) (pr_gen p')"
    "1 \<le> integrity conf \<longrightarrow> shares (ro_name ro) b n (sh\<lparr>sh_fs := fs\<rparr>) sh'"
    "ro_iotype ro \<noteq> WRITE \<longrightarrow> sh' = sh\<lparr>sh_fs := fs\<rparr>" "tot_ops (pr_stat p') = tot_ops (pr_stat p) + word_of_nat c"
    "pr_errs p' = pr_errs p" "pr_msgs p' = pr_msgs p"
    "1 \<le> integrity conf \<longrightarrow> misses_read (pr_stat p') = misses_read (pr_stat p)" by blast
  have lg: "open_logs (pe_fopen E) conf (ro_iotype ro) (proc_number conf (ro_iotype ro) (int i)) = Inr (lg, ms)"
    using o by (simp add: s0(5) opened_def)
  from process_report_ok [OF s0(2) l(2) c lg, of "pe_fopen E"] l(10,11) s0(16,17) obtain r where
    r: "process_report F (pe_fopen E) conf ro p' = Inr r" "tot_ops (rr_stat r) = tot_ops (pr_stat p')"
    "misses_read (rr_stat r) = misses_read (pr_stat p')"
    "rr_check r = (if integrity conf \<ge> 2 \<and> ro_iotype ro = READ then Some (0, [Header, NoIssues]) else None)" by auto
  have "process_run F E conf info (int i) nproc rate ty g acc sh = Inr (m, r, sh')"
    by (simp add: process_run_def s0(1) l(1) r(1))
  moreover have "unat (word_of_nat c :: u64) = c"
    using l(3) small by (intro unat_of_nat_small) simp
  moreover have "gen_ok (pr_gen p')" using l(2) by (simp add: proc_ok_def gen_ready_def)
  moreover have "agrees conf b n (pr_gen p') name sh'" using l(5) by (simp add: store_ok_agrees s0(6))
  moreover have "tot_ops (rr_stat r) = word_of_nat c" "1 \<le> integrity conf \<longrightarrow> misses_read (rr_stat r) = 0"
    using r(2,3) l(9,12) by (simp_all add: s0(14) initial_stats_def)
  ultimately show ?thesis using l(3,4,6-8) r(4)
    by (intro exI [of _ c] exI [of _ r] exI [of _ "pr_gen p'"] exI [of _ sh']) (simp add: s0(5,6,12))
qed

lemma process_run_ok:
  assumes F: "clock_fpu F" and c: "sized_run conf" and b: "blocks_ready conf info i tb b n"
    and o: "opened E conf ty i (sh_fs sh) name fs lg ms" and g: "gen_ready conf g"
    and acc: "length (sfmt (rng acc)) = SFMT_N" and np: "0 < nproc" "nproc < 2 ^ 31"
    and s: "agrees conf b n g name (sh\<lparr>sh_fs := fs\<rparr>)"
    and m: "m = unat (number_ops conf) div nat nproc" and t: "ticks_ok conf t0 g (pe_base E) (pe_ticks E) m"
  shows "\<exists>r g' sh'. process_run F E conf info (int i) nproc rate ty g acc sh = Inr (m, r, sh')
    \<and> unat (tot_ops (rr_stat r)) = m \<and> (1 \<le> integrity conf \<longrightarrow> misses_read (rr_stat r) = 0)
    \<and> rr_check r = (if integrity conf \<ge> 2 \<and> ty = READ then Some (0, [Header, NoIssues]) else None)
    \<and> same_gen g g' \<and> gen_ok g' \<and> agrees conf b n g' name sh' \<and> (ty \<noteq> WRITE \<longrightarrow> sh' = sh\<lparr>sh_fs := fs\<rparr>)
    \<and> (1 \<le> integrity conf \<longrightarrow> shares name b n (sh\<lparr>sh_fs := fs\<rparr>) sh')"
proof -
  note w = share_of_operations [OF np]
  from c have c': "testtype conf = PEAK" "\<not> flag_termination_time conf" "flag_termination_size conf"
    by (auto simp: sized_run_def)
  let ?e = "number_ops conf div word_of_int nproc"
  have e: "unat ?e = m" by (simp add: w(2) m)
  then have small: "m < 2 ^ 64" using unsigned_less [where 'a = nat, of ?e] by simp
  have u: "unat (word_of_nat j :: u64) = j" if "j \<le> m" for j
    using that small by (intro unat_of_nat_small) simp
  have rt: "round_time conf bt (pe_ticks E) j = bt" for bt j
    using c'(2) by (simp add: round_time_def next_time_def)
  have less: "(word_of_nat j < ?e) = (j < m)" if "j \<le> m" for j
    by (simp add: word_less_nat_alt u [OF that] e)
  have "\<exists>c r g' sh'. process_run F E conf info (int i) nproc rate ty g acc sh = Inr (m, r, sh')
    \<and> c \<le> m \<and> (testtype conf = PEAK \<longrightarrow> c = m)
    \<and> unat (tot_ops (rr_stat r)) = c \<and> (1 \<le> integrity conf \<longrightarrow> misses_read (rr_stat r) = 0)
    \<and> rr_check r = (if integrity conf \<ge> 2 \<and> ty = READ then Some (0, [Header, NoIssues]) else None)
    \<and> same_gen g g' \<and> gen_ok g' \<and> agrees conf b n g' name sh' \<and> (ty \<noteq> WRITE \<longrightarrow> sh' = sh\<lparr>sh_fs := fs\<rparr>)
    \<and> (1 \<le> integrity conf \<longrightarrow> shares name b n (sh\<lparr>sh_fs := fs\<rparr>) sh')"
    by (rule bounded_run_ok [OF F sized_plain [OF c] b o g acc sized_bounds [OF c w(1)] _ _ s t, where ru = 0])
      (use c' small less in \<open>simp_all add: rt minus2_less\<close>)
  then show ?thesis using c'(1) by blast
qed

text \<open>The clock readings of a run for a number of seconds: the end is reached in round \<open>m\<close> and not before.\<close>

definition time_is_up :: "'d user_confs \<Rightarrow> 'd proc_env \<Rightarrow> nat \<Rightarrow> bool" where
  "time_is_up conf E m \<longleftrightarrow>
     (let bt = word_of_int (tv_sec (pe_start E)); time = round_time conf bt (pe_ticks E)
      in (\<forall>j < m. time j < end_time conf (tv_sec (pe_start E))) \<and> end_time conf (tv_sec (pe_start E)) \<le> time m
         \<and> (\<forall>j \<le> m. bt \<le> time j))"

lemma timed_run_ok:
  assumes F: "clock_fpu F" and c: "timed_run conf" and b: "blocks_ready conf info i tb b n"
    and o: "opened E conf ty i (sh_fs sh) name fs lg ms" and g: "gen_ready conf g"
    and acc: "length (sfmt (rng acc)) = SFMT_N"
    and s: "agrees conf b n g name (sh\<lparr>sh_fs := fs\<rparr>)"
    and up: "time_is_up conf E m" and t: "ticks_ok conf t0 g (pe_base E) (pe_ticks E) m" and small: "m < 2 ^ 64"
  shows "\<exists>c r g' sh'. process_run F E conf info (int i) nproc rate ty g acc sh = Inr (m, r, sh')
    \<and> c \<le> m \<and> (testtype conf = PEAK \<longrightarrow> c = m)
    \<and> unat (tot_ops (rr_stat r)) = c \<and> (1 \<le> integrity conf \<longrightarrow> misses_read (rr_stat r) = 0)
    \<and> rr_check r = (if integrity conf \<ge> 2 \<and> ty = READ then Some (0, [Header, NoIssues]) else None)
    \<and> same_gen g g' \<and> gen_ok g' \<and> agrees conf b n g' name sh' \<and> (ty \<noteq> WRITE \<longrightarrow> sh' = sh\<lparr>sh_fs := fs\<rparr>)
    \<and> (1 \<le> integrity conf \<longrightarrow> shares name b n (sh\<lparr>sh_fs := fs\<rparr>) sh')"
proof -
  from c have c': "plain_run conf" "\<not> flag_termination_size conf" by (auto simp: timed_run_def)
  from up have up': "\<And>j. j < m \<Longrightarrow> round_time conf (word_of_int (tv_sec (pe_start E))) (pe_ticks E) j < end_time conf (tv_sec (pe_start E))"
    "\<not> round_time conf (word_of_int (tv_sec (pe_start E))) (pe_ticks E) m < end_time conf (tv_sec (pe_start E))"
    "\<And>j. j \<le> m \<Longrightarrow> word_of_int (tv_sec (pe_start E)) \<le> round_time conf (word_of_int (tv_sec (pe_start E))) (pe_ticks E) j"
    by (auto simp: time_is_up_def Let_def not_less)
  have "(round_time conf (word_of_int (tv_sec (pe_start E))) (pe_ticks E) j < end_time conf (tv_sec (pe_start E))) = (j < m)"
    if "j \<le> m" for j using up'(1,2) that by (cases "j = m") auto
  then show ?thesis
    by (intro bounded_run_ok [OF F c'(1) b o g acc timed_bounds [OF c] _ _ s t, where ru = "word_of_int (tv_sec (pe_start E))"])
      (use up'(3) small c'(2) in \<open>simp_all add: minus2_less\<close>)
qed

section \<open>Properties\<close>

text \<open>
  C3: a run that is bounded by a number of operations ends: a process of a peak test, reading or
  writing, makes exactly its share \<open>number_ops / nproc\<close> of the operations, for any access pattern and any
  draws, and reports them; when the files hold what the trackers say, no read misses and the online
  check of a reader finds no error.  \<open>blocks_ready\<close> says that the pattern has enough blocks and that the
  process has a tracker, \<open>opened\<close> that its files could be opened; the clock does not go back, and
  the run takes less than the time of 1000 snapshots.
\<close>

theorem sized_run_completes:
  assumes "clock_fpu F" and "sized_run conf" and "blocks_ready conf info i tb b n"
    and "opened E conf ty i (sh_fs sh) name fs lg ms" and "gen_ready conf g"
    and "length (sfmt (rng acc)) = SFMT_N" and "0 < nproc" and "nproc < 2 ^ 31"
    and "agrees conf b n g name (sh\<lparr>sh_fs := fs\<rparr>)"
    and "m = unat (number_ops conf) div nat nproc" and "ticks_ok conf t0 g (pe_base E) (pe_ticks E) m"
  shows "\<exists>r sh'. process_run F E conf info (int i) nproc rate ty g acc sh = Inr (m, r, sh')
    \<and> unat (tot_ops (rr_stat r)) = m \<and> (1 \<le> integrity conf \<longrightarrow> misses_read (rr_stat r) = 0)
    \<and> rr_check r = (if integrity conf \<ge> 2 \<and> ty = READ then Some (0, [Header, NoIssues]) else None)"
  using process_run_ok [OF assms] by blast

text \<open>
  C5: a run keeps the files and the content trackers together: after it the file of the process holds,
  block by block, the contents its tracker describes, all other files, the counters and the trackers of
  the other processes are as they were, and a reader changes nothing.
\<close>

theorem run_keeps_files_and_trackers:
  assumes "clock_fpu F" and "sized_run conf" and "1 \<le> integrity conf" and "blocks_ready conf info i tb b n"
    and "opened E conf ty i (sh_fs sh) name fs lg ms" and "gen_ready conf g"
    and "length (sfmt (rng acc)) = SFMT_N" and "0 < nproc" and "nproc < 2 ^ 31"
    and "file_ok g (unat (block_size conf)) n (file_of fs name) (\<lambda>j. content_map (sh_mem sh) ! (b + j))"
    and "b + n \<le> length (content_map (sh_mem sh))"
    and "ticks_ok conf t0 g (pe_base E) (pe_ticks E) (unat (number_ops conf) div nat nproc)"
  shows "\<exists>k r g' sh'. process_run F E conf info (int i) nproc rate ty g acc sh = Inr (k, r, sh')
    \<and> file_ok g' (unat (block_size conf)) n (file_of (sh_fs sh') name) (\<lambda>j. content_map (sh_mem sh') ! (b + j))
    \<and> same_gen g g' \<and> shares name b n (sh\<lparr>sh_fs := fs\<rparr>) sh' \<and> (ty \<noteq> WRITE \<longrightarrow> sh' = sh\<lparr>sh_fs := fs\<rparr>)"
proof -
  have "agrees conf b n g name (sh\<lparr>sh_fs := fs\<rparr>)" using assms(10,11) by (simp add: agrees_def)
  from process_run_ok [OF assms(1,2,4-9) this refl assms(12), of rate] assms(3) show ?thesis
    by (fastforce simp: agrees_def)
qed



section \<open>Concrete runs\<close>

definition run_conf :: "int \<Rightarrow> rat user_confs" where
  "run_conf k = chk_conf\<lparr>flag_termination_size := True, testtype := PEAK, accesstype := SEQUENTIAL,
     number_ops := 6, integrity := k\<rparr>"

definition run_time :: timeval where
  "run_time = \<lparr>tv_sec = 5, tv_usec = 0\<rparr>"

definition run_tick :: tick where
  "run_tick = \<lparr>tk_draw = \<lparr>d_line = 1, d_block = 2, d_content = 9\<rparr>, tk_checks = (7, 7), tk_before = run_time,
     tk_after = run_time, tk_result = 8, tk_lap = run_time, tk_now = run_time\<rparr>"

definition run_env :: "rat proc_env" where
  "run_env = \<lparr>pe_open = (\<lambda>_. True), pe_fopen = (\<lambda>_. True), pe_start = run_time, pe_base = run_time,
     pe_buf = replicate 8 0, pe_ticks = (\<lambda>_. run_tick)\<rparr>"

definition run_file :: "u8 list" where
  "run_file = expected demo_gen chk_bi @ expected demo_gen chk_bi"

definition run_sys :: sys where
  "run_sys = \<lparr>sh_mem = \<lparr>cells = [0, 0, 0], content_map = replicate 4 chk_bi\<rparr>, sh_fs = (\<lambda>_. Some run_file)\<rparr>"

lemma run_conf_sel [simp]:
  "block_size (run_conf k) = 8" "filesize (run_conf k) = 16" "totblocks (run_conf k) = 2" "integrity (run_conf k) = k"
  "accesstype (run_conf k) = SEQUENTIAL" "number_ops (run_conf k) = 6" "\<not> rawdevice (run_conf k)"
  "\<not> mixedIO (run_conf k)" "logfeature (run_conf k) = 0" "tempfilespath (run_conf k) = ''tmp/''"
  by (simp_all add: run_conf_def chk_conf_def initial_conf_def)

lemma run_conf_sized: "sized_run (run_conf k)"
  by (simp add: sized_run_def run_conf_def chk_conf_def initial_conf_def)

lemma run_blocks_ready: "blocks_ready (run_conf k) chk_info 1 2 2 2"
  by (simp add: blocks_ready_def proc_blocks_def track_base_def chk_info_def aget_def rand_limit_def)

lemma run_opened: "opened run_env (run_conf k) ty 1 (sh_fs run_sys) ''tmp/dedisbench_0010test1'' (\<lambda>_. Some run_file)
    False (if 2 \<le> k \<and> ty = READ then [Header] else [])"
proof -
  have "digit_char (Suc 0) = CHR ''1''" by code_simp
  then show ?thesis
    by (simp add: opened_def open_target_def create_pfile_def pfile_name_def sprintf_into_def show_int_def show_nat.simps
      TMP_FILE_def PATH_SIZE_def run_env_def run_sys_def open_logs_def proc_number_def log_msg_def tv_ok_def
      run_time_def tv_us_def)
qed

lemma run_gen_ready: "gen_ready (run_conf k) demo_gen"
  using chk_ready by (simp add: gen_ready_def check_ready_def chk_sel zero_first_def)

lemma run_ticks: "ticks_ok (run_conf k) 0 demo_gen (pe_base run_env) (pe_ticks run_env) m"
  by (simp add: ticks_ok_def tick_ok_def run_env_def run_tick_def run_time_def tv_ok_def tv_us_def draw_ok_def SNAPS_def)

lemma run_file_ok: "file_ok demo_gen 8 2 run_file (\<lambda>j. replicate 4 chk_bi ! (2 + j))"
proof -
  have "j < 2 \<Longrightarrow> pread_file run_file (j * 8) 8 = expected demo_gen chk_bi" for j
    by (auto dest!: less_2_cases simp: pread_file_def run_file_def chk_bi_ok(2))
  then show ?thesis using chk_bi_ok by (simp add: file_ok_def run_file_def)
qed

lemma run_agrees: "agrees (run_conf k) 2 2 demo_gen ''tmp/dedisbench_0010test1'' (run_sys\<lparr>sh_fs := (\<lambda>_. Some run_file)\<rparr>)"
  using run_file_ok by (simp add: agrees_def run_sys_def file_of_def)

text \<open>A reader of a populated file with the online check: three operations, no misses, no errors.\<close>

theorem sized_run_completes_witness:
  "\<exists>r sh'. process_run exact_fpu run_env (run_conf 2) chk_info 1 2 0 READ demo_gen zero_access run_sys = Inr (3, r, sh')
    \<and> tot_ops (rr_stat r) = 3 \<and> misses_read (rr_stat r) = 0 \<and> rr_check r = Some (0, [Header, NoIssues])"
proof -
  have "\<exists>r sh'. process_run exact_fpu run_env (run_conf 2) chk_info (int 1) 2 0 READ demo_gen zero_access run_sys
      = Inr (3, r, sh') \<and> unat (tot_ops (rr_stat r)) = 3
    \<and> (1 \<le> integrity (run_conf 2) \<longrightarrow> misses_read (rr_stat r) = 0)
    \<and> rr_check r = (if integrity (run_conf 2) \<ge> 2 \<and> READ = READ then Some (0, [Header, NoIssues]) else None)"
    by (rule sized_run_completes [OF exact.clock_fpu_axioms run_conf_sized run_blocks_ready run_opened run_gen_ready
        zero_access_rng(2) _ _ run_agrees _ run_ticks]) simp_all
  then show ?thesis by (simp add: word_unat_eq_iff)
qed

theorem run_keeps_files_and_trackers_witness:
  "\<exists>k r g' sh'. process_run exact_fpu run_env (run_conf 1) chk_info 1 2 0 WRITE demo_gen zero_access run_sys = Inr (k, r, sh')
    \<and> file_ok (g' :: rat generator) 8 2 (file_of (sh_fs sh') ''tmp/dedisbench_0010test1'') (\<lambda>j. content_map (sh_mem sh') ! (2 + j))
    \<and> content_map (sh_mem sh') ! 0 = chk_bi"
proof -
  have "\<exists>k r g' sh'. process_run exact_fpu run_env (run_conf 1) chk_info (int 1) 2 0 WRITE demo_gen zero_access run_sys
      = Inr (k, r, sh')
    \<and> file_ok g' (unat (block_size (run_conf 1))) 2 (file_of (sh_fs sh') ''tmp/dedisbench_0010test1'')
        (\<lambda>j. content_map (sh_mem sh') ! (2 + j))
    \<and> same_gen demo_gen g' \<and> shares ''tmp/dedisbench_0010test1'' 2 2 (run_sys\<lparr>sh_fs := (\<lambda>_. Some run_file)\<rparr>) sh'
    \<and> (WRITE \<noteq> WRITE \<longrightarrow> sh' = run_sys\<lparr>sh_fs := (\<lambda>_. Some run_file)\<rparr>)"
    by (rule run_keeps_files_and_trackers [OF exact.clock_fpu_axioms run_conf_sized _ run_blocks_ready run_opened
        run_gen_ready zero_access_rng(2) _ _ _ _ run_ticks])
      (use run_file_ok in \<open>simp_all add: run_sys_def file_of_def\<close>)
  then obtain k r g' sh' where
    w: "process_run exact_fpu run_env (run_conf 1) chk_info 1 2 0 WRITE demo_gen zero_access run_sys = Inr (k, r, sh')"
    "file_ok (g' :: rat generator) 8 2 (file_of (sh_fs sh') ''tmp/dedisbench_0010test1'') (\<lambda>j. content_map (sh_mem sh') ! (2 + j))"
    "shares ''tmp/dedisbench_0010test1'' 2 2 (run_sys\<lparr>sh_fs := (\<lambda>_. Some run_file)\<rparr>) sh'" by auto
  then have "content_map (sh_mem sh') ! 0 = chk_bi" by (simp add: shares_def run_sys_def)
  with w show ?thesis by blast
qed

definition timed_conf :: "rat user_confs" where
  "timed_conf = (run_conf 2)\<lparr>flag_termination_size := False, flag_termination_time := True, time_to_run := 1\<rparr>"

definition timed_env :: "rat proc_env" where
  "timed_env = run_env\<lparr>pe_ticks := (\<lambda>j. if j < 2 then run_tick else run_tick\<lparr>tk_now := \<lparr>tv_sec = 6, tv_usec = 0\<rparr>\<rparr>)\<rparr>"


end
