(* ===== verification/Process_rate.thy ===== *)
theory Process_rate
  imports Process_facts
begin

text \<open>
  Runs as sequences of steps: the states a process reaches, the rate of a nominal test, and the two
  ways in which a measured run goes out of the bounds of an array.
\<close>

section \<open>Reachable states\<close>

inductive proc_reach ::
  "'d fpu \<Rightarrow> 'd user_confs \<Rightarrow> duplicates_info \<Rightarrow> 'd role \<Rightarrow> (nat \<Rightarrow> tick) \<Rightarrow> 'd proc \<times> sys \<Rightarrow> nat \<Rightarrow> 'd proc \<times> sys \<Rightarrow> bool"
  for F conf info ro ticks s where
  reach_start: "proc_reach F conf info ro ticks s 0 s"
| reach_step: "proc_reach F conf info ro ticks s k s1 \<Longrightarrow> proc_running ro (fst s1) \<Longrightarrow>
    proc_step F conf info ro (ticks k) s1 = Inr s2 \<Longrightarrow> proc_reach F conf info ro ticks s (Suc k) s2"

text \<open>What the loop returns is reached.\<close>

lemma loop_reaches:
  assumes "process_loop F conf info ro ticks k s1 = Some r" and "r = Inr (m, s2)"
    and "proc_reach F conf info ro ticks s k s1"
  shows "proc_reach F conf info ro ticks s m s2 \<and> \<not> proc_running ro (fst s2)"
  using assms(2,3)
proof (induction F conf info ro ticks k s1 r rule: process_loop.raw_induct)
  case (1 loop F conf info ro ticks k s1 r)
  show ?case
  proof (cases "proc_running ro (fst s1)")
    case True
    with 1 obtain s' where "proc_step F conf info ro (ticks k) s1 = Inr s'" "loop F conf info ro ticks (Suc k) s' = Some r"
      by (auto split: sum.splits)
    with 1 True show ?thesis by (blast intro: reach_step)
  next
    case False
    with 1 show ?thesis by auto
  qed
qed (rule assms(1))

section \<open>What a successful step leaves\<close>

lemma count_written_keeps: "count_written conf info bi st mem = Inr (st', mem') \<Longrightarrow> tot_ops st' = tot_ops st"
  by (auto simp: count_written_def Let_def elim!: bindR_InrE split: if_splits)

lemma perform_write_keeps:
  assumes "perform_write F conf info ro tk (p, sh) = Inr (p', sh')"
  shows "tot_ops (pr_stat p') = tot_ops (pr_stat p)" "pr_elapsed p' = pr_elapsed p" "pr_base p' = pr_base p"
  using assms by (auto simp: perform_write_def elim!: bindR_InrE dest: count_written_keeps)

lemma check_read_keeps: "check_read F conf info ro tk off buf mem p = Inr p' \<Longrightarrow>
    pr_stat p' = pr_stat p \<and> pr_elapsed p' = pr_elapsed p \<and> pr_base p' = pr_base p"
  by (auto simp: check_read_def elim!: bindR_InrE split: if_splits)

lemma perform_read_keeps:
  assumes "perform_read F conf info ro tk (p, sh) = Inr (p', sh')"
  shows "tot_ops (pr_stat p') = tot_ops (pr_stat p)" "pr_elapsed p' = pr_elapsed p" "pr_base p' = pr_base p"
  using assms by (auto simp: perform_read_def Let_def elim!: bindR_InrE dest!: check_read_keeps)

lemma store_snapshot_keeps: "store_snapshot F st = Inr st' \<Longrightarrow> tot_ops st' = tot_ops st"
  by (auto simp: store_snapshot_def Let_def elim!: bindR_InrE split: if_splits)

lemma count_operation_keeps: "count_operation F m st = Inr st' \<Longrightarrow> tot_ops st' = tot_ops st + (if m then 1 else 0)"
  by (auto simp: count_operation_def Let_def next_snapshot_def elim!: bindR_InrE dest!: store_snapshot_keeps split: if_splits)

lemma operate_keeps:
  assumes "operate F conf info ro tk (p, sh) = Inr (p', sh')"
  shows "tot_ops (pr_stat p') = tot_ops (pr_stat p) \<or> tot_ops (pr_stat p') = tot_ops (pr_stat p) + 1"
    "pr_elapsed p' = pr_elapsed p" "pr_base p' = pr_base p"
  using assms perform_write_keeps [of F conf info ro tk p sh] perform_read_keeps [of F conf info ro tk p sh]
  by (auto simp: operate_def elim!: bindR_InrE dest!: count_operation_keeps split: if_splits)

section \<open>The rate\<close>

lemma exact_lap: "lap_time exact_fpu b a = (tv_us b - tv_us a, b)"
proof -
  have n: "fp_trunc exact_fpu (rat_of_int n) = n" for n by (simp add: exact_fpu_def)
  have "fp_add exact_fpu (fp_mul exact_fpu (fp_of_int exact_fpu (tv_sec b - tv_sec a)) (fp_of_int exact_fpu 1000000))
      (fp_of_int exact_fpu (tv_usec b - tv_usec a)) = rat_of_int (tv_us b - tv_us a)"
    by (simp add: exact_fpu_def tv_us_def algebra_simps)
  then show ?thesis by (simp only: lap_time_def n)
qed

definition within_rate :: "rat role \<Rightarrow> rat proc \<Rightarrow> bool" where
  "within_rate ro p \<longleftrightarrow> 0 < pr_elapsed p \<and>
     (rat_of_nat (unat (tot_ops (pr_stat p))) - 1) * rat_of_int (ro_nproc ro) < ro_ratio ro * pr_elapsed p"

lemma rate_step:
  assumes nom: "testtype conf \<noteq> PEAK" and r: "0 \<le> ro_ratio ro" and np: "0 < ro_nproc ro"
    and p: "within_rate ro p" and ops: "int (unat (tot_ops (pr_stat p))) * ro_nproc ro < 2 ^ 63" "ro_nproc ro < 2 ^ 31"
    and l: "tv_us (pr_base p) \<le> tv_us (tk_lap tk)"
    and s: "proc_step exact_fpu conf info ro tk (p, sh) = Inr (p', sh')"
  shows "within_rate ro p'" "unat (tot_ops (pr_stat p')) \<le> unat (tot_ops (pr_stat p)) + 1" "pr_base p' = tk_lap tk"
proof -
  let ?n = "unat (tot_ops (pr_stat p))" and ?e = "pr_elapsed p"
  have un: "unat (word_of_int (ro_nproc ro) :: u64) = nat (ro_nproc ro)" using np ops(2) by (intro unat_word_of_int) simp_all
  have "int (?n * nat (ro_nproc ro)) < 2 ^ 63" using ops(1) np by simp
  then have "?n * nat (ro_nproc ro) < 2 ^ 63" unfolding nat_int_comparison(2) by simp
  then have prod: "unat (tot_ops (pr_stat p) * word_of_int (ro_nproc ro)) = ?n * nat (ro_nproc ro)"
    using unat_mult_small [of "tot_ops (pr_stat p)" "word_of_int (ro_nproc ro)"] un by simp
  then have "uint (tot_ops (pr_stat p) * word_of_int (ro_nproc ro)) = int ?n * ro_nproc ro"
    using np by (simp only: uint_nat prod) simp
  then have ops_proc: "fp_of_word exact_fpu (tot_ops (pr_stat p) * word_of_int (ro_nproc ro)) = rat_of_nat ?n * rat_of_int (ro_nproc ro)"
    by (simp add: fp_of_word_def exact_fpu_def)
  from p have e: "0 < ?e" by (simp add: within_rate_def)
  then have "fp_less exact_fpu (fp_of_int exact_fpu 0) ?e" by (simp add: exact_fpu_def)
  from exact.rate_assert [OF this, of conf ro, unfolded ops_proc] nom obtain go where
    go: "rate_allows exact_fpu conf ro p = Inr go" "go = (rat_of_nat ?n * rat_of_int (ro_nproc ro) / ?e < ro_ratio ro)"
    by (simp add: exact_fpu_def)
  from s go(1) obtain q where q: "(if go then operate exact_fpu conf info ro tk (p, sh) else Inr (p, sh)) = Inr (q, sh')"
    "p' = clock_step exact_fpu conf tk q" by (auto simp: proc_step_def elim!: bindR_InrE)
  have keep: "pr_elapsed q = ?e" "pr_base q = pr_base p"
    using q(1) operate_keeps(2,3) [of exact_fpu conf info ro tk p sh q sh'] by (auto split: if_splits)
  have tot: "go \<and> tot_ops (pr_stat q) = tot_ops (pr_stat p) + 1 \<or> tot_ops (pr_stat q) = tot_ops (pr_stat p)"
    using q(1) operate_keeps(1) [of exact_fpu conf info ro tk p sh q sh'] by (auto split: if_splits)
  have "1 \<le> nat (ro_nproc ro)" using np by simp
  then have "?n * 1 \<le> ?n * nat (ro_nproc ro)" by (rule mult_le_mono2)
  with \<open>?n * nat (ro_nproc ro) < 2 ^ 63\<close> have "?n < 2 ^ 63" by linarith
  then have "?n + 1 < 2 ^ 64" by simp
  then have suc: "unat (tot_ops (pr_stat p) + 1) = Suc ?n" by (intro unat_Suc_small) simp
  let ?d = "tv_us (tk_lap tk) - tv_us (pr_base p)"
  have p': "pr_elapsed p' = ?e + rat_of_int ?d" "pr_stat p' = pr_stat q" "pr_base p' = tk_lap tk"
    by (simp_all add: q(2) clock_step_def exact_lap keep) (simp add: exact_fpu_def)
  have d: "0 \<le> rat_of_int ?d" using l by simp
  have "(rat_of_nat (unat (tot_ops (pr_stat q))) - 1) * rat_of_int (ro_nproc ro) < ro_ratio ro * ?e"
    using tot
  proof
    assume t: "go \<and> tot_ops (pr_stat q) = tot_ops (pr_stat p) + 1"
    then have "rat_of_nat ?n * rat_of_int (ro_nproc ro) < ro_ratio ro * ?e"
      using go(2) e by (simp add: pos_divide_less_eq)
    with t suc show ?thesis by simp
  next
    assume "tot_ops (pr_stat q) = tot_ops (pr_stat p)"
    with p show ?thesis by (simp add: within_rate_def)
  qed
  also have "\<dots> \<le> ro_ratio ro * (?e + rat_of_int ?d)" using r d by (intro mult_left_mono) simp_all
  finally show "within_rate ro p'" using e d by (simp add: within_rate_def p' del: of_int_diff)
  show "unat (tot_ops (pr_stat p')) \<le> ?n + 1" using tot suc by (auto simp: p'(2))
  show "pr_base p' = tk_lap tk" by (rule p'(3))
qed

text \<open>The clock at the first \<open>k\<close> rounds does not go back.\<close>

definition clock_forward :: "timeval \<Rightarrow> (nat \<Rightarrow> tick) \<Rightarrow> nat \<Rightarrow> bool" where
  "clock_forward base ticks k \<longleftrightarrow>
     (\<forall>j < k. tv_us (if j = 0 then base else tk_lap (ticks (j - 1))) \<le> tv_us (tk_lap (ticks j)))"

lemma rate_reach:
  assumes "proc_reach exact_fpu conf info ro ticks s k s'" and "testtype conf \<noteq> PEAK" and "0 \<le> ro_ratio ro"
    and "0 < ro_nproc ro" and "ro_nproc ro < 2 ^ 31" and "within_rate ro (fst s)" and "tot_ops (pr_stat (fst s)) = 0"
    and "int k * ro_nproc ro < 2 ^ 63" and "clock_forward (pr_base (fst s)) ticks k"
  shows "within_rate ro (fst s') \<and> unat (tot_ops (pr_stat (fst s'))) \<le> k
    \<and> pr_base (fst s') = (if k = 0 then pr_base (fst s) else tk_lap (ticks (k - 1)))"
  using assms
proof (induction rule: proc_reach.induct)
  case reach_start
  then show ?case by simp
next
  case (reach_step k s1 s2)
  obtain p1 sh1 p2 sh2 where s: "s1 = (p1, sh1)" "s2 = (p2, sh2)" by (cases s1, cases s2) blast
  have k: "int k * ro_nproc ro < 2 ^ 63" using reach_step.prems(3,7) by (simp add: algebra_simps)
  have c: "clock_forward (pr_base (fst s)) ticks k" using reach_step.prems(8) by (simp add: clock_forward_def)
  from reach_step.IH [OF reach_step.prems(1-6) k c] have ih: "within_rate ro p1"
    "unat (tot_ops (pr_stat p1)) \<le> k" "pr_base p1 = (if k = 0 then pr_base (fst s) else tk_lap (ticks (k - 1)))"
    by (auto simp: s)
  have "int (unat (tot_ops (pr_stat p1))) * ro_nproc ro \<le> int k * ro_nproc ro"
    using ih(2) reach_step.prems(3) by (intro mult_right_mono) linarith+
  then have o: "int (unat (tot_ops (pr_stat p1))) * ro_nproc ro < 2 ^ 63" using k by simp
  have l: "tv_us (pr_base p1) \<le> tv_us (tk_lap (ticks k))"
    using reach_step.prems(8) unfolding ih(3) clock_forward_def by simp
  note r = rate_step [OF reach_step.prems(1-3) ih(1) o reach_step.prems(4) l, of info sh1 p2 sh2]
  show ?case using r reach_step.hyps(3) ih(2) by (simp add: s)
qed
section \<open>Errors\<close>

lemma stat_index_eq:
  assumes "unat (a :: u32) < 2 ^ 31" and "unat (b :: u32) < 2 ^ 31"
  shows "sint (ucast (ucast a - ucast b :: u64) :: cint) = int (unat a) - int (unat b)"
proof -
  have c: "(ucast (ucast a - ucast b :: u64) :: cint) = word_of_int (uint a - uint b)"
    by transfer (simp add: take_bit_eq_mod mod_mod_cancel mod_diff_eq)
  have s: "sint (word_of_int k :: cint) = k" if "- (2 ^ 31) \<le> k" "k < 2 ^ 31" for k
  proof -
    have "sint (word_of_int k :: cint) = signed_take_bit 31 k" by transfer simp
    with that show ?thesis by (simp add: signed_take_bit_int_eq_self)
  qed
  have "int (unat a) < 2 ^ 31" "int (unat b) < 2 ^ 31" using assms unfolding nat_int_comparison(2) by simp_all
  then have "uint a < 2 ^ 31" "uint b < 2 ^ 31" by simp_all
  then have "- (2 ^ 31) \<le> uint a - uint b" "uint a - uint b < 2 ^ 31"
    using unsigned_greater_eq [where 'a = int, of a] unsigned_greater_eq [where 'a = int, of b] by linarith+
  from s [OF this] show ?thesis unfolding c by simp
qed

text \<open>The index of a block with copies is negative.\<close>

lemma copies_underflow:
  assumes "statistics info = Some 0" and "distout conf" and "\<not> flag_unique_block bi"
    and "zero_copy_blocks info = ucast z" and "unat (z :: u32) < unat (block_id bi)" and "unat (block_id bi) < 2 ^ 31"
  shows "count_written conf info bi st mem = Inl OutOfBounds"
proof -
  have "stat_index info bi = int (unat z) - int (unat (block_id bi))"
    unfolding stat_index_def assms(4) using assms(5,6) by (intro stat_index_eq) simp_all
  then have "stat_index info bi < 0" using assms(5) by linarith
  with assms(1-3) show ?thesis by (simp add: count_written_def statistics_cell_def)
qed

lemma write_of_copies:
  assumes g: "gen_ok g" and ls: "linhas g = z # ls" "nrCopies z = 0" "zero_first g"
    and d: "draw_ok g dr" "0 < d_line dr" and t: "unat (total_unique_blocks g) < 2 ^ 31"
  shows "\<exists>bi p g'. get_writecontent F dr g ip bi0 = Inr (bi, p, g') \<and> \<not> flag_unique_block bi
    \<and> unat (nrBlocks z) < unat (block_id bi) \<and> unat (block_id bi) < 2 ^ 31"
proof -
  let ?l = "linhas g ! d_line dr"
  from d have i: "d_line dr < length (linhas g)" and r: "1 \<le> d_block dr" "d_block dr \<le> nrBlocks ?l"
    by (auto simp: draw_ok_def)
  from next_block_step [OF g i refl r, of F bi0] obtain bi p g' where
    n: "nextBlock F dr g bi0 = Inr (bi, p, g')" "unat (block_id bi) = unat (nrBase ?l) + unat (d_block dr)"
    "unat (block_id bi) \<le> unat (total_unique_blocks g)" "flag_unique_block bi = (nrCopies ?l = 0)" by blast
  obtain j where j: "d_line dr = Suc j" using d(2) by (cases "d_line dr") auto
  have "?l \<in> set (tl (linhas g))" using i j ls(1) by simp
  then have "nrCopies ?l \<noteq> 0" using ls(3) by (simp add: zero_first_def)
  moreover have "unat (nrBase ?l) = blocks_of (take (d_line dr) (linhas g))"
    using lines_from_nth [OF gen_okD(1) [OF g] i] by simp
  then have "unat (nrBlocks z) \<le> unat (nrBase ?l)" by (simp add: ls(1) j)
  ultimately show ?thesis using n r(1) t by (simp add: get_writecontent_def word_le_nat_alt)
qed

section \<open>Properties\<close>


text \<open>
  C40: with \<open>distout\<close> the first write of a block that has copies is out of bounds: its index into
  \<open>statistics\<close> is \<open>zero_copy_blocks - block_id\<close>, which is negative for every such block.
\<close>

theorem counting_copies_underflows:
  assumes "clock_fpu F" and "fp_less F (fp_of_int F 0) (pr_elapsed p)" and "testtype conf = PEAK"
    and "ro_iotype ro = WRITE" and "distout conf" and "statistics info = Some 0"
    and "gen_ok (pr_gen p)" and "linhas (pr_gen p) = z # ls" and "nrCopies z = 0" and "zero_first (pr_gen p)"
    and "zero_copy_blocks info = ucast (nrBlocks z)" and "unat (total_unique_blocks (pr_gen p)) < 2 ^ 31"
    and "draw_ok (pr_gen p) (tk_draw tk)" and "0 < d_line (tk_draw tk)"
    and "get_ioposition conf (pr_stat p) (ro_idproc ro) (pr_acc p) = Inr pos"
  shows "proc_step F conf info ro tk (p, sh) = Inl OutOfBounds"
proof -
  from write_of_copies [OF assms(7-10,13,14,12), of F "word_of_int (ro_idproc ro)" blank_info] obtain bi b g' where
    w: "get_writecontent F (tk_draw tk) (pr_gen p) (word_of_int (ro_idproc ro)) blank_info = Inr (bi, b, g')"
    "\<not> flag_unique_block bi" "unat (nrBlocks z) < unat (block_id bi)" "unat (block_id bi) < 2 ^ 31" by blast
  have "perform_write F conf info ro tk (p, sh) = Inl OutOfBounds"
    using w(1) assms(15) copies_underflow [OF assms(6,5) w(2) assms(11) w(3,4)]
    by (cases pos) (simp add: perform_write_def write_request_def)
  then show ?thesis using clock_fpu.rate_assert [OF assms(1,2)] assms(3,4)
    by (simp add: proc_step_def operate_def)
qed

text \<open>
  The arrays of the snapshots hold 1000 elements and are never extended: a measured operation that
  ends the 1001st period of 30 seconds is out of bounds.
\<close>

lemma snapshot_1001_out_of_bounds:
  assumes "(if ro_iotype ro = WRITE then perform_write F conf info ro tk s else perform_read F conf info ro tk s)
      = Inr (p, sh)"
    and "measured ro p = Inr True" and "length (snap_throughput (pr_stat p)) = SNAPS"
    and "iter_snap (pr_stat p) = int SNAPS" and "snapshot_due F (pr_stat p)"
  shows "operate F conf info ro tk s = Inl OutOfBounds"
  using assms by (simp add: operate_def count_operation_def Let_def snapshot_due_def store_snapshot_def aset_out)


section \<open>Concrete runs\<close>

definition rate_role :: "io_type \<Rightarrow> rat role" where
  "rate_role ty = \<lparr>ro_idproc = 1, ro_nproc = 2, ro_ratio = 0, ro_iotype = ty, ro_name = ''f'',
     ro_end_time = -1, ro_end_size = 3, ro_ru_begin = Some 0, ro_log = False\<rparr>"

definition rate_proc :: "rat stats \<Rightarrow> rat proc" where
  "rate_proc st = \<lparr>pr_stat = st, pr_gen = demo_gen, pr_acc = zero_access, pr_accesses = [0, 0],
     pr_buf = replicate 8 0, pr_errs = 0, pr_msgs = [], pr_log = [], pr_begin_time = -2, pr_begin_size = 0,
     pr_base = run_time, pr_elapsed = 1\<rparr>"


theorem counting_copies_underflows_witness:
  "proc_step exact_fpu ((run_conf 0)\<lparr>distout := True\<rparr>) chk_info (rate_role WRITE) run_tick
     (rate_proc (initial_stats exact_fpu), run_sys) = Inl OutOfBounds"
proof (rule counting_copies_underflows [OF exact.clock_fpu_axioms,
      where z = "hd (linhas demo_gen)" and ls = "tl (linhas demo_gen)"])
  show "get_ioposition ((run_conf 0)\<lparr>distout := True\<rparr>) (pr_stat (rate_proc (initial_stats exact_fpu)))
      (ro_idproc (rate_role WRITE)) (pr_acc (rate_proc (initial_stats exact_fpu))) = Inr (0, zero_access)"
    by (simp add: get_ioposition_def proc_blocks_def get_ioposition_seq_def cmod_def rate_proc_def initial_stats_def
        run_conf_def chk_conf_def initial_conf_def)
qed (simp_all add: rate_proc_def rate_role_def run_tick_def chk_info_def draw_ok_def demo_gen_ok zero_first_def
    exact_fpu_def run_conf_def)

definition late_stats :: "rat stats" where
  "late_stats = (initial_stats exact_fpu)\<lparr>iter_snap := 1000, beginio := 0\<rparr>"

definition late_tick :: tick where
  "late_tick = run_tick\<lparr>tk_after := \<lparr>tv_sec = 31, tv_usec = 0\<rparr>\<rparr>"

lemma snapshot_1001_out_of_bounds_witness:
  "operate exact_fpu (run_conf 0) chk_info (rate_role READ) late_tick (rate_proc late_stats, run_sys) = Inl OutOfBounds"
proof -
  have "\<exists>p. perform_read exact_fpu (run_conf 0) chk_info (rate_role READ) late_tick (rate_proc late_stats, run_sys)
      = Inr (p, run_sys) \<and> measured (rate_role READ) p = Inr True \<and> length (snap_throughput (pr_stat p)) = SNAPS
    \<and> iter_snap (pr_stat p) = int SNAPS \<and> last_snap_time (pr_stat p) = 0 \<and> t1snap (pr_stat p) = 31000000"
    by (simp add: perform_read_def read_request_def get_ioposition_def proc_blocks_def get_ioposition_seq_def cmod_def
        count_access_def cdiv_def aget_def aset_def check_read_def measured_def log_operation_def rate_role_def
        rate_proc_def late_stats_def initial_stats_def late_tick_def us64_def tv_us_def Let_def SNAPS_def)
  then obtain p where p: "perform_read exact_fpu (run_conf 0) chk_info (rate_role READ) late_tick (rate_proc late_stats, run_sys)
      = Inr (p, run_sys)" "measured (rate_role READ) p = Inr True" "length (snap_throughput (pr_stat p)) = SNAPS"
    "iter_snap (pr_stat p) = int SNAPS" "last_snap_time (pr_stat p) = 0" "t1snap (pr_stat p) = 31000000" by blast
  then have "snapshot_due exact_fpu (pr_stat p)" by (simp add: snapshot_due_def fp_of_word_def exact_fpu_def)
  with p show ?thesis by (intro snapshot_1001_out_of_bounds) (simp_all add: rate_role_def)
qed

end
