(* ===== verification/Launch.thy ===== *)
theory Launch
  imports Process_rate
begin

text \<open>
  \<open>launch_benchmark\<close> and the end of \<open>main\<close> in \<open>DEDISbench.c\<close>: the processes of a run as children that share the
  mapping and the files, the interleavings of their rounds, the check and the clean-up after them, and
  the order in which \<open>main\<close> calls the components.

  The parent forks the children and waits for all of them.  A move of a child is its set-up, one
  round of its loop, or its report; a schedule is the list of the children that move.  A child that fails
  is gone, and its last move leaves the shared state as it was; the parent does not look at exit statuses.
\<close>

section \<open>The children\<close>

definition launch_args :: "'d user_confs \<Rightarrow> nat \<Rightarrow> int \<times> int \<times> 'd \<times> io_type" where
  "launch_args conf i =
     (let half = c_half (nprocs conf)
      in if mixedIO conf then
           if int i < half then (int i, half, ratiow conf, WRITE)
           else (int i - half, half, ratior conf, READ)
         else (int i, nprocs conf, ratio conf, iotype conf))"

datatype 'd child =
    Waiting
  | Running "'d role" "'d proc" nat
  | Ended "'d run_report" nat
  | Died c_error

type_synonym 'd bench_state = "'d child list \<times> sys"

fun child_move ::
  "'d fpu \<Rightarrow> (nat \<Rightarrow> 'd proc_env) \<Rightarrow> 'd user_confs \<Rightarrow> duplicates_info \<Rightarrow> 'd generator \<Rightarrow> access_state \<Rightarrow>
   nat \<Rightarrow> sys \<Rightarrow> 'd child \<Rightarrow> 'd child \<times> sys" where
  "child_move F E conf info g acc i sh Waiting =
     (case launch_args conf i of (idproc, nproc, rate, ty) \<Rightarrow>
        (case process_start F (E i) conf idproc nproc rate ty g acc sh of
           Inl e \<Rightarrow> (Died e, sh) | Inr (ro, p, sh') \<Rightarrow> (Running ro p 0, sh')))"
| "child_move F E conf info g acc i sh (Running ro p k) =
     (if proc_running ro p
      then (case proc_step F conf info ro (pe_ticks (E i) k) (p, sh) of
              Inl e \<Rightarrow> (Died e, sh) | Inr (p', sh') \<Rightarrow> (Running ro p' (Suc k), sh'))
      else (case process_report F (pe_fopen (E i)) conf ro p of
              Inl e \<Rightarrow> (Died e, sh) | Inr r \<Rightarrow> (Ended r k, sh)))"
| "child_move F E conf info g acc i sh (Ended r k) = (Ended r k, sh)"
| "child_move F E conf info g acc i sh (Died e) = (Died e, sh)"

definition bench_move ::
  "'d fpu \<Rightarrow> (nat \<Rightarrow> 'd proc_env) \<Rightarrow> 'd user_confs \<Rightarrow> duplicates_info \<Rightarrow> 'd generator \<Rightarrow> access_state \<Rightarrow>
   nat \<Rightarrow> 'd bench_state \<Rightarrow> 'd bench_state" where
  "bench_move F E conf info g acc i = (\<lambda>(cs, sh).
     if i < length cs
     then (case child_move F E conf info g acc i sh (cs ! i) of (c, sh') \<Rightarrow> (cs[i := c], sh'))
     else (cs, sh))"

definition run_children ::
  "'d fpu \<Rightarrow> (nat \<Rightarrow> 'd proc_env) \<Rightarrow> 'd user_confs \<Rightarrow> duplicates_info \<Rightarrow> 'd generator \<Rightarrow> access_state \<Rightarrow>
   nat list \<Rightarrow> sys \<Rightarrow> 'd bench_state" where
  "run_children F E conf info g acc schedule sh =
     fold (bench_move F E conf info g acc) schedule (replicate (nat (nprocs conf)) Waiting, sh)"

definition child_gone :: "'d child \<Rightarrow> bool" where
  "child_gone c \<longleftrightarrow> (case c of Ended r k \<Rightarrow> True | Died e \<Rightarrow> True | Waiting \<Rightarrow> False | Running ro p k \<Rightarrow> False)"

section \<open>The launch\<close>

record 'd launch_env =
  le_fork :: "nat \<Rightarrow> bool"
  le_child :: "nat \<Rightarrow> 'd proc_env"
  le_open :: "string \<Rightarrow> bool"
  le_sys :: "string \<Rightarrow> fs \<Rightarrow> fs"
  le_contents :: "int \<Rightarrow> u64 \<Rightarrow> u32 \<times> u32"
  le_rfail :: "int \<Rightarrow> u64 \<Rightarrow> bool"
  le_bufs :: "int \<Rightarrow> u8 list"
  le_results :: bool

record 'd launch_result =
  lr_children :: "'d child list"
  lr_sys :: sys
  lr_check :: "(int \<times> check_msg list) option"

definition nr_writers :: "'d user_confs \<Rightarrow> int" where
  "nr_writers conf = (if mixedIO conf then c_half (nprocs conf) else nprocs conf)"

text \<open>
  The check after the run, and the removal of the files.  A failing \<open>fork\<close> ends the program with
  \<open>abort\<close>, as a failing assertion does.  The result is \<^const>\<open>None\<close> while a child is still at work.
\<close>

definition launch_check ::
  "'d fpu \<Rightarrow> 'd launch_env \<Rightarrow> 'd user_confs \<Rightarrow> duplicates_info \<Rightarrow> 'd generator \<Rightarrow> sys \<Rightarrow>
   ((int \<times> check_msg list) option \<times> fs) res" where
  "launch_check F L conf info g sh =
     (if integrity conf = 1 \<or> integrity conf = 3
      then bindR (static_check F (le_open L) (le_contents L) (le_rfail L) (le_bufs L) conf info (sh_mem sh)
             (le_results L) g (sh_fs sh)) (\<lambda>(errs, g, fs, ms). Inr (Some (errs, ms), fs))
      else Inr (None, sh_fs sh))"

definition destroy_files :: "'d launch_env \<Rightarrow> 'd user_confs \<Rightarrow> fs \<Rightarrow> fs res" where
  "destroy_files L conf fs =
     (if destroypfile conf = 1 \<and> \<not> rawdevice conf
      then foldR (\<lambda>i. destroy_pfile (le_sys L) (int i) conf) [0 ..< nat (nr_writers conf)] fs
      else Inr fs)"

definition launch_benchmark ::
  "'d fpu \<Rightarrow> 'd launch_env \<Rightarrow> 'd user_confs \<Rightarrow> duplicates_info \<Rightarrow> 'd generator \<Rightarrow> access_state \<Rightarrow> nat list \<Rightarrow> sys \<Rightarrow>
   'd launch_result res option" where
  "launch_benchmark F L conf info g acc schedule sh =
     (let acc = acc\<lparr>rng := init_rand (seed conf) (rng acc)\<rparr>;
          conf = conf\<lparr>nr_proc_w := word_of_int (nr_writers conf)\<rparr>;
          (cs, sh) = run_children F (le_child L) conf info g acc schedule sh
      in if \<exists>i < nat (nprocs conf). \<not> le_fork L i then Some (Inl AssertFailed)
         else if \<not> list_all child_gone cs then None
         else Some (bindR (launch_check F L conf info g sh) (\<lambda>(chk, fs).
                bindR (destroy_files L conf fs) (\<lambda>fs.
                  Inr \<lparr>lr_children = cs, lr_sys = sh\<lparr>sh_fs := fs\<rparr>, lr_check = chk\<rparr>))))"

section \<open>The end of main\<close>

text \<open>
  The inputs of the rest of \<open>main\<close>: those of the generator, the mapping, the population, the
  launch and the database the distribution is written to.
\<close>

record ('d, 's) main_env =
  me_sqrt :: "'d \<Rightarrow> 'd"
  me_bytes :: "'d \<Rightarrow> u8 list"
  me_stof :: "string \<Rightarrow> 'd option"
  me_files :: "string \<Rightarrow> string option"
  me_gen_draws :: "nat \<Rightarrow> cint"
  me_seeds :: "nat \<Rightarrow> 'd"
  me_mmap :: mmap_env
  me_pop_draws :: "int \<Rightarrow> u64 \<Rightarrow> block_draw"
  me_pop_results :: "int \<Rightarrow> u64 \<Rightarrow> int"
  me_launch :: "'d launch_env"
  me_db :: "(u64, 's) bdb"
  me_codes :: db_codes
  me_empty :: 's
  me_disk :: "string \<Rightarrow> 's option"
  me_header :: bool
  me_fopen :: "string \<Rightarrow> bool"

text \<open>The description of the distribution at the start: no regions of the mapping yet.\<close>

definition initial_info :: duplicates_info where
  "initial_info = \<lparr>total_blocks = 0, zero_copy_blocks = 0, duplicated_blocks = 0, statistics = None,
     zerodups = None, u_count = 0, content_tracker = None\<rparr>"

text \<open>The generator: its constructor takes \<open>unsigned int\<close>s, \<open>initialize\<close> reads the distribution file.\<close>

definition get_generator :: "'d fpu \<Rightarrow> 'd user_confs \<Rightarrow> 'd generator" where
  "get_generator F conf = new_generator F (ucast (block_size conf)) (ucast (totblocks conf))
     (ucast (percentage_analyze conf)) (ucast (compression_to_achieve conf))"

definition start_generator ::
  "'d fpu \<Rightarrow> ('d, 's) main_env \<Rightarrow> 'd user_confs \<Rightarrow> duplicates_info \<Rightarrow> (int \<times> 'd generator \<times> duplicates_info) res" where
  "start_generator F M conf info =
     generator_initialize F (me_sqrt M) (me_bytes M) (me_stof M) (me_files M (distfile conf)) (me_gen_draws M) (me_seeds M)
       (get_generator F conf) info"

definition needs_population :: "'d user_confs \<Rightarrow> bool" where
  "needs_population conf \<longleftrightarrow> iotype conf = READ \<and> populate_opt conf < 0
     \<or> mixedIO conf \<and> populate_opt conf < 0 \<or> populate_opt conf > 0"

definition map_memory :: "mmap_env \<Rightarrow> 'd user_confs \<Rightarrow> duplicates_info \<Rightarrow> shared \<Rightarrow> (duplicates_info \<times> shared) res" where
  "map_memory M conf info mem =
     (if distout conf \<or> integrity conf \<ge> 1
      then bindR (loadmmap M conf info) (\<lambda>(sz, info, mem). Inr (info, mem)) else Inr (info, mem))"

definition populate_files ::
  "'d fpu \<Rightarrow> ('d, 's) main_env \<Rightarrow> 'd user_confs \<Rightarrow> duplicates_info \<Rightarrow> 'd pop_state \<Rightarrow> (u64 \<times> 'd pop_state) res" where
  "populate_files F M conf info s =
     (if needs_population conf
      then populate F (le_sys (me_launch M)) (le_open (me_launch M)) (me_pop_draws M) (me_pop_results M) conf info s
      else Inr (0, s))"

text \<open>
  The distribution of what was written.  The database is removed before the run; opening it finds what
  the disk holds or creates an empty one.  The names are built in arrays of 256 and 128 characters,
  the second file may be NULL until it is written to.
\<close>

definition DISTDB :: string where "DISTDB = ''benchdbs/distdb/''"

definition open_store :: "'s \<Rightarrow> string \<Rightarrow> (string \<Rightarrow> 's option) \<Rightarrow> 's" where
  "open_store new nome disk = (case disk (nome @ ''dht.db'') of None \<Rightarrow> new | Some s \<Rightarrow> s)"

definition write_distribution ::
  "('d, 's) main_env \<Rightarrow> 'd user_confs \<Rightarrow> duplicates_info \<Rightarrow> shared \<Rightarrow> (string \<Rightarrow> 's option) \<Rightarrow>
   ((u64 \<times> u64) list \<times> cumul_line list \<times> string list) res" where
  "write_distribution M conf info mem disk =
     (let (r, dbp, envp) = init_db (me_codes M);
          dir = ''results/distribution/'';
          cumul = outputfile conf @ ''cumul'';
          plot = cumul @ ''plot''
      in if dbp = PNull then Inl NullPointer
         else bindR (gen_outputdist (me_db M) (me_header M) info mem
                \<lparr>store = open_store (me_empty M) DISTDB disk, is_open = (dbp = PLive)\<rparr>) (\<lambda>o1.
              bindR (sprintf_into 128 plot) (\<lambda>_.
                if \<not> me_fopen M (dir @ outputfile conf) then Inl NullStream
                else bindR (print_elements_print (me_db M) (me_fopen M (dir @ cumul)) (dist_db o1)) (\<lambda>(ls, cs).
                  if me_fopen M (dir @ cumul) \<and> me_fopen M (dir @ plot)
                  then Inr (ls, cs, write_plot_file_distribution cumul (distfile conf))
                  else Inl NullStream))))"

text \<open>
  What \<open>main\<close> leaves behind.  With \<open>distout\<close> it closes and removes the database and the mapping;
  otherwise the mapping of a run with integrity checks stays.
\<close>

record ('d, 's) bench_result =
  br_launch :: "'d launch_result"
  br_dist :: "((u64 \<times> u64) list \<times> cumul_line list \<times> string list) option"
  br_handles :: "(handle_ptr \<times> handle_ptr) option"
  br_disk :: "string \<Rightarrow> 's option"
  br_mem :: "shared option"

definition finish_bench ::
  "('d, 's) main_env \<Rightarrow> 'd user_confs \<Rightarrow> duplicates_info \<Rightarrow> (string \<Rightarrow> 's option) \<Rightarrow> 'd launch_result \<Rightarrow>
   ('d, 's) bench_result res" where
  "finish_bench M conf info disk r =
     (let mem = sh_mem (lr_sys r)
      in if distout conf
         then bindR (write_distribution M conf info mem disk) (\<lambda>d.
                Inr \<lparr>br_launch = r, br_dist = Some d,
                  br_handles = Some (snd (close_db (me_codes M) (snd (init_db (me_codes M))))),
                  br_disk = snd (remove_db DISTDB disk), br_mem = snd (closemmap (Some mem))\<rparr>)
         else Inr \<lparr>br_launch = r, br_dist = None, br_handles = None, br_disk = disk, br_mem = Some mem\<rparr>)"

definition prepare_bench ::
  "'d fpu \<Rightarrow> ('d, 's) main_env \<Rightarrow> 'd user_confs \<Rightarrow> duplicates_info \<Rightarrow> shared \<Rightarrow> access_state \<Rightarrow> fs \<Rightarrow>
   (duplicates_info \<times> 'd pop_state) res" where
  "prepare_bench F M conf info mem acc fs =
     bindR (init_duplicates (start_generator F M conf) conf info mem) (\<lambda>(g, info, mem).
     bindR (map_memory (me_mmap M) conf info mem) (\<lambda>(info, mem).
     bindR (populate_files F M conf info \<lparr>p_gen = g, p_mem = mem, p_fs = fs, p_rng = rng acc\<rparr>) (\<lambda>(t, s).
       Inr (info, s))))"

definition bench_main ::
  "'d fpu \<Rightarrow> ('d, 's) main_env \<Rightarrow> 'd user_confs \<Rightarrow> duplicates_info \<Rightarrow> shared \<Rightarrow> access_state \<Rightarrow> nat list \<Rightarrow> fs \<Rightarrow>
   ('d, 's) bench_result res option" where
  "bench_main F M conf info mem acc schedule fs =
     (case prepare_bench F M conf info mem acc fs of
        Inl e \<Rightarrow> Some (Inl e)
      | Inr (info, s) \<Rightarrow>
          (let disk = snd (remove_db DISTDB (me_disk M))
           in map_option (\<lambda>r. bindR r (finish_bench M conf info disk))
                (launch_benchmark F (me_launch M) conf info (p_gen s) (acc\<lparr>rng := p_rng s\<rparr>) schedule
                   \<lparr>sh_mem = p_mem s, sh_fs = p_fs s\<rparr>)))"

end
