(* ===== verification/Launch_facts.thy ===== *)
theory Launch_facts
  imports Launch
begin

text \<open>
  Whatever the schedule, the children of a launch that is set up properly do not get in each other's
  way: every file agrees with its content tracker after every move, no child fails, each returns after the number of
  rounds its bound gives, and the check after the run finds no errors.
\<close>

section \<open>What a child works on\<close>

definition owner :: "'d user_confs \<Rightarrow> nat \<Rightarrow> nat" where
  "owner conf i = (if mixedIO conf \<and> \<not> int i < c_half (nprocs conf) then i - nat (c_half (nprocs conf)) else i)"

definition child_type :: "'d user_confs \<Rightarrow> nat \<Rightarrow> io_type" where
  "child_type conf i = snd (snd (snd (launch_args conf i)))"

definition child_share :: "'d user_confs \<Rightarrow> nat" where
  "child_share conf = unat (number_ops conf) div nat (nr_writers conf)"

lemma nr_writers_work: "nr_writers conf = work_procs conf"
  by (simp add: nr_writers_def work_procs_def)

lemma launch_args_eq:
  assumes "0 < nr_writers conf"
  shows "\<exists>rate. launch_args conf i = (int (owner conf i), nr_writers conf, rate, child_type conf i)"
proof -
  have "mixedIO conf \<Longrightarrow> 0 < c_half (nprocs conf)" using assms by (simp add: nr_writers_def)
  then show ?thesis by (auto simp: launch_args_def owner_def nr_writers_def child_type_def Let_def)
qed

lemma owner_bound:
  assumes "mixedIO conf \<longrightarrow> even (nprocs conf)" and "0 < nr_writers conf" and "i < nat (nprocs conf)"
  shows "owner conf i < nat (work_procs conf)"
proof (cases "mixedIO conf")
  case True
  then have pos: "0 < c_half (nprocs conf)" using assms(2) by (simp add: nr_writers_def)
  from assms(3) have "0 < nprocs conf" by simp
  then have h: "c_half (nprocs conf) = nprocs conf div 2" by simp
  then have "nprocs conf = 2 * c_half (nprocs conf)" using True assms(1) by auto
  then have "int i < 2 * c_half (nprocs conf)" using assms(3) by linarith
  with True pos show ?thesis
    by (cases "int i < c_half (nprocs conf)") (simp_all add: owner_def work_procs_def nat_less_iff)
next
  case False
  with assms(3) show ?thesis by (simp add: owner_def work_procs_def)
qed

lemma tot_le_count:
  assumes "totblocks conf = filesize conf div block_size conf" and "block_size conf \<noteq> 0"
  shows "unat (totblocks conf) \<le> block_count (block_size conf) (filesize conf)"
proof -
  have bs: "0 < unat (block_size conf)" using assms(2) by (simp add: unat_gt_0)
  have "unat (totblocks conf) = unat (filesize conf) div unat (block_size conf)" by (simp add: assms(1) unat_div)
  also have "\<dots> \<le> (unat (filesize conf) + unat (block_size conf) - 1) div unat (block_size conf)"
    using bs by (intro div_le_mono) linarith
  finally show ?thesis by (simp add: block_count_def)
qed

section \<open>A launch that is set up properly\<close>

text \<open>
  The number of rounds \<open>m\<close> of a child: its share of the operations, or the rounds its clock shows before the end
  of the time.
\<close>

definition round_bound :: "'d user_confs \<Rightarrow> 'd proc_env \<Rightarrow> nat \<Rightarrow> bool" where
  "round_bound conf E m \<longleftrightarrow> m < 2 ^ 64
     \<and> (sized_run conf \<and> m = child_share conf \<or> timed_run conf \<and> time_is_up conf E m)"

text \<open>What the loop test sees under the bounds \<open>bd\<close>: it lets through exactly \<open>m\<close> rounds.\<close>

definition bounded_by :: "'d user_confs \<Rightarrow> 'd proc_env \<Rightarrow> loop_bounds \<Rightarrow> u64 \<Rightarrow> nat \<Rightarrow> bool" where
  "bounded_by conf E bd ru m \<longleftrightarrow> bounds_of conf (tv_sec (pe_start E)) (nr_writers conf) = Inr bd \<and> lb_ru_begin bd = Some ru
     \<and> (\<forall>j \<le> m. ru \<le> round_time conf (lb_begin_time bd) (pe_ticks E) j)
     \<and> (\<forall>j \<le> m. \<forall>c \<le> j. (testtype conf = PEAK \<longrightarrow> c = j) \<longrightarrow>
          (round_time conf (lb_begin_time bd) (pe_ticks E) j < lb_end_time bd
           \<and> lb_begin_size bd + (if flag_termination_size conf then word_of_nat c else 0) < lb_end_size bd) = (j < m))"

lemma nr_writers_small: "nprocs conf < 2 ^ 31 \<Longrightarrow> nr_writers conf < 2 ^ 31"
  by (auto simp: nr_writers_def c_half_def)

lemma round_bounded:
  assumes r: "round_bound conf E m" and np: "0 < nr_writers conf" "nprocs conf < 2 ^ 31"
  shows "\<exists>bd ru. bounded_by conf E bd ru m"
proof -
  from r have small: "m < 2 ^ 64" by (simp add: round_bound_def)
  note w = share_of_operations [OF np(1) nr_writers_small [OF np(2)]]
  from r consider (sized) "sized_run conf" "m = child_share conf" | (timed) "timed_run conf" "time_is_up conf E m"
    by (auto simp: round_bound_def)
  then show ?thesis
  proof cases
    case sized
    have e: "unat (number_ops conf div word_of_int (nr_writers conf)) = m"
      by (simp add: w(2) sized(2) child_share_def)
    have "(word_of_nat j < number_ops conf div word_of_int (nr_writers conf)) = (j < m)" if "j \<le> m" for j
      using that small by (simp add: word_less_nat_alt e unat_of_nat_small)
    then have "bounded_by conf E \<lparr>lb_begin_time = -2, lb_end_time = -1, lb_begin_size = 0,
        lb_end_size = number_ops conf div word_of_int (nr_writers conf), lb_ru_begin = Some 0\<rparr> 0 m"
      using sized(1) sized_bounds [OF sized(1) w(1)]
      by (auto simp: bounded_by_def sized_run_def round_time_def next_time_def minus2_less)
    then show ?thesis by blast
  next
    case timed
    let ?b = "word_of_int (tv_sec (pe_start E)) :: u64" and ?e = "end_time conf (tv_sec (pe_start E))"
    from timed(2) have t: "\<And>j. j < m \<Longrightarrow> round_time conf ?b (pe_ticks E) j < ?e" "\<not> round_time conf ?b (pe_ticks E) m < ?e"
      "\<And>j. j \<le> m \<Longrightarrow> ?b \<le> round_time conf ?b (pe_ticks E) j" by (auto simp: time_is_up_def Let_def not_less)
    have "(round_time conf ?b (pe_ticks E) j < ?e) = (j < m)" if "j \<le> m" for j
      using t(1,2) that by (cases "j = m") auto
    then have "bounded_by conf E \<lparr>lb_begin_time = ?b, lb_end_time = ?e, lb_begin_size = -2, lb_end_size = -1,
        lb_ru_begin = Some ?b\<rparr> ?b m"
      using timed(1) timed_bounds [OF timed(1)] t(3)
      by (auto simp: bounded_by_def timed_run_def minus2_less)
    then show ?thesis by blast
  qed
qed

definition child_env_ok :: "'d proc_env \<Rightarrow> 'd user_confs \<Rightarrow> 'd generator \<Rightarrow> int \<Rightarrow> nat \<Rightarrow> nat \<Rightarrow> bool" where
  "child_env_ok E conf g t0 i m \<longleftrightarrow>
     (\<forall>name. pfile_name conf (int (owner conf i)) = Inr name \<longrightarrow> pe_open E name)
     \<and> (\<exists>lg ms. open_logs (pe_fopen E) conf (child_type conf i)
            (proc_number conf (child_type conf i) (int (owner conf i))) = Inr (lg, ms) \<and> (logfeature conf = 1 \<longrightarrow> lg))
     \<and> length (pe_buf E) = unat (block_size conf) \<and> tv_ok (pe_base E)
     \<and> round_bound conf E m \<and> ticks_ok conf t0 g (pe_base E) (pe_ticks E) m"

definition launch_ready ::
  "(nat \<Rightarrow> 'd proc_env) \<Rightarrow> (nat \<Rightarrow> nat) \<Rightarrow> 'd user_confs \<Rightarrow> 'd generator \<Rightarrow> access_state \<Rightarrow> int \<Rightarrow> bool" where
  "launch_ready E m conf g acc t0 \<longleftrightarrow> plain_run conf \<and> 1 \<le> integrity conf \<and> 0 < nr_writers conf
     \<and> nprocs conf < 2 ^ 31 \<and> (mixedIO conf \<longrightarrow> even (nprocs conf)) \<and> gen_ready conf g
     \<and> length (sfmt (rng acc)) = SFMT_N \<and> totblocks conf \<noteq> 0 \<and> unat (totblocks conf) \<le> rand_limit
     \<and> (accesstype conf \<noteq> SEQUENTIAL \<longrightarrow> 1 < totblocks conf) \<and> (accesstype conf = TPCC \<longrightarrow> 10 \<le> totblocks conf)
     \<and> (\<forall>i < nat (nprocs conf). child_env_ok (E i) conf g t0 i (m i))"

text \<open>
  The report of a child after \<open>m\<close> rounds: an operation in each of them in a peak test, in those the rate allows in
  a nominal test.
\<close>

definition report_ok :: "'d user_confs \<Rightarrow> nat \<Rightarrow> 'd run_report \<Rightarrow> nat \<Rightarrow> bool" where
  "report_ok conf i r m \<longleftrightarrow> unat (tot_ops (rr_stat r)) \<le> m \<and> (testtype conf = PEAK \<longrightarrow> unat (tot_ops (rr_stat r)) = m)
     \<and> rr_check r = (if integrity conf \<ge> 2 \<and> child_type conf i = READ then Some (0, [Header, NoIssues]) else None)"

text \<open>The counters of a process before round \<open>k\<close>, of which \<open>c\<close> have made an operation.\<close>

definition counted :: "'d user_confs \<Rightarrow> loop_bounds \<Rightarrow> 'd proc \<Rightarrow> nat \<Rightarrow> nat \<Rightarrow> bool" where
  "counted conf bd p k c \<longleftrightarrow> c \<le> k \<and> (testtype conf = PEAK \<longrightarrow> c = k) \<and> tot_ops (pr_stat p) = word_of_nat c
     \<and> pr_begin_size p = lb_begin_size bd + (if flag_termination_size conf then word_of_nat c else 0)"

definition child_ok ::
  "'d fpu \<Rightarrow> (nat \<Rightarrow> 'd proc_env) \<Rightarrow> (nat \<Rightarrow> nat) \<Rightarrow> 'd user_confs \<Rightarrow> duplicates_info \<Rightarrow> nat list \<Rightarrow> 'd generator \<Rightarrow> int \<Rightarrow> nat \<Rightarrow>
   'd child \<Rightarrow> bool" where
  "child_ok F E m conf info ts g t0 i c \<longleftrightarrow> (case c of
     Waiting \<Rightarrow> True
   | Running ro p k \<Rightarrow>
       steady conf info ro (owner conf i) (totblocks conf) (ts ! owner conf i)
         (block_count (block_size conf) (filesize conf))
       \<and> ro_iotype ro = child_type conf i \<and> pfile_name conf (int (owner conf i)) = Inr (ro_name ro)
       \<and> proc_ok F conf ro (totblocks conf) t0 p \<and> same_gen g (pr_gen p) \<and> k \<le> m i
       \<and> (\<exists>bd ru. bounded_by conf (E i) bd ru (m i) \<and> ro_end_time ro = lb_end_time bd \<and> ro_end_size ro = lb_end_size bd
            \<and> ro_ru_begin ro = Some ru \<and> pr_begin_time p = round_time conf (lb_begin_time bd) (pe_ticks (E i)) k
            \<and> (\<exists>c. counted conf bd p k c))
       \<and> ticks_ok conf t0 (pr_gen p) (pr_base p) (\<lambda>j. pe_ticks (E i) (k + j)) (m i - k)
       \<and> pr_errs p = 0 \<and> (\<exists>lg. open_logs (pe_fopen (E i)) conf (child_type conf i)
            (proc_number conf (child_type conf i) (int (owner conf i))) = Inr (lg, pr_msgs p))
   | Ended r k \<Rightarrow> k = m i \<and> report_ok conf i r k
   | Died e \<Rightarrow> False)"

text \<open>The test of the loop, on the counters.\<close>

lemma running_counted:
  assumes b: "bounded_by conf (E :: 'd proc_env) bd ru m" and e: "ro_end_time ro = lb_end_time bd" "ro_end_size ro = lb_end_size bd"
    and t: "pr_begin_time p = round_time conf (lb_begin_time bd) (pe_ticks E) k" and c: "counted conf bd p k c" "k \<le> m"
  shows "proc_running ro p = (k < m)"
proof -
  from c have "c \<le> k" "testtype conf = PEAK \<longrightarrow> c = k"
    "pr_begin_size p = lb_begin_size bd + (if flag_termination_size conf then word_of_nat c else 0)"
    by (auto simp: counted_def)
  then show ?thesis using b c(2) by (simp add: proc_running_def bounded_by_def e t)
qed

lemma child_running:
  assumes "child_ok F E m conf info ts g t0 i (Running ro p k)"
  shows "proc_running ro p = (k < m i)"
proof -
  from assms obtain bd ru c where b: "bounded_by conf (E i) bd ru (m i)" "ro_end_time ro = lb_end_time bd"
    "ro_end_size ro = lb_end_size bd" "pr_begin_time p = round_time conf (lb_begin_time bd) (pe_ticks (E i)) k"
    "counted conf bd p k c" "k \<le> m i" by (auto simp: child_ok_def)
  then show ?thesis by (rule running_counted)
qed

definition stores_ok ::
  "(string \<Rightarrow> bool) \<Rightarrow> 'd user_confs \<Rightarrow> duplicates_info \<Rightarrow> nat list \<Rightarrow> 'd generator \<Rightarrow> sys \<Rightarrow> bool" where
  "stores_ok ok conf info ts g sh \<longleftrightarrow> run_ready ok conf info ts (length (content_map (sh_mem sh)))
     \<and> files_ok conf ts (nat (work_procs conf)) g (sh_fs sh) (sh_mem sh)"

section \<open>One child moves\<close>

text \<open>The file and the tracker of one owner, as the lemmas on a single process see them.\<close>

lemma stores_ok_store:
  assumes "stores_ok ok conf info ts g sh" and "j < nat (work_procs conf)" and "pfile_name conf (int j) = Inr (ro_name ro)"
    and "same_gen g g'"
  shows "store_ok conf ro (ts ! j) (block_count (block_size conf) (filesize conf)) g' sh"
  using assms by (auto simp: stores_ok_def store_ok_def run_ready_def files_ok_def file_ok_same)

text \<open>A move of one owner keeps all files and trackers in agreement.\<close>

lemma stores_ok_move:
  assumes s: "stores_ok ok conf info ts g sh" and j: "j < nat (work_procs conf)"
    and nm: "pfile_name conf (int j) = Inr (ro_name ro)" and i: "1 \<le> integrity conf"
    and own: "store_ok conf ro (ts ! j) (block_count (block_size conf) (filesize conf)) g' sh'" and sg: "same_gen g g'"
    and sh: "shares (ro_name ro) (ts ! j) (block_count (block_size conf) (filesize conf)) sh sh'"
  shows "stores_ok ok conf info ts g sh'"
  unfolding stores_ok_def
proof
  let ?n = "block_count (block_size conf) (filesize conf)"
  from s have rr: "run_ready ok conf info ts (length (content_map (sh_mem sh)))"
    and fo: "files_ok conf ts (nat (work_procs conf)) g (sh_fs sh) (sh_mem sh)" by (auto simp: stores_ok_def)
  then show "run_ready ok conf info ts (length (content_map (sh_mem sh')))" using sh by (simp add: shares_def)
  show "files_ok conf ts (nat (work_procs conf)) g (sh_fs sh') (sh_mem sh')"
    unfolding files_ok_def
  proof (intro allI impI)
    fix l name assume l: "l < nat (work_procs conf)" and name: "pfile_name conf (int l) = Inr name"
    show "file_ok g (unat (block_size conf)) ?n (file_of (sh_fs sh') name) (\<lambda>k. content_map (sh_mem sh') ! (ts ! l + k))"
    proof (cases "l = j")
      case True
      with own i nm name show ?thesis by (simp add: store_ok_def file_ok_same [OF sg])
    next
      case False
      then have "name \<noteq> ro_name ro" using pfile_name_inj [of conf "int l" name "int j"] nm name by auto
      then have f: "file_of (sh_fs sh') name = file_of (sh_fs sh) name" using sh by (simp add: shares_def file_of_def)
      have "ts ! l + ?n \<le> ts ! j \<or> ts ! j + ?n \<le> ts ! l"
        using rr l j False unfolding run_ready_def by (metis nat_neq_iff)
      then have "content_map (sh_mem sh') ! (ts ! l + k) = content_map (sh_mem sh) ! (ts ! l + k)" if "k < ?n" for k
        using that sh by (auto simp: shares_def)
      moreover have "file_ok g (unat (block_size conf)) ?n (file_of (sh_fs sh) name) (\<lambda>k. content_map (sh_mem sh) ! (ts ! l + k))"
        using fo l name by (simp add: files_ok_def)
      ultimately show ?thesis unfolding f by (simp cong: file_ok_cong)
    qed
  qed
qed

lemma stores_have_files:
  assumes s: "stores_ok ok conf info ts g sh" and c: "plain_run conf" "totblocks conf \<noteq> 0"
    and j: "j < nat (work_procs conf)" "pfile_name conf (int j) = Inr name"
  shows "sh_fs sh name \<noteq> None"
proof -
  have bs: "block_size conf \<noteq> 0" and t: "totblocks conf = filesize conf div block_size conf"
    using c(1) by (auto simp: plain_run_def)
  have "0 < block_count (block_size conf) (filesize conf)"
    using tot_le_count [OF t bs] c(2) by (simp add: word_neq_0_conv_unat)
  then show ?thesis using s j bs by (intro file_ok_exists) (auto simp: stores_ok_def unat_gt_0)
qed

lemma child_starts:
  assumes F: "clock_fpu F" and l: "launch_ready E m conf g acc t0" and s: "stores_ok ok conf info ts g sh"
    and i: "i < nat (nprocs conf)"
  shows "\<exists>ro p. child_move F E conf info g acc i sh Waiting = (Running ro p 0, sh)
    \<and> child_ok F E m conf info ts g t0 i (Running ro p 0)"
proof -
  let ?j = "owner conf i" and ?ty = "child_type conf i" and ?n = "block_count (block_size conf) (filesize conf)"
  from l have c: "plain_run conf" "1 \<le> integrity conf" "0 < nr_writers conf" "nprocs conf < 2 ^ 31"
    "mixedIO conf \<longrightarrow> even (nprocs conf)" "gen_ready conf g" "length (sfmt (rng acc)) = SFMT_N" "totblocks conf \<noteq> 0"
    "unat (totblocks conf) \<le> rand_limit" "accesstype conf \<noteq> SEQUENTIAL \<longrightarrow> 1 < totblocks conf"
    "accesstype conf = TPCC \<longrightarrow> 10 \<le> totblocks conf" and e: "child_env_ok (E i) conf g t0 i (m i)"
    using i by (auto simp: launch_ready_def)
  have j: "?j < nat (work_procs conf)" by (rule owner_bound [OF c(5,3) i])
  from s j obtain name where name: "pfile_name conf (int ?j) = Inr name" and raw: "\<not> rawdevice conf"
    and tr: "content_tracker info = Some ts" "?j < length ts" by (auto simp: stores_ok_def run_ready_def)
  from e obtain lg ms where o: "pe_open (E i) name"
    "open_logs (pe_fopen (E i)) conf ?ty (proc_number conf ?ty (int ?j)) = Inr (lg, ms)" "logfeature conf = 1 \<longrightarrow> lg"
    "length (pe_buf (E i)) = unat (block_size conf)" "tv_ok (pe_base (E i))"
    "ticks_ok conf t0 g (pe_base (E i)) (pe_ticks (E i)) (m i)" "round_bound conf (E i) (m i)"
    using name by (auto simp: child_env_ok_def)
  have "open_target (pe_open (E i)) conf (int ?j) (sh_fs sh) = Inr (name, sh_fs sh)"
    using stores_have_files [OF s c(1,8) j name] name o(1) raw by (auto simp: open_target_def create_pfile_def)
  then have op: "opened (E i) conf ?ty ?j (sh_fs sh) name (sh_fs sh) lg ms" using o by (simp add: opened_def)
  have t: "totblocks conf = filesize conf div block_size conf" "block_size conf \<noteq> 0"
    using c(1) by (auto simp: plain_run_def)
  have br: "blocks_ready conf info ?j (totblocks conf) (ts ! ?j) ?n"
    using c raw tr tot_le_count [OF t] by (simp add: blocks_ready_def proc_blocks_def track_base_def aget_def)
  from round_bounded [OF o(7) c(3,4)] obtain bd ru where bd: "bounded_by conf (E i) bd ru (m i)" by blast
  then have b: "bounds_of conf (tv_sec (pe_start (E i))) (nr_writers conf) = Inr bd" "lb_ru_begin bd = Some ru"
    "ru \<le> round_time conf (lb_begin_time bd) (pe_ticks (E i)) 0" by (auto simp: bounded_by_def)
  then have ru: "ru \<le> lb_begin_time bd" by (simp add: round_time_def)
  from launch_args_eq [OF c(3)] obtain rate where args: "launch_args conf i = (int ?j, nr_writers conf, rate, ?ty)" by blast
  from process_start_ok [OF F c(1) br op c(6,7) b(1,2) ru, of rate t0] obtain ro p where
    s0: "process_start F (E i) conf (int ?j) (nr_writers conf) rate ?ty g acc sh = Inr (ro, p, sh\<lparr>sh_fs := sh_fs sh\<rparr>)"
    "steady conf info ro ?j (totblocks conf) (ts ! ?j) ?n" "proc_ok F conf ro (totblocks conf) t0 p" "ro_iotype ro = ?ty"
    "ro_name ro = name" "ro_end_size ro = lb_end_size bd" "ro_end_time ro = lb_end_time bd" "ro_ru_begin ro = Some ru"
    "pr_begin_time p = lb_begin_time bd" "pr_begin_size p = lb_begin_size bd" "pr_gen p = g" "pr_base p = pe_base (E i)"
    "pr_stat p = initial_stats F" "pr_errs p = 0" "pr_msgs p = ms" by blast
  have "counted conf bd p 0 0" using s0(10,13) by (simp add: counted_def initial_stats_def)
  moreover have "pr_begin_time p = round_time conf (lb_begin_time bd) (pe_ticks (E i)) 0" using s0(9) by (simp add: round_time_def)
  ultimately have "child_ok F E m conf info ts g t0 i (Running ro p 0)"
    using s0(2-8,11,12,14,15) o(2,6) name bd by (auto simp: child_ok_def)
  with s0(1) args show ?thesis by simp
qed

lemma child_runs:
  assumes F: "clock_fpu F" and l: "launch_ready E m conf g acc t0" and s: "stores_ok ok conf info ts g sh"
    and i: "i < nat (nprocs conf)" and c: "child_ok F E m conf info ts g t0 i (Running ro p k)" and km: "k < m i"
  shows "\<exists>p' sh'. child_move F E conf info g acc i sh (Running ro p k) = (Running ro p' (Suc k), sh')
    \<and> child_ok F E m conf info ts g t0 i (Running ro p' (Suc k)) \<and> stores_ok ok conf info ts g sh'"
proof -
  let ?j = "owner conf i" and ?n = "block_count (block_size conf) (filesize conf)" and ?tk = "pe_ticks (E i) k"
  from l have lc: "1 \<le> integrity conf" "0 < nr_writers conf" "mixedIO conf \<longrightarrow> even (nprocs conf)"
    by (auto simp: launch_ready_def)
  from c obtain bd ru q where st: "steady conf info ro ?j (totblocks conf) (ts ! ?j) ?n"
    and nm: "pfile_name conf (int ?j) = Inr (ro_name ro)"
    and p: "proc_ok F conf ro (totblocks conf) t0 p" and sg: "same_gen g (pr_gen p)"
    and b: "bounded_by conf (E i) bd ru (m i)" "ro_end_time ro = lb_end_time bd" "ro_end_size ro = lb_end_size bd"
      "ro_ru_begin ro = Some ru" "pr_begin_time p = round_time conf (lb_begin_time bd) (pe_ticks (E i)) k"
    and q: "counted conf bd p k q"
    and t: "ticks_ok conf t0 (pr_gen p) (pr_base p) (\<lambda>j. pe_ticks (E i) (k + j)) (m i - k)"
    by (auto simp: child_ok_def)
  have mk: "m i - k = Suc (m i - Suc k)" using km by simp
  have j: "?j < nat (work_procs conf)" by (rule owner_bound [OF lc(3,2) i])
  have own: "store_ok conf ro (ts ! ?j) ?n (pr_gen p) sh" by (rule stores_ok_store [OF s j nm sg])
  from t km have t0: "tick_ok conf t0 (pr_gen p) ?tk" "tv_us (pr_base p) \<le> tv_us (tk_lap ?tk)"
    "t0 + 30000000 * int (Suc SNAPS) < 2 ^ 53" by (auto simp: ticks_ok_def dest!: spec [of _ 0])
  have nt: "next_time conf ?tk (pr_begin_time p) = round_time conf (lb_begin_time bd) (pe_ticks (E i)) (Suc k)"
    unfolding b(5) by (simp add: round_time_def next_time_next)
  have "ru \<le> round_time conf (lb_begin_time bd) (pe_ticks (E i)) (Suc k)" using b(1) km by (simp add: bounded_by_def)
  then have "measured ro (p\<lparr>pr_begin_time := next_time conf ?tk (pr_begin_time p)\<rparr>) = Inr True"
    using b(4) by (simp add: measured_True nt)
  from proc_step_ok [OF F st p own t0 this] obtain d p' sh' where
    s1: "proc_step F conf info ro ?tk (p, sh) = Inr (p', sh')" "proc_ok F conf ro (totblocks conf) t0 p'"
    "d \<le> 1" "testtype conf = PEAK \<longrightarrow> d = 1"
    "store_ok conf ro (ts ! ?j) ?n (pr_gen p') sh'" "same_gen (pr_gen p) (pr_gen p')"
    "1 \<le> integrity conf \<longrightarrow> shares (ro_name ro) (ts ! ?j) ?n sh sh'"
    "pr_begin_size p' = pr_begin_size p + (if flag_termination_size conf then word_of_nat d else 0)"
    "pr_base p' = tk_lap ?tk" "pr_begin_time p' = next_time conf ?tk (pr_begin_time p)"
    "tot_ops (pr_stat p') = tot_ops (pr_stat p) + word_of_nat d" "pr_errs p' = pr_errs p" "pr_msgs p' = pr_msgs p"
    by blast
  have sg': "same_gen g (pr_gen p')" using sg s1(6) by (rule same_gen_trans)
  have "counted conf bd p' (Suc k) (q + d)" using q s1(3,4,8,11) by (auto simp: counted_def)
  moreover have "pr_begin_time p' = round_time conf (lb_begin_time bd) (pe_ticks (E i)) (Suc k)" using s1(10) nt by simp
  moreover have "ticks_ok conf t0 (pr_gen p') (pr_base p') (\<lambda>j. pe_ticks (E i) (Suc k + j)) (m i - Suc k)"
    unfolding s1(9) using t s1(6) unfolding mk by (rule ticks_ok_next)
  moreover have "pr_errs p' = 0" "\<exists>lg. open_logs (pe_fopen (E i)) conf (child_type conf i)
      (proc_number conf (child_type conf i) (int ?j)) = Inr (lg, pr_msgs p')" "ro_iotype ro = child_type conf i"
    using c s1(12,13) by (auto simp: child_ok_def)
  ultimately have "child_ok F E m conf info ts g t0 i (Running ro p' (Suc k))"
    using st nm s1(2) sg' b(1-4) km by (auto simp: child_ok_def)
  moreover have "stores_ok ok conf info ts g sh'"
    using stores_ok_move [OF s j nm lc(1) s1(5) sg'] s1(7) lc(1) by simp
  ultimately show ?thesis using child_running [OF c] km s1(1) by simp
qed

lemma child_ends:
  assumes l: "launch_ready E m conf g acc t0" and c: "child_ok F E m conf info ts g t0 i (Running ro p k)"
    and i: "i < nat (nprocs conf)" and km: "\<not> k < m i"
  shows "\<exists>r. child_move F E conf info g acc i sh (Running ro p k) = (Ended r k, sh) \<and> k = m i \<and> report_ok conf i r k"
proof -
  let ?j = "owner conf i"
  from l i have pl: "plain_run conf" and small: "m i < 2 ^ 64"
    by (auto simp: launch_ready_def child_env_ok_def round_bound_def)
  from c obtain lg bd q where st: "steady conf info ro ?j (totblocks conf) (ts ! ?j) (block_count (block_size conf) (filesize conf))"
    and p: "proc_ok F conf ro (totblocks conf) t0 p" and ty: "ro_iotype ro = child_type conf i"
    and q: "counted conf bd p k q" "k \<le> m i"
    and e: "pr_errs p = 0" "open_logs (pe_fopen (E i)) conf (child_type conf i)
            (proc_number conf (child_type conf i) (int ?j)) = Inr (lg, pr_msgs p)"
    by (auto simp: child_ok_def)
  from process_report_ok [OF st p pl, of "pe_fopen (E i)" lg "pr_msgs p" "pe_fopen (E i)"] e ty obtain r where
    r: "process_report F (pe_fopen (E i)) conf ro p = Inr r" "tot_ops (rr_stat r) = tot_ops (pr_stat p)"
    "rr_check r = (if integrity conf \<ge> 2 \<and> child_type conf i = READ then Some (0, [Header, NoIssues]) else None)" by auto
  have "q < 2 ^ 64" using q small by (simp add: counted_def)
  then have "unat (word_of_nat q :: u64) = q" by (intro unat_of_nat_small) simp
  then have "report_ok conf i r k" using r(2,3) q by (auto simp: report_ok_def counted_def)
  moreover have "\<not> proc_running ro p" using child_running [OF c] km by simp
  ultimately show ?thesis using r(1) q(2) km by simp
qed

section \<open>All children move\<close>

definition bench_ok ::
  "'d fpu \<Rightarrow> (nat \<Rightarrow> 'd proc_env) \<Rightarrow> (nat \<Rightarrow> nat) \<Rightarrow> (string \<Rightarrow> bool) \<Rightarrow> 'd user_confs \<Rightarrow> duplicates_info \<Rightarrow> nat list \<Rightarrow>
   'd generator \<Rightarrow> int \<Rightarrow> 'd bench_state \<Rightarrow> bool" where
  "bench_ok F E m ok conf info ts g t0 s \<longleftrightarrow> length (fst s) = nat (nprocs conf)
     \<and> (\<forall>i < nat (nprocs conf). child_ok F E m conf info ts g t0 i (fst s ! i)) \<and> stores_ok ok conf info ts g (snd s)"

text \<open>The moves a child of \<open>m\<close> rounds has left.\<close>

definition moves_left :: "nat \<Rightarrow> 'd child \<Rightarrow> nat" where
  "moves_left m c = (case c of Waiting \<Rightarrow> m + 2 | Running ro p k \<Rightarrow> Suc (m - k) | Ended r k \<Rightarrow> 0 | Died e \<Rightarrow> 0)"

lemma child_move_ok:
  assumes F: "clock_fpu F" and l: "launch_ready E m conf g acc t0" and s: "stores_ok ok conf info ts g sh"
    and i: "i < nat (nprocs conf)" and c: "child_ok F E m conf info ts g t0 i c"
  shows "\<exists>c' sh'. child_move F E conf info g acc i sh c = (c', sh') \<and> child_ok F E m conf info ts g t0 i c'
    \<and> stores_ok ok conf info ts g sh' \<and> moves_left (m i) c' = moves_left (m i) c - 1"
proof (cases c)
  case Waiting
  from child_starts [OF F l s i] s show ?thesis unfolding Waiting by (fastforce simp: moves_left_def)
next
  case (Running ro p k)
  show ?thesis
  proof (cases "k < m i")
    case True
    then have "moves_left (m i) (Running ro p' (Suc k)) = moves_left (m i) c - 1" for p' :: "'a proc"
      by (simp add: Running moves_left_def)
    with child_runs [OF F l s i c [unfolded Running] True] Running show ?thesis by blast
  next
    case False
    from child_ends [OF l c [unfolded Running] i False, of sh] obtain r where
      "child_move F E conf info g acc i sh c = (Ended r k, sh)" "k = m i" "report_ok conf i r k" using Running by blast
    then show ?thesis using s Running by (simp add: child_ok_def moves_left_def)
  qed
next
  case (Ended r k)
  with c s show ?thesis by (simp add: moves_left_def)
next
  case (Died e)
  with c show ?thesis by (simp add: child_ok_def)
qed

lemma bench_move_ok:
  assumes F: "clock_fpu F" and l: "launch_ready E m conf g acc t0" and s: "bench_ok F E m ok conf info ts g t0 s"
  shows "bench_ok F E m ok conf info ts g t0 (bench_move F E conf info g acc i s)"
    and "j < nat (nprocs conf) \<Longrightarrow> moves_left (m j) (fst (bench_move F E conf info g acc i s) ! j)
      = moves_left (m j) (fst s ! j) - (if i = j then 1 else 0)"
proof -
  obtain cs sh where cs: "s = (cs, sh)" by (cases s)
  from s have b: "length cs = nat (nprocs conf)" "\<forall>i < nat (nprocs conf). child_ok F E m conf info ts g t0 i (cs ! i)"
    "stores_ok ok conf info ts g sh" by (auto simp: bench_ok_def cs)
  have "bench_ok F E m ok conf info ts g t0 (bench_move F E conf info g acc i s)
    \<and> (j < nat (nprocs conf) \<longrightarrow> moves_left (m j) (fst (bench_move F E conf info g acc i s) ! j)
      = moves_left (m j) (fst s ! j) - (if i = j then 1 else 0))" for j
  proof (cases "i < nat (nprocs conf)")
    case True
    with b have "child_ok F E m conf info ts g t0 i (cs ! i)" by blast
    from child_move_ok [OF F l b(3) True this] obtain c' sh' where
      "child_move F E conf info g acc i sh (cs ! i) = (c', sh')" "child_ok F E m conf info ts g t0 i c'"
      "stores_ok ok conf info ts g sh'" "moves_left (m i) c' = moves_left (m i) (cs ! i) - 1" by blast
    with b True show ?thesis by (auto simp: bench_move_def cs bench_ok_def nth_list_update)
  next
    case False
    with s b(1) show ?thesis by (auto simp: bench_move_def cs)
  qed
  then show "bench_ok F E m ok conf info ts g t0 (bench_move F E conf info g acc i s)"
    and "j < nat (nprocs conf) \<Longrightarrow> moves_left (m j) (fst (bench_move F E conf info g acc i s) ! j)
      = moves_left (m j) (fst s ! j) - (if i = j then 1 else 0)" by blast+
qed

lemma schedule_ok:
  assumes "clock_fpu F" and "launch_ready E m conf g acc t0" and "bench_ok F E m ok conf info ts g t0 s"
  shows "bench_ok F E m ok conf info ts g t0 (fold (bench_move F E conf info g acc) schedule s)
    \<and> (\<forall>j < nat (nprocs conf). moves_left (m j) (fst (fold (bench_move F E conf info g acc) schedule s) ! j)
        = moves_left (m j) (fst s ! j) - count_list schedule j)"
  using assms(3)
proof (induction schedule arbitrary: s)
  case (Cons i mv)
  note m = bench_move_ok [OF assms(1,2) Cons.prems, where i = i]
  from Cons.IH [OF m(1)] m(2) show ?case by auto
qed simp

lemma bench_start:
  "stores_ok ok conf info ts g sh \<Longrightarrow> bench_ok F E m ok conf info ts g t0 (replicate (nat (nprocs conf)) Waiting, sh)"
  by (simp add: bench_ok_def child_ok_def)

text \<open>The reachable states of a launch.\<close>

inductive bench_reach ::
  "'d fpu \<Rightarrow> (nat \<Rightarrow> 'd proc_env) \<Rightarrow> 'd user_confs \<Rightarrow> duplicates_info \<Rightarrow> 'd generator \<Rightarrow> access_state \<Rightarrow> sys \<Rightarrow>
   'd bench_state \<Rightarrow> bool"
  for F E conf info g acc sh where
  bench_init: "bench_reach F E conf info g acc sh (replicate (nat (nprocs conf)) Waiting, sh)"
| bench_next: "bench_reach F E conf info g acc sh s \<Longrightarrow>
    bench_reach F E conf info g acc sh (bench_move F E conf info g acc i s)"

lemma run_children_reach: "bench_reach F E conf info g acc sh (run_children F E conf info g acc schedule sh)"
proof -
  have all: "bench_reach F E conf info g acc sh s \<Longrightarrow>
      bench_reach F E conf info g acc sh (fold (bench_move F E conf info g acc) schedule s)" for s
  proof (induction schedule arbitrary: s)
    case (Cons i mv)
    from Cons.IH [OF bench_next [OF Cons.prems, of i]] show ?case by simp
  qed simp
  show ?thesis unfolding run_children_def by (rule all) (rule bench_init)
qed

lemma bench_reach_ok:
  assumes "bench_reach F E conf info g acc sh s" and "clock_fpu F" and "launch_ready E m conf g acc t0"
    and "stores_ok ok conf info ts g sh"
  shows "bench_ok F E m ok conf info ts g t0 s"
  using assms
  by (induction rule: bench_reach.induct) (auto intro: bench_start bench_move_ok(1))

section \<open>After the children\<close>

lemma round_bound_nr: "round_bound (conf\<lparr>nr_proc_w := x\<rparr>) E m = round_bound conf E m"
  by (simp add: round_bound_def sized_run_def timed_run_def plain_run_def child_share_def nr_writers_def time_is_up_def
      end_time_def round_time_def next_time_def)

lemma launch_ready_nr: "launch_ready E m (conf\<lparr>nr_proc_w := x\<rparr>) g acc t0 = launch_ready E m conf g acc t0"
  by (simp add: launch_ready_def plain_run_def nr_writers_def gen_ready_def child_env_ok_def pfile_name_def owner_def
      child_type_def launch_args_def open_logs_def proc_number_def ticks_ok_def tick_ok_def round_bound_nr Let_def)

lemma stores_ok_nr: "stores_ok ok (conf\<lparr>nr_proc_w := x\<rparr>) info ts g sh = stores_ok ok conf info ts g sh"
  by (simp add: stores_ok_def run_ready_def files_ok_def work_procs_def pfile_name_def)

lemma child_type_nr: "child_type (conf\<lparr>nr_proc_w := x\<rparr>) i = child_type conf i"
  by (simp add: child_type_def launch_args_def Let_def)

lemma report_ok_nr: "report_ok (conf\<lparr>nr_proc_w := x\<rparr>) = report_ok conf"
  by (intro ext) (simp add: report_ok_def child_type_nr)

lemma destroy_files_ok:
  assumes "\<forall>i < nat (nr_writers conf). \<exists>n. sprintf_into 4 (show_int (int i)) = Inr n
    \<and> length (tempfilespath conf @ TMP_FILE @ n) + 3 < PATH_SIZE"
  shows "\<exists>fs'. destroy_files L conf fs = Inr fs'"
proof -
  have "\<exists>t. foldR (\<lambda>i. destroy_pfile (le_sys L) (int i) conf) [0 ..< nat (nr_writers conf)] fs = Inr t \<and> True"
  proof (rule foldR_total)
    fix i s assume "i \<in> set [0 ..< nat (nr_writers conf)]"
    with assms obtain n where "sprintf_into 4 (show_int (int i)) = Inr n"
      "length (tempfilespath conf @ TMP_FILE @ n) + 3 < PATH_SIZE" by auto
    then show "\<exists>s'. destroy_pfile (le_sys L) (int i) conf s = Inr s' \<and> True"
      by (simp add: destroy_pfile_def) (simp add: sprintf_into_def)
  qed simp
  then show ?thesis by (auto simp: destroy_files_def)
qed

lemma launch_check_ok:
  assumes l: "launch_ready E m conf g acc t0" and s: "stores_ok (le_open L) conf info ts g sh"
    and e: "\<forall>i off. fst (le_contents L i off) \<noteq> -1" "le_rfail L = (\<lambda>_ _. False)" "le_results L"
    and fz: "unat (filesize conf) + unat (block_size conf) \<le> 2 ^ 64"
  shows "launch_check F L conf info g sh
    = Inr (if integrity conf = 1 \<or> integrity conf = 3 then Some (0, [Header, NoIssues]) else None, sh_fs sh)"
proof -
  let ?n = "nat (work_procs conf)"
  from l have c: "plain_run conf" "gen_ready conf g" "totblocks conf \<noteq> 0" by (auto simp: launch_ready_def)
  from s have rr: "run_ready (le_open L) conf info ts (length (content_map (sh_mem sh)))"
    and fo: "files_ok conf ts ?n g (sh_fs sh) (sh_mem sh)" by (auto simp: stores_ok_def)
  have cr: "check_ready conf g"
    using c fz by (auto simp: check_ready_def gen_ready_def plain_run_def unat_gt_0)
  have "\<exists>g'. foldR (\<lambda>i. check_pfile F (le_open L) (le_contents L) (\<lambda>_ _. False) (le_bufs L) conf info (sh_mem sh) True (int i))
      [0 ..< ?n] (0, g, sh_fs sh, [Header]) = Inr (0, g', sh_fs sh, [Header]) \<and> gen_ok g' \<and> same_gen g g'"
    using cr rr fo e(1) stores_have_files [OF s c(1,3)] by (intro check_all_ok) auto
  moreover have "\<not> rawdevice conf" using rr by (simp add: run_ready_def)
  ultimately have "\<exists>g'. static_check F (le_open L) (le_contents L) (le_rfail L) (le_bufs L) conf info (sh_mem sh)
      (le_results L) g (sh_fs sh) = Inr (0, g', sh_fs sh, [Header, NoIssues])"
    using e(2,3) by (auto simp: static_check_def log_msg_def)
  then show ?thesis by (auto simp: launch_check_def)
qed


lemma destroy_names:
  assumes "run_ready ok conf info ts len" and "length (tempfilespath conf) + 25 < PATH_SIZE"
    and "i < nat (work_procs conf)"
  shows "\<exists>n. sprintf_into 4 (show_int (int i)) = Inr n \<and> length (tempfilespath conf @ TMP_FILE @ n) + 3 < PATH_SIZE"
proof -
  from assms(1,3) obtain name where "pfile_name conf (int i) = Inr name" by (auto simp: run_ready_def)
  then obtain n where n: "sprintf_into 4 (show_int (int i)) = Inr n" by (auto simp: pfile_name_def elim!: bindR_InrE)
  then have "length n \<le> 3" by (auto simp: sprintf_into_def split: if_splits)
  with n assms(2) show ?thesis by (simp add: TMP_FILE_def)
qed

lemma launch_ok:
  assumes F: "clock_fpu F" and l: "launch_ready (le_child L) m conf g acc t0" and s: "stores_ok (le_open L) conf info ts g sh"
    and fk: "\<forall>i < nat (nprocs conf). le_fork L i"
    and fair: "\<forall>i < nat (nprocs conf). m i + 2 \<le> count_list schedule i"
    and e: "\<forall>i off. fst (le_contents L i off) \<noteq> -1" "le_rfail L = (\<lambda>_ _. False)" "le_results L"
    and fz: "unat (filesize conf) + unat (block_size conf) \<le> 2 ^ 64"
    and path: "length (tempfilespath conf) + 25 < PATH_SIZE"
  shows "\<exists>r. launch_benchmark F L conf info g acc schedule sh = Some (Inr r)
    \<and> lr_check r = (if integrity conf = 1 \<or> integrity conf = 3 then Some (0, [Header, NoIssues]) else None)
    \<and> (\<forall>i < nat (nprocs conf). \<exists>rep. lr_children r ! i = Ended rep (m i) \<and> report_ok conf i rep (m i))"
proof -
  let ?acc = "acc\<lparr>rng := init_rand (seed conf) (rng acc)\<rparr>"
    and ?conf = "conf\<lparr>nr_proc_w := word_of_int (nr_writers conf)\<rparr>" and ?n = "nat (nprocs conf)"
  have "length (sfmt (rng acc)) = SFMT_N" using l by (simp add: launch_ready_def)
  then have "sfmt_ok (rng ?acc)" using init_gen_rand_ok [of "rng acc"] by (simp add: init_rand_def)
  then have "length (sfmt (rng ?acc)) = SFMT_N" by (simp add: sfmt_ok_def)
  then have l': "launch_ready (le_child L) m ?conf g ?acc t0" unfolding launch_ready_nr using l by (simp add: launch_ready_def)
  have s': "stores_ok (le_open L) ?conf info ts g sh" unfolding stores_ok_nr by (rule s)
  obtain cs sh' where cs: "run_children F (le_child L) ?conf info g ?acc schedule sh = (cs, sh')"
    by (cases "run_children F (le_child L) ?conf info g ?acc schedule sh")
  note b = bench_start [OF s', of F "le_child L" m t0]
  from schedule_ok [OF F l' b, of schedule] cs have
    ok: "bench_ok F (le_child L) m (le_open L) ?conf info ts g t0 (cs, sh')"
    and left: "\<forall>j < ?n. moves_left (m j) (cs ! j) = moves_left (m j) (Waiting :: 'a child) - count_list schedule j"
    by (auto simp: run_children_def)
  from ok have len: "length cs = ?n" and co: "\<forall>i < ?n. child_ok F (le_child L) m ?conf info ts g t0 i (cs ! i)"
    and st: "stores_ok (le_open L) ?conf info ts g sh'" by (auto simp: bench_ok_def)
  have ended: "\<exists>rep. cs ! i = Ended rep (m i) \<and> report_ok conf i rep (m i)" if i: "i < ?n" for i
  proof -
    have "moves_left (m i) (cs ! i) = 0"
      using left fair i by (simp add: moves_left_def [of _ Waiting])
    moreover have "child_ok F (le_child L) m ?conf info ts g t0 i (cs ! i)" using co i by blast
    ultimately show ?thesis
      by (cases "cs ! i") (auto simp: moves_left_def child_ok_def report_ok_nr)
  qed
  then have gone: "list_all child_gone cs" using len by (force simp: list_all_length child_gone_def)
  have chk: "launch_check F L ?conf info g sh'
      = Inr (if integrity conf = 1 \<or> integrity conf = 3 then Some (0, [Header, NoIssues]) else None, sh_fs sh')"
    using launch_check_ok [OF l' st e] fz by simp
  have "\<exists>fs'. destroy_files L ?conf (sh_fs sh') = Inr fs'"
    using destroy_names [of "le_open L" conf info ts] s path
    by (intro destroy_files_ok) (auto simp: stores_ok_def nr_writers_work work_procs_def)
  then obtain fs' where d: "destroy_files L ?conf (sh_fs sh') = Inr fs'" by blast
  have "launch_benchmark F L conf info g acc schedule sh
    = Some (Inr \<lparr>lr_children = cs, lr_sys = sh'\<lparr>sh_fs := fs'\<rparr>,
        lr_check = (if integrity conf = 1 \<or> integrity conf = 3 then Some (0, [Header, NoIssues]) else None)\<rparr>)"
    using fk gone chk d by (simp add: launch_benchmark_def cs Let_def)
  with ended show ?thesis by simp
qed

section \<open>The end of main\<close>

lemma launch_ready_same:
  assumes "launch_ready E m conf g acc t0" and "same_gen g g'" and "gen_ok g'"
  shows "launch_ready E m conf g' acc t0"
proof -
  have "ticks_ok conf t0 g' base ticks m = ticks_ok conf t0 g base ticks m" for base ticks m
    by (simp add: ticks_ok_def tick_ok_same [OF assms(2)])
  then show ?thesis using assms gen_ready_same [of conf g g'] by (simp add: launch_ready_def child_env_ok_def)
qed

text \<open>Populating leaves the state of the random generator complete.\<close>

lemma real_populate_rng:
  assumes "real_populate F draws wres conf info i name s = Inr (n, s')" and "length (sfmt (p_rng s)) = SFMT_N"
    and "0 < unat (block_size conf)" and "unat (filesize conf) + unat (block_size conf) \<le> 2 ^ 64"
  shows "length (sfmt (p_rng s')) = SFMT_N"
proof -
  let ?s = "s\<lparr>p_rng := init_rand (seed conf + word_of_int (nprocs conf)) (p_rng s)\<rparr>"
  have start: "length (sfmt (p_rng ?s)) = SFMT_N"
    using init_gen_rand_ok [OF assms(2)] by (simp add: init_rand_def sfmt_ok_def)
  from assms(1) have f: "foldR (\<lambda>k. populate_step F draws wres conf info i name (offset_of (block_size conf) k))
      [0 ..< block_count (block_size conf) (filesize conf)] ?s = Inr s'"
    by (auto simp: real_populate_def run_blocks_eq [OF assms(3,4)] elim!: bindR_InrE)
  show ?thesis
  proof (rule foldR_invariant [OF f, where I = "\<lambda>s. length (sfmt (p_rng s)) = SFMT_N"])
    fix x s s1 assume "length (sfmt (p_rng s)) = SFMT_N"
      and "populate_step F draws wres conf info i name (offset_of (block_size conf) x) s = Inr s1"
    then show "length (sfmt (p_rng s1)) = SFMT_N" by (auto simp: populate_step_def elim!: bindR_InrE)
  qed (rule start)
qed

lemma populate_rng:
  assumes "populate F sys ok draws wres conf info s = Inr (t, s')" and "length (sfmt (p_rng s)) = SFMT_N"
    and "\<not> rawdevice conf" and "populate_opt conf \<noteq> DDPOP"
    and "0 < unat (block_size conf)" and "unat (filesize conf) + unat (block_size conf) \<le> 2 ^ 64"
  shows "length (sfmt (p_rng s')) = SFMT_N"
proof -
  from assms(1,3) have f: "foldR (\<lambda>i. populate_file F sys ok draws wres conf info (int i)) [0 ..< nat (work_procs conf)] (0, s)
      = Inr (t, s')" by (simp add: populate_def)
  have "length (sfmt (p_rng (snd (t, s')))) = SFMT_N"
  proof (rule foldR_invariant [OF f, where I = "\<lambda>x. length (sfmt (p_rng (snd x))) = SFMT_N"])
    fix i x y assume x: "length (sfmt (p_rng (snd x))) = SFMT_N"
      and "populate_file F sys ok draws wres conf info (int i) x = Inr y"
    then obtain name fs n s1 where
      "real_populate F (draws (int i)) (wres (int i)) conf info (int i) name ((snd x)\<lparr>p_fs := fs\<rparr>) = Inr (n, s1)" "snd y = s1"
      using assms(4) by (cases x) (auto simp: populate_file_def elim!: bindR_InrE)
    with real_populate_rng [OF _ _ assms(5,6)] x show "length (sfmt (p_rng (snd y))) = SFMT_N" by force
  qed (simp add: assms(2))
  then show ?thesis by simp
qed

text \<open>Population brings the files and the trackers into agreement.\<close>

lemma populate_stores:
  assumes c: "pop_conf_ok conf (p_gen s)" and d: "\<And>i off. draw_ok (p_gen s) (draws i off)"
    and w: "\<And>i off. wres i off = int (unat (block_size conf))"
    and run: "run_ready ok conf info ts (length (content_map (p_mem s)))" and r: "length (sfmt (p_rng s)) = SFMT_N"
  shows "\<exists>t s'. populate F sys ok draws wres conf info s = Inr (t, s') \<and> gen_ok (p_gen s') \<and> same_gen (p_gen s) (p_gen s')
    \<and> length (sfmt (p_rng s')) = SFMT_N
    \<and> stores_ok ok conf info ts (p_gen s') \<lparr>sh_mem = p_mem s', sh_fs = p_fs s'\<rparr>"
proof -
  let ?n = "nat (work_procs conf)"
  have raw: "\<not> rawdevice conf" using run by (simp add: run_ready_def)
  have "\<exists>t s'. foldR (\<lambda>i. populate_file F sys ok draws wres conf info (int i)) [0 ..< ?n] (0, s) = Inr (t, s')
    \<and> gen_ok (p_gen s') \<and> same_gen (p_gen s) (p_gen s') \<and> cells (p_mem s') = cells (p_mem s)
    \<and> length (content_map (p_mem s')) = length (content_map (p_mem s))
    \<and> files_ok conf ts ?n (p_gen s') (p_fs s') (p_mem s')"
    using c d w run by (intro populate_all_ok) simp_all
  then obtain t s' where p: "populate F sys ok draws wres conf info s = Inr (t, s')" "gen_ok (p_gen s')"
    "same_gen (p_gen s) (p_gen s')" "length (content_map (p_mem s')) = length (content_map (p_mem s))"
    "files_ok conf ts ?n (p_gen s') (p_fs s') (p_mem s')"
    using raw by (auto simp: populate_def)
  moreover have "length (sfmt (p_rng s')) = SFMT_N"
    using populate_rng [OF p(1) r raw] c by (simp add: pop_conf_ok_def check_ready_def)
  ultimately show ?thesis using run by (simp add: stores_ok_def)
qed

lemma initialize_statistics:
  assumes "generator_initialize F fsqrt fbytes stof content draws seeds g info = Inr (r, g', info')"
  shows "statistics info' = statistics info"
  using assms unfolding generator_initialize_def
  by (auto simp: Let_def elim!: bindR_InrE split: if_splits option.splits)

section \<open>Properties\<close>


section \<open>Concrete runs\<close>

text \<open>A writer and a reader of one file, with the online check and the check after the run.\<close>

definition mix_conf :: "rat user_confs" where
  "mix_conf = (run_conf 3)\<lparr>mixedIO := True\<rparr>"

definition mix_env :: "rat launch_env" where
  "mix_env = \<lparr>le_fork = (\<lambda>_. True), le_child = (\<lambda>_. run_env), le_open = (\<lambda>_. True), le_sys = (\<lambda>_ fs. fs),
     le_contents = (\<lambda>_ _. (7, 7)), le_rfail = (\<lambda>_ _. False), le_bufs = (\<lambda>_. []), le_results = True\<rparr>"

lemma mix_sel [simp]:
  "nprocs mix_conf = 2" "mixedIO mix_conf" "block_size mix_conf = 8" "filesize mix_conf = 16" "totblocks mix_conf = 2"
  "integrity mix_conf = 3" "number_ops mix_conf = 6" "accesstype mix_conf = SEQUENTIAL" "\<not> rawdevice mix_conf"
  "tempfilespath mix_conf = ''tmp/''" "nr_writers mix_conf = 1" "work_procs mix_conf = 1" "logfeature mix_conf = 0"
  "testtype mix_conf = PEAK"
  by (simp_all add: mix_conf_def nr_writers_def work_procs_def run_conf_def chk_conf_def initial_conf_def)

lemma mix_share: "child_share mix_conf = 6"
  by (simp add: child_share_def)

lemma mix_owner: "i < 2 \<Longrightarrow> owner mix_conf i = 0"
  by (auto dest!: less_2_cases simp: owner_def)

lemma mix_type: "child_type mix_conf 0 = WRITE" "child_type mix_conf 1 = READ"
  by (simp_all add: child_type_def launch_args_def)

lemma small_number: "n \<in> {0, 1} \<Longrightarrow> show_int n = [digit_char (nat n)]"
  by (auto simp: show_int_def show_nat.simps)

text \<open>An environment in which every file opens and every tick is the same.\<close>

lemma still_env_ok:
  assumes "pe_open E = (\<lambda>_. True)" and "pe_fopen E = (\<lambda>_. True)" and "pe_base E = tk_lap tk" and "pe_ticks E = (\<lambda>_. tk)"
    and "length (pe_buf E) = unat (block_size conf)" and "tick_ok conf 0 g tk"
    and "proc_number conf (child_type conf i) (int (owner conf i)) \<in> {0, 1}" and "round_bound conf E m"
  shows "child_env_ok E conf g 0 i m"
proof -
  have "ticks_ok conf 0 g (pe_base E) (pe_ticks E) m" for m using assms(3,4,6) by (simp add: ticks_ok_def SNAPS_def)
  moreover have "\<exists>lg ms. open_logs (pe_fopen E) conf (child_type conf i)
      (proc_number conf (child_type conf i) (int (owner conf i))) = Inr (lg, ms) \<and> (logfeature conf = 1 \<longrightarrow> lg)"
    using small_number [OF assms(7)] assms(2) by (auto simp: open_logs_def create_plog_def sprintf_into_def log_msg_def)
  ultimately show ?thesis using assms by (simp add: child_env_ok_def tick_ok_def)
qed

lemma mix_sized: "sized_run mix_conf"
  using run_conf_sized [of 3] by (simp add: mix_conf_def sized_run_def)

lemma mix_child_env:
  assumes "i < 2"
  shows "child_env_ok run_env mix_conf demo_gen 0 i 6"
proof (rule still_env_ok)
  show "tick_ok mix_conf 0 demo_gen run_tick"
    by (simp add: tick_ok_def run_tick_def run_time_def tv_ok_def tv_us_def draw_ok_def SNAPS_def)
  show "proc_number mix_conf (child_type mix_conf i) (int (owner mix_conf i)) \<in> {0, 1}"
    using mix_owner [OF assms] by (auto simp: proc_number_def)
  show "round_bound mix_conf run_env 6" using mix_sized by (simp add: round_bound_def mix_share)
qed (simp_all add: run_env_def run_tick_def)

lemma mix_ready: "launch_ready (le_child mix_env) (\<lambda>_. 6) mix_conf demo_gen zero_access 0"
proof -
  have "plain_run mix_conf" by (rule sized_plain [OF mix_sized])
  moreover have "gen_ready mix_conf demo_gen" using run_gen_ready [of 3] by (simp add: mix_conf_def gen_ready_def)
  ultimately show ?thesis
    using mix_child_env by (simp add: launch_ready_def mix_env_def zero_access_rng(2) rand_limit_def)
qed

lemma mix_name: "pfile_name mix_conf 0 = Inr ''tmp/dedisbench_0010test0''"
proof -
  have "digit_char 0 = CHR ''0''" by code_simp
  then show ?thesis by (simp add: pfile_name_def sprintf_into_def small_number TMP_FILE_def PATH_SIZE_def)
qed

lemma mix_stores: "stores_ok (\<lambda>_. True) mix_conf chk_info [0, 2] demo_gen run_sys"
proof -
  have f: "file_ok demo_gen 8 2 run_file (\<lambda>j. replicate 4 chk_bi ! j)"
    using run_file_ok by (simp add: file_ok_def)
  then show ?thesis
    by (simp add: stores_ok_def run_ready_def files_ok_def chk_info_def run_sys_def block_count_def mix_name file_of_def)
qed


text \<open>The same two processes for one second, which their clocks show to be over after three rounds.\<close>

definition clock_conf :: "rat user_confs" where
  "clock_conf = mix_conf\<lparr>flag_termination_size := False, flag_termination_time := True, time_to_run := 1\<rparr>"

definition clock_env :: "rat launch_env" where
  "clock_env = mix_env\<lparr>le_child := (\<lambda>_. timed_env)\<rparr>"

lemma clock_sel [simp]:
  "nprocs clock_conf = 2" "mixedIO clock_conf" "block_size clock_conf = 8" "filesize clock_conf = 16" "totblocks clock_conf = 2"
  "integrity clock_conf = 3" "accesstype clock_conf = SEQUENTIAL" "\<not> rawdevice clock_conf" "testtype clock_conf = PEAK"
  "tempfilespath clock_conf = ''tmp/''" "nr_writers clock_conf = 1" "work_procs clock_conf = 1" "logfeature clock_conf = 0"
  by (simp_all add: clock_conf_def mix_conf_def nr_writers_def work_procs_def run_conf_def chk_conf_def initial_conf_def)

lemma clock_timed: "timed_run clock_conf"
  by (simp add: timed_run_def plain_run_def clock_conf_def mix_conf_def run_conf_def chk_conf_def initial_conf_def)

lemma clock_child_env:
  assumes "i < 2"
  shows "child_env_ok timed_env clock_conf demo_gen 0 i 3"
proof -
  have o: "owner clock_conf i = owner mix_conf i" "child_type clock_conf i = child_type mix_conf i"
    "pfile_name clock_conf n = pfile_name mix_conf n" "proc_number clock_conf ty n = proc_number mix_conf ty n"
    "open_logs f clock_conf ty n = open_logs f mix_conf ty n" for n f ty
    by (simp_all add: clock_conf_def owner_def child_type_def launch_args_def pfile_name_def proc_number_def open_logs_def)
  have e: "end_time clock_conf 5 = 6" "flag_termination_time clock_conf"
    by (simp_all add: end_time_def int_mult_def clock_conf_def mix_conf_def run_conf_def chk_conf_def initial_conf_def)
  have "time_is_up clock_conf timed_env 3"
    by (auto simp: time_is_up_def Let_def round_time_def next_time_def e timed_env_def run_env_def run_tick_def run_time_def)
  then have "round_bound clock_conf timed_env 3" using clock_timed by (simp add: round_bound_def)
  moreover have "ticks_ok clock_conf 0 demo_gen (pe_base timed_env) (pe_ticks timed_env) 3"
    by (simp add: ticks_ok_def tick_ok_def timed_env_def run_env_def run_tick_def run_time_def tv_ok_def tv_us_def
        draw_ok_def SNAPS_def)
  ultimately show ?thesis
    using mix_child_env [OF assms] by (simp add: child_env_ok_def o) (simp add: timed_env_def)
qed

lemma clock_ready: "launch_ready (\<lambda>_. timed_env) (\<lambda>_. 3) clock_conf demo_gen zero_access 0"
proof -
  have "plain_run clock_conf" using clock_timed by (simp add: timed_run_def)
  moreover have "gen_ready clock_conf demo_gen" using run_gen_ready [of 3] by (simp add: gen_ready_def)
  ultimately show ?thesis using clock_child_env by (simp add: launch_ready_def zero_access_rng(2) rand_limit_def)
qed

lemma clock_stores: "stores_ok (\<lambda>_. True) clock_conf chk_info [0, 2] demo_gen run_sys"
  using mix_stores by (simp add: clock_conf_def stores_ok_def run_ready_def files_ok_def pfile_name_def work_procs_def)

lemma clock_launch:
  "\<exists>r rep. launch_benchmark exact_fpu clock_env clock_conf chk_info demo_gen zero_access [1, 0, 1, 0, 1, 0, 1, 0, 1, 0] run_sys
      = Some (Inr r)
    \<and> lr_check r = Some (0, [Header, NoIssues]) \<and> lr_children r ! 1 = Ended rep 3
    \<and> unat (tot_ops (rr_stat rep)) = 3 \<and> rr_check rep = Some (0, [Header, NoIssues])"
proof -
  have l: "launch_ready (le_child clock_env) (\<lambda>_. 3) clock_conf demo_gen zero_access 0"
    using clock_ready by (simp add: clock_env_def)
  have s: "stores_ok (le_open clock_env) clock_conf chk_info [0, 2] demo_gen run_sys"
    using clock_stores by (simp add: clock_env_def mix_env_def)
  have fair: "\<forall>i < nat (nprocs clock_conf). 3 + 2 \<le> count_list ([1, 0, 1, 0, 1, 0, 1, 0, 1, 0 :: nat]) i"
    by (auto dest!: less_2_cases)
  have env: "\<forall>i < nat (nprocs clock_conf). le_fork clock_env i" "\<forall>i off. fst (le_contents clock_env i off) \<noteq> -1"
    "le_rfail clock_env = (\<lambda>_ _. False)" "le_results clock_env"
    "unat (filesize clock_conf) + unat (block_size clock_conf) \<le> 2 ^ 64" "length (tempfilespath clock_conf) + 25 < PATH_SIZE"
    by (simp_all add: clock_env_def mix_env_def PATH_SIZE_def)
  from launch_ok [OF exact.clock_fpu_axioms l s env(1) fair env(2-6)] obtain r where
    r: "launch_benchmark exact_fpu clock_env clock_conf chk_info demo_gen zero_access [1, 0, 1, 0, 1, 0, 1, 0, 1, 0] run_sys
      = Some (Inr r)" "lr_check r = Some (0, [Header, NoIssues])"
    "\<forall>i < 2. \<exists>rep. lr_children r ! i = Ended rep 3 \<and> report_ok clock_conf i rep 3" by auto
  from r(3) [rule_format, of 1] obtain rep where "lr_children r ! 1 = Ended rep 3" "report_ok clock_conf 1 rep 3" by auto
  moreover have "child_type clock_conf 1 = READ" by (simp add: child_type_def launch_args_def)
  ultimately show ?thesis using r(1,2) by (intro exI [of _ r] exI [of _ rep]) (simp add: report_ok_def)
qed

end
