(* ===== verification/Main_facts.thy ===== *)
theory Main_facts
  imports Launch_facts Plotio Berk
begin

text \<open>
  The components of \<open>main\<close> in \<open>DEDISbench.c\<close> fit together: a distribution file that is read without overflow
  gives a generator that every later step can rely on, the mapping has room for the trackers of all files,
  population brings files and trackers into agreement, and the launch keeps them so.
\<close>

section \<open>The distribution file\<close>

text \<open>
  \<open>g\<close> is the generator after its distribution file has been read: ten compressions in each line, only
  the first line without copies, and fewer than 2^31 blocks.  The block size is a multiple of the unit of
  the models.
\<close>

definition distribution_ok :: "'d fpu \<Rightarrow> ('d, 's) main_env \<Rightarrow> 'd user_confs \<Rightarrow> 'd generator \<Rightarrow> bool" where
  "distribution_ok F M conf g \<longleftrightarrow>
     (\<exists>t base. me_files M (distfile conf) = Some t
        \<and> foldR (read_line F (me_stof M)) (getlines CHR 0x0A t) (0, get_generator F conf) = Inr (base, g))
     \<and> 0 \<le> first_share F (me_sqrt M) g \<and> first_share F (me_sqrt M) g \<le> uint (total_unique_blocks g)
     \<and> 2 \<le> media_count g (ucast (percentage_analyze conf))
     \<and> bytes_ok (me_bytes M) \<and> blocks_of (linhas g) < 2 ^ 31
     \<and> (\<forall>l \<in> set (linhas g). 10 \<le> length (compression l)) \<and> (\<forall>l \<in> set (tl (linhas g)). nrCopies l \<noteq> 0)
     \<and> (\<forall>i. 1 \<le> unat (me_gen_draws M i) \<and> unat (me_gen_draws M i) \<le> blocks_of (linhas g))
     \<and> block_size conf \<noteq> 0 \<and> unat (block_size conf) < 2 ^ 32 \<and> 4096 dvd unat (block_size conf)
     \<and> 1 \<le> unat (compression_to_achieve conf) \<and> unat (compression_to_achieve conf) \<le> 99
     \<and> 1 \<le> unat (percentage_analyze conf) \<and> unat (percentage_analyze conf) \<le> 99"

lemma sized_buffers: "models_sized n (modelos g) \<Longrightarrow> buffers_hold n g"
  by (auto simp: models_sized_def buffers_hold_def tails_def)

lemma unat_ucast_down: "unat (w :: u64) < 2 ^ 32 \<Longrightarrow> unat (ucast w :: u32) = unat w"
  by (simp add: unsigned_ucast_eq take_bit_nat_eq_self)

lemma generator_starts:
  assumes d: "distribution_ok F M conf g1"
  shows "\<exists>g info'. start_generator F M conf info = Inr (1, g, info') \<and> gen_ready conf g \<and> linhas g = linhas g1
    \<and> statistics info' = statistics info \<and> zero_copy_blocks info' = ucast (zeroCopiesBlocks g1)
    \<and> unat (zero_copy_blocks info') + unat (duplicated_blocks info') = blocks_of (linhas g1)"
proof -
  from d obtain t base where r: "me_files M (distfile conf) = Some t"
    "foldR (read_line F (me_stof M)) (getlines CHR 0x0A t) (0, get_generator F conf) = Inr (base, g1)"
    "0 \<le> first_share F (me_sqrt M) g1" "first_share F (me_sqrt M) g1 \<le> uint (total_unique_blocks g1)"
    "2 \<le> media_count g1 (ucast (percentage_analyze conf))"
    by (auto simp: distribution_ok_def)
  let ?bs = "ucast (block_size conf) :: u32" and ?pc = "ucast (compression_to_achieve conf) :: u32"
    and ?pa = "ucast (percentage_analyze conf) :: u32"
  have c: "bytes_ok (me_bytes M)" "blocks_of (linhas g1) < 2 ^ 31" "\<forall>l \<in> set (linhas g1). 10 \<le> length (compression l)"
    "\<forall>l \<in> set (tl (linhas g1)). nrCopies l \<noteq> 0" "\<forall>i. 1 \<le> unat (me_gen_draws M i) \<and> unat (me_gen_draws M i) \<le> blocks_of (linhas g1)"
    and b: "block_size conf \<noteq> 0" "unat (block_size conf) < 2 ^ 32" "4096 dvd unat (block_size conf)"
    and p: "1 \<le> unat (compression_to_achieve conf)" "unat (compression_to_achieve conf) \<le> 99"
      "1 \<le> unat (percentage_analyze conf)" "unat (percentage_analyze conf) \<le> 99"
    using d by (auto simp: distribution_ok_def)
  have u: "unat ?bs = unat (block_size conf)" "unat ?pc = unat (compression_to_achieve conf)"
    "unat ?pa = unat (percentage_analyze conf)" using b(2) p by (simp_all add: unat_ucast_down)
  have "4096 \<le> unat (block_size conf)" using b by (intro dvd_imp_le) (simp_all add: unat_gt_0)
  then have bs: "4096 \<le> ?bs" using u(1) by (simp add: word_le_nat_alt)
  have pc: "1 \<le> ?pc" "?pc \<le> 100" using u(2) p by (simp_all add: word_le_nat_alt)
  have "sint ?pa = int (unat ?pa)" by (rule sint_small) (use u(3) p in simp)
  then have pa: "0 < sint ?pa" "sint ?pa < 100" using u(3) p by linarith+
  have "unat (?bs div 4096) * 4096 = unat (block_size conf)" using b(3) u(1) by (simp add: unat_div)
  with initialize_steps [OF c(1) bs pc pa r(2) [unfolded get_generator_def] c(2,3,5) r(3,4), of "me_seeds M" info]
  obtain g info' where g: "start_generator F M conf info = Inr (1, g, info')" "gen_ok g"
    "models_sized (unat (block_size conf)) (modelos g)" "linhas g = linhas g1"
    "zero_copy_blocks info' = ucast (zeroCopiesBlocks g1)"
    "unat (zero_copy_blocks info') + unat (duplicated_blocks info') = blocks_of (linhas g1)"
    using r(1,5) by (auto simp: start_generator_def get_generator_def)
  have "unat (total_unique_blocks g) = blocks_of (linhas g1)" using gen_okD(2) [OF g(2)] g(4) by simp
  then have "gen_ready conf g" using g c(2,4) sized_buffers [OF g(3)] by (simp add: gen_ready_def zero_first_def)
  moreover have "statistics info' = statistics info"
    using g(1) unfolding start_generator_def by (rule initialize_statistics)
  ultimately show ?thesis using g by blast
qed

section \<open>The names and the mapping\<close>

lemma show_small: "n < 1000 \<Longrightarrow> length (show_int (int n)) < 4"
  by (simp add: show_int_def show_nat.simps [of n] show_nat.simps [of "n div 10"] show_nat.simps [of "n div 10 div 10"])

lemma pfile_name_ok:
  assumes "i < 1000" and "length (tempfilespath conf) + 25 < PATH_SIZE"
  shows "\<exists>name. pfile_name conf (int i) = Inr name"
  using show_small [OF assms(1)] assms(2) by (simp add: pfile_name_def sprintf_into_def TMP_FILE_def)

text \<open>The calls that map the memory succeed and the size does not wrap around.\<close>

definition mmap_ready :: "mmap_env \<Rightarrow> 'd user_confs \<Rightarrow> duplicates_info \<Rightarrow> bool" where
  "mmap_ready env conf info \<longleftrightarrow> open_ok env \<and> lseek_ok env \<and> write_ok env \<and> mmap_ok env \<and> size_fits conf info
     \<and> unat (sharedmem_size conf info) mod 2 ^ 32 \<noteq> 0 \<and> mapping_fits conf info (file_before env)"

lemma whole_blocks:
  assumes "0 < unat bs" and "unat bs dvd unat fs"
  shows "block_count bs fs = unat fs div unat bs"
proof -
  obtain k where k: "unat fs = unat bs * k" using assms(2) by blast
  have "(unat bs * k + unat bs - 1) div unat bs = k" using assms(1) by (simp add: div_nat_eqI)
  then show ?thesis using assms(1) by (simp add: block_count_def k)
qed

lemma mapped_trackers:
  assumes m: "mmap_ready env conf info" and t: "totblocks conf = filesize conf div block_size conf" "totblocks conf \<noteq> 0"
    and b: "block_size conf \<noteq> 0" "unat (block_size conf) dvd unat (filesize conf)"
    and raw: "\<not> rawdevice conf" and n: "work_procs conf < 1000"
    and path: "length (tempfilespath conf) + 25 < PATH_SIZE" and ok: "\<And>name. ok name"
  shows "\<exists>info' mem ts. loadmmap env conf info = Inr (sharedmem_size conf info, info', mem)
    \<and> content_map mem = content_map (file_before env) \<and> run_ready ok conf info' ts (length (content_map mem))"
proof -
  let ?d = "unat (duplicated_blocks info)" and ?t = "unat (totblocks conf)" and ?n = "nat (tracked_procs conf)"
  have sf: "size_fits conf info" using m by (simp add: mmap_ready_def)
  have tp: "0 < ?t" using t(2) by (simp add: unat_gt_0)
  have w: "tracked_procs conf = work_procs conf" using raw by (simp add: tracked_procs_def work_procs_def Let_def)
  have bc: "block_count (block_size conf) (filesize conf) = ?t"
    using whole_blocks [OF _ b(2)] b(1) by (simp add: t(1) unat_gt_0 unat_div)
  let ?info = "mapped_info conf info"
  let ?mem = "(file_before env)\<lparr>cells := (cells (file_before env))[?d := 0]\<rparr>"
  obtain ts where ts: "content_tracker ?info = Some ts" "length ts = ?n" by (simp add: mapped_info_def)
  have run: "loadmmap env conf info = Inr (sharedmem_size conf info, ?info, ?mem)"
    using m by (intro loadmmap_eq) (simp_all add: mmap_ready_def)
  have off: "ts ! i = i * ?t" if "i < ?n" for i
    using mapped_tracker [OF sf, of i] that ts(1) by (simp add: tracker_def)
  have room: "?t * ?n \<le> length (content_map ?mem)"
    using mapping_room [OF sf tp] m by (simp add: mmap_ready_def)
  have "run_ready ok conf ?info ts (length (content_map ?mem))"
    unfolding run_ready_def bc
  proof (intro conjI allI impI)
    show "\<not> rawdevice conf" by (rule raw)
    show "content_tracker ?info = Some ts" by (rule ts(1))
    show "nat (work_procs conf) \<le> length ts" by (simp add: w ts(2))
    fix i assume i: "i < nat (work_procs conf)"
    with n have "i < 1000" by simp
    then show "\<exists>name. pfile_name conf (int i) = Inr name \<and> ok name" using pfile_name_ok [OF _ path] ok by blast
    have "Suc i * ?t \<le> ?n * ?t" using i w by (intro mult_right_mono) simp_all
    then show "ts ! i + ?t \<le> length (content_map ?mem)" using off [of i] i w room by (simp add: mult.commute)
    fix j assume j: "j < i"
    then have "Suc j * ?t \<le> i * ?t" by (intro mult_right_mono) simp_all
    then show "ts ! j + ?t \<le> ts ! i \<or> ts ! i + ?t \<le> ts ! j"
      using off [of i] off [of j] i j w by simp
  qed
  then show ?thesis using run by (intro exI [of _ ?info] exI [of _ ?mem] exI [of _ ts]) simp
qed

section \<open>From the distribution file to the check\<close>

text \<open>
  The inputs of the launch: \<^const>\<open>launch_ready\<close> without what the distribution file establishes.
\<close>

definition launch_inputs ::
  "(nat \<Rightarrow> 'd proc_env) \<Rightarrow> (nat \<Rightarrow> nat) \<Rightarrow> 'd user_confs \<Rightarrow> 'd generator \<Rightarrow> access_state \<Rightarrow> int \<Rightarrow> bool" where
  "launch_inputs E m conf g acc t0 \<longleftrightarrow> plain_run conf \<and> 1 \<le> integrity conf \<and> 0 < nr_writers conf
     \<and> nprocs conf < 1000 \<and> (mixedIO conf \<longrightarrow> even (nprocs conf))
     \<and> length (sfmt (rng acc)) = SFMT_N \<and> totblocks conf \<noteq> 0 \<and> unat (totblocks conf) \<le> rand_limit
     \<and> (accesstype conf \<noteq> SEQUENTIAL \<longrightarrow> 1 < totblocks conf) \<and> (accesstype conf = TPCC \<longrightarrow> 10 \<le> totblocks conf)
     \<and> (\<forall>i < nat (nprocs conf). child_env_ok (E i) conf g t0 i (m i))"

lemma launch_inputs_ready: "launch_inputs E m conf g acc t0 \<Longrightarrow> gen_ready conf g \<Longrightarrow> launch_ready E m conf g acc t0"
  by (simp add: launch_inputs_def launch_ready_def)

definition main_inputs ::
  "('d, 's) main_env \<Rightarrow> 'd user_confs \<Rightarrow> 'd generator \<Rightarrow> duplicates_info \<Rightarrow> access_state \<Rightarrow> int \<Rightarrow> (nat \<Rightarrow> nat) \<Rightarrow>
   nat list \<Rightarrow> bool" where
  "main_inputs M conf g info acc t0 m schedule \<longleftrightarrow>
     (let L = me_launch M
      in needs_population conf \<and> populate_opt conf \<noteq> DDPOP \<and> \<not> rawdevice conf
       \<and> unat (block_size conf) dvd unat (filesize conf) \<and> unat (filesize conf) + unat (block_size conf) \<le> 2 ^ 64
       \<and> length (tempfilespath conf) + 25 < PATH_SIZE
       \<and> mmap_ready (me_mmap M) conf info
       \<and> (\<forall>i off. draw_ok g (me_pop_draws M i off)) \<and> (\<forall>i off. me_pop_results M i off = int (unat (block_size conf)))
       \<and> launch_inputs (le_child L) m conf g acc t0
       \<and> (\<forall>name. le_open L name) \<and> (\<forall>i < nat (nprocs conf). le_fork L i)
       \<and> (\<forall>i < nat (nprocs conf). m i + 2 \<le> count_list schedule i)
       \<and> (\<forall>i off. fst (le_contents L i off) \<noteq> -1) \<and> le_rfail L = (\<lambda>_ _. False) \<and> le_results L)"

lemma zero_first_ready: "gen_ready conf g \<Longrightarrow> zero_first g"
  by (simp add: gen_ready_def)

lemma prepare_bench_ok:
  assumes d: "distribution_ok F M conf g1" and st: "start_generator F M conf info = Inr (1, g, info1)"
    and m: "main_inputs M conf g info1 acc t0 n schedule"
  shows "\<exists>info2 s ts. prepare_bench F M conf info mem acc fs = Inr (info2, s) \<and> same_gen g (p_gen s) \<and> gen_ready conf (p_gen s)
    \<and> gen_ready conf g \<and> length (sfmt (p_rng s)) = SFMT_N
    \<and> stores_ok (le_open (me_launch M)) conf info2 ts (p_gen s) \<lparr>sh_mem = p_mem s, sh_fs = p_fs s\<rparr>"
proof -
  let ?L = "me_launch M"
  from generator_starts [OF d, of info] st have g: "gen_ready conf g" by auto
  from m have i: "launch_inputs (le_child ?L) n conf g acc t0" and c: "needs_population conf" "populate_opt conf \<noteq> DDPOP"
    "\<not> rawdevice conf" "unat (block_size conf) dvd unat (filesize conf)"
    "unat (filesize conf) + unat (block_size conf) \<le> 2 ^ 64" "length (tempfilespath conf) + 25 < PATH_SIZE"
    "mmap_ready (me_mmap M) conf info1" and op: "\<And>name. le_open ?L name"
    and pd: "\<And>i off. draw_ok g (me_pop_draws M i off)" "\<And>i off. me_pop_results M i off = int (unat (block_size conf))"
    by (auto simp: main_inputs_def Let_def)
  from i have sr: "plain_run conf" "1 \<le> integrity conf" "totblocks conf \<noteq> 0" "nprocs conf < 1000"
    and r: "length (sfmt (rng acc)) = SFMT_N" by (auto simp: launch_inputs_def)
  from sr(1) have t: "totblocks conf = filesize conf div block_size conf" "block_size conf \<noteq> 0" "\<not> distout conf"
    by (auto simp: plain_run_def)
  have "work_procs conf < 1000" using sr(4) by (auto simp: work_procs_def c_half_def)
  from mapped_trackers [OF c(7) t(1) sr(3) t(2) c(4,3) this c(6), of "le_open ?L"] op
  obtain info2 mem2 ts where mm: "loadmmap (me_mmap M) conf info1 = Inr (sharedmem_size conf info1, info2, mem2)"
    "run_ready (le_open ?L) conf info2 ts (length (content_map mem2))" by auto
  let ?s = "\<lparr>p_gen = g, p_mem = mem2, p_fs = fs, p_rng = rng acc\<rparr>"
  have "pop_conf_ok conf (p_gen ?s)"
    using g c(2,5) sr(2) t by (simp add: pop_conf_ok_def check_ready_def gen_ready_def unat_gt_0)
  from populate_stores [OF this, of "me_pop_draws M" "me_pop_results M" "le_open ?L" info2 ts F "le_sys ?L"] pd mm(2) r
  obtain n s' where p: "populate F (le_sys ?L) (le_open ?L) (me_pop_draws M) (me_pop_results M) conf info2 ?s = Inr (n, s')"
    "gen_ok (p_gen s')" "same_gen g (p_gen s')" "length (sfmt (p_rng s')) = SFMT_N"
    "stores_ok (le_open ?L) conf info2 ts (p_gen s') \<lparr>sh_mem = p_mem s', sh_fs = p_fs s'\<rparr>" by auto
  have "clear_statistics conf info1 mem = Inr mem"
    using t(3) foldR_total [where I = "\<lambda>x. x = mem" and xs = "[1 ..< unat (duplicated_blocks info1)]"
      and f = "\<lambda>z mem. if distout conf then set_cell (statistics info1) z 0 mem else Inr mem"]
    by (auto simp: clear_statistics_def)
  then have "prepare_bench F M conf info mem acc fs = Inr (info2, s')"
    using st c(1) sr(2) mm(1) p(1)
    by (simp add: prepare_bench_def init_duplicates_def map_memory_def populate_files_def)
  moreover have "gen_ready conf (p_gen s')" by (rule gen_ready_same [OF g p(3,2)])
  ultimately show ?thesis using g p by blast
qed

text \<open>A run without \<open>distout\<close> ends after the launch.\<close>

lemma bench_main_ok:
  assumes F: "clock_fpu F" and d: "distribution_ok F M conf g1" and st: "start_generator F M conf info = Inr (1, g, info1)"
    and m: "main_inputs M conf g info1 acc t0 n schedule"
  shows "\<exists>b r. bench_main F M conf info mem acc schedule fs = Some (Inr b) \<and> br_launch b = r \<and> br_dist b = None
    \<and> lr_check r = (if integrity conf = 1 \<or> integrity conf = 3 then Some (0, [Header, NoIssues]) else None)
    \<and> (\<forall>i < nat (nprocs conf). \<exists>rep. lr_children r ! i = Ended rep (n i) \<and> report_ok conf i rep (n i))"
proof -
  let ?L = "me_launch M"
  from prepare_bench_ok [OF d st m, of mem fs] obtain info2 s ts where
    p: "prepare_bench F M conf info mem acc fs = Inr (info2, s)" "same_gen g (p_gen s)" "gen_ready conf (p_gen s)"
    "gen_ready conf g" "length (sfmt (p_rng s)) = SFMT_N"
    "stores_ok (le_open ?L) conf info2 ts (p_gen s) \<lparr>sh_mem = p_mem s, sh_fs = p_fs s\<rparr>" by blast
  from m have i: "launch_inputs (le_child ?L) n conf g acc t0" and c: "\<forall>i < nat (nprocs conf). le_fork ?L i"
    "\<forall>i < nat (nprocs conf). n i + 2 \<le> count_list schedule i"
    "\<forall>i off. fst (le_contents ?L i off) \<noteq> -1" "le_rfail ?L = (\<lambda>_ _. False)" "le_results ?L"
    "unat (filesize conf) + unat (block_size conf) \<le> 2 ^ 64" "length (tempfilespath conf) + 25 < PATH_SIZE"
    by (auto simp: main_inputs_def Let_def)
  from i have dist: "\<not> distout conf" by (auto simp: launch_inputs_def plain_run_def)
  have "launch_ready (le_child ?L) n conf g acc t0" by (rule launch_inputs_ready [OF i p(4)])
  from launch_ready_same [OF this p(2)] p(3) have "launch_ready (le_child ?L) n conf (p_gen s) acc t0"
    by (simp add: gen_ready_def)
  then have l: "launch_ready (le_child ?L) n conf (p_gen s) (acc\<lparr>rng := p_rng s\<rparr>) t0"
    using p(5) by (simp add: launch_ready_def)
  from launch_ok [OF F l p(6) c] obtain r where
    r: "launch_benchmark F ?L conf info2 (p_gen s) (acc\<lparr>rng := p_rng s\<rparr>) schedule
      \<lparr>sh_mem = p_mem s, sh_fs = p_fs s\<rparr> = Some (Inr r)"
    "lr_check r = (if integrity conf = 1 \<or> integrity conf = 3 then Some (0, [Header, NoIssues]) else None)"
    "\<forall>i < nat (nprocs conf). \<exists>rep. lr_children r ! i = Ended rep (n i) \<and> report_ok conf i rep (n i)"
    by blast
  let ?b = "\<lparr>br_launch = r, br_dist = None, br_handles = None, br_disk = snd (remove_db DISTDB (me_disk M)),
      br_mem = Some (sh_mem (lr_sys r))\<rparr>"
  have "bench_main F M conf info mem acc schedule fs = Some (Inr ?b)"
    using dist by (simp add: bench_main_def p(1) r(1) finish_bench_def)
  with r(2,3) show ?thesis by (intro exI [of _ ?b] exI [of _ r]) simp
qed

text \<open>With \<open>distout\<close> and blocks with copies, the program dies before the mapping exists.\<close>

lemma distout_main:
  assumes "start_generator F M conf info = Inr (1, g, info1)" and "distout conf" and "statistics info = None"
    and "1 < duplicated_blocks info1"
  shows "bench_main F M conf info mem acc schedule fs = Some (Inl NullPointer)"
proof -
  have "statistics info1 = None"
    using initialize_statistics [OF assms(1) [unfolded start_generator_def]] assms(3) by simp
  moreover have "1 < unat (duplicated_blocks info1)" using assms(4) by (simp add: word_less_nat_alt)
  ultimately have "clear_statistics conf info1 mem = Inl NullPointer"
    using assms(2) by (simp add: clear_statistics_def upt_conv_Cons set_cell_def)
  then show ?thesis using assms(1) by (simp add: bench_main_def prepare_bench_def init_duplicates_def)
qed

end
