(* ===== verification/Dirs.thy ===== *)
theory Dirs
  imports Ctext
begin

text \<open>
  Directories as the program sees them: a tree of names, resolving a path, \<open>stat\<close> and \<open>mkdir\<close>, and
  the recursive \<open>remove_dir\<close>, which \<open>DEDISbench.c\<close> and \<open>DEDISgen.c\<close> both define.
\<close>

section \<open>Definitions\<close>

datatype node = Reg "u8 list" | Dir "(string \<times> node) list"

text \<open>
  The results of the system calls, by path: whether \<open>stat\<close>, \<open>opendir\<close>, \<open>unlink\<close>, \<open>rmdir\<close> and \<open>mkdir\<close>
  succeed where the tree lets them.
\<close>

record dir_env =
  stat_ok :: "string \<Rightarrow> bool"
  opendir_ok :: "string \<Rightarrow> bool"
  unlink_ok :: "string \<Rightarrow> bool"
  rmdir_ok :: "string \<Rightarrow> bool"
  mkdir_ok :: "string \<Rightarrow> bool"

text \<open>
  \<open>remove_dir\<close> gives the result of the function and what is left of the directory; its loop ends at
  the first entry that cannot be removed.
\<close>

fun remove_dir :: "dir_env \<Rightarrow> string \<Rightarrow> node \<Rightarrow> int \<times> node option"
and remove_entries :: "dir_env \<Rightarrow> string \<Rightarrow> (string \<times> node) list \<Rightarrow> int \<times> (string \<times> node) list" where
  "remove_dir E path (Reg b) = (-1, Some (Reg b))"
| "remove_dir E path (Dir es) =
     (if \<not> opendir_ok E path then (-1, Some (Dir es))
      else case remove_entries E path es of (r, es) \<Rightarrow>
        if r \<noteq> 0 then (r, Some (Dir es))
        else if rmdir_ok E path \<and> es = [] then (0, None)
        else (-1, Some (Dir es)))"
| "remove_entries E path [] = (0, [])"
| "remove_entries E path ((p, n) # es) =
     (let buf = path @ ''/'' @ p;
          (r2, left) =
            (if \<not> stat_ok E buf then (-1, Some n)
             else case n of
               Dir sub \<Rightarrow> remove_dir E buf n
             | Reg b \<Rightarrow> if unlink_ok E buf then (0, None) else (-1, Some n));
          rest = (if r2 = 0 then remove_entries E path es else (r2, es))
      in (fst rest, (case left of None \<Rightarrow> [] | Some m \<Rightarrow> [(p, m)]) @ snd rest))"

text \<open>The components of a path, and the node it leads to.\<close>

definition components :: "string \<Rightarrow> string list" where
  "components path = filter (\<lambda>c. c \<noteq> ''.'') (strtok_all CHR ''/'' path)"

fun walk :: "string list \<Rightarrow> node \<Rightarrow> node option" where
  "walk [] n = Some n"
| "walk (c # cs) (Reg b) = None"
| "walk (c # cs) (Dir es) = (case map_of es c of None \<Rightarrow> None | Some n \<Rightarrow> walk cs n)"

definition stat_path :: "dir_env \<Rightarrow> string \<Rightarrow> node \<Rightarrow> bool" where
  "stat_path E path tree \<longleftrightarrow> stat_ok E path \<and> walk (components path) tree \<noteq> None"

text \<open>Replacing the node a path leads to; \<^const>\<open>None\<close> removes it.\<close>

fun put_entry :: "string \<Rightarrow> node option \<Rightarrow> (string \<times> node) list \<Rightarrow> (string \<times> node) list" where
  "put_entry c m [] = (case m of None \<Rightarrow> [] | Some n \<Rightarrow> [(c, n)])"
| "put_entry c m ((d, n) # es) =
     (if c = d then (case m of None \<Rightarrow> es | Some n \<Rightarrow> (c, n) # es) else (d, n) # put_entry c m es)"

fun put_node :: "string list \<Rightarrow> node option \<Rightarrow> node \<Rightarrow> node" where
  "put_node [] m n = (case m of None \<Rightarrow> n | Some n' \<Rightarrow> n')"
| "put_node (c # cs) m (Reg b) = Reg b"
| "put_node (c # cs) m (Dir es) =
     (if cs = [] then Dir (put_entry c m es)
      else case map_of es c of
        None \<Rightarrow> Dir es
      | Some n \<Rightarrow> Dir (put_entry c (Some (put_node cs m n)) es))"

text \<open>\<open>mkdir\<close>: fails when the name exists or its directory does not.\<close>

definition mkdir_path :: "dir_env \<Rightarrow> string \<Rightarrow> node \<Rightarrow> node option" where
  "mkdir_path E path tree =
     (let cs = components path in
      if mkdir_ok E path \<and> cs \<noteq> [] \<and> walk cs tree = None
         \<and> (\<exists>es \<in> set_option (walk (butlast cs) tree). case es of Dir _ \<Rightarrow> True | Reg _ \<Rightarrow> False)
      then Some (put_node cs (Some (Dir [])) tree) else None)"

text \<open>
  \<open>remove_dir(path)\<close> on the whole tree, for the function of either program (\<open>rd\<close>); its callers
  ignore the result.
\<close>

definition remove_path ::
  "(dir_env \<Rightarrow> string \<Rightarrow> node \<Rightarrow> int \<times> node option) \<Rightarrow> dir_env \<Rightarrow> string \<Rightarrow> node \<Rightarrow> node" where
  "remove_path rd E path tree =
     (case walk (components path) tree of
        None \<Rightarrow> tree
      | Some n \<Rightarrow> put_node (components path) (snd (rd E path n)) tree)"

section \<open>Lemmas\<close>

lemma remove_zero: "fst (remove_dir E path n) = 0 \<longleftrightarrow> snd (remove_dir E path n) = None"
  "fst (remove_entries E path es) = 0 \<longleftrightarrow> snd (remove_entries E path es) = []"
  by (induction E path n and E path es rule: remove_dir_remove_entries.induct)
    (auto simp: Let_def split: node.splits prod.splits option.splits if_splits)

definition calls_succeed :: "dir_env \<Rightarrow> bool" where
  "calls_succeed E \<longleftrightarrow> (\<forall>p. stat_ok E p \<and> opendir_ok E p \<and> unlink_ok E p \<and> rmdir_ok E p)"

lemma remove_all:
  "calls_succeed E \<Longrightarrow> remove_dir E path (Dir es) = (0, None)"
  "calls_succeed E \<Longrightarrow> remove_entries E path es = (0, [])"
proof (induction E path "Dir es" and E path es arbitrary: es rule: remove_dir_remove_entries.induct)
  case (4 E path p n es)
  then show ?case by (cases n) (auto simp: calls_succeed_def Let_def)
qed (auto simp: calls_succeed_def)

section \<open>Properties\<close>

text \<open>
  \<open>remove_dir\<close> returns 0 exactly when it has removed the whole directory, and it does remove a
  directory with everything below it when the calls it makes succeed.
\<close>

lemma remove_dir_result:
  "(fst (remove_dir E path n) = 0 \<longleftrightarrow> snd (remove_dir E path n) = None)
   \<and> (calls_succeed E \<longrightarrow> remove_dir E path (Dir es) = (0, None))"
  using remove_zero(1) remove_all(1) by blast

text \<open>A directory in which one file cannot be removed: the entries behind it are kept.\<close>

definition demo_env :: "string \<Rightarrow> dir_env" where
  "demo_env bad = \<lparr>stat_ok = (\<lambda>_. True), opendir_ok = (\<lambda>_. True), unlink_ok = (\<lambda>p. p \<noteq> bad),
     rmdir_ok = (\<lambda>_. True), mkdir_ok = (\<lambda>_. True)\<rparr>"

lemma remove_dir_result_witness:
  "remove_dir ((demo_env [])\<lparr>unlink_ok := (\<lambda>_. True)\<rparr>) ''d'' (Dir [(''a'', Reg []), (''b'', Dir [(''c'', Reg [])])]) = (0, None)
   \<and> snd (remove_dir (demo_env ''d/b'') ''d'' (Dir [(''a'', Reg []), (''b'', Reg []), (''c'', Reg [])]))
       = Some (Dir [(''b'', Reg []), (''c'', Reg [])])"
proof -
  have "calls_succeed ((demo_env [])\<lparr>unlink_ok := (\<lambda>_. True)\<rparr>)"
    by (simp add: calls_succeed_def demo_env_def)
  with remove_dir_result show ?thesis by (simp add: demo_env_def Let_def)
qed

end
