(* ===== verification/Dedisgen.thy ===== *)
theory Dedisgen
  imports Berk Dirs Files
begin

text \<open>
  \<open>DEDISgen.c\<close>: the analysis of a folder or device.  Every file is cut into blocks of each chosen
  size, a database per size counts how often each block hash occurs, and a second database counts
  how many distinct blocks have each number of duplicates, which is the distribution that DEDISbench
  reads.

  SHA1 and Berkeley DB are parameters, as are the descriptors \<open>open\<close> returns and the reads that fail.
\<close>

section \<open>Counting one block\<close>

text \<open>\<open>sprintf\<close>-free printing of a hash: two letters per byte, the low half first.\<close>

definition nibble_char :: "u8 \<Rightarrow> char" where
  "nibble_char n = char_of (unat n + 97)"

definition hash_name :: "u8 list \<Rightarrow> string" where
  "hash_name result = concat (map (\<lambda>b.
     [nibble_char (and b 0x0f), nibble_char (drop_bit 4 (and b 0xf0))]) (take 20 result))"

text \<open>The counters and the database of one block size.\<close>

record 's size_state =
  total_scanned :: u64
  eq_blocks :: u64
  dif_blocks :: u64
  distinctdup :: u64
  space :: u64
  dup_db :: "'s db"

record 's scan_state =
  per_size :: "'s size_state list"
  processed_blocks :: u64
  nfiles :: u64

definition count_hash :: "(string, 's) bdb \<Rightarrow> string \<Rightarrow> u64 \<Rightarrow> 's size_state \<Rightarrow> 's size_state res" where
  "count_hash B h bsize z =
     bindR (get_db B h (dup_db z)) (\<lambda>ret.
       case ret of
         DB_NOTFOUND \<Rightarrow>
           bindR (put_db B h 1 (dup_db z)) (\<lambda>d.
             Inr (z\<lparr>total_scanned := total_scanned z + 1, dif_blocks := dif_blocks z + 1, dup_db := d\<rparr>))
       | RET_OK v \<Rightarrow>
           bindR (put_db B h (v + 1) (dup_db z)) (\<lambda>d.
             Inr (z\<lparr>total_scanned := total_scanned z + 1, eq_blocks := eq_blocks z + 1,
               distinctdup := (if v = 1 then distinctdup z + 1 else distinctdup z),
               space := space z + bsize, dup_db := d\<rparr>))
       | DB_ERR \<Rightarrow> Inl UninitRead)"

definition check_duplicates ::
  "(u8 list \<Rightarrow> u8 list) \<Rightarrow> (string, 's) bdb \<Rightarrow> u8 list \<Rightarrow> u64 \<Rightarrow> nat \<Rightarrow> 's scan_state \<Rightarrow> 's scan_state res" where
  "check_duplicates sha B block bsize i s =
     bindR (aget (per_size s) i) (\<lambda>z.
     bindR (count_hash B (hash_name (sha block)) bsize z) (\<lambda>z.
       Inr (s\<lparr>per_size := (per_size s)[i := z], processed_blocks := processed_blocks s + 1\<rparr>)))"

section \<open>Cutting a file into blocks\<close>

definition READSIZE :: nat where "READSIZE = 5242880"

text \<open>
  The blocks of one size in the \<open>aux\<close> bytes read; \<open>size_block\<close> is an \<open>int\<close>.  A negative size makes
  \<open>malloc\<close> fail, and with size 0 the loop does not end.
\<close>

partial_function (option) cut_loop ::
  "(u8 list \<Rightarrow> 's \<Rightarrow> 's res) \<Rightarrow> u8 list \<Rightarrow> int \<Rightarrow> int \<Rightarrow> 's \<Rightarrow> 's res option" where
  "cut_loop step dat size_block proced s =
     (if int (length dat) - proced \<ge> size_block then
        if size_block < 0 then Some (Inl NullPointer)
        else case step (take (nat size_block) (drop (nat proced) dat)) s of
               Inl e \<Rightarrow> Some (Inl e)
             | Inr s \<Rightarrow> cut_loop step dat size_block (proced + size_block) s
      else Some (Inr s))"

text \<open>The sizes come from \<open>atoi\<close>; an element \<open>str_split\<close> has not written is \<^const>\<open>None\<close>.\<close>

definition process_size ::
  "(u8 list \<Rightarrow> u8 list) \<Rightarrow> (string, 's) bdb \<Rightarrow> int option list \<Rightarrow> u8 list \<Rightarrow> nat \<Rightarrow> 's scan_state \<Rightarrow> 's scan_state res"
where
  "process_size sha B sizes dat i s =
     (case sizes ! i of
        None \<Rightarrow> Inl UninitRead
      | Some b \<Rightarrow> of_loop (cut_loop (\<lambda>block. check_duplicates sha B block (word_of_int b) i) dat b 0 s))"

text \<open>
  The reads of \<open>READSIZE\<close> bytes until one delivers nothing or fails.  \<open>rok\<close> tells at which offsets
  \<open>pread\<close> works.
\<close>

function read_loop ::
  "(u8 list \<Rightarrow> 's \<Rightarrow> 's res) \<Rightarrow> (nat \<Rightarrow> bool) \<Rightarrow> u8 list \<Rightarrow> nat \<Rightarrow> 's \<Rightarrow> 's res" where
  "read_loop step rok f off s =
     (if \<not> rok off \<or> length f \<le> off then Inr s
      else bindR (step (pread_file f off READSIZE) s) (read_loop step rok f (off + READSIZE)))"
  by pat_completeness auto
termination
  by (relation "measure (\<lambda>(step, rok, f, off, s). length f - off)") (auto simp: READSIZE_def)

declare read_loop.simps [simp del]

text \<open>
  \<open>extract_blocks\<close>.  The file opened at a path; \<open>fd\<close> is the descriptor, -1 when \<open>open\<close> fails: only
  the descriptor 0 is treated as an error, and a failed open is a file without blocks.
\<close>

record scan_env =
  fd_of :: "string \<Rightarrow> int"
  read_ok :: "string \<Rightarrow> nat \<Rightarrow> bool"
  can_opendir :: "string \<Rightarrow> bool"
  disk :: node

definition file_at :: "node \<Rightarrow> string \<Rightarrow> u8 list" where
  "file_at tree path = (case walk (components path) tree of Some (Reg b) \<Rightarrow> b | _ \<Rightarrow> [])"

definition extract_blocks ::
  "(u8 list \<Rightarrow> u8 list) \<Rightarrow> (string, 's) bdb \<Rightarrow> scan_env \<Rightarrow> int option list \<Rightarrow> string \<Rightarrow> 's scan_state \<Rightarrow>
   's scan_state res" where
  "extract_blocks sha B E sizes filename s =
     (if fd_of E filename = 0 then Inl (Exited 1)
      else read_loop (\<lambda>dat s. foldR (process_size sha B sizes dat) [0 ..< length sizes] s)
             (\<lambda>off. 0 < fd_of E filename \<and> read_ok E filename off) (file_at (disk E) filename) 0 s)"

section \<open>Searching a directory\<close>

definition MAXSIZEP :: nat where "MAXSIZEP = 10000"

text \<open>
  \<open>search_dir\<close>: the paths are built by appending the name to the path given, in an array of
  \<open>MAXSIZEP\<close> characters; a directory that cannot be opened is skipped.
\<close>

function search_dir ::
  "(u8 list \<Rightarrow> u8 list) \<Rightarrow> (string, 's) bdb \<Rightarrow> scan_env \<Rightarrow> int option list \<Rightarrow> string \<Rightarrow> 's scan_state \<Rightarrow>
   's scan_state res" where
  "search_dir sha B E sizes path s =
     (if MAXSIZEP \<le> length path then Inl OutOfBounds
      else case (if can_opendir E path then walk (components path) (disk E) else None) of
        Some (Dir es) \<Rightarrow>
          foldR (\<lambda>(name, n) s.
            let newpath = path @ name in
            if MAXSIZEP \<le> length newpath then Inl OutOfBounds
            else case n of
              Dir sub \<Rightarrow> search_dir sha B E sizes (newpath @ ''/'') s
            | Reg b \<Rightarrow> bindR (extract_blocks sha B E sizes newpath s) (\<lambda>s.
                Inr (s\<lparr>nfiles := nfiles s + 1\<rparr>))) es s
      | _ \<Rightarrow> Inr s)"
  by pat_completeness auto
termination
  by (relation "measure (\<lambda>(sha, B, E, sizes, path, s). MAXSIZEP - length path)") auto

declare search_dir.simps [simp del]


section \<open>The distribution\<close>

text \<open>\<open>gen_output\<close>, the same function in \<open>DEDISgen.c\<close> and \<open>DEDISgen-utils.c\<close>.\<close>

definition gen_output ::
  "(string, 's) bdb \<Rightarrow> (u64, 'p) bdb \<Rightarrow> 's db \<Rightarrow> 'p db \<Rightarrow> 'p db res" where
  "gen_output B P d p =
     bindR (cursor B d) (\<lambda>rs. foldR (\<lambda>(h, cont). count_up P (cont - 1) 1) rs p)"

section \<open>Options\<close>

text \<open>
  \<open>str_split\<close> adds the number of sizes to the sizes counted so far, but starts a new array, whose
  last elements are then not written.
\<close>

definition str_split :: "string \<Rightarrow> int option list \<Rightarrow> int option list" where
  "str_split a sizes =
     (let nr = length sizes + length (filter (\<lambda>c. c = CHR '','') a) + 1;
          toks = strtok_all CHR '','' a
      in map (\<lambda>i. if i < length toks then Some (atoi (toks ! i)) else None) [0 ..< nr])"

text \<open>The variables of \<open>main\<close>; a path no option has set is \<^const>\<open>None\<close>.\<close>

datatype device_type = NO_TYPE | FOLDER | DEVICE

record gen_opts =
  devicetype :: device_type
  devicepath :: "string option"
  outputpath :: "string option"
  dbfolderpath :: "string option"
  removedb :: bool
  sizes_proc :: "int option list"

definition initial_opts :: gen_opts where
  "initial_opts = \<lparr>devicetype = NO_TYPE, devicepath = None, outputpath = None, dbfolderpath = None,
     removedb = True, sizes_proc = []\<rparr>"

text \<open>\<open>usage\<close> and \<open>help\<close> end the program with status 8; paths are copied into 100 characters.\<close>

definition copy100 :: "string \<Rightarrow> string option res" where
  "copy100 v = (if length v < 100 then Inr (Some v) else Inl OutOfBounds)"

definition gen_option :: "string \<Rightarrow> gen_opts \<Rightarrow> gen_opts res" where
  "gen_option arg p =
     (let c = take 1 (drop 1 arg); v = drop 2 arg in
      if c = ''f'' then
        (if devicetype p \<noteq> DEVICE then Inr (p\<lparr>devicetype := FOLDER\<rparr>) else Inl (Exited 8))
      else if c = ''d'' then
        (if devicetype p \<noteq> FOLDER then Inr (p\<lparr>devicetype := DEVICE\<rparr>) else Inl (Exited 8))
      else if c = ''p'' then bindR (copy100 v) (\<lambda>v. Inr (p\<lparr>devicepath := v\<rparr>))
      else if c = ''o'' then bindR (copy100 v) (\<lambda>v. Inr (p\<lparr>outputpath := v\<rparr>))
      else if c = ''b'' then Inr (p\<lparr>sizes_proc := str_split v (sizes_proc p)\<rparr>)
      else if c = ''z'' then bindR (copy100 v) (\<lambda>v. Inr (p\<lparr>dbfolderpath := v\<rparr>))
      else if c = ''k'' then Inr (p\<lparr>removedb := False\<rparr>)
      else Inl (Exited 8))"

fun gen_options :: "string list \<Rightarrow> gen_opts \<Rightarrow> gen_opts res" where
  "gen_options [] p = Inr p"
| "gen_options (a # as) p =
     (if take 1 a = ''-'' then bindR (gen_option a p) (gen_options as) else Inr p)"

definition gen_check :: "gen_opts \<Rightarrow> gen_opts res" where
  "gen_check p =
     (if devicetype p = NO_TYPE then Inl (Exited 8)
      else case devicepath p of
        None \<Rightarrow> Inl UninitRead
      | Some path \<Rightarrow>
          if path = [] then Inl (Exited 8)
          else Inr (if sizes_proc p = [] then p\<lparr>sizes_proc := [Some 4096]\<rparr> else p))"

section \<open>The program\<close>

definition PRINTDB :: string where "PRINTDB = ''gendbs/printdb/''"
definition DUPLICATEDB :: string where "DUPLICATEDB = ''gendbs/duplicatedb/''"

text \<open>The copy of \<open>remove_dir\<close> in \<open>DEDISgen.c\<close> differs in the type of a buffer only.\<close>

definition gen_remove_dir :: "dir_env \<Rightarrow> string \<Rightarrow> node \<Rightarrow> int \<times> node option" where
  "gen_remove_dir = remove_dir"

text \<open>The database folders of the size with index \<open>aux\<close>.\<close>

definition db_paths :: "gen_opts \<Rightarrow> nat \<Rightarrow> (string \<times> string) res" where
  "db_paths p aux =
     (let sizeid = show_nat aux;
          dup = (case dbfolderpath p of None \<Rightarrow> DUPLICATEDB | Some f \<Rightarrow> f) @ sizeid
      in if 5 \<le> length sizeid \<or> 100 \<le> length dup then Inl OutOfBounds
         else Inr (PRINTDB @ sizeid, dup))"

text \<open>
  What the rest of \<open>main\<close> depends on: the handles \<open>init_db\<close> leaves for a folder after \<open>remove_db\<close>, the
  effect of \<open>mkdir -p\<close>, and which output files can be opened.
\<close>

record ('s, 'p) gen_env =
  scan_env +
  rm_env :: dir_env
  mkdir_p :: "string \<Rightarrow> node \<Rightarrow> node"
  open_dup :: "string \<Rightarrow> 's db"
  open_print :: "string \<Rightarrow> 'p db"
  fopen_ok :: "string \<Rightarrow> bool"

definition gen_prepare ::
  "('s, 'p) gen_env \<Rightarrow> gen_opts \<Rightarrow> (('s, 'p) gen_env \<times> 's scan_state \<times> 'p db list) res" where
  "gen_prepare E p =
     (let E = (if removedb p
               then E\<lparr>disk := remove_path gen_remove_dir (rm_env E) ''./gendbs''
                         (remove_path gen_remove_dir (rm_env E) ''./benchdbs'' (disk E))\<rparr>
               else E)
      in foldR (\<lambda>aux (E, s, ps).
           bindR (db_paths p aux) (\<lambda>(pr, du).
             Inr (E\<lparr>disk := mkdir_p E du (mkdir_p E pr (disk E))\<rparr>,
                  s\<lparr>per_size := per_size s @ [\<lparr>total_scanned = 0, eq_blocks = 0, dif_blocks = 0,
                     distinctdup = 0, space = 0, dup_db = open_dup E du\<rparr>]\<rparr>,
                  ps @ [open_print E pr]))) [0 ..< length (sizes_proc p)]
           (E, \<lparr>per_size = [], processed_blocks = 0, nfiles = 0\<rparr>, []))"

text \<open>The scan itself.\<close>

definition gen_scan ::
  "(u8 list \<Rightarrow> u8 list) \<Rightarrow> (string, 's) bdb \<Rightarrow> ('s, 'p) gen_env \<Rightarrow> gen_opts \<Rightarrow> 's scan_state \<Rightarrow> 's scan_state res"
where
  "gen_scan sha B E p s =
     (case devicepath p of None \<Rightarrow> Inl UninitRead
      | Some path \<Rightarrow>
          if devicetype p = FOLDER then search_dir sha B (scan_env.truncate E) (sizes_proc p) path s
          else extract_blocks sha B (scan_env.truncate E) (sizes_proc p) path s)"

text \<open>
  The results of one size: the figures printed, and with \<open>-o\<close> the lines of the distribution file and
  of the file with the aggregated histogram.
\<close>

record size_report =
  r_size :: int
  r_files :: u64
  r_total :: u64
  r_zerodups :: u64
  r_distinctdup :: u64
  r_dup :: u64
  r_space :: u64
  r_dist :: "((u64 \<times> u64) list \<times> cumul_line list) option"

definition gen_distribution ::
  "(string, 's) bdb \<Rightarrow> (u64, 'p) bdb \<Rightarrow> ('s, 'p) gen_env \<Rightarrow> string \<Rightarrow> int \<Rightarrow> 's db \<Rightarrow> 'p db \<Rightarrow>
   ((u64 \<times> u64) list \<times> cumul_line list) res" where
  "gen_distribution B P E out sz d p =
     bindR (gen_output B P d p) (\<lambda>p.
       let sizeid = show_int sz; name = out @ sizeid in
       if 10 \<le> length sizeid \<or> 100 \<le> length (name @ ''cumul'') then Inl OutOfBounds
       else if \<not> fopen_ok E name then Inl NullStream
       else bindR (print_elements_print P (fopen_ok E (name @ ''cumul'')) p) (\<lambda>r.
         if fopen_ok E (name @ ''cumul'') \<and> fopen_ok E (name @ ''plot'') then Inr r else Inl NullStream))"

definition gen_report ::
  "(string, 's) bdb \<Rightarrow> (u64, 'p) bdb \<Rightarrow> ('s, 'p) gen_env \<Rightarrow> gen_opts \<Rightarrow> 's scan_state \<Rightarrow> 'p db list \<Rightarrow> nat \<Rightarrow>
   size_report list \<Rightarrow> size_report list res" where
  "gen_report B P E p s ps aux reps =
     (case sizes_proc p ! aux of None \<Rightarrow> Inl UninitRead
      | Some sz \<Rightarrow>
          bindR (aget (per_size s) aux) (\<lambda>z.
          bindR (case outputpath p of
                   None \<Rightarrow> Inr None
                 | Some out \<Rightarrow> bindR (aget ps aux) (\<lambda>pr.
                     bindR (gen_distribution B P E out sz (dup_db z) pr) (\<lambda>r. Inr (Some r)))) (\<lambda>dist.
            Inr (reps @ [\<lparr>r_size = sz, r_files = nfiles s, r_total = total_scanned z,
              r_zerodups = dif_blocks z - distinctdup z, r_distinctdup = distinctdup z,
              r_dup = eq_blocks z, r_space = space z, r_dist = dist\<rparr>]))))"

definition dedisgen_main ::
  "(u8 list \<Rightarrow> u8 list) \<Rightarrow> (string, 's) bdb \<Rightarrow> (u64, 'p) bdb \<Rightarrow> ('s, 'p) gen_env \<Rightarrow> string list \<Rightarrow>
   size_report list res" where
  "dedisgen_main sha B P E args =
     bindR (gen_options args initial_opts) (\<lambda>p.
     bindR (gen_check p) (\<lambda>p.
     bindR (gen_prepare E p) (\<lambda>(E, s, ps).
     bindR (gen_scan sha B E p s) (\<lambda>s.
       foldR (gen_report B P E p s ps) [0 ..< length (sizes_proc p)] []))))"

section \<open>Blocks of a file\<close>

definition chunks :: "nat \<Rightarrow> u8 list \<Rightarrow> u8 list list" where
  "chunks n xs = map (\<lambda>i. take n (drop (i * n) xs)) [0 ..< length xs div n]"

definition pieces :: "nat \<Rightarrow> u8 list \<Rightarrow> u8 list list" where
  "pieces n xs = map (\<lambda>i. take n (drop (i * n) xs)) [0 ..< (length xs + n - 1) div n]"

text \<open>The blocks of size \<open>b\<close> that are scanned: those of each piece of \<open>READSIZE\<close> bytes.\<close>

definition file_blocks :: "nat \<Rightarrow> u8 list \<Rightarrow> u8 list list" where
  "file_blocks b f = concat (map (chunks b) (pieces READSIZE f))"

lemma cut_loop_chunks:
  assumes "0 < n" and "k \<le> length dat div n"
  shows "cut_loop step dat (int n) (int (k * n)) s
    = Some (foldR step (map (\<lambda>i. take n (drop (i * n) dat)) [k ..< length dat div n]) s)"
  using assms(2)
proof (induction "length dat div n - k" arbitrary: k s)
  case 0
  then have k: "k = length dat div n" by simp
  have "length dat < k * n + n" using assms(1) div_mult_mod_eq [of "length dat" n] mod_less_divisor [of n "length dat"]
    unfolding k by linarith
  then have "\<not> int n \<le> int (length dat) - int (k * n)" by linarith
  then show ?case using k by (subst cut_loop.simps) simp
next
  case (Suc m)
  then have k: "k < length dat div n" by simp
  then have "Suc k * n \<le> length dat" using assms(1) by (simp add: less_eq_div_iff_mult_less_eq Suc_le_eq [symmetric] del: mult_Suc)
  then have "n + k * n \<le> length dat" by simp
  then have g: "int n \<le> int (length dat) - int (k * n)" by linarith
  have up: "[k ..< length dat div n] = k # [Suc k ..< length dat div n]" using k by (rule upt_conv_Cons)
  have IH: "cut_loop step dat (int n) (int (k * n) + int n) s'
      = Some (foldR step (map (\<lambda>i. take n (drop (i * n) dat)) [Suc k ..< length dat div n]) s')" for s'
    using Suc.hyps(1) [of "Suc k" s'] Suc.hyps(2) k by (simp add: add.commute)
  have "nat (int (k * n)) = k * n" by (rule nat_int)
  with g IH show ?case
    by (subst cut_loop.simps) (simp add: up del: of_nat_mult split: sum.split)
qed

lemma cut_loop_all:
  "0 < b \<Longrightarrow> of_loop (cut_loop step dat b 0 s) = foldR step (chunks (nat b) dat) s"
  using cut_loop_chunks [of "nat b" 0 dat step s] by (simp add: chunks_def)

text \<open>With block size 0 the loop never ends as long as its steps succeed.\<close>

lemma cut_loop_zero:
  assumes "I s" and "\<And>s. I s \<Longrightarrow> \<exists>s'. step [] s = Inr s' \<and> I s'"
  shows "cut_loop step dat 0 0 s = None"
proof -
  have "\<not> (step' = step \<and> b = 0 \<and> p = 0 \<and> I t)" if "cut_loop step' dat' b p t = Some r" for step' dat' b p t r
  proof (rule cut_loop.raw_induct [OF _ that, where P = "\<lambda>step' dat' b p t r. \<not> (step' = step \<and> b = 0 \<and> p = 0 \<and> I t)"])
    fix cl step' dat' b p t r
    assume IH: "\<And>step' dat' b p t r. cl step' dat' b p t = Some r \<Longrightarrow> \<not> (step' = step \<and> b = 0 \<and> p = 0 \<and> I t)"
      and eq: "(if b \<le> int (length dat') - p then
          if b < 0 then Some (Inl NullPointer)
          else case step' (take (nat b) (drop (nat p) dat')) t of
                 Inl e \<Rightarrow> Some (Inl e) | Inr s \<Rightarrow> cl step' dat' b (p + b) s
        else Some (Inr t)) = Some r"
    show "\<not> (step' = step \<and> b = 0 \<and> p = 0 \<and> I t)"
    proof
      assume a: "step' = step \<and> b = 0 \<and> p = 0 \<and> I t"
      then obtain t' where t': "step [] t = Inr t'" "I t'" using assms(2) by blast
      with a eq have "cl step dat' 0 0 t' = Some r" by simp
      with IH t'(2) show False by blast
    qed
  qed
  then show ?thesis using assms(1) by (cases "cut_loop step dat 0 0 s") auto
qed

section \<open>What is counted\<close>

text \<open>
  The figures of a list of block hashes: how many, how many distinct ones, how many repetitions, how
  many distinct ones that occur again; and the table that counts each.
\<close>

definition repeated :: "'a list \<Rightarrow> 'a set" where
  "repeated hs = {h \<in> set hs. 2 \<le> count_list hs h}"

definition hash_table :: "'a list \<Rightarrow> 'a \<Rightarrow> u64 option" where
  "hash_table hs h = (if h \<in> set hs then Some (word_of_nat (count_list hs h)) else None)"

definition counted :: "('s \<Rightarrow> bool) \<Rightarrow> ('s \<Rightarrow> string \<Rightarrow> u64 option) \<Rightarrow> int \<Rightarrow> string list \<Rightarrow> 's size_state \<Rightarrow> bool"
where
  "counted ok content b hs z \<longleftrightarrow>
     total_scanned z = word_of_nat (length hs)
     \<and> dif_blocks z = word_of_nat (card (set hs))
     \<and> eq_blocks z = word_of_nat (length hs - card (set hs))
     \<and> distinctdup z = word_of_nat (card (repeated hs))
     \<and> space z = word_of_nat (length hs - card (set hs)) * word_of_int b
     \<and> db_ok ok (dup_db z) \<and> db_table content (dup_db z) = hash_table hs"

lemma count_list_snoc: "count_list (hs @ [h]) k = count_list hs k + (if h = k then 1 else 0)"
  by simp

lemma count_list_le: "count_list hs h \<le> length hs"
  by (induction hs) auto

lemma repeated_snoc:
  "repeated (hs @ [h]) = (if h \<in> set hs then insert h (repeated hs) else repeated hs)"
proof -
  have "0 < count_list hs k" if "k \<in> set hs" for k using that count_list_0_iff [of hs k] by auto
  then have "2 \<le> count_list hs k + 1" if "k \<in> set hs" for k using that by fastforce
  then show ?thesis by (auto simp: repeated_def count_list_0_iff)
qed

lemma repeated_finite [simp]: "finite (repeated hs)"
  by (simp add: repeated_def)

lemma hash_table_snoc:
  "hash_table (hs @ [h]) = (hash_table hs)(h \<mapsto> 1 + (case hash_table hs h of None \<Rightarrow> 0 | Some v \<Rightarrow> v))"
  by (rule ext) (auto simp: hash_table_def count_list_0_iff)

text \<open>A database with the block hashes as keys.\<close>

locale string_store = hash_store B ok content
  for B :: "(string, 's) bdb" and ok and content
begin

lemma count_hash_ok:
  assumes c: "counted ok content b hs z" and len: "length hs + 1 < 2 ^ 64"
  shows "\<exists>z'. count_hash B h (word_of_int b) z = Inr z' \<and> counted ok content b (hs @ [h]) z'"
proof -
  have d: "db_ok ok (dup_db z)" "db_table content (dup_db z) = hash_table hs"
    using c by (simp_all add: counted_def)
  have cl: "card (set hs) \<le> length hs" by (rule card_length)
  show ?thesis
  proof (cases "h \<in> set hs")
    case False
    from put_db_ok [OF d(1), of h 1] obtain d' where
      d': "put_db B h 1 (dup_db z) = Inr d'" "db_ok ok d'" "db_table content d' = (hash_table hs)(h \<mapsto> 1)"
      unfolding d(2) by blast
    have "get_db B h (dup_db z) = Inr DB_NOTFOUND"
      using get_db_ok [OF d(1), of h] False by (simp add: d(2) hash_table_def)
    with d' c False cl show ?thesis
      by (simp add: count_hash_def counted_def hash_table_snoc repeated_snoc, simp add: hash_table_def)
  next
    case True
    let ?v = "word_of_nat (count_list hs h) :: u64"
    from put_db_ok [OF d(1), of h "?v + 1"] obtain d' where
      d': "put_db B h (?v + 1) (dup_db z) = Inr d'" "db_ok ok d'"
        "db_table content d' = (hash_table hs)(h \<mapsto> ?v + 1)"
      unfolding d(2) by blast
    have g: "get_db B h (dup_db z) = Inr (RET_OK ?v)"
      using get_db_ok [OF d(1), of h] True by (simp add: d(2) hash_table_def)
    have pos: "0 < count_list hs h" using True count_list_0_iff [of hs h] by auto
    have "unat ?v = count_list hs h"
      using count_list_le [of hs h] len by (intro unat_of_nat_small) simp
    then have one: "?v = 1 \<longleftrightarrow> count_list hs h = 1" by (metis unat_1 of_nat_1)
    have new: "h \<in> repeated hs \<longleftrightarrow> count_list hs h \<noteq> 1" using True pos by (auto simp: repeated_def)
    have ins: "set (hs @ [h]) = set hs" using True by auto
    have dd: "word_of_nat (card (repeated (hs @ [h]))) =
        (if ?v = 1 then word_of_nat (card (repeated hs)) + 1 else word_of_nat (card (repeated hs)) :: u64)"
      using new one True by (auto simp: repeated_snoc insert_absorb add.commute)
    have su: "length (hs @ [h]) - card (set (hs @ [h])) = Suc (length hs - card (set hs))"
      "Suc (length hs) - card (set hs) = Suc (length hs - card (set hs))"
      unfolding ins using cl by simp_all
    have ht: "hash_table (hs @ [h]) = (hash_table hs)(h \<mapsto> ?v + 1)"
      using True by (simp add: hash_table_snoc, simp add: hash_table_def add.commute)
    let ?z = "z\<lparr>total_scanned := total_scanned z + 1, eq_blocks := eq_blocks z + 1,
       distinctdup := (if ?v = 1 then distinctdup z + 1 else distinctdup z),
       space := space z + word_of_int b, dup_db := d'\<rparr>"
    have "count_hash B h (word_of_int b) z = Inr ?z" by (simp add: count_hash_def g d')
    moreover have "counted ok content b (hs @ [h]) ?z"
      using c d' unfolding counted_def su(1) dd ht ins by (simp add: su(2) distrib_right add.commute)
    ultimately show ?thesis by blast
  qed
qed

end

interpretation mem_string: string_store mem_bdb mem_ok map_of
  by unfold_locales

section \<open>Scanning\<close>

lemma piece_end: "0 < n \<Longrightarrow> length f \<le> k * n \<longleftrightarrow> (length f + n - 1) div n \<le> (k :: nat)"
proof -
  assume n: "0 < n"
  have "(length f + n - 1) div n \<le> k \<longleftrightarrow> length f + n - 1 < Suc k * n"
    using n by (simp add: less_Suc_eq_le [symmetric] div_less_iff_less_mult del: mult_Suc)
  also have "\<dots> \<longleftrightarrow> length f \<le> k * n" using n by auto
  finally show ?thesis by simp
qed

lemma read_loop_from:
  "read_loop step (\<lambda>_. True) f (k * READSIZE) s
     = foldR step (map (\<lambda>i. take READSIZE (drop (i * READSIZE) f)) [k ..< (length f + READSIZE - 1) div READSIZE]) s"
proof (induction "(length f + READSIZE - 1) div READSIZE - k" arbitrary: k s)
  case 0
  then have "length f \<le> k * READSIZE" using piece_end [of READSIZE f k] by (simp add: READSIZE_def)
  with 0 show ?case by (subst read_loop.simps) simp
next
  case (Suc m)
  then have k: "k < (length f + READSIZE - 1) div READSIZE" by simp
  then have g: "\<not> length f \<le> k * READSIZE" using piece_end [of READSIZE f k] by (simp add: READSIZE_def)
  have "read_loop step (\<lambda>_. True) f (k * READSIZE + READSIZE) s'
      = foldR step (map (\<lambda>i. take READSIZE (drop (i * READSIZE) f)) [Suc k ..< (length f + READSIZE - 1) div READSIZE]) s'" for s'
    using Suc.hyps(1) [of "Suc k" s'] Suc.hyps(2) k by (simp add: add.commute)
  then have "read_loop step (\<lambda>_. True) f (k * READSIZE + READSIZE)
      = foldR step (map (\<lambda>i. take READSIZE (drop (i * READSIZE) f)) [Suc k ..< (length f + READSIZE - 1) div READSIZE])"
    by (rule ext)
  with g show ?case
    unfolding upt_conv_Cons [OF k] by (subst read_loop.simps) (simp add: pread_file_def del: upt_Suc)
qed

lemma read_loop_all: "read_loop step (\<lambda>_. True) f 0 s = foldR step (pieces READSIZE f) s"
  using read_loop_from [of step f 0 s] by (simp add: pieces_def)

definition hashes :: "(u8 list \<Rightarrow> u8 list) \<Rightarrow> u8 list list \<Rightarrow> string list" where
  "hashes sha blocks = map (\<lambda>b. hash_name (sha b)) blocks"

lemma hashes_simps [simp]:
  "hashes sha [] = []" "hashes sha (b # bs) = hash_name (sha b) # hashes sha bs"
  "hashes sha (bs @ cs) = hashes sha bs @ hashes sha cs" "length (hashes sha bs) = length bs"
  by (simp_all add: hashes_def)

definition scan_inv ::
  "('s \<Rightarrow> bool) \<Rightarrow> ('s \<Rightarrow> string \<Rightarrow> u64 option) \<Rightarrow> int list \<Rightarrow> (nat \<Rightarrow> string list) \<Rightarrow> 's scan_state \<Rightarrow> bool"
where
  "scan_inv ok content bs H s \<longleftrightarrow> length (per_size s) = length bs
     \<and> (\<forall>i < length bs. counted ok content (bs ! i) (H i) (per_size s ! i))"

context string_store
begin

lemma check_ok:
  assumes "scan_inv ok content bs H s" and "i < length bs" and "length (H i) + 1 < 2 ^ 64"
  shows "\<exists>s'. check_duplicates sha B block (word_of_int (bs ! i)) i s = Inr s'
    \<and> scan_inv ok content bs (H(i := H i @ [hash_name (sha block)])) s' \<and> nfiles s' = nfiles s"
proof -
  have "counted ok content (bs ! i) (H i) (per_size s ! i)" using assms(1,2) by (simp add: scan_inv_def)
  from count_hash_ok [OF this assms(3), of "hash_name (sha block)"] obtain z' where
    z': "count_hash B (hash_name (sha block)) (word_of_int (bs ! i)) (per_size s ! i) = Inr z'"
    "counted ok content (bs ! i) (H i @ [hash_name (sha block)]) z'" by blast
  with assms(1,2) show ?thesis
    by (auto simp: check_duplicates_def res_simps scan_inv_def nth_list_update)
qed

lemma blocks_ok:
  assumes "scan_inv ok content bs H s" and "i < length bs" and "length (H i) + length blks < 2 ^ 64"
  shows "\<exists>s'. foldR (\<lambda>block. check_duplicates sha B block (word_of_int (bs ! i)) i) blks s = Inr s'
    \<and> scan_inv ok content bs (H(i := H i @ hashes sha blks)) s' \<and> nfiles s' = nfiles s"
  using assms
proof (induction blks arbitrary: H s)
  case (Cons b blks)
  from Cons.prems(3) have "length (H i) + 1 < 2 ^ 64" by simp
  from check_ok [OF Cons.prems(1,2) this, of sha b] obtain s1 where
    s1: "check_duplicates sha B b (word_of_int (bs ! i)) i s = Inr s1"
    "scan_inv ok content bs (H(i := H i @ [hash_name (sha b)])) s1" "nfiles s1 = nfiles s" by blast
  have "(H(i := H i @ [hash_name (sha b)]))(i := (H(i := H i @ [hash_name (sha b)])) i @ hashes sha blks)
      = H(i := H i @ hashes sha (b # blks))" by (rule ext) simp
  note IH = Cons.IH [OF s1(2) Cons.prems(2), unfolded this]
  have "length ((H(i := H i @ [hash_name (sha b)])) i) + length blks < 2 ^ 64" using Cons.prems(3) by simp
  from IH [OF this] s1 show ?case by fastforce
qed simp

lemma size_ok:
  assumes "scan_inv ok content bs H s" and "i < length bs" and "0 < bs ! i"
    and "length (H i) + length (chunks (nat (bs ! i)) dat) < 2 ^ 64"
  shows "\<exists>s'. process_size sha B (map Some bs) dat i s = Inr s'
    \<and> scan_inv ok content bs (H(i := H i @ hashes sha (chunks (nat (bs ! i)) dat))) s' \<and> nfiles s' = nfiles s"
  using blocks_ok [OF assms(1,2,4)] assms(2,3) by (simp add: process_size_def cut_loop_all)

lemma sizes_ok:
  assumes "scan_inv ok content bs H s" and "\<forall>b \<in> set bs. 0 < b" and "n \<le> length bs"
    and "\<forall>i < length bs. length (H i) + length (chunks (nat (bs ! i)) dat) < 2 ^ 64"
  shows "\<exists>s'. foldR (process_size sha B (map Some bs) dat) [0 ..< n] s = Inr s'
    \<and> scan_inv ok content bs (\<lambda>i. if i < n then H i @ hashes sha (chunks (nat (bs ! i)) dat) else H i) s'
    \<and> nfiles s' = nfiles s"
  using assms(3)
proof (induction n)
  case 0
  with assms(1) show ?case by simp
next
  case (Suc n)
  let ?H = "\<lambda>i. if i < n then H i @ hashes sha (chunks (nat (bs ! i)) dat) else H i"
  from Suc obtain s1 where s1: "foldR (process_size sha B (map Some bs) dat) [0 ..< n] s = Inr s1"
    "scan_inv ok content bs ?H s1" "nfiles s1 = nfiles s" by auto
  have "n < length bs" "0 < bs ! n" using Suc.prems assms(2) by auto
  from size_ok [OF s1(2) this, of dat sha] this assms(4) obtain s2 where
    s2: "process_size sha B (map Some bs) dat n s1 = Inr s2"
    "scan_inv ok content bs (?H(n := ?H n @ hashes sha (chunks (nat (bs ! n)) dat))) s2" "nfiles s2 = nfiles s1"
    by auto
  have "?H(n := ?H n @ hashes sha (chunks (nat (bs ! n)) dat))
      = (\<lambda>i. if i < Suc n then H i @ hashes sha (chunks (nat (bs ! i)) dat) else H i)"
    by (rule ext) auto
  with s1 s2 show ?case by (simp add: foldR_append)
qed

lemma pieces_ok:
  assumes "scan_inv ok content bs H s" and "\<forall>b \<in> set bs. 0 < b"
    and "\<forall>i < length bs. length (H i) + length (concat (map (chunks (nat (bs ! i))) ps)) < 2 ^ 64"
  shows "\<exists>s'. foldR (\<lambda>dat s. foldR (process_size sha B (map Some bs) dat) [0 ..< length bs] s) ps s = Inr s'
    \<and> scan_inv ok content bs (\<lambda>i. H i @ hashes sha (concat (map (chunks (nat (bs ! i))) ps))) s'
    \<and> nfiles s' = nfiles s"
  using assms(1,3)
proof (induction ps arbitrary: H s)
  case (Cons p ps)
  let ?H = "\<lambda>i. if i < length bs then H i @ hashes sha (chunks (nat (bs ! i)) p) else H i"
  have "\<forall>i < length bs. length (H i) + length (chunks (nat (bs ! i)) p) < 2 ^ 64"
    using Cons.prems(2) by auto
  from sizes_ok [OF Cons.prems(1) assms(2) order_refl this, of sha] obtain s1 where
    s1: "foldR (process_size sha B (map Some bs) p) [0 ..< length bs] s = Inr s1"
    "scan_inv ok content bs ?H s1" "nfiles s1 = nfiles s" by blast
  have "\<forall>i < length bs. length (?H i) + length (concat (map (chunks (nat (bs ! i))) ps)) < 2 ^ 64"
    using Cons.prems(2) by (auto simp: add.assoc)
  from Cons.IH [OF s1(2) this] s1 show ?case by (auto simp: scan_inv_def)
qed simp

text \<open>One file.\<close>

lemma extract_ok:
  assumes "scan_inv ok content bs H s" and "\<forall>b \<in> set bs. 0 < b"
    and "0 < fd_of E name" and "\<forall>off. read_ok E name off" and "file_at (disk E) name = f"
    and "\<forall>i < length bs. length (H i) + length (file_blocks (nat (bs ! i)) f) < 2 ^ 64"
  shows "\<exists>s'. extract_blocks sha B E (map Some bs) name s = Inr s'
    \<and> scan_inv ok content bs (\<lambda>i. H i @ hashes sha (file_blocks (nat (bs ! i)) f)) s' \<and> nfiles s' = nfiles s"
  using pieces_ok [OF assms(1,2), of "pieces READSIZE f" sha] assms(3-6)
  by (simp add: extract_blocks_def read_loop_all file_blocks_def)

end

section \<open>Paths\<close>

lemma getlines_from_cut:
  "getlines_from sep (xs @ sep # ys) cur = getlines_from sep (xs @ [sep]) cur @ getlines_from sep ys None"
  by (induction xs arbitrary: cur) (auto simp: Let_def)

lemma strtok_cut: "strtok_all sep (xs @ sep # ys) = strtok_all sep (xs @ [sep]) @ strtok_all sep ys"
  by (simp add: strtok_all_def getlines_def getlines_from_cut [of sep xs ys])

lemma strtok_token: "sep \<notin> set t \<Longrightarrow> t \<noteq> [] \<Longrightarrow> strtok_all sep t = [t] \<and> strtok_all sep (t @ [sep]) = [t]"
  using getlines_from_run [of sep "tl t" "[]" "[hd t]"] getlines_from_run [of sep "tl t" "[sep]" "[hd t]"]
  by (cases t) (auto simp: strtok_all_def getlines_def Let_def)

definition name_valid :: "string \<Rightarrow> bool" where
  "name_valid c \<longleftrightarrow> c \<noteq> [] \<and> c \<noteq> ''.'' \<and> CHR ''/'' \<notin> set c"

lemma components_name:
  assumes "path = [] \<or> last path = CHR ''/''" and "name_valid c"
  shows "components (path @ c) = components path @ [c]"
    "components (path @ c @ ''/'') = components path @ [c]"
proof -
  have t: "strtok_all CHR ''/'' c = [c]" "strtok_all CHR ''/'' (c @ ''/'') = [c]"
    using strtok_token [of "CHR ''/''" c] assms(2) by (simp_all add: name_valid_def)
  have e: "strtok_all CHR ''/'' [] = []" by (simp add: strtok_all_def getlines_def)
  have dot: "c \<noteq> ''.''" using assms(2) by (simp add: name_valid_def)
  have "components (path @ c) = components path @ [c] \<and> components (path @ c @ ''/'') = components path @ [c]"
  proof (cases "path = []")
    case True
    with t dot show ?thesis by (simp add: components_def e)
  next
    case False
    then have p: "path = butlast path @ ''/''" using assms(1) by (metis append_butlast_last_id)
    have "strtok_all CHR ''/'' (path @ x) = strtok_all CHR ''/'' path @ strtok_all CHR ''/'' x" for x
    proof -
      have "path @ x = butlast path @ CHR ''/'' # x" by (subst p) simp
      then show ?thesis using strtok_cut [of "CHR ''/''" "butlast path" x] p by metis
    qed
    with t dot show ?thesis by (simp add: components_def)
  qed
  then show "components (path @ c) = components path @ [c]"
    "components (path @ c @ ''/'') = components path @ [c]" by auto
qed

lemma walk_append:
  "walk (p @ q) n = (case walk p n of None \<Rightarrow> None | Some m \<Rightarrow> walk q m)"
  by (induction p n rule: walk.induct) (auto split: option.split)

text \<open>A tree with proper names, and the files below a path in the order of the directories.\<close>

fun names_valid :: "(string \<times> node) list \<Rightarrow> bool" where
  "names_valid [] = True"
| "names_valid ((c, n) # es) \<longleftrightarrow> name_valid c \<and> c \<notin> fst ` set es
     \<and> (case n of Reg b \<Rightarrow> True | Dir sub \<Rightarrow> names_valid sub) \<and> names_valid es"

fun files_below :: "string \<Rightarrow> (string \<times> node) list \<Rightarrow> (string \<times> u8 list) list" where
  "files_below path [] = []"
| "files_below path ((c, n) # es) =
     (case n of Reg b \<Rightarrow> [(path @ c, b)] | Dir sub \<Rightarrow> files_below (path @ c @ ''/'') sub) @ files_below path es"

fun paths_fit :: "string \<Rightarrow> (string \<times> node) list \<Rightarrow> bool" where
  "paths_fit path [] = True"
| "paths_fit path ((c, n) # es) \<longleftrightarrow> length (path @ c @ ''/'') < MAXSIZEP
     \<and> (case n of Reg b \<Rightarrow> True | Dir sub \<Rightarrow> paths_fit (path @ c @ ''/'') sub) \<and> paths_fit path es"

lemma names_valid_map: "names_valid es \<Longrightarrow> (c, n) \<in> set es \<Longrightarrow> map_of es c = Some n"
  by (induction es rule: names_valid.induct) force+

section \<open>A search is a scan of the files below\<close>

definition scan_file ::
  "(u8 list \<Rightarrow> u8 list) \<Rightarrow> (string, 's) bdb \<Rightarrow> scan_env \<Rightarrow> int option list \<Rightarrow> string \<Rightarrow> 's scan_state \<Rightarrow> 's scan_state res"
where
  "scan_file sha B E sizes path s =
     bindR (extract_blocks sha B E sizes path s) (\<lambda>s. Inr (s\<lparr>nfiles := nfiles s + 1\<rparr>))"

lemma search_entries:
  assumes "names_valid es" and "paths_fit path es" and "path = [] \<or> last path = CHR ''/''"
    and "\<forall>(c, n) \<in> set es. walk (components (path @ c)) (disk E) = Some n" and "\<forall>p. can_opendir E p"
  shows "foldR (\<lambda>(name, n) s.
            let newpath = path @ name in
            if MAXSIZEP \<le> length newpath then Inl OutOfBounds
            else case n of
              Dir sub \<Rightarrow> search_dir sha B E sizes (newpath @ ''/'') s
            | Reg b \<Rightarrow> bindR (extract_blocks sha B E sizes newpath s) (\<lambda>s.
                Inr (s\<lparr>nfiles := nfiles s + 1\<rparr>))) es s
    = foldR (scan_file sha B E sizes) (map fst (files_below path es)) s"
    (is "foldR (?g path) es s = _")
  using assms(1-4)
proof (induction path es arbitrary: s rule: files_below.induct)
  case (2 path c n es)
  have IH: "foldR (?g path) es s' = foldR (scan_file sha B E sizes) (map fst (files_below path es)) s'" for s'
    using "2.prems" by (intro "2.IH"(2)) auto
  then have IH': "foldR (?g path) es = foldR (scan_file sha B E sizes) (map fst (files_below path es))"
    by (rule ext)
  have fit: "length (path @ c @ ''/'') < MAXSIZEP" using "2.prems"(2) by simp
  have c: "name_valid c" using "2.prems"(1) by simp
  note comp = components_name [OF "2.prems"(3) c]
  have w: "walk (components path @ [c]) (disk E) = Some n" using "2.prems"(4) comp(1) by simp
  show ?case
  proof (cases n)
    case (Reg b)
    with IH fit show ?thesis by (simp add: scan_file_def [of sha B E sizes "path @ c"] Let_def bindR_assoc)
  next
    case (Dir sub)
    have sub: "names_valid sub" "paths_fit (path @ c @ ''/'') sub"
      using "2.prems"(1,2) Dir by auto
    have "\<forall>(d, m) \<in> set sub. walk (components ((path @ c @ ''/'') @ d)) (disk E) = Some m"
    proof clarify
      fix d m assume dm: "(d, m) \<in> set sub"
      then have "map_of sub d = Some m" by (rule names_valid_map [OF sub(1)])
      moreover have "name_valid d" using sub(1) dm by (induction sub rule: names_valid.induct) auto
      then have "components ((path @ c @ ''/'') @ d) = (components path @ [c]) @ [d]"
        using components_name(1) [of "path @ c @ ''/''" d] comp(2) by simp
      ultimately show "walk (components ((path @ c @ ''/'') @ d)) (disk E) = Some m"
        using w Dir walk_append [of "components path @ [c]" "[d]" "disk E"] by simp
    qed
    then have "foldR (?g (path @ c @ ''/'')) sub s' =
        foldR (scan_file sha B E sizes) (map fst (files_below (path @ c @ ''/'') sub)) s'" for s'
      using sub by (intro "2.IH"(1) [OF Dir]) auto
    then have "search_dir sha B E sizes (path @ c @ ''/'') s' =
        foldR (scan_file sha B E sizes) (map fst (files_below (path @ c @ ''/'') sub)) s'" for s'
      using fit w Dir assms(5) comp(2) by (subst search_dir.simps) simp
    with IH' fit Dir show ?thesis by (simp add: foldR_append Let_def)
  qed
qed simp

lemma search_files:
  assumes "names_valid es" and "paths_fit path es" and "path = [] \<or> last path = CHR ''/''"
    and "walk (components path) (disk E) = Some (Dir es)" and "\<forall>p. can_opendir E p" and "length path < MAXSIZEP"
  shows "search_dir sha B E sizes path s = foldR (scan_file sha B E sizes) (map fst (files_below path es)) s"
proof -
  have "\<forall>(c, n) \<in> set es. walk (components (path @ c)) (disk E) = Some n"
  proof clarify
    fix c n assume cn: "(c, n) \<in> set es"
    then have "map_of es c = Some n" by (rule names_valid_map [OF assms(1)])
    moreover have "name_valid c" using assms(1) cn by (induction es rule: names_valid.induct) auto
    ultimately show "walk (components (path @ c)) (disk E) = Some n"
      using components_name(1) [OF assms(3)] assms(4) by (simp add: walk_append)
  qed
  note e = search_entries [OF assms(1,2,3) this assms(5)]
  have "\<not> MAXSIZEP \<le> length path" using assms(6) by simp
  then show ?thesis
    by (subst search_dir.simps)
      (simp only: e assms(4) spec [OF assms(5)] if_False if_True option.case node.case)
qed

text \<open>The files found are those of the tree.\<close>

lemma files_below_at:
  assumes "names_valid es" and "path = [] \<or> last path = CHR ''/''"
    and "walk (components path) tree = Some (Dir es')" and "set es \<subseteq> set es'" and "names_valid es'"
  shows "\<forall>(p, b) \<in> set (files_below path es). file_at tree p = b"
  using assms
proof (induction path es arbitrary: es' rule: files_below.induct)
  case (2 path c n es)
  have c: "name_valid c" using "2.prems"(1) by simp
  note comp = components_name [OF "2.prems"(2) c]
  have "map_of es' c = Some n" using "2.prems"(4,5) by (intro names_valid_map) auto
  then have w: "walk (components path @ [c]) tree = Some n" using "2.prems"(3) by (simp add: walk_append)
  have rest: "\<forall>(p, b) \<in> set (files_below path es). file_at tree p = b"
    using "2.prems" by (intro "2.IH"(2) [of es']) auto
  show ?case
  proof (cases n)
    case (Reg b)
    with w comp rest show ?thesis by (auto simp: file_at_def)
  next
    case (Dir sub)
    have "\<forall>(p, b) \<in> set (files_below (path @ c @ ''/'') sub). file_at tree p = b"
      using "2.prems"(1) Dir w comp by (intro "2.IH"(1) [OF Dir, of sub]) auto
    with Dir rest show ?thesis by auto
  qed
qed simp

definition all_blocks :: "int \<Rightarrow> (string \<times> u8 list) list \<Rightarrow> u8 list list" where
  "all_blocks b fs = concat (map (\<lambda>(p, f). file_blocks (nat b) f) fs)"

definition readable :: "scan_env \<Rightarrow> bool" where
  "readable E \<longleftrightarrow> (\<forall>p. can_opendir E p \<and> 0 < fd_of E p \<and> (\<forall>off. read_ok E p off))"

context string_store
begin

lemma files_ok:
  assumes "scan_inv ok content bs H s" and "\<forall>b \<in> set bs. 0 < b" and "readable E"
    and "\<forall>(p, f) \<in> set fs. file_at (disk E) p = f"
    and "\<forall>i < length bs. length (H i) + length (all_blocks (bs ! i) fs) < 2 ^ 64"
  shows "\<exists>s'. foldR (scan_file sha B E (map Some bs)) (map fst fs) s = Inr s'
    \<and> scan_inv ok content bs (\<lambda>i. H i @ hashes sha (all_blocks (bs ! i) fs)) s'
    \<and> nfiles s' = nfiles s + word_of_nat (length fs)"
  using assms(1,4,5)
proof (induction fs arbitrary: H s)
  case Nil
  then show ?case by (simp add: all_blocks_def)
next
  case (Cons pf fs)
  obtain p f where pf: "pf = (p, f)" by (cases pf)
  let ?H = "\<lambda>i. H i @ hashes sha (file_blocks (nat (bs ! i)) f)"
  have "\<forall>i < length bs. length (H i) + length (file_blocks (nat (bs ! i)) f) < 2 ^ 64"
    using Cons.prems(3) by (auto simp: all_blocks_def pf)
  with extract_ok [OF Cons.prems(1) assms(2), of E p f sha] assms(3) Cons.prems(2) obtain s1 where
    s1: "extract_blocks sha B E (map Some bs) p s = Inr s1" "scan_inv ok content bs ?H s1" "nfiles s1 = nfiles s"
    by (auto simp: readable_def pf)
  let ?s = "s1\<lparr>nfiles := nfiles s1 + 1\<rparr>"
  have "scan_inv ok content bs ?H ?s" using s1(2) by (simp add: scan_inv_def)
  moreover have "\<forall>i < length bs. length (?H i) + length (all_blocks (bs ! i) fs) < 2 ^ 64"
    using Cons.prems(3) by (auto simp: all_blocks_def pf add.assoc)
  ultimately obtain s2 where s2: "foldR (scan_file sha B E (map Some bs)) (map fst fs) ?s = Inr s2"
    "scan_inv ok content bs (\<lambda>i. ?H i @ hashes sha (all_blocks (bs ! i) fs)) s2"
    "nfiles s2 = nfiles ?s + word_of_nat (length fs)"
    using Cons.IH [of ?H ?s] Cons.prems(2) by auto
  from s1 have "scan_file sha B E (map Some bs) p s = Inr ?s" by (simp add: scan_file_def)
  with s2 s1(3) show ?case by (simp add: pf all_blocks_def add.assoc)
qed

lemma search_ok:
  assumes "scan_inv ok content bs (\<lambda>_. []) s" and "\<forall>b \<in> set bs. 0 < b" and "readable E"
    and "names_valid es" and "paths_fit path es" and "path = [] \<or> last path = CHR ''/''"
    and "walk (components path) (disk E) = Some (Dir es)" and "length path < MAXSIZEP"
    and "\<forall>i < length bs. length (all_blocks (bs ! i) (files_below path es)) < 2 ^ 64"
  shows "\<exists>s'. search_dir sha B E (map Some bs) path s = Inr s'
    \<and> scan_inv ok content bs (\<lambda>i. hashes sha (all_blocks (bs ! i) (files_below path es))) s'
    \<and> nfiles s' = nfiles s + word_of_nat (length (files_below path es))"
proof -
  have "\<forall>p. can_opendir E p" using assms(3) by (simp add: readable_def)
  note sf = search_files [OF assms(4-7) this assms(8), of sha B "map Some bs" s]
  show ?thesis
    using files_ok [OF assms(1-3) files_below_at [OF assms(4,6,7) order_refl assms(4)], of sha] assms(9)
    by (simp add: sf)
qed

end

section \<open>The distribution of the duplicates\<close>

lemma count_pred:
  assumes "0 < c" and "c < 2 ^ 64"
  shows "word_of_nat c - 1 = (k :: u64) \<longleftrightarrow> c = unat k + 1"
proof -
  have u: "unat (word_of_nat c :: u64) = c" using assms(2) by (intro unat_of_nat_small) simp
  then have "(1 :: u64) \<le> word_of_nat c" using assms(1) by (simp add: word_le_nat_alt)
  then have "unat (word_of_nat c - 1 :: u64) = c - 1" using u by (simp add: unat_minus_small)
  then have "word_of_nat c - 1 = k \<longleftrightarrow> c - 1 = unat k" by (metis word_unat_eq_iff)
  with assms(1) show ?thesis by auto
qed

definition with_duplicates :: "'a list \<Rightarrow> nat \<Rightarrow> 'a set" where
  "with_duplicates hs k = {h \<in> set hs. count_list hs h = k + 1}"

lemma records_with_duplicates:
  assumes "distinct (map fst rs)" and "map_of rs = hash_table hs" and "length hs < 2 ^ 64"
  shows "length (filter (\<lambda>(h, c). c - 1 = k) rs) = card (with_duplicates hs (unat k))"
proof -
  have d: "distinct (map fst (filter (\<lambda>(h, c). c - 1 = k) rs))"
    using assms(1) by (rule distinct_map_filter_fst)
  have "(h, c) \<in> set rs \<longleftrightarrow> h \<in> set hs \<and> c = word_of_nat (count_list hs h)" for h c
    using map_of_eq_Some_iff [OF assms(1), of h c] by (auto simp: assms(2) hash_table_def split: if_splits)
  then have "h \<in> fst ` set (filter (\<lambda>(h, c). c - 1 = k) rs) \<longleftrightarrow> h \<in> with_duplicates hs (unat k)" for h
  proof -
    assume rs: "\<And>h c. (h, c) \<in> set rs \<longleftrightarrow> h \<in> set hs \<and> c = word_of_nat (count_list hs h)"
    have "h \<in> set hs \<Longrightarrow> 0 < count_list hs h" using count_list_0_iff [of hs h] by auto
    moreover have "count_list hs h < 2 ^ 64" using count_list_le [of hs h] assms(3) by linarith
    ultimately have "h \<in> set hs \<Longrightarrow> word_of_nat (count_list hs h) - 1 = k \<longleftrightarrow> count_list hs h = unat k + 1"
      by (rule count_pred)
    with rs show ?thesis by (auto simp: with_duplicates_def image_iff)
  qed
  then have "fst ` set (filter (\<lambda>(h, c). c - 1 = k) rs) = with_duplicates hs (unat k)" by blast
  with distinct_card [OF d] show ?thesis by simp
qed

lemma gen_output_table:
  assumes B: "hash_store B ok content" and P: "hash_store P okp contentp"
    and d: "db_ok ok d" "db_table content d = hash_table hs" and len: "length hs < 2 ^ 64"
    and p: "db_ok okp p" "db_table contentp p = (\<lambda>_. None)"
  shows "\<exists>p'. gen_output B P d p = Inr p' \<and> db_ok okp p'
    \<and> db_table contentp p' = (\<lambda>k. if with_duplicates hs (unat k) = {} then None
        else Some (word_of_nat (card (with_duplicates hs (unat k)))))"
proof -
  from hash_store.cursor_ok [OF B d(1)] obtain rs where
    rs: "cursor B d = Inr rs" "distinct (map fst rs)" "map_of rs = hash_table hs"
    unfolding d(2) by blast
  have ct: "counter_table (count_up P) (db_table contentp) (db_ok okp)"
    using hash_store.count_up_ok [OF P] by (intro counter_table.intro) blast
  let ?ps = "map (\<lambda>(h, c). (c - 1, 1)) rs :: (u64 \<times> u64) list"
  from counter_table.add_all [OF ct p(1), of ?ps] obtain p' where
    p': "foldR (\<lambda>(k, n). count_up P k n) ?ps p = Inr p'" "db_ok okp p'"
    "db_table contentp p' = (\<lambda>k. if k \<in> fst ` set ?ps
        then Some (sum_list (map snd (filter (\<lambda>q. fst q = k) ?ps)) + (case None of None \<Rightarrow> 0 | Some v \<Rightarrow> v)) else None)"
    unfolding p(2) by blast
  have "foldR (\<lambda>(k, n). count_up P k n) ?ps p = foldR (\<lambda>(h, cont). count_up P (cont - 1) 1) rs p"
    by (induction rs arbitrary: p) (auto simp: bindR_def split: sum.split)
  then have run: "gen_output B P d p = Inr p'" using p'(1) rs(1) by (simp add: gen_output_def)
  have f: "filter (\<lambda>q. fst q = k) ?ps = map (\<lambda>(h, c). (c - 1, 1)) (filter (\<lambda>(h, c). c - 1 = k) rs)" for k
    by (induction rs) auto
  have "sum_list (map snd (map (\<lambda>(h, c). (c - 1, 1)) xs) :: u64 list) = word_of_nat (length xs)"
    for xs :: "(string \<times> u64) list"
    by (induction xs) auto
  then have s: "sum_list (map snd (filter (\<lambda>q. fst q = k) ?ps)) = word_of_nat (card (with_duplicates hs (unat k)))" for k
    by (simp only: f records_with_duplicates [OF rs(2,3) len])
  have "k \<in> fst ` set ?ps \<longleftrightarrow> filter (\<lambda>q. fst q = k) ?ps \<noteq> []" for k
    by (force simp: filter_empty_conv)
  also have "\<dots> k \<longleftrightarrow> length (filter (\<lambda>(h, c). c - 1 = k) rs) \<noteq> 0" for k by (simp only: f) simp
  also have "\<dots> k \<longleftrightarrow> with_duplicates hs (unat k) \<noteq> {}" for k
    by (simp only: records_with_duplicates [OF rs(2,3) len]) (simp add: with_duplicates_def)
  finally have "k \<in> fst ` set ?ps \<longleftrightarrow> with_duplicates hs (unat k) \<noteq> {}" for k .
  with s have "db_table contentp p' = (\<lambda>k. if with_duplicates hs (unat k) = {} then None
        else Some (word_of_nat (card (with_duplicates hs (unat k)))))"
    by (intro ext) (simp only: p'(3), simp)
  with run p'(2) show ?thesis by blast
qed

section \<open>Names of hashes\<close>

lemma nibbles: "nibble_char (and b 0x0f) = nibble_char (and c 0x0f) \<Longrightarrow>
    nibble_char (drop_bit 4 (and b 0xf0)) = nibble_char (drop_bit 4 (and c 0xf0)) \<Longrightarrow> b = c"
proof -
  have inj: "unat x < 16 \<Longrightarrow> unat y < 16 \<Longrightarrow> nibble_char x = nibble_char y \<Longrightarrow> x = y" for x y
  proof -
    assume xy: "unat x < 16" "unat y < 16" "nibble_char x = nibble_char y"
    then have "(of_char (nibble_char x) :: nat) = of_char (nibble_char y)" by simp
    with xy(1,2) have "unat x = unat y" by (simp add: nibble_char_def take_bit_eq_mod)
    then show "x = y" by (simp add: word_unat_eq_iff)
  qed
  have lo: "unat (and x 0x0f) = unat x mod 16" for x :: u8
  proof -
    have "and x 0x0f = take_bit 4 x" by (simp add: take_bit_eq_mask mask_eq_exp_minus_1)
    then show ?thesis by (simp add: take_bit_eq_mod unat_mod)
  qed
  have hi: "unat (drop_bit 4 (and x 0xf0)) = unat x div 16" for x :: u8
  proof -
    have "drop_bit 4 (and x 0xf0) = and (drop_bit 4 x) 0x0f" by simp
    then have "unat (drop_bit 4 (and x 0xf0)) = unat (drop_bit 4 x) mod 16" by (simp only: lo)
    also have "unat (drop_bit 4 x) = unat x div 16" by (simp add: drop_bit_eq_div unat_div)
    finally have "unat (drop_bit 4 (and x 0xf0)) = unat x div 16 mod 16" .
    moreover have "unat x < 256" by (rule order_less_le_trans [OF unsigned_less]) simp
    ultimately show ?thesis by simp
  qed
  have le: "unat x div 16 < 16" for x :: u8
  proof -
    have "unat x < 256" by (rule order_less_le_trans [OF unsigned_less]) simp
    then show ?thesis by simp
  qed
  assume "nibble_char (and b 0x0f) = nibble_char (and c 0x0f)"
    and "nibble_char (drop_bit 4 (and b 0xf0)) = nibble_char (drop_bit 4 (and c 0xf0))"
  then have "and b 0x0f = and c 0x0f" "drop_bit 4 (and b 0xf0) = drop_bit 4 (and c 0xf0)"
    by (intro inj; simp only: lo hi le; simp)+
  then have "unat b mod 16 = unat c mod 16" "unat b div 16 = unat c div 16"
    by (metis lo, metis hi)
  then have "unat b = unat c" by (metis div_mult_mod_eq)
  then show "b = c" by (simp add: word_unat_eq_iff)
qed

lemma hash_name_inj:
  assumes "length a = 20" and "length b = 20" and "hash_name a = hash_name b"
  shows "a = b"
proof -
  let ?f = "\<lambda>b. [nibble_char (and b 0x0f), nibble_char (drop_bit 4 (and b 0xf0))]"
  have "length a = length b \<Longrightarrow> concat (map ?f a) = concat (map ?f b) \<Longrightarrow> a = b" for a b
    by (induction a b rule: list_induct2) (auto dest: nibbles)
  with assms show ?thesis by (simp add: hash_name_def)
qed

lemma chunks_nth: "i < length f div b \<Longrightarrow> chunks b f ! i = take b (drop (i * b) f)"
  by (simp add: chunks_def)

lemma length_chunks [simp]: "length (chunks b f) = length f div b"
  by (simp add: chunks_def)

lemma chunks_append:
  assumes "0 < b" and "b dvd length xs"
  shows "chunks b (xs @ ys) = chunks b xs @ chunks b ys"
proof (rule nth_equalityI)
  from assms(2) obtain m where m: "length xs = b * m" by blast
  show "length (chunks b (xs @ ys)) = length (chunks b xs @ chunks b ys)"
    using assms(1) by (simp add: m)
  fix i assume "i < length (chunks b (xs @ ys))"
  then have i: "i < m + length ys div b" using assms(1) by (simp add: m)
  show "chunks b (xs @ ys) ! i = (chunks b xs @ chunks b ys) ! i"
  proof (cases "i < m")
    case True
    then have "Suc i * b \<le> m * b" by (intro mult_le_mono1) simp
    then have "b + i * b \<le> length xs" by (simp add: m mult.commute)
    with True i assms(1) show ?thesis by (simp add: chunks_def nth_append m)
  next
    case False
    then have "i * b - length xs = (i - m) * b" by (simp add: m diff_mult_distrib2 mult.commute)
    moreover have "length xs \<le> i * b" using False by (simp add: m mult.commute)
    ultimately show ?thesis using False i assms(1) by (simp add: chunks_def nth_append m)
  qed
qed

lemma pieces_step:
  assumes "0 < n" and "f \<noteq> []"
  shows "pieces n f = take n f # pieces n (drop n f)"
proof (rule nth_equalityI)
  have l: "(length f + n - 1) div n = Suc ((length (drop n f) + n - 1) div n)"
  proof (cases "n \<le> length f")
    case True
    have "(length f + n - 1) div n = ((length (drop n f) + n - 1) + n) div n"
      using True assms(1) by (intro arg_cong [where f = "\<lambda>x. x div n"]) simp
    also have "\<dots> = (length (drop n f) + n - 1) div n + 1" by (rule div_add_self2) (use assms(1) in simp)
    finally show ?thesis by (simp only: Suc_eq_plus1)
  next
    case False
    then have e: "length f + n - 1 = (length f - 1) + n" using assms by (cases f) auto
    have "(length f + n - 1) div n = Suc ((length f - 1) div n)" unfolding e using assms(1) by simp
    with False assms show ?thesis by simp
  qed
  then show "length (pieces n f) = length (take n f # pieces n (drop n f))" by (simp add: pieces_def)
  fix i assume "i < length (pieces n f)"
  with l show "pieces n f ! i = (take n f # pieces n (drop n f)) ! i"
    by (cases i) (simp_all add: pieces_def add.commute del: upt_Suc)
qed

lemma pieces_Nil [simp]: "0 < n \<Longrightarrow> pieces n [] = []"
  by (simp add: pieces_def)

lemma pieces_chunks:
  assumes "0 < b" and "b dvd n" and "0 < n"
  shows "concat (map (chunks b) (pieces n f)) = chunks b f"
proof (induction "length f" arbitrary: f rule: less_induct)
  case less
  show ?case
  proof (cases "f = []")
    case False
    note p = pieces_step [OF assms(3) False]
    show ?thesis
    proof (cases "n \<le> length f")
      case True
      have "concat (map (chunks b) (pieces n (drop n f))) = chunks b (drop n f)"
        using False assms(3) by (intro less) simp
      then show ?thesis
        using chunks_append [OF assms(1), of "take n f" "drop n f"] assms(2) True by (simp add: p min_def)
    next
      case False
      then show ?thesis using assms(3) by (simp add: p)
    qed
  qed (use assms in \<open>simp add: chunks_def\<close>)
qed

context string_store
begin

lemma check_runs:
  assumes "i < length (per_size s)" and "db_ok ok (dup_db (per_size s ! i))"
  shows "\<exists>s'. check_duplicates sha B block b i s = Inr s' \<and> i < length (per_size s')
    \<and> db_ok ok (dup_db (per_size s' ! i))"
proof -
  let ?d = "dup_db (per_size s ! i)" and ?h = "hash_name (sha block)"
  have "\<exists>z. count_hash B ?h b (per_size s ! i) = Inr z \<and> db_ok ok (dup_db z)"
  proof (cases "db_table content ?d ?h")
    case None
    with get_db_ok [OF assms(2), of ?h] put_db_ok [OF assms(2), of ?h 1] show ?thesis
      by (auto simp: count_hash_def)
  next
    case (Some v)
    with get_db_ok [OF assms(2), of ?h] put_db_ok [OF assms(2), of ?h "v + 1"] show ?thesis
      by (auto simp: count_hash_def)
  qed
  with assms(1) show ?thesis by (auto simp: check_duplicates_def res_simps)
qed

lemma zero_size:
  assumes "i < length (per_size s)" and "db_ok ok (dup_db (per_size s ! i))" and "sizes ! i = Some 0"
  shows "process_size sha B sizes dat i s = Inl NoReturn"
proof -
  have "cut_loop (\<lambda>block. check_duplicates sha B block 0 i) dat 0 0 s = None"
    by (rule cut_loop_zero [where I = "\<lambda>s. i < length (per_size s) \<and> db_ok ok (dup_db (per_size s ! i))"])
      (use assms(1,2) check_runs in auto)
  with assms(3) show ?thesis by (simp add: process_size_def)
qed

end

section \<open>Properties\<close>


text \<open>
  The distribution DEDISgen writes for a scanned folder has, for every number of duplicates \<open>k\<close>
  that occurs, the number of distinct blocks with \<open>k + 1\<close> occurrences, and no other entry.
\<close>

lemma scan_distribution:
  assumes "hash_store B ok content" and "hash_store P okp contentp" and "counted ok content b hs z"
    and "length hs < 2 ^ 64" and "db_ok okp p" and "db_table contentp p = (\<lambda>_. None)"
  shows "\<exists>p'. gen_output B P (dup_db z) p = Inr p' \<and> db_ok okp p'
    \<and> db_table contentp p' = (\<lambda>k. if with_duplicates hs (unat k) = {} then None
        else Some (word_of_nat (card (with_duplicates hs (unat k)))))"
  using gen_output_table [OF assms(1,2) _ _ assms(4-6), of "dup_db z"] assms(3) by (simp add: counted_def)

text \<open>
  The keys of the database tell different hashes apart: the letters are an injective encoding of
  the 20 bytes.
\<close>

lemma hash_name_injective:
  assumes "length a = 20" and "length b = 20"
  shows "hash_name a = hash_name b \<longleftrightarrow> a = b"
  using hash_name_inj [OF assms] by blast


text \<open>
  C26: with block size 0, which \<open>-b\<close> accepts and which any word that is not a number stands for, the
  analysis never ends once a file has delivered data.
\<close>

theorem zero_block_size_hangs:
  assumes "hash_store B ok content" and "i < length (per_size s)" and "db_ok ok (dup_db (per_size s ! i))"
    and "sizes ! i = Some 0"
  shows "process_size sha B sizes dat i s = Inl NoReturn"
  using string_store.zero_size [OF string_store.intro [OF assms(1)] assms(2-4)] .

text \<open>
  A file that cannot be opened is not reported: its descriptor -1 passes the test of
  \<open>extract_blocks\<close>, the file counts as scanned, and no block is counted.
\<close>

lemma unopened_file_is_counted:
  assumes "fd_of E path = -1"
  shows "scan_file sha B E sizes path s = Inr (s\<lparr>nfiles := nfiles s + 1\<rparr>)"
  using assms by (simp add: scan_file_def extract_blocks_def read_loop.simps)

section \<open>A concrete analysis\<close>

text \<open>
  A folder with a file of five bytes and a folder with one of two, cut into blocks of two bytes; the
  hash is the padded block.
\<close>

definition demo_sha :: "u8 list \<Rightarrow> u8 list" where
  "demo_sha b = take 20 (b @ replicate 20 0)"

definition demo_dir :: "(string \<times> node) list" where
  "demo_dir = [(''a'', Reg [1, 2, 1, 2, 3]), (''d'', Dir [(''b'', Reg [7, 8])])]"

definition demo_scan :: scan_env where
  "demo_scan = \<lparr>fd_of = (\<lambda>_. 3), read_ok = (\<lambda>_ _. True), can_opendir = (\<lambda>_. True), disk = Dir demo_dir\<rparr>"

definition demo_size :: "(string \<times> u64) list size_state" where
  "demo_size = \<lparr>total_scanned = 0, eq_blocks = 0, dif_blocks = 0, distinctdup = 0, space = 0, dup_db = mem_new\<rparr>"

definition demo_start :: "(string \<times> u64) list scan_state" where
  "demo_start = \<lparr>per_size = [demo_size], processed_blocks = 0, nfiles = 0\<rparr>"

lemma demo_new: "db_ok mem_ok mem_new" "db_table map_of (mem_new :: ('k \<times> u64) list db) = (\<lambda>_. None)"
  by (simp_all add: db_ok_def mem_new_def mem_ok_def db_table_def)

lemma demo_inv: "scan_inv mem_ok map_of [2] (\<lambda>_. []) demo_start"
  by (simp add: scan_inv_def demo_start_def counted_def demo_size_def demo_new repeated_def hash_table_def fun_eq_iff)

lemma demo_files: "files_below [] demo_dir = [(''a'', [1, 2, 1, 2, 3]), (''d/b'', [7, 8])]"
  by (simp add: demo_dir_def)

lemma demo_scan_blocks: "all_blocks 2 (files_below [] demo_dir) = [[1, 2], [1, 2], [7, 8]]"
proof -
  have "2 dvd READSIZE" by (simp add: READSIZE_def)
  then have "file_blocks 2 f = chunks 2 f" for f
    using pieces_chunks [of 2 READSIZE f] by (simp add: file_blocks_def READSIZE_def)
  moreover have "chunks 2 [1, 2, 1, 2, 3] = [[1, 2], [1, 2]]" "chunks 2 [7, 8] = [[7, 8]]" by code_simp+
  ultimately show ?thesis by (simp add: all_blocks_def demo_files)
qed


definition demo_counted :: "(string \<times> u64) list size_state" where
  "demo_counted = \<lparr>total_scanned = 3, eq_blocks = 1, dif_blocks = 2, distinctdup = 1, space = 2,
     dup_db = \<lparr>store = [(''x'', 1), (''y'', 2)], is_open = True\<rparr>\<rparr>"

lemma scan_distribution_witness:
  "\<exists>p'. gen_output mem_bdb mem_bdb (dup_db demo_counted) mem_new = Inr p'
     \<and> db_table map_of p' (1 :: u64) = Some 1 \<and> db_table map_of p' 2 = None"
proof -
  let ?hs = "[''x'', ''y'', ''y'']"
  have "repeated ?hs = {''y''}" by (auto simp: repeated_def)
  then have z: "counted mem_ok map_of 2 ?hs demo_counted"
    by (auto simp: demo_counted_def counted_def db_ok_def mem_ok_def db_table_def hash_table_def fun_eq_iff)
  have w: "with_duplicates ?hs 1 = {''y''}" "with_duplicates ?hs 2 = {}"
    by (auto simp: with_duplicates_def)
  have "length ?hs < 2 ^ 64" by simp
  from scan_distribution [OF mem.hash_store_axioms mem.hash_store_axioms z this demo_new] obtain p' where
    "gen_output mem_bdb mem_bdb (dup_db demo_counted) mem_new = Inr p'"
    "db_table map_of p' = (\<lambda>k. if with_duplicates ?hs (unat k) = {} then None
        else Some (word_of_nat (card (with_duplicates ?hs (unat k)))))" by blast
  then show ?thesis using w by (intro exI [of _ p']) simp
qed

lemma hash_name_injective_witness:
  "hash_name (demo_sha [1]) \<noteq> hash_name (demo_sha [2])"
  using hash_name_injective [of "demo_sha [1]" "demo_sha [2]"] by (simp add: demo_sha_def)


theorem zero_block_size_hangs_witness:
  "process_size demo_sha mem_bdb [Some (atoi ''none'')] [1] 0 demo_start = Inl NoReturn"
proof (rule zero_block_size_hangs [OF mem.hash_store_axioms])
  show "[Some (atoi ''none'')] ! 0 = Some 0" by code_simp
qed (simp_all add: demo_start_def demo_size_def demo_new)

lemma unopened_file_is_counted_witness:
  "scan_file demo_sha mem_bdb (demo_scan\<lparr>fd_of := (\<lambda>_. -1)\<rparr>) [Some 2] ''a'' demo_start
     = Inr (demo_start\<lparr>nfiles := 1\<rparr>)"
  using unopened_file_is_counted [of "demo_scan\<lparr>fd_of := (\<lambda>_. -1)\<rparr>" "''a''" demo_sha mem_bdb "[Some 2]" demo_start]
  by (simp add: demo_start_def)

end
