(* ===== verification/Pipeline.thy ===== *)
theory Pipeline
  imports Main_facts Dedisgen
begin

text \<open>
  From DEDISgen to DEDISbench: the distribution file that \<open>print_elements_print\<close> writes for DEDISgen, two
  numbers in a line, as the input of the generator of DEDISbench, which looks for ten compressions behind them.
\<close>

section \<open>The file written\<close>

definition dist_line :: "u64 \<times> u64 \<Rightarrow> string" where
  "dist_line = (\<lambda>(key, cont). show_nat (unat key) @ '' '' @ show_nat (unat cont))"

definition dist_text :: "(u64 \<times> u64) list \<Rightarrow> string" where
  "dist_text ls = concat (map (\<lambda>l. dist_line l @ [CHR 0x0A]) ls)"

lemma show_nat_clean: "CHR '' '' \<notin> set (show_nat n)" "CHR 0x0A \<notin> set (show_nat n)" "show_nat n \<noteq> []"
  using show_nat_digits [of n] by (auto simp: isdigit_def)

lemma dist_text_lines: "getlines CHR 0x0A (dist_text ls) = map dist_line ls"
proof (induction ls)
  case (Cons l ls)
  have "CHR 0x0A \<notin> set (dist_line l)" by (cases l) (simp add: dist_line_def show_nat_clean)
  with Cons show ?case using getlines_cut [of "CHR 0x0A" "dist_line l" "dist_text ls"] by (simp add: dist_text_def)
qed (simp add: dist_text_def getlines_def)

lemma dist_line_tokens: "getlines CHR '' '' (dist_line (k, v)) = [show_nat (unat k), show_nat (unat v)]"
  by (simp add: dist_line_def getlines_cut getlines_one show_nat_clean)

section \<open>The file read\<close>

text \<open>No line gets a compression.\<close>

lemma bare_lines:
  assumes "foldR (read_line F stof) (map dist_line ls) (0, new_generator F bs blocos pa pc) = Inr (base, g)"
  shows "\<forall>l \<in> set (linhas g). compression l = []"
proof -
  have "\<forall>l \<in> set (linhas (snd (base, g))). compression l = []"
  proof (rule foldR_invariant [OF assms, where I = "\<lambda>(b, g). \<forall>l \<in> set (linhas g). compression l = []",
        unfolded case_prod_beta])
    show "\<forall>l \<in> set (linhas (snd (0, new_generator F bs blocos pa pc))). compression l = []" by (simp add: new_generator_def)
    fix x s s' assume "x \<in> set (map dist_line ls)" and i: "\<forall>l \<in> set (linhas (snd s)). compression l = []"
      and r: "read_line F stof x s = Inr s'"
    then obtain k v where x: "x = dist_line (k, v)" by auto
    show "\<forall>l \<in> set (linhas (snd s')). compression l = []"
      using r i unfolding x by (cases s) (auto simp: read_line_def dist_line_tokens Let_def elim!: bindR_InrE)
  qed
  then show ?thesis by simp
qed

lemma bare_compression:
  assumes "lines_from 0 (linhas g)" and "\<forall>l \<in> set (linhas g). compression l = []"
    and "blocks_of (linhas g) < 2 ^ 31" and "1 \<le> unat bid" and "unat bid \<le> blocks_of (linhas g)"
  shows "get_block_compression_by_id F g bid = Inl Thrown"
proof -
  obtain l where l: "l \<in> set (linhas g)" "find (\<lambda>l. in_line l bid) (linhas g) = Some l"
    using line_of_block [OF assms(1,3-5)] by blast
  with assms(2) show ?thesis
    by (simp add: get_block_compression_by_id_def giveMyCompression_def vat_def numeral_eq_Suc)
qed

text \<open>So \<open>get_media_inter\<close> fails on the first block it samples, or divides by zero without any.\<close>

lemma bare_media:
  assumes "lines_from 0 (linhas g)" and "\<forall>l \<in> set (linhas g). compression l = []"
    and "blocks_of (linhas g) < 2 ^ 31" and "\<forall>i. 1 \<le> unat (draws i) \<and> unat (draws i) \<le> blocks_of (linhas g)"
    and "0 < sint (percentage_unique_blocks_analyze g)" and "sint (percentage_unique_blocks_analyze g) < 100"
  shows "\<exists>e. get_media_inter F draws g = Inl e"
proof (cases "media_count g (percentage_unique_blocks_analyze g)")
  case 0
  then show ?thesis using assms(5,6) by (simp add: get_media_inter_def c_quot_def)
next
  case (Suc n)
  have "get_block_compression_by_id F g (draws 0) = Inl Thrown"
    using bare_compression [OF assms(1-3)] assms(4) by blast
  then show ?thesis using assms(5,6) Suc
    by (simp add: get_media_inter_def media_step_def upt_conv_Cons del: upt_Suc)
qed

lemma dedisgen_file_fails:
  assumes f: "me_files M (distfile conf) = Some (dist_text ls)"
    and pa: "1 \<le> unat (percentage_analyze conf)" "unat (percentage_analyze conf) \<le> 99"
    and d: "\<And>base g. foldR (read_line F (me_stof M)) (map dist_line ls) (0, get_generator F conf) = Inr (base, g) \<Longrightarrow>
      blocks_of (linhas g) < 2 ^ 31 \<and> (\<forall>i. 1 \<le> unat (me_gen_draws M i) \<and> unat (me_gen_draws M i) \<le> blocks_of (linhas g))"
  shows "\<exists>e. bench_main F M conf info mem acc schedule fs = Some (Inl e)"
proof -
  have p: "unat (ucast (percentage_analyze conf) :: u32) = unat (percentage_analyze conf)"
    using pa by (simp add: unat_ucast_down)
  then have "sint (ucast (percentage_analyze conf) :: u32) = int (unat (ucast (percentage_analyze conf) :: u32))"
    using pa by (intro sint_small) simp
  with p have s: "0 < sint (ucast (percentage_analyze conf) :: u32)" "sint (ucast (percentage_analyze conf) :: u32) < 100"
    using pa by linarith+
  let ?g0 = "get_generator F conf"
  have same: "?g0\<lparr>zeroCopiesBlocks := 0, total_unique_blocks := 0\<rparr> = ?g0" by (simp add: get_generator_def new_generator_def)
  have "(\<exists>e. start_generator F M conf info = Inl e) \<or> (\<exists>g info'. start_generator F M conf info = Inr (-1, g, info'))"
  proof (cases "foldR (read_line F (me_stof M)) (map dist_line ls) (0, ?g0)")
    case (Inl e)
    then show ?thesis
      by (simp add: start_generator_def generator_initialize_def f dist_text_lines same Let_def) 
  next
    case (Inr x)
    obtain base g where x: "x = (base, g)" by (cases x)
    have "read_inv ?g0 (base, g)"
      using Inr unfolding x by (rule read_file_inv) (simp_all add: get_generator_def new_generator_def)
    moreover have r: "blocks_of (linhas g) < 2 ^ 31"
      "\<forall>i. 1 \<le> unat (me_gen_draws M i) \<and> unat (me_gen_draws M i) \<le> blocks_of (linhas g)"
      using d [OF Inr [unfolded x]] by auto
    ultimately have "lines_from 0 (linhas g)"
      and "percentage_unique_blocks_analyze g = ucast (percentage_analyze conf)"
      by (simp_all add: read_inv_def get_generator_def new_generator_def)
    with bare_media [of g "me_gen_draws M" F] bare_lines [OF Inr [unfolded x get_generator_def]] r s
    obtain e where "get_media_inter F (me_gen_draws M) g = Inl e" by auto
    with Inr show ?thesis
      by (simp add: start_generator_def generator_initialize_def f dist_text_lines same x Let_def)
  qed
  then show ?thesis by (auto simp: bench_main_def prepare_bench_def init_duplicates_def)
qed

end
