(* ===== verification/Typing.thy ===== *)
theory Typing
  imports Launch_facts
begin

text \<open>
  The memory layout of a running benchmark as a type: the arrays of every process and the two regions of the
  mapping have fixed lengths, and every process works for the arguments it was forked with.  Every move of every
  process preserves it, for all configurations and whatever the operating system delivers: reads, writes
  and snapshots that would fall outside an array end the process instead.
\<close>

section \<open>The typing\<close>

definition stat_typed :: "'d stats \<Rightarrow> bool" where
  "stat_typed st \<longleftrightarrow> length (snap_throughput st) = SNAPS \<and> length (snap_latency st) = SNAPS
     \<and> length (snap_ops st) = SNAPS \<and> length (snap_time st) = SNAPS"

definition proc_typed :: "'d user_confs \<Rightarrow> 'd proc \<Rightarrow> bool" where
  "proc_typed conf p \<longleftrightarrow> stat_typed (pr_stat p) \<and> length (pr_accesses p) = unat (totblocks conf)
     \<and> length (pr_buf p) = unat (block_size conf)"

definition role_typed :: "'d user_confs \<Rightarrow> nat \<Rightarrow> 'd role \<Rightarrow> bool" where
  "role_typed conf i ro \<longleftrightarrow> launch_args conf i = (ro_idproc ro, ro_nproc ro, ro_ratio ro, ro_iotype ro)"

definition child_typed :: "'d user_confs \<Rightarrow> nat \<Rightarrow> 'd child \<Rightarrow> bool" where
  "child_typed conf i c \<longleftrightarrow> (case c of
     Waiting \<Rightarrow> True
   | Running ro p k \<Rightarrow> role_typed conf i ro \<and> proc_typed conf p
   | Ended r k \<Rightarrow> stat_typed (rr_stat r)
       \<and> (rr_check r \<noteq> None) = (2 \<le> integrity conf \<and> child_type conf i = READ)
   | Died e \<Rightarrow> True)"

definition same_shape :: "shared \<Rightarrow> shared \<Rightarrow> bool" where
  "same_shape m m' \<longleftrightarrow> length (cells m') = length (cells m) \<and> length (content_map m') = length (content_map m)"

definition bench_typed :: "'d user_confs \<Rightarrow> shared \<Rightarrow> 'd bench_state \<Rightarrow> bool" where
  "bench_typed conf m s \<longleftrightarrow> length (fst s) = nat (nprocs conf) \<and> same_shape m (sh_mem (snd s))
     \<and> (\<forall>i < length (fst s). child_typed conf i (fst s ! i))"

lemma same_shape_refl [simp]: "same_shape m m"
  by (simp add: same_shape_def)

lemma same_shape_trans: "same_shape a b \<Longrightarrow> same_shape b c \<Longrightarrow> same_shape a c"
  by (simp add: same_shape_def)

section \<open>Statistics\<close>

lemma aset_length: "aset xs i v = Inr ys \<Longrightarrow> length ys = length xs"
  by (auto simp: aset_def split: if_splits)

lemma store_snapshot_typed: "store_snapshot F st = Inr st' \<Longrightarrow> stat_typed st \<Longrightarrow> stat_typed st'"
  by (auto simp: store_snapshot_def stat_typed_def Let_def elim!: bindR_InrE split: if_splits dest!: aset_length)

lemma next_snapshot_typed [simp]: "stat_typed (next_snapshot F st) = stat_typed st"
  by (simp add: next_snapshot_def stat_typed_def)

lemma time_operation_typed [simp]: "stat_typed (time_operation F m t u st) = stat_typed st"
  by (simp add: time_operation_def stat_typed_def Let_def)

lemma averages_typed [simp]: "stat_typed (averages F st) = stat_typed st"
  by (simp add: averages_def stat_typed_def)

lemma count_operation_typed: "count_operation F m st = Inr st' \<Longrightarrow> stat_typed st \<Longrightarrow> stat_typed st'"
  by (auto simp: count_operation_def Let_def elim!: bindR_InrE split: if_splits
      dest!: store_snapshot_typed) (simp_all add: stat_typed_def)

lemma last_snapshot_typed: "last_snapshot F ro p = Inr st \<Longrightarrow> stat_typed (pr_stat p) \<Longrightarrow> stat_typed st"
  by (auto simp: last_snapshot_def Let_def elim!: bindR_InrE split: if_splits dest: store_snapshot_typed)

section \<open>Operations\<close>

lemma count_written_typed:
  assumes "count_written conf info bi st mem = Inr (st', mem')" and "stat_typed st"
  shows "stat_typed st' \<and> same_shape mem mem'"
  using assms by (auto simp: count_written_def set_cell_def same_shape_def stat_typed_def Let_def elim!: bindR_InrE
      split: if_splits option.splits dest!: aset_length)

lemma count_access_typed: "count_access conf off xs = Inr ys \<Longrightarrow> length ys = length xs"
  by (auto simp: count_access_def elim!: bindR_InrE dest!: aset_length)

lemma track_block_typed: "track_block conf info i off bi mem = Inr mem' \<Longrightarrow> same_shape mem mem'"
  by (auto simp: track_block_def same_shape_def elim!: bindR_InrE split: if_splits dest!: aset_length)

lemma perform_write_typed:
  assumes "perform_write F conf info ro tk (p, sh) = Inr (p', sh')" and "proc_typed conf p"
  shows "proc_typed conf p' \<and> same_shape (sh_mem sh) (sh_mem sh')"
  using assms by (auto simp: perform_write_def proc_typed_def elim!: bindR_InrE
      dest!: count_written_typed count_access_typed track_block_typed intro: same_shape_trans)

lemma check_read_typed: "check_read F conf info ro tk off buf mem p = Inr p' \<Longrightarrow> proc_typed conf p \<Longrightarrow> proc_typed conf p'"
  by (auto simp: check_read_def proc_typed_def elim!: bindR_InrE split: if_splits)

lemma read_into_typed:
  assumes "proc_typed conf p"
  defines "dat \<equiv> \<lambda>tk f off. read_bytes tk f off (block_size conf)"
  shows "proc_typed conf (p\<lparr>pr_buf := dat tk f off @ drop (length (dat tk f off)) (pr_buf p)\<rparr>)"
  using assms by (simp add: proc_typed_def read_bytes_def pread_file_def)

lemma perform_read_typed:
  assumes "perform_read F conf info ro tk (p, sh) = Inr (p', sh')" and "proc_typed conf p"
  shows "proc_typed conf p' \<and> sh' = sh"
  using assms by (auto simp: perform_read_def Let_def elim!: bindR_InrE dest!: count_access_typed
      check_read_typed [OF _ read_into_typed]) (auto simp: proc_typed_def stat_typed_def)

lemma operate_typed:
  assumes "operate F conf info ro tk (p, sh) = Inr (p', sh')" and "proc_typed conf p"
  shows "proc_typed conf p' \<and> same_shape (sh_mem sh) (sh_mem sh')"
proof -
  from assms(1) obtain p1 m st where o: "measured ro p1 = Inr m" "count_operation F m (pr_stat p1) = Inr st"
    "p' = p1\<lparr>pr_stat := st, pr_begin_size := (if flag_termination_size conf then pr_begin_size p1 + 1 else pr_begin_size p1)\<rparr>"
    and s: "(if ro_iotype ro = WRITE then perform_write F conf info ro tk (p, sh) else perform_read F conf info ro tk (p, sh))
      = Inr (p1, sh')"
    by (auto simp: operate_def elim!: bindR_InrE)
  from s assms(2) have "proc_typed conf p1 \<and> same_shape (sh_mem sh) (sh_mem sh')"
    by (auto split: if_splits dest: perform_write_typed perform_read_typed)
  then show ?thesis using count_operation_typed [OF o(2)] by (simp add: o(3) proc_typed_def)
qed

lemma proc_step_typed:
  assumes "proc_step F conf info ro tk (p, sh) = Inr (p', sh')" and "proc_typed conf p"
  shows "proc_typed conf p' \<and> same_shape (sh_mem sh) (sh_mem sh')"
proof -
  from assms(1) obtain go p1 where p1: "(if go then operate F conf info ro tk (p, sh) else Inr (p, sh)) = Inr (p1, sh')"
    "p' = clock_step F conf tk p1"
    by (auto simp: proc_step_def elim!: bindR_InrE)
  then have "proc_typed conf p1 \<and> same_shape (sh_mem sh) (sh_mem sh')"
    using assms(2) by (cases go) (auto dest: operate_typed)
  then show ?thesis by (simp add: p1(2) clock_step_def proc_typed_def lap_time_def)
qed

section \<open>Children\<close>

lemma process_start_typed:
  assumes "process_start F E conf idproc nproc rate ty g acc sh = Inr (ro, p, sh')"
    and "length (pe_buf E) = unat (block_size conf)"
  shows "ro_idproc ro = idproc \<and> ro_nproc ro = nproc \<and> ro_ratio ro = rate \<and> ro_iotype ro = ty
    \<and> proc_typed conf p \<and> sh_mem sh' = sh_mem sh"
  using assms by (auto simp: process_start_def proc_typed_def stat_typed_def initial_stats_def elim!: bindR_InrE)

lemma process_report_typed:
  assumes "process_report F fopen conf ro p = Inr r" and "proc_typed conf p"
  shows "stat_typed (rr_stat r) \<and> (rr_check r \<noteq> None) = (2 \<le> integrity conf \<and> ro_iotype ro = READ)"
proof -
  from assms(1) obtain st m where s: "last_snapshot F ro p = Inr st"
    "rr_stat r = (if m then averages F st else st)"
    "rr_check r = (if integrity conf \<ge> 2 \<and> ro_iotype ro = READ
       then Some (pr_errs p, if pr_errs p > 0 then pr_msgs p else pr_msgs p @ [NoIssues]) else None)"
    unfolding process_report_def Let_def by (force elim!: bindR_InrE)
  with last_snapshot_typed [OF s(1)] assms(2) show ?thesis by (simp add: proc_typed_def)
qed

lemma role_typed_type: "role_typed conf i ro \<Longrightarrow> child_type conf i = ro_iotype ro"
  by (simp add: role_typed_def child_type_def)

lemma child_move_typed:
  assumes b: "length (pe_buf (E i)) = unat (block_size conf)" and t: "child_typed conf i c"
  shows "case child_move F E conf info g acc i sh c of (c', sh') \<Rightarrow>
    child_typed conf i c' \<and> same_shape (sh_mem sh) (sh_mem sh')"
proof (cases c)
  case Waiting
  obtain idproc nproc rate ty where a: "launch_args conf i = (idproc, nproc, rate, ty)" by (metis prod_cases4)
  show ?thesis
  proof (cases "process_start F (E i) conf idproc nproc rate ty g acc sh")
    case (Inr x)
    obtain ro p sh' where x: "x = (ro, p, sh')" by (metis prod_cases3)
    from process_start_typed [OF Inr [unfolded x] b] a Inr show ?thesis
      by (simp add: Waiting child_typed_def role_typed_def x)
  qed (simp add: Waiting a child_typed_def)
next
  case (Running ro p k)
  with t have tr: "role_typed conf i ro" "proc_typed conf p" by (auto simp: child_typed_def)
  show ?thesis
  proof (cases "proc_running ro p")
    case True
    then show ?thesis
      using proc_step_typed [of F conf info ro "pe_ticks (E i) k" p sh] tr
      by (cases "proc_step F conf info ro (pe_ticks (E i) k) (p, sh)") (auto simp: Running child_typed_def)
  next
    case False
    then show ?thesis
      using process_report_typed [of F "pe_fopen (E i)" conf ro p] tr role_typed_type [OF tr(1)]
      by (cases "process_report F (pe_fopen (E i)) conf ro p") (auto simp: Running child_typed_def)
  qed
qed (use t in auto)

lemma bench_move_typed:
  assumes "\<And>i. length (pe_buf (E i)) = unat (block_size conf)" and "bench_typed conf m s"
  shows "bench_typed conf m (bench_move F E conf info g acc i s)"
proof -
  obtain cs sh where s: "s = (cs, sh)" by (cases s)
  show ?thesis
  proof (cases "i < length cs")
    case True
    obtain c' sh' where c: "child_move F E conf info g acc i sh (cs ! i) = (c', sh')" by fastforce
    have "child_typed conf i (cs ! i)" using assms(2) True by (simp add: bench_typed_def s)
    from child_move_typed [where E = E and F = F and info = info and g = g and acc = acc and sh = sh, OF assms(1) this] c
    have "child_typed conf i c'" "same_shape (sh_mem sh) (sh_mem sh')" by auto
    then show ?thesis using assms(2) True
      by (auto simp: bench_typed_def bench_move_def s c nth_list_update intro: same_shape_trans)
  qed (use assms(2) s in \<open>simp add: bench_move_def\<close>)
qed

section \<open>Properties\<close>



end
