(* ===== verification/Ini.thy ===== *)
theory Ini
  imports Ctext
begin

text \<open>
  \<open>parserconf/inih/ini.c\<close>: the INI parser the configuration files are read with, as compiled for
  DEDISbench (\<open>INI_INLINE_COMMENT_PREFIXES\<close> is \<open>#\<close>, the other options have their defaults).  The
  locale \<open>ini_client\<close> states what a handler has to keep for its invariant to hold after a parse.
\<close>

section \<open>Definitions\<close>

definition MAX_SECTION :: nat where "MAX_SECTION = 50"
definition MAX_NAME :: nat where "MAX_NAME = 50"
definition INI_MAX_LINE :: nat where "INI_MAX_LINE = 200"

definition rstrip :: "string \<Rightarrow> string" where
  "rstrip s = rev (dropWhile isspace (rev s))"

definition lskip :: "string \<Rightarrow> string" where
  "lskip s = dropWhile isspace s"

text \<open>
  \<open>find_chars_or_comment\<close>: the text before the first of \<open>chars\<close> or before an inline comment, and
  the text from there on.
\<close>

primrec find_from :: "char list \<Rightarrow> bool \<Rightarrow> string \<Rightarrow> string \<times> string" where
  "find_from chars was_space [] = ([], [])"
| "find_from chars was_space (c # cs) =
     (if c \<in> set chars \<or> (was_space \<and> c = CHR ''#'') then ([], c # cs)
      else case find_from chars (isspace c) cs of (b, r) \<Rightarrow> (c # b, r))"

definition find_chars_or_comment :: "char list \<Rightarrow> string \<Rightarrow> string \<times> string" where
  "find_chars_or_comment chars s = find_from chars False s"

definition strncpy0 :: "nat \<Rightarrow> string \<Rightarrow> string" where
  "strncpy0 n src = take (n - 1) src"

text \<open>
  The state of \<open>ini_parse_stream\<close>: the current section and name, the line number, the line of the
  first error (0 for none) and the user data of the handler.
\<close>

record 'u ini_state =
  ini_section :: string
  prev_name :: string
  lineno :: nat
  ini_error :: nat
  ini_user :: 'u

type_synonym 'u ini_handler = "'u \<Rightarrow> string \<Rightarrow> string \<Rightarrow> string \<Rightarrow> (bool \<times> 'u) res"

definition first_error :: "'u ini_state \<Rightarrow> 'u ini_state" where
  "first_error st = (if ini_error st = 0 then st\<lparr>ini_error := lineno st\<rparr> else st)"

definition call_handler :: "'u ini_handler \<Rightarrow> string \<Rightarrow> string \<Rightarrow> 'u ini_state \<Rightarrow> 'u ini_state res" where
  "call_handler h name val st =
     bindR (h (ini_user st) (ini_section st) name val) (\<lambda>(ok, u).
       let st = st\<lparr>ini_user := u\<rparr> in Inr (if ok then st else first_error st))"

definition BOM :: string where "BOM = [CHR 0xEF, CHR 0xBB, CHR 0xBF]"

text \<open>
  The stripped line: a comment, the continuation of a value (\<open>moved\<close>: it was indented), a section
  header, or an assignment.
\<close>

definition ini_start :: "'u ini_handler \<Rightarrow> bool \<Rightarrow> string \<Rightarrow> 'u ini_state \<Rightarrow> 'u ini_state res" where
  "ini_start h moved start st =
     (let c = take 1 start in
      if c = '';'' \<or> c = ''#'' then Inr st
      else if prev_name st \<noteq> [] \<and> start \<noteq> [] \<and> moved then call_handler h (prev_name st) start st
      else if c = ''['' then
        (case find_chars_or_comment '']'' (drop 1 start) of (sec, rest) \<Rightarrow>
           if take 1 rest = '']''
           then Inr (st\<lparr>ini_section := strncpy0 MAX_SECTION sec, prev_name := []\<rparr>)
           else Inr (first_error st))
      else if start \<noteq> [] then
        (case find_chars_or_comment ''=:'' start of (name, rest) \<Rightarrow>
           if take 1 rest = ''='' \<or> take 1 rest = '':''
           then let name = rstrip name;
                    val = rstrip (lskip (fst (find_chars_or_comment [] (drop 1 rest))))
                in call_handler h name val (st\<lparr>prev_name := strncpy0 MAX_NAME name\<rparr>)
           else Inr (first_error st))
      else Inr st)"

text \<open>One line of the file, with the newline \<open>fgets\<close> leaves in it.\<close>

definition ini_line :: "'u ini_handler \<Rightarrow> string \<Rightarrow> 'u ini_state \<Rightarrow> 'u ini_state res" where
  "ini_line h line st =
     (let st = st\<lparr>lineno := lineno st + 1\<rparr>;
          bom = (lineno st = 1 \<and> take 3 line = BOM);
          body = rstrip (if bom then drop 3 line else line);
          start = lskip body
      in ini_start h (bom \<or> start \<noteq> body) start st)"

text \<open>
  \<open>fgets(line, n, file)\<close>, repeated: pieces of at most \<open>n - 1\<close> characters that end behind a newline.
\<close>

primrec fgets_from :: "nat \<Rightarrow> nat \<Rightarrow> string \<Rightarrow> string \<Rightarrow> string list" where
  "fgets_from n room cur [] = (if cur = [] then [] else [cur])"
| "fgets_from n room cur (c # cs) =
     (if c = CHR 0x0A \<or> room \<le> 1 then (cur @ [c]) # fgets_from n (n - 1) [] cs
      else fgets_from n (room - 1) (cur @ [c]) cs)"

definition fgets_all :: "nat \<Rightarrow> string \<Rightarrow> string list" where
  "fgets_all n text = fgets_from n (n - 1) [] text"

definition ini_parse_stream :: "'u ini_handler \<Rightarrow> string list \<Rightarrow> 'u \<Rightarrow> (nat \<times> 'u) res" where
  "ini_parse_stream h lines u =
     bindR (foldR (ini_line h) lines
       \<lparr>ini_section = [], prev_name = [], lineno = 0, ini_error = 0, ini_user = u\<rparr>) (\<lambda>st.
       Inr (ini_error st, ini_user st))"

text \<open>\<open>ini_parse\<close>: -1 when the file cannot be opened.\<close>

definition ini_parse :: "'u ini_handler \<Rightarrow> string option \<Rightarrow> 'u \<Rightarrow> (int \<times> 'u) res" where
  "ini_parse h file u =
     (case file of
        None \<Rightarrow> Inr (-1, u)
      | Some text \<Rightarrow> bindR (ini_parse_stream h (fgets_all INI_MAX_LINE text) u) (\<lambda>(e, u). Inr (int e, u)))"

section \<open>The contract of a handler\<close>

text \<open>
  \<open>inv\<close> is an invariant of the user data that every call of the handler keeps: then it holds after
  the parse of any file.
\<close>

locale ini_client =
  fixes h :: "'u ini_handler"
    and inv :: "'u \<Rightarrow> bool"
  assumes handler_inv: "inv u \<Longrightarrow> h u s n v = Inr (ok, u') \<Longrightarrow> inv u'"
begin

lemma call_inv: "call_handler h n v st = Inr st' \<Longrightarrow> inv (ini_user st) \<Longrightarrow> inv (ini_user st')"
  by (auto simp: call_handler_def first_error_def Let_def elim!: bindR_InrE dest: handler_inv split: if_splits)

lemma line_inv: "ini_line h line st = Inr st' \<Longrightarrow> inv (ini_user st) \<Longrightarrow> inv (ini_user st')"
  by (auto simp: ini_line_def ini_start_def first_error_def Let_def dest!: call_inv
      split: if_splits prod.splits)

lemma parse_inv:
  assumes "ini_parse h f u = Inr (e, u')" and "inv u"
  shows "inv u'"
proof (cases f)
  case None
  with assms show ?thesis by (simp add: ini_parse_def)
next
  case (Some t)
  from assms(1) obtain st where
    st: "foldR (ini_line h) (fgets_all INI_MAX_LINE t)
       \<lparr>ini_section = [], prev_name = [], lineno = 0, ini_error = 0, ini_user = u\<rparr> = Inr st" "u' = ini_user st"
    by (auto simp: Some ini_parse_def ini_parse_stream_def elim!: bindR_InrE)
  have "inv (ini_user st)"
    by (rule foldR_invariant [OF st(1)]) (use assms(2) line_inv in auto)
  with st(2) show ?thesis by simp
qed

end

section \<open>Reading back a written file\<close>

text \<open>
  A configuration as a program would write it: section headers and assignments, and the calls a
  handler then has to see.
\<close>

datatype ini_item = Section string | Pair string string

primrec render_item :: "ini_item \<Rightarrow> string" where
  "render_item (Section s) = ''['' @ s @ '']'' @ [CHR 0x0A]"
| "render_item (Pair n v) = n @ ''='' @ v @ [CHR 0x0A]"

primrec feed :: "'u ini_handler \<Rightarrow> ini_item list \<Rightarrow> string \<Rightarrow> 'u \<Rightarrow> (bool \<times> 'u) res" where
  "feed h [] sec u = Inr (True, u)"
| "feed h (i # is) sec u =
     (case i of
        Section s \<Rightarrow> feed h is s u
      | Pair n v \<Rightarrow> bindR (h u sec n v) (\<lambda>(ok, u).
          bindR (feed h is sec u) (\<lambda>(ok', u). Inr (ok \<and> ok', u))))"

text \<open>
  What can be written: values without surrounding white space and without \<open>#\<close>; names without white
  space, \<open>=\<close> and \<open>:\<close>, not empty, not starting like a comment or a section; sections of at most 49
  characters without \<open>]\<close> and \<open>#\<close>.
\<close>

definition value_ok :: "string \<Rightarrow> bool" where
  "value_ok v \<longleftrightarrow> CHR ''#'' \<notin> set v \<and> (v \<noteq> [] \<longrightarrow> \<not> isspace (hd v) \<and> \<not> isspace (last v))"

definition name_ok :: "string \<Rightarrow> bool" where
  "name_ok n \<longleftrightarrow> n \<noteq> [] \<and> hd n \<notin> {CHR '';'', CHR ''#'', CHR ''['', CHR 0xEF}
     \<and> (\<forall>c \<in> set n. \<not> isspace c \<and> c \<noteq> CHR ''='' \<and> c \<noteq> CHR '':'')"

primrec item_ok :: "ini_item \<Rightarrow> bool" where
  "item_ok (Section s) \<longleftrightarrow> length s < MAX_SECTION \<and> CHR '']'' \<notin> set s \<and> CHR ''#'' \<notin> set s"
| "item_ok (Pair n v) \<longleftrightarrow> name_ok n \<and> value_ok v"

lemma isspace_chars [simp]:
  "isspace CHR 0x0A" "\<not> isspace CHR ''[''" "\<not> isspace CHR '']''" "\<not> isspace CHR ''=''"
  by (simp_all add: isspace_def)

lemma rstrip_last: "s \<noteq> [] \<Longrightarrow> \<not> isspace (last s) \<Longrightarrow> rstrip s = s"
  by (cases s rule: rev_cases) (simp_all add: rstrip_def)

lemma rstrip_newline: "rstrip (s @ [CHR 0x0A]) = rstrip s"
  by (simp add: rstrip_def)

lemma rstrip_nospace: "(\<forall>c \<in> set s. \<not> isspace c) \<Longrightarrow> rstrip s = s"
  by (cases "s = []") (auto simp: rstrip_last, simp add: rstrip_def)

lemma lskip_hd: "s = [] \<or> \<not> isspace (hd s) \<Longrightarrow> lskip s = s"
  by (cases s) (simp_all add: lskip_def)

lemma find_from_all:
  "set chars \<inter> set s = {} \<Longrightarrow> CHR ''#'' \<notin> set s \<Longrightarrow> c \<in> set chars \<Longrightarrow>
     find_from chars b (s @ c # cs) = (s, c # cs)"
  by (induction s arbitrary: b) auto

lemma find_from_none: "CHR ''#'' \<notin> set s \<Longrightarrow> find_from [] b s = (s, [])"
  by (induction s arbitrary: b) auto

lemma find_from_name:
  "(\<forall>c \<in> set n. \<not> isspace c \<and> c \<notin> set chars) \<Longrightarrow> \<not> b \<or> n = [] \<Longrightarrow> \<not> b \<Longrightarrow> c \<in> set chars \<Longrightarrow>
     find_from chars b (n @ c # cs) = (n, c # cs)"
  by (induction n arbitrary: b) auto

lemma section_line:
  assumes "item_ok (Section s)"
  shows "ini_line h (render_item (Section s)) st =
    Inr (st\<lparr>lineno := lineno st + 1, ini_section := s, prev_name := []\<rparr>)"
proof -
  have r: "rstrip (''['' @ s @ '']'' @ [CHR 0x0A]) = CHR ''['' # s @ '']''"
    using rstrip_newline [of "CHR ''['' # s @ '']''"] rstrip_last [of "CHR ''['' # s @ '']''"] by simp
  have b: "take 3 (''['' @ s @ '']'' @ [CHR 0x0A]) \<noteq> BOM" by (simp add: BOM_def)
  have l: "lskip (CHR ''['' # s @ '']'') = CHR ''['' # s @ '']''" by (simp add: lskip_hd)
  have f: "find_chars_or_comment '']'' (s @ '']'') = (s, '']'')"
    using assms find_from_all [of "'']''" s "CHR '']''" False "[]"] by (simp add: find_chars_or_comment_def)
  have "ini_start h False (CHR ''['' # s @ '']'') st' = Inr (st'\<lparr>ini_section := s, prev_name := []\<rparr>)" for st'
    using assms by (simp add: ini_start_def f strncpy0_def MAX_SECTION_def)
  with b show ?thesis unfolding ini_line_def render_item.simps by (simp add: r l Let_def del: append.simps)
qed

lemma pair_line:
  assumes "item_ok (Pair n v)"
  shows "ini_line h (render_item (Pair n v)) st =
    call_handler h n v (st\<lparr>lineno := lineno st + 1, prev_name := strncpy0 MAX_NAME n\<rparr>)"
proof -
  from assms have n: "name_ok n" and v: "value_ok v" by simp_all
  obtain c cs where nc: "n = c # cs" using n by (cases n) (simp_all add: name_ok_def)
  have c: "c \<noteq> CHR '';''" "c \<noteq> CHR ''#''" "c \<noteq> CHR ''[''" "\<not> isspace c"
    using n by (auto simp: name_ok_def nc)
  have "last (n @ ''='' @ v) = (if v = [] then CHR ''='' else last v)" by simp
  then have "\<not> isspace (last (n @ ''='' @ v))" using v by (simp add: value_ok_def)
  then have r: "rstrip (n @ ''='' @ v @ [CHR 0x0A]) = n @ ''='' @ v"
    using rstrip_newline [of "n @ ''='' @ v"] rstrip_last [of "n @ ''='' @ v"] by simp
  have l: "lskip (n @ ''='' @ v) = n @ ''='' @ v" using c by (simp add: nc lskip_hd)
  have bom: "take 3 (n @ ''='' @ v @ [CHR 0x0A]) \<noteq> BOM"
    using n by (simp add: BOM_def nc name_ok_def)
  have f: "find_chars_or_comment ''=:'' (n @ ''='' @ v) = (n, CHR ''='' # v)"
    using n find_from_name [of n "''=:''" False "CHR ''=''" v]
    by (simp add: find_chars_or_comment_def name_ok_def)
  have rn: "rstrip n = n" using n by (intro rstrip_nospace) (simp add: name_ok_def)
  have rv: "rstrip v = v" using v by (cases "v = []") (auto simp: value_ok_def rstrip_last, simp add: rstrip_def)
  have lv: "lskip v = v" using v by (intro lskip_hd) (auto simp: value_ok_def)
  have fv: "find_chars_or_comment [] v = (v, [])"
    using v by (simp add: find_chars_or_comment_def value_ok_def find_from_none)
  have "take 1 (n @ ''='' @ v) = [c]" by (simp add: nc)
  then have "ini_start h False (n @ ''='' @ v) st' = call_handler h n v (st'\<lparr>prev_name := strncpy0 MAX_NAME n\<rparr>)" for st'
    using c(1-3) by (simp add: ini_start_def f rn rv lv fv Let_def del: append.simps)
  with bom show ?thesis unfolding ini_line_def render_item.simps by (simp add: r l Let_def del: append.simps)
qed

lemma render_lines:
  assumes "\<forall>i \<in> set is. item_ok i" and "ini_error st = 0"
    and "feed h is (ini_section st) (ini_user st) = Inr (True, u)"
  shows "\<exists>st'. foldR (ini_line h) (map render_item is) st = Inr st' \<and> ini_error st' = 0 \<and> ini_user st' = u"
  using assms
proof (induction "is" arbitrary: st)
  case (Cons i "is")
  show ?case
  proof (cases i)
    case (Section s)
    let ?st = "st\<lparr>lineno := lineno st + 1, ini_section := s, prev_name := []\<rparr>"
    have "item_ok (Section s)" using Cons.prems(1) Section by simp
    then have "ini_line h (render_item i) st = Inr ?st" unfolding Section by (rule section_line)
    with Cons.IH [of ?st] Cons.prems Section show ?thesis by simp
  next
    case (Pair n v)
    from Cons.prems(3) Pair obtain ok1 u1 ok2 where
      h: "h (ini_user st) (ini_section st) n v = Inr (ok1, u1)"
      "feed h is (ini_section st) u1 = Inr (ok2, u)" "ok1" "ok2"
      by (auto elim!: bindR_InrE)
    let ?st = "st\<lparr>lineno := lineno st + 1, prev_name := strncpy0 MAX_NAME n, ini_user := u1\<rparr>"
    have "item_ok (Pair n v)" using Cons.prems(1) Pair by simp
    from pair_line [OF this, of h st] h have "ini_line h (render_item i) st = Inr ?st"
      unfolding Pair by (simp add: call_handler_def Let_def)
    with Cons.IH [of ?st] Cons.prems Pair h show ?thesis by simp
  qed
qed simp

text \<open>Lines that fit the buffer of \<open>fgets\<close> come back as they are.\<close>

lemma fgets_line:
  assumes "CHR 0x0A \<notin> set l" and "length cur + length l + 1 < n"
  shows "fgets_from n (n - 1 - length cur) cur (l @ [CHR 0x0A] @ rest)
    = (cur @ l @ [CHR 0x0A]) # fgets_from n (n - 1) [] rest"
  using assms
proof (induction l arbitrary: cur)
  case (Cons c l)
  from Cons.prems have "c \<noteq> CHR 0x0A" "\<not> n - 1 - length cur \<le> 1" by auto
  with Cons.IH [of "cur @ [c]"] Cons.prems show ?case by (simp add: diff_diff_eq)
qed simp

lemma fgets_all_lines:
  "(\<forall>l \<in> set ls. \<exists>l'. l = l' @ [CHR 0x0A] \<and> CHR 0x0A \<notin> set l' \<and> length l < n) \<Longrightarrow>
     fgets_all n (concat ls) = ls"
proof (induction ls)
  case (Cons l ls)
  then obtain l' where l': "l = l' @ [CHR 0x0A]" "CHR 0x0A \<notin> set l'" "length l < n" by auto
  with fgets_line [of l' "[]" n "concat ls"] Cons show ?case by (simp add: fgets_all_def)
qed (simp add: fgets_all_def)

lemma ini_read_back:
  assumes "\<forall>i \<in> set is. item_ok i"
    and "\<forall>i \<in> set is. \<exists>l. render_item i = l @ [CHR 0x0A] \<and> CHR 0x0A \<notin> set l \<and> length l + 1 < INI_MAX_LINE"
    and "feed h is [] u = Inr (True, u')"
  shows "ini_parse h (Some (concat (map render_item is))) u = Inr (0, u')"
proof -
  have f: "fgets_all INI_MAX_LINE (concat (map render_item is)) = map render_item is"
    using assms(2) by (intro fgets_all_lines) auto
  from render_lines [OF assms(1), of "\<lparr>ini_section = [], prev_name = [], lineno = 0, ini_error = 0, ini_user = u\<rparr>" h u']
    assms(3) show ?thesis
    by (auto simp: ini_parse_def ini_parse_stream_def f)
qed

section \<open>Properties\<close>

text \<open>
  C15: what is written is read back: parsing a file of sections and assignments (of lines that fit
  the buffer) calls the handler once per assignment, in order, with exactly the section, name and
  value written, and returns 0 when the handler accepts them all.
\<close>

theorem ini_round_trip:
  assumes "\<forall>i \<in> set is. item_ok i"
    and "\<forall>i \<in> set is. \<exists>l. render_item i = l @ [CHR 0x0A] \<and> CHR 0x0A \<notin> set l \<and> length l + 1 < INI_MAX_LINE"
    and "feed h is [] u = Inr (True, u')"
  shows "ini_parse h (Some (concat (map render_item is))) u = Inr (0, u')"
  using ini_read_back [OF assms] .

definition demo_items :: "ini_item list" where
  "demo_items = [Section ''main'', Pair ''seed'' ''42'', Pair ''path'' ''a b=c'', Section ''io'', Pair ''seed'' '''']"

theorem ini_round_trip_witness:
  "ini_parse (\<lambda>u s n v. Inr (True, u @ [(s, n, v)])) (Some (concat (map render_item demo_items))) []
     = Inr (0, [(''main'', ''seed'', ''42''), (''main'', ''path'', ''a b=c''), (''io'', ''seed'', '''')])"
proof (rule ini_round_trip)
  show "\<forall>i \<in> set demo_items. item_ok i"
    by (simp add: demo_items_def name_ok_def value_ok_def isspace_def MAX_SECTION_def)
  show "\<forall>i \<in> set demo_items. \<exists>l. render_item i = l @ [CHR 0x0A] \<and> CHR 0x0A \<notin> set l \<and> length l + 1 < INI_MAX_LINE"
    by (auto simp: demo_items_def INI_MAX_LINE_def append_eq_Cons_conv Cons_eq_append_conv)
qed (simp add: demo_items_def)

lemma call_error: "call_handler h n v st = Inr st' \<Longrightarrow> lineno st' = lineno st
    \<and> (ini_error st' = ini_error st \<or> ini_error st = 0 \<and> ini_error st' = lineno st)"
  by (auto simp: call_handler_def first_error_def Let_def elim!: bindR_InrE split: if_splits)

text \<open>
  The error an \<open>ini\<close> parse returns is the number of the first line that is neither blank, a
  comment, a section, an assignment nor accepted by the handler: once an error is recorded no later
  line changes it, and a line without error keeps it 0.
\<close>

lemma first_error_kept:
  assumes "ini_line h line st = Inr st'"
  shows "lineno st' = lineno st + 1
    \<and> (ini_error st' = ini_error st \<or> ini_error st = 0 \<and> ini_error st' = lineno st + 1)"
  using assms by (auto simp: ini_line_def ini_start_def first_error_def Let_def dest!: call_error
      split: if_splits prod.splits)

definition demo_state :: "unit ini_state" where
  "demo_state = \<lparr>ini_section = [], prev_name = [], lineno = 6, ini_error = 0, ini_user = ()\<rparr>"

lemma first_error_kept_witness:
  "\<exists>st'. ini_line (\<lambda>u s n v. Inr (True, u)) ''no assignment'' demo_state = Inr st' \<and> lineno st' = 7"
proof -
  have "isl (ini_line (\<lambda>u s n v. Inr (True, u)) ''no assignment'' demo_state) = False"
    by code_simp
  then obtain st' where r: "ini_line (\<lambda>u s n v. Inr (True, u)) ''no assignment'' demo_state = Inr st'"
    by (cases "ini_line (\<lambda>u s n v. Inr (True, u)) ''no assignment'' demo_state") auto
  have "lineno st' = 7" using first_error_kept [OF r] by (simp add: demo_state_def)
  with r show ?thesis by blast
qed

end
