(* ===== verification/Config.thy ===== *)
theory Config
  imports Populate Ini Dirs
begin

text \<open>
  The configuration of DEDISbench (\<open>DEDISbench.c\<close>): the handler of the configuration file, the
  command line, and the checks and conversions \<open>main\<close> makes before it starts.  The parser calls the
  handler through its interface: \<open>ini_client\<close> is interpreted here.
\<close>

section \<open>The configuration file\<close>

text \<open>The user data of the handler: the configuration, and the working directory.\<close>

record 'd cfg_state =
  cfg_conf :: "'d user_confs"
  cfg_disk :: node

text \<open>\<open>strcpy\<close> into an array of \<open>PATH_SIZE\<close> characters.\<close>

definition strcpy_path :: "string \<Rightarrow> string res" where
  "strcpy_path v = sprintf_into PATH_SIZE v"

text \<open>
  \<open>general_results\<close>: the name of the result file and, when the run is limited in time, the ramp-up
  and cool-down periods, separated by colons.
\<close>

definition set_general :: "string \<Rightarrow> 'd user_confs \<Rightarrow> 'd user_confs res" where
  "set_general v conf =
     (let toks = strtok_all CHR '':'' v;
          conf = conf\<lparr>printtofile := True\<rparr>
      in bindR (case toks of [] \<Rightarrow> Inr conf
                | t # _ \<Rightarrow> bindR (strcpy_path t) (\<lambda>f. Inr (conf\<lparr>printfile := f\<rparr>))) (\<lambda>conf.
         if flag_termination_time conf
         then Inr (case toks of
             _ # a # b # _ \<Rightarrow> conf\<lparr>start := atoi a, finish := atoi b\<rparr>
           | [_, a] \<Rightarrow> conf\<lparr>start := atoi a\<rparr>
           | _ \<Rightarrow> conf)
         else Inr conf))"

text \<open>\<open>dist_results\<close> creates the folders of the distribution database; a failing \<open>mkdir\<close> exits.\<close>

definition make_dir :: "dir_env \<Rightarrow> string \<Rightarrow> node \<Rightarrow> node res" where
  "make_dir E path tree = (case mkdir_path E path tree of None \<Rightarrow> Inl (Exited 1) | Some t \<Rightarrow> Inr t)"

definition make_dist_dirs :: "dir_env \<Rightarrow> node \<Rightarrow> node res" where
  "make_dist_dirs E tree =
     (if \<not> stat_path E ''benchdbs/'' tree
      then bindR (make_dir E ''benchdbs/'' tree) (make_dir E ''benchdbs/distdb/'')
      else if \<not> stat_path E ''benchdbs/distdb'' tree
      then make_dir E ''benchdbs/distdb/'' tree
      else Inr tree)"

definition set_sync :: "int \<Rightarrow> 'd user_confs \<Rightarrow> 'd user_confs" where
  "set_sync arg conf =
     (if arg = 0 then conf\<lparr>fsyncf := False, odirectf := False\<rparr>
      else if arg = 1 then conf\<lparr>fsyncf := False, odirectf := True\<rparr>
      else if arg = 2 then conf\<lparr>fsyncf := True, odirectf := False\<rparr>
      else if arg = 3 then conf\<lparr>fsyncf := True, odirectf := True\<rparr>
      else conf)"

definition set_access :: "int \<Rightarrow> 'd user_confs \<Rightarrow> 'd user_confs" where
  "set_access arg conf =
     (if arg = 0 then conf\<lparr>accesstype := SEQUENTIAL\<rparr>
      else if arg = 1 then conf\<lparr>accesstype := UNIFORM\<rparr>
      else if arg = 2 then conf\<lparr>accesstype := TPCC\<rparr>
      else conf)"

text \<open>\<open>atof\<close> converted to \<open>uint64_t\<close>; the conversion of the text is a parameter.\<close>

definition atof_u64 :: "'d fpu \<Rightarrow> (string \<Rightarrow> 'd) \<Rightarrow> string \<Rightarrow> u64" where
  "atof_u64 F atof v = word_of_int (fp_trunc F (atof v))"

text \<open>The options that only set fields; \<^const>\<open>None\<close> when the name is not known.\<close>

definition set_option_field ::
  "'d fpu \<Rightarrow> (string \<Rightarrow> 'd) \<Rightarrow> string \<times> string \<Rightarrow> string \<Rightarrow> 'd user_confs \<Rightarrow> 'd user_confs res option" where
  "set_option_field F atof k v conf =
     (if k = (''results'', ''general_results'') then Some (set_general v conf)
      else if k = (''results'', ''access_results'') then
        Some (bindR (strcpy_path v) (\<lambda>f. Inr (conf\<lparr>accesslog := True, accessfilelog := f\<rparr>)))
      else if k = (''execution'', ''distfile'') then
        Some (bindR (strcpy_path v) (\<lambda>f. Inr (conf\<lparr>distf := True, distfile := f\<rparr>)))
      else if k = (''structural'', ''cleantemp'') then Some (Inr (conf\<lparr>destroypfile := atoi v\<rparr>))
      else if k = (''execution'', ''logging'') then Some (Inr (conf\<lparr>logfeature := atoi v\<rparr>))
      else if k = (''execution'', ''access_type'') then Some (Inr (set_access (atoi v) conf))
      else if k = (''execution'', ''nprocs'') then
        Some (if atoi v = 1 \<and> mixedIO conf then Inl (Exited 0) else Inr (conf\<lparr>nprocs := atoi v\<rparr>))
      else if k = (''execution'', ''filesize'') then Some (Inr (conf\<lparr>filesize := word_of_int (atol v)\<rparr>))
      else if k = (''execution'', ''compression_to_achieve'') then
        Some (Inr (conf\<lparr>compression_to_achieve := word_of_int (atol v)\<rparr>))
      else if k = (''execution'', ''percentage_analyze'') then
        Some (Inr (conf\<lparr>percentage_analyze := word_of_int (atol v)\<rparr>))
      else if k = (''results'', ''tempfilespath'') then
        Some (bindR (strcpy_path v) (\<lambda>f. Inr (conf\<lparr>tempfilespath := f\<rparr>)))
      else if k = (''execution'', ''rawdevice'') then
        Some (bindR (strcpy_path v) (\<lambda>f. Inr (conf\<lparr>rawdevice := True, rawpath := f\<rparr>)))
      else if k = (''execution'', ''integrity'') then
        Some (bindR (strcpy_path v) (\<lambda>f. Inr (conf\<lparr>integrity := atoi v, integrityfile := f\<rparr>)))
      else if k = (''execution'', ''blocksize'') then Some (Inr (conf\<lparr>block_size := atof_u64 F atof v\<rparr>))
      else if k = (''execution'', ''seed'') then Some (Inr (conf\<lparr>seed := atof_u64 F atof v\<rparr>))
      else if k = (''execution'', ''populate'') then Some (Inr (conf\<lparr>populate_opt := atoi v\<rparr>))
      else if k = (''execution'', ''sync'') then Some (Inr (set_sync (atoi v) conf))
      else None)"

definition config_handler :: "'d fpu \<Rightarrow> (string \<Rightarrow> 'd) \<Rightarrow> dir_env \<Rightarrow> 'd cfg_state ini_handler" where
  "config_handler F atof E u sec name v =
     (if (sec, name) = (''structural'', ''keep_dbs'') then
        Inr (True, if atoi v = 0
                   then u\<lparr>cfg_disk := remove_path remove_dir E ''./gendbs'' (remove_path remove_dir E ''./benchdbs'' (cfg_disk u))\<rparr>
                   else u)
      else if (sec, name) = (''results'', ''dist_results'') then
        bindR (strcpy_path v) (\<lambda>f.
        bindR (make_dist_dirs E (cfg_disk u)) (\<lambda>t.
          Inr (True, u\<lparr>cfg_conf := (cfg_conf u)\<lparr>distout := True, outputfile := f\<rparr>, cfg_disk := t\<rparr>)))
      else case set_option_field F atof (sec, name) v (cfg_conf u) of
        None \<Rightarrow> Inr (False, u)
      | Some r \<Rightarrow> bindR r (\<lambda>conf. Inr (True, u\<lparr>cfg_conf := conf\<rparr>)))"

section \<open>The command line\<close>

record 'd main_opts =
  m_cfg :: "'d cfg_state"
  confarg :: bool

definition arg_tail :: "nat \<Rightarrow> string \<Rightarrow> int" where
  "arg_tail n arg = atoi (drop n arg)"

text \<open>\<open>-n\<close>, \<open>-nr\<close> and \<open>-nw\<close>: the nominal rate, for all, reading or writing processes.\<close>

definition set_nominal :: "'d fpu \<Rightarrow> string \<Rightarrow> 'd user_confs \<Rightarrow> 'd user_confs" where
  "set_nominal F arg conf =
     (let conf = conf\<lparr>testtype := NOMINAL\<rparr> in
      if take 1 (drop 2 arg) = ''r'' then
        conf\<lparr>ratio := fp_of_int F (arg_tail 3 arg), ratior := fp_of_int F (arg_tail 3 arg)\<rparr>
      else if take 1 (drop 2 arg) = ''w'' then
        conf\<lparr>ratio := fp_of_int F (arg_tail 3 arg), ratiow := fp_of_int F (arg_tail 3 arg)\<rparr>
      else conf\<lparr>ratio := fp_of_int F (arg_tail 2 arg)\<rparr>)"

definition set_main_conf :: "'d main_opts \<Rightarrow> 'd user_confs \<Rightarrow> 'd main_opts" where
  "set_main_conf m conf = m\<lparr>m_cfg := (m_cfg m)\<lparr>cfg_conf := conf\<rparr>\<rparr>"

text \<open>
  One argument.  \<open>files\<close> gives the text of a configuration file, \<^const>\<open>None\<close> if it cannot be opened.
  \<open>usage\<close> and \<open>help\<close> exit with status 8.
\<close>

definition main_arg ::
  "'d fpu \<Rightarrow> (string \<Rightarrow> 'd) \<Rightarrow> dir_env \<Rightarrow> (string \<Rightarrow> string option) \<Rightarrow> string \<Rightarrow> 'd main_opts \<Rightarrow> 'd main_opts res" where
  "main_arg F atof E files arg m =
     (let c = take 1 (drop 1 arg); conf = cfg_conf (m_cfg m) in
      if c = ''p'' then
        (if testtype conf \<noteq> NOMINAL then Inr (set_main_conf m (conf\<lparr>testtype := PEAK\<rparr>)) else Inl (Exited 8))
      else if c = ''n'' then
        (if testtype conf \<noteq> PEAK then Inr (set_main_conf m (set_nominal F arg conf)) else Inl (Exited 8))
      else if c = ''w'' then
        (if iotype conf \<noteq> READ \<and> \<not> mixedIO conf
         then Inr (set_main_conf m (conf\<lparr>iotype := WRITE\<rparr>)) else Inl (Exited 8))
      else if c = ''r'' then
        (if iotype conf \<noteq> WRITE \<and> \<not> mixedIO conf
         then Inr (set_main_conf m (conf\<lparr>iotype := READ\<rparr>)) else Inl (Exited 8))
      else if c = ''m'' then Inr (set_main_conf m (conf\<lparr>mixedIO := True\<rparr>))
      else if c = ''t'' then
        Inr (set_main_conf m (conf\<lparr>flag_termination_time := True, time_to_run := arg_tail 2 arg\<rparr>))
      else if c = ''s'' then
        Inr (set_main_conf m (conf\<lparr>number_ops := word_of_int (atol (drop 2 arg)), flag_termination_size := True\<rparr>))
      else if c = ''f'' then
        (if confarg m then Inr m
         else bindR (ini_parse (config_handler F atof E) (files (drop 2 arg)) (m_cfg m)) (\<lambda>(e, u).
                Inr (m\<lparr>m_cfg := u, confarg := True\<rparr>)))
      else Inl (Exited 8))"

fun main_args ::
  "'d fpu \<Rightarrow> (string \<Rightarrow> 'd) \<Rightarrow> dir_env \<Rightarrow> (string \<Rightarrow> string option) \<Rightarrow> string list \<Rightarrow> 'd main_opts \<Rightarrow> 'd main_opts res" where
  "main_args F atof E files [] m = Inr m"
| "main_args F atof E files (a # as) m =
     (if take 1 a = ''-'' then bindR (main_arg F atof E files a m) (main_args F atof E files as) else Inr m)"

definition load_default ::
  "'d fpu \<Rightarrow> (string \<Rightarrow> 'd) \<Rightarrow> dir_env \<Rightarrow> (string \<Rightarrow> string option) \<Rightarrow> 'd main_opts \<Rightarrow> 'd main_opts res" where
  "load_default F atof E files m =
     (if confarg m then Inr m
      else bindR (ini_parse (config_handler F atof E) (files ''conf/defconf.ini'') (m_cfg m)) (\<lambda>(e, u).
             Inr (m\<lparr>m_cfg := u\<rparr>)))"

section \<open>Checks and conversions\<close>

text \<open>The tests before the result folders are created; \<open>time_to_run\<close> may be 0.\<close>

definition check_conf :: "'d fpu \<Rightarrow> 'd user_confs \<Rightarrow> 'd user_confs res" where
  "check_conf F conf =
     (if iotype conf \<noteq> WRITE \<and> iotype conf \<noteq> READ \<and> \<not> mixedIO conf then Inl (Exited 8)
      else if testtype conf \<noteq> PEAK \<and> testtype conf \<noteq> NOMINAL then Inl (Exited 8)
      else if \<not> flag_termination_size conf \<and> \<not> flag_termination_time conf then Inl (Exited 8)
      else if flag_termination_time conf \<and> time_to_run conf < 0 then Inl (Exited 8)
      else if flag_termination_size conf \<and> number_ops conf < 0 then Inl (Exited 8)
      else if filesize conf \<le> 0 then Inl (Exited 8)
      else if testtype conf = NOMINAL \<and> fp_le F (ratio conf) (fp_of_int F 0) then Inl (Exited 8)
      else if block_size conf \<le> 0 then Inl (Exited 8)
      else Inr conf)"

definition make_results :: "dir_env \<Rightarrow> node \<Rightarrow> node" where
  "make_results E tree =
     (case mkdir_path E ''results'' tree of
        None \<Rightarrow> tree
      | Some t \<Rightarrow> fold (\<lambda>p t. case mkdir_path E p t of None \<Rightarrow> t | Some t \<Rightarrow> t)
          [''results/accesses'', ''results/latthr'', ''results/distribution''] t)"

definition MEGA :: "'d fpu \<Rightarrow> 'd" where "MEGA F = fp_of_int F 1000000"

text \<open>Rates per microsecond, sizes in bytes and blocks, times in seconds (an \<open>int\<close> product).\<close>

definition scale_rates :: "'d fpu \<Rightarrow> 'd user_confs \<Rightarrow> 'd user_confs" where
  "scale_rates F conf =
     (let conf = conf\<lparr>ratio := fp_div F (ratio conf) (MEGA F)\<rparr>
      in if mixedIO conf
         then conf\<lparr>ratior := fp_div F (ratior conf) (MEGA F), ratiow := fp_div F (ratiow conf) (MEGA F)\<rparr>
         else conf)"

definition check_ranges :: "'d user_confs \<Rightarrow> 'd user_confs res" where
  "check_ranges conf =
     (if compression_to_achieve conf < 1 \<or> compression_to_achieve conf > 99 then Inl (Exited 8)
      else if percentage_analyze conf < 1 \<or> percentage_analyze conf > 99 then Inl (Exited 8)
      else Inr conf)"

definition run_length :: "'d user_confs \<Rightarrow> 'd user_confs" where
  "run_length conf =
     (if flag_termination_time conf
      then conf\<lparr>time_to_run := sint (word_of_int (time_to_run conf * 60) :: cint)\<rparr> else conf)"

definition default_distfile :: "'d user_confs \<Rightarrow> 'd user_confs" where
  "default_distfile conf = (if \<not> distf conf then conf\<lparr>distfile := DFILE\<rparr> else conf)"

definition size_ops :: "'d user_confs \<Rightarrow> 'd user_confs res" where
  "size_ops conf =
     (if flag_termination_size conf
      then bindR (cdiv (number_ops conf * 1024 * 1024) (block_size conf)) (\<lambda>n. Inr (conf\<lparr>number_ops := n\<rparr>))
      else Inr conf)"

definition convert_conf :: "'d fpu \<Rightarrow> 'd user_confs \<Rightarrow> 'd user_confs res" where
  "convert_conf F conf =
     bindR (check_ranges (scale_rates F conf)) (\<lambda>conf.
       let conf = conf\<lparr>filesize := filesize conf * 1024 * 1024\<rparr>
       in bindR (cdiv (filesize conf) (block_size conf)) (\<lambda>tot.
            size_ops (default_distfile (run_length (conf\<lparr>totblocks := tot\<rparr>)))))"

text \<open>The configuration a command line leads to.\<close>

definition configure ::
  "'d fpu \<Rightarrow> (string \<Rightarrow> 'd) \<Rightarrow> dir_env \<Rightarrow> (string \<Rightarrow> string option) \<Rightarrow> u64 \<Rightarrow> node \<Rightarrow> string list \<Rightarrow>
   'd cfg_state res" where
  "configure F atof E files now tree args =
     bindR (main_args F atof E files args
       \<lparr>m_cfg = \<lparr>cfg_conf = initial_conf F now, cfg_disk = tree\<rparr>, confarg = False\<rparr>) (\<lambda>m.
     bindR (load_default F atof E files m) (\<lambda>m.
     bindR (check_conf F (cfg_conf (m_cfg m))) (\<lambda>conf.
     bindR (convert_conf F conf) (\<lambda>conf.
       Inr \<lparr>cfg_conf = conf, cfg_disk = make_results E (cfg_disk (m_cfg m))\<rparr>))))"

section \<open>The invariant of the handler\<close>

text \<open>Every path of the configuration fits its array.\<close>

definition paths_bounded :: "'d user_confs \<Rightarrow> bool" where
  "paths_bounded c \<longleftrightarrow> (\<forall>p \<in> {tempfilespath c, printfile c, accessfilelog c, rawpath c, distfile c,
     outputfile c, integrityfile c}. length p < PATH_SIZE)"

lemma strcpy_path_Inr [simp]: "strcpy_path v = Inr f \<longleftrightarrow> f = v \<and> length v < PATH_SIZE"
  by (auto simp: strcpy_path_def sprintf_into_def)

lemma set_general_bounded: "set_general v c = Inr c' \<Longrightarrow> paths_bounded c \<Longrightarrow> paths_bounded c'"
  by (auto simp: set_general_def Let_def paths_bounded_def elim!: bindR_InrE split: list.splits if_splits)

lemma set_plain_bounded [simp]:
  "paths_bounded (set_access a c) = paths_bounded c" "paths_bounded (set_sync a c) = paths_bounded c"
  by (simp_all add: set_access_def set_sync_def paths_bounded_def)

lemma set_option_bounded:
  "set_option_field F atof k v c = Some (Inr c') \<Longrightarrow> paths_bounded c \<Longrightarrow> paths_bounded c'"
  unfolding set_option_field_def
  by (split if_split_asm, (auto dest: set_general_bounded)[1],
      auto simp: paths_bounded_def set_access_def set_sync_def elim!: bindR_InrE split: if_splits)

lemma handler_bounded:
  assumes "paths_bounded (cfg_conf u)" and "config_handler F atof E u s n v = Inr (ok, u')"
  shows "paths_bounded (cfg_conf u')"
  using assms
  by (auto simp: config_handler_def elim!: bindR_InrE split: if_splits option.splits dest: set_option_bounded)
    (auto simp: paths_bounded_def)

interpretation cfg: ini_client "config_handler F atof E" "\<lambda>u. paths_bounded (cfg_conf u)" for F atof E
  by unfold_locales (rule handler_bounded)

section \<open>Accepted configurations\<close>

lemma set_nominal_bounded [simp]: "paths_bounded (set_nominal F arg c) = paths_bounded c"
  by (simp add: set_nominal_def Let_def paths_bounded_def)

lemma main_arg_bounded:
  assumes "main_arg F atof E files a m = Inr m'" and "paths_bounded (cfg_conf (m_cfg m))"
  shows "paths_bounded (cfg_conf (m_cfg m'))"
  using assms
  by (auto simp: main_arg_def Let_def set_main_conf_def elim!: bindR_InrE split: if_splits
      dest: cfg.parse_inv) (auto simp: paths_bounded_def)

lemma main_args_bounded:
  "main_args F atof E files as m = Inr m' \<Longrightarrow> paths_bounded (cfg_conf (m_cfg m)) \<Longrightarrow> paths_bounded (cfg_conf (m_cfg m'))"
  by (induction as arbitrary: m) (auto elim!: bindR_InrE dest: main_arg_bounded split: if_splits)

lemma load_default_bounded:
  "load_default F atof E files m = Inr m' \<Longrightarrow> paths_bounded (cfg_conf (m_cfg m)) \<Longrightarrow> paths_bounded (cfg_conf (m_cfg m'))"
  by (auto simp: load_default_def elim!: bindR_InrE split: if_splits dest: cfg.parse_inv)

definition choices_made :: "'d user_confs \<Rightarrow> bool" where
  "choices_made c \<longleftrightarrow> (iotype c = READ \<or> iotype c = WRITE \<or> mixedIO c)
     \<and> (testtype c = PEAK \<or> testtype c = NOMINAL) \<and> (flag_termination_size c \<or> flag_termination_time c)"

lemma check_conf_Inr: "check_conf F c = Inr c' \<Longrightarrow> c' = c \<and> choices_made c \<and> 0 < block_size c \<and> 0 < filesize c"
  by (auto simp: check_conf_def choices_made_def word_gt_0 split: if_splits)

definition ranges_ok :: "'d user_confs \<Rightarrow> bool" where
  "ranges_ok c \<longleftrightarrow> 1 \<le> compression_to_achieve c \<and> compression_to_achieve c \<le> 99
     \<and> 1 \<le> percentage_analyze c \<and> percentage_analyze c \<le> 99
     \<and> 0 < block_size c \<and> totblocks c = filesize c div block_size c"

definition run_shape :: "'d user_confs \<Rightarrow> _" where
  "run_shape c = (iotype c, testtype c, mixedIO c, flag_termination_size c, flag_termination_time c,
     block_size c, compression_to_achieve c, percentage_analyze c)"

lemma convert_steps [simp]:
  "run_shape (scale_rates F c) = run_shape c" "paths_bounded (scale_rates F c) = paths_bounded c"
  "run_shape (run_length c) = run_shape c" "paths_bounded (run_length c) = paths_bounded c"
  "run_shape (default_distfile c) = run_shape c" "paths_bounded c \<Longrightarrow> paths_bounded (default_distfile c)"
  "totblocks (run_length c) = totblocks c" "filesize (run_length c) = filesize c"
  "totblocks (default_distfile c) = totblocks c" "filesize (default_distfile c) = filesize c"
  by (simp_all add: run_shape_def scale_rates_def run_length_def default_distfile_def paths_bounded_def
      Let_def DFILE_def PATH_SIZE_def)

lemma size_ops_Inr: "size_ops c = Inr c' \<Longrightarrow> run_shape c' = run_shape c \<and> totblocks c' = totblocks c
    \<and> filesize c' = filesize c \<and> paths_bounded c' = paths_bounded c"
  by (auto simp: size_ops_def run_shape_def paths_bounded_def elim!: bindR_InrE split: if_splits)

lemma check_ranges_Inr: "check_ranges c = Inr c' \<Longrightarrow> c' = c \<and> 1 \<le> compression_to_achieve c
    \<and> compression_to_achieve c \<le> 99 \<and> 1 \<le> percentage_analyze c \<and> percentage_analyze c \<le> 99"
  unfolding check_ranges_def by (simp only: de_Morgan_disj not_less split: if_splits) auto

lemma convert_conf_Inr:
  assumes "convert_conf F c = Inr c'" and "0 < block_size c"
  shows "ranges_ok c' \<and> choices_made c' = choices_made c \<and> (paths_bounded c \<longrightarrow> paths_bounded c')"
proof -
  let ?s = "scale_rates F c"
  let ?c = "?s\<lparr>filesize := filesize ?s * 1024 * 1024\<rparr>"
  let ?d = "?c\<lparr>totblocks := filesize ?c div block_size ?s\<rparr>"
  have sh: "run_shape ?s = run_shape c" by simp
  then have b: "block_size ?s = block_size c" by (simp add: run_shape_def)
  from assms(1) obtain cc where cc: "check_ranges ?s = Inr cc"
    by (auto simp: convert_conf_def elim!: bindR_InrE)
  note r = check_ranges_Inr [OF cc]
  have "block_size ?s \<noteq> 0" using b assms(2) by auto
  with assms(1) cc r have so: "size_ops (default_distfile (run_length ?d)) = Inr c'"
    by (simp add: convert_conf_def Let_def res_simps)
  note z = size_ops_Inr [OF so]
  have p: "paths_bounded ?d = paths_bounded ?s" by (simp add: paths_bounded_def)
  have "run_shape ?d = run_shape ?s" by (simp add: run_shape_def)
  with z sh have "run_shape c' = run_shape c" by simp
  moreover have "totblocks c' = filesize c' div block_size ?s" using z by simp
  ultimately show ?thesis using r z p assms(2) b sh
    by (auto simp: ranges_ok_def choices_made_def run_shape_def)
qed

lemma initial_bounded: "paths_bounded (initial_conf F now)"
  by (simp add: paths_bounded_def initial_conf_def PATH_SIZE_def)
section \<open>Numbers in a configuration file\<close>

lemma show_nat_length: "n < 10 ^ k \<Longrightarrow> 0 < k \<Longrightarrow> length (show_nat n) \<le> k"
proof (induction n arbitrary: k rule: show_nat.induct)
  case (1 n)
  show ?case
  proof (cases "n < 10")
    case True
    with 1 show ?thesis by (simp add: show_nat.simps [of n])
  next
    case False
    obtain j where k: "k = Suc j" using 1(3) by (cases k) auto
    then have j: "k = Suc j" "0 < j" using False 1(2) by (auto intro: gr0I)
    then have "n div 10 < 10 ^ j" using 1(2) by (simp add: div_less_iff_less_mult mult.commute)
    with 1(1) [OF False, of j] j show ?thesis using False by (simp add: show_nat.simps [of n])
  qed
qed

definition small_int :: "int \<Rightarrow> bool" where
  "small_int i \<longleftrightarrow> - (2 ^ 31) \<le> i \<and> i < 2 ^ 31"

lemma show_int_text:
  assumes "small_int i"
  shows "length (show_int i) \<le> 11" and "value_ok (show_int i)" and "CHR 0x0A \<notin> set (show_int i)"
proof -
  have d: "c \<noteq> CHR ''#'' \<and> c \<noteq> CHR 0x0A \<and> \<not> isspace c" if "isdigit c" for c
    using that by (auto simp: isdigit_def isspace_def)
  have n: "\<forall>c \<in> set (show_nat n). isdigit c" "show_nat n \<noteq> []" for n using show_nat_digits [of n] by auto
  have l: "length (show_nat (nat \<bar>i\<bar>)) \<le> 10"
    using assms by (intro show_nat_length) (auto simp: small_int_def)
  have m: "\<not> isspace CHR ''-''" by (simp add: isspace_def)
  show "length (show_int i) \<le> 11" using l by (auto simp: show_int_def)
  have "set (show_int i) \<subseteq> {CHR ''-''} \<union> Collect isdigit" using n(1) by (auto simp: show_int_def)
  then have "\<forall>c \<in> set (show_int i). c \<noteq> CHR ''#'' \<and> c \<noteq> CHR 0x0A \<and> \<not> isspace c"
    using d m by auto
  then show "value_ok (show_int i)" "CHR 0x0A \<notin> set (show_int i)"
    by (auto simp: value_ok_def)
qed

text \<open>The settings with \<open>int\<close> values, by name, and what they set.\<close>

definition int_settings :: "(string \<times> (int \<Rightarrow> 'd user_confs \<Rightarrow> 'd user_confs)) list" where
  "int_settings =
     [(''logging'', \<lambda>i c. c\<lparr>logfeature := i\<rparr>), (''access_type'', set_access),
      (''populate'', \<lambda>i c. c\<lparr>populate_opt := i\<rparr>), (''sync'', set_sync)]"

definition int_names :: "string list" where
  "int_names = [''logging'', ''access_type'', ''populate'', ''sync'']"

lemma int_names_settings: "n \<in> set int_names \<Longrightarrow> \<exists>f. (n, f) \<in> set int_settings"
  by (auto simp: int_names_def int_settings_def)

definition apply_settings :: "(string \<times> int) list \<Rightarrow> 'd user_confs \<Rightarrow> 'd user_confs" where
  "apply_settings xs c = fold (\<lambda>(n, i) c. case map_of int_settings n of None \<Rightarrow> c | Some f \<Rightarrow> f i c) xs c"

definition settings_file :: "(string \<times> int) list \<Rightarrow> ini_item list" where
  "settings_file xs = Section ''execution'' # map (\<lambda>(n, i). Pair n (show_int i)) xs"

lemma int_setting_handled:
  assumes "(n, f) \<in> set int_settings" and "small_int i"
  shows "config_handler F atof E u ''execution'' n (show_int i) = Inr (True, u\<lparr>cfg_conf := f i (cfg_conf u)\<rparr>)"
proof -
  have a: "atoi (show_int i) = i" using assms(2) atoi_show_int [of i] by (simp add: small_int_def)
  have "config_handler F atof E u ''execution'' ''logging'' (show_int i)
      = Inr (True, u\<lparr>cfg_conf := (cfg_conf u)\<lparr>logfeature := i\<rparr>\<rparr>)"
    by (simp add: config_handler_def set_option_field_def a)
  moreover have "config_handler F atof E u ''execution'' ''access_type'' (show_int i)
      = Inr (True, u\<lparr>cfg_conf := set_access i (cfg_conf u)\<rparr>)"
    by (simp add: config_handler_def set_option_field_def a)
  moreover have "config_handler F atof E u ''execution'' ''populate'' (show_int i)
      = Inr (True, u\<lparr>cfg_conf := (cfg_conf u)\<lparr>populate_opt := i\<rparr>\<rparr>)"
    by (simp add: config_handler_def set_option_field_def a)
  moreover have "config_handler F atof E u ''execution'' ''sync'' (show_int i)
      = Inr (True, u\<lparr>cfg_conf := set_sync i (cfg_conf u)\<rparr>)"
    by (simp add: config_handler_def set_option_field_def a)
  ultimately show ?thesis using assms(1) by (auto simp: int_settings_def)
qed

lemma int_settings_unique: "(n, f) \<in> set int_settings \<Longrightarrow> map_of int_settings n = Some f"
  by (auto simp: int_settings_def)

lemma settings_feed:
  assumes "\<forall>(n, i) \<in> set xs. n \<in> set int_names \<and> small_int i"
  shows "feed (config_handler F atof E) (map (\<lambda>(n, i). Pair n (show_int i)) xs) ''execution'' u
    = Inr (True, u\<lparr>cfg_conf := apply_settings xs (cfg_conf (u :: 'd cfg_state))\<rparr>)"
  using assms
proof (induction xs arbitrary: u)
  case Nil
  then show ?case by (simp add: apply_settings_def)
next
  case (Cons x xs)
  obtain n i where x: "x = (n, i)" by (cases x)
  have "n \<in> set int_names" "small_int i" using Cons.prems x by auto
  then obtain f where f: "(n, f) \<in> set (int_settings :: (string \<times> (int \<Rightarrow> 'd user_confs \<Rightarrow> _)) list)" "small_int i"
    using int_names_settings by blast
  have "apply_settings (x # xs) c = apply_settings xs (f i c)" for c
    by (simp add: apply_settings_def x int_settings_unique [OF f(1)])
  with Cons.IH [of "u\<lparr>cfg_conf := f i (cfg_conf u)\<rparr>"] Cons.prems int_setting_handled [OF f] x
  show ?case by simp
qed

lemma settings_lines:
  assumes "\<forall>(n, i) \<in> set xs. n \<in> set int_names \<and> small_int i" and "x \<in> set (settings_file xs)"
  shows "item_ok x \<and> (\<exists>l. render_item x = l @ [CHR 0x0A] \<and> CHR 0x0A \<notin> set l \<and> length l + 1 < INI_MAX_LINE)"
proof -
  have "x = Section ''execution'' \<or> (\<exists>p \<in> set xs. x = Pair (fst p) (show_int (snd p)))"
    using assms(2) by (force simp: settings_file_def)
  with assms(1) consider "x = Section ''execution''"
    | p where "x = Pair (fst p) (show_int (snd p))" "fst p \<in> set int_names" "small_int (snd p)"
    by fastforce
  then show ?thesis
  proof cases
    case 1
    then show ?thesis by (auto simp: MAX_SECTION_def INI_MAX_LINE_def intro!: exI [of _ "''[execution]''"])
  next
    case 2
    then have "name_ok (fst p)" "CHR 0x0A \<notin> set (fst p)" "length (fst p) \<le> 11"
      by (auto simp: int_names_def name_ok_def isspace_def)
    with show_int_text [OF 2(3)] 2(1) show ?thesis
      by (auto simp: INI_MAX_LINE_def intro!: exI [of _ "fst p @ ''='' @ show_int (snd p)"])
  qed
qed

section \<open>Properties\<close>

text \<open>
  C23: a configuration that \<open>main\<close> accepts is complete and consistent: the kind of operation, of test
  and of termination are chosen, compression and sample are from 1 to 99 percent, the block size is
  not 0, \<open>totblocks\<close> is the number of whole blocks of a file, and every path fits its array.
\<close>

theorem accepted_configuration:
  assumes "configure F atof E files now tree args = Inr u"
  shows "choices_made (cfg_conf u) \<and> ranges_ok (cfg_conf u) \<and> paths_bounded (cfg_conf u)"
proof -
  from assms obtain m1 m c where
    m1: "main_args F atof E files args
       \<lparr>m_cfg = \<lparr>cfg_conf = initial_conf F now, cfg_disk = tree\<rparr>, confarg = False\<rparr> = Inr m1"
    and m: "load_default F atof E files m1 = Inr m"
    and c: "check_conf F (cfg_conf (m_cfg m)) = Inr c" "convert_conf F c = Inr (cfg_conf u)"
    by (auto simp: configure_def elim!: bindR_InrE)
  have "paths_bounded (cfg_conf (m_cfg m))"
    using main_args_bounded [OF m1] load_default_bounded [OF m] by (simp add: initial_bounded)
  with check_conf_Inr [OF c(1)] convert_conf_Inr [OF c(2)] show ?thesis by auto
qed


section \<open>A concrete command line\<close>

definition demo_args :: "string list" where
  "demo_args = [''-p'', ''-w'', ''-s1'', ''-fconf'']"

definition demo_files :: "string \<Rightarrow> string option" where
  "demo_files path = (if path = ''conf'' then Some (''[execution]'' @ [CHR 0x0A] @ ''filesize=2'' @ [CHR 0x0A]
     @ ''compression_to_achieve = 50'' @ [CHR 0x0A] @ ''percentage_analyze: 10'' @ [CHR 0x0A]
     @ ''nprocs=2 # processes'' @ [CHR 0x0A]) else None)"

definition demo_configured :: "rat cfg_state res" where
  "demo_configured = configure exact_fpu (\<lambda>_. 0) (demo_env []) demo_files 7 (Dir []) demo_args"

theorem accepted_configuration_witness:
  "\<exists>u. demo_configured = Inr u \<and> ranges_ok (cfg_conf u) \<and> totblocks (cfg_conf u) = 512"
proof -
  have "(case demo_configured of Inl e \<Rightarrow> 0 | Inr u \<Rightarrow> totblocks (cfg_conf u)) = 512" by code_simp
  then obtain u where u: "demo_configured = Inr u" "totblocks (cfg_conf u) = 512"
    by (auto split: sum.splits)
  with accepted_configuration [OF u(1) [unfolded demo_configured_def]] show ?thesis by auto
qed


end
