(* ===== verification/Dedisgen_run.thy ===== *)
theory Dedisgen_run
  imports Dedisgen
begin

text \<open>
  \<open>main\<close> of \<open>DEDISgen.c\<close> from the arguments to the results: what the analysis of a folder reports for each
  block size, and the distribution it writes with \<open>-o\<close>.
\<close>

section \<open>What should be reported\<close>

definition duplicates_table :: "'a list \<Rightarrow> u64 \<Rightarrow> u64 option" where
  "duplicates_table hs k = (if with_duplicates hs (unat k) = {} then None
     else Some (word_of_nat (card (with_duplicates hs (unat k)))))"

definition figures_right :: "string list \<Rightarrow> int \<Rightarrow> u64 \<Rightarrow> size_report \<Rightarrow> bool" where
  "figures_right hs b nf r \<longleftrightarrow> r_size r = b \<and> r_files r = nf \<and> r_total r = word_of_nat (length hs)
     \<and> r_zerodups r = word_of_nat (card (with_duplicates hs 0)) \<and> r_distinctdup r = word_of_nat (card (repeated hs))
     \<and> r_dup r = word_of_nat (length hs - card (set hs))
     \<and> r_space r = word_of_nat (length hs - card (set hs)) * word_of_int b"

definition distribution_right :: "string list \<Rightarrow> string option \<Rightarrow> size_report \<Rightarrow> bool" where
  "distribution_right hs out r \<longleftrightarrow> (case r_dist r of
     None \<Rightarrow> out = None
   | Some (ls, cs) \<Rightarrow> out \<noteq> None \<and> distinct (map fst ls) \<and> map_of ls = duplicates_table hs)"

lemma once_or_again: "card (set hs) = card (with_duplicates hs 0) + card (repeated hs)"
proof -
  have "set hs = with_duplicates hs 0 \<union> repeated hs"
  proof
    show "set hs \<subseteq> with_duplicates hs 0 \<union> repeated hs"
    proof
      fix h assume h: "h \<in> set hs"
      then have "count_list hs h \<noteq> 0" using count_list_0_iff [of hs h] by simp
      then show "h \<in> with_duplicates hs 0 \<union> repeated hs" using h by (auto simp: with_duplicates_def repeated_def)
    qed
  qed (auto simp: with_duplicates_def repeated_def)
  moreover have "with_duplicates hs 0 \<inter> repeated hs = {}" by (auto simp: with_duplicates_def repeated_def)
  ultimately show ?thesis by (metis card_Un_disjoint finite_Un finite_set)
qed

text \<open>Every distinct block has its place in the distribution.\<close>

lemma distribution_total:
  assumes d: "distinct (map fst ls)" and m: "map_of ls = duplicates_table hs" and len: "length hs < 2 ^ 64"
  shows "sum_list (map snd ls) = word_of_nat (card (set hs))"
proof -
  let ?n = "\<lambda>k :: u64. card (with_duplicates hs (unat k))"
  have in_ls: "(k, v) \<in> set ls \<longleftrightarrow> with_duplicates hs (unat k) \<noteq> {} \<and> v = word_of_nat (?n k)" for k v
    using map_of_eq_Some_iff [OF d, of k v]
    by (cases "with_duplicates hs (unat k) = {}") (auto simp: m duplicates_table_def)
  have keys: "fst ` set ls = {k. with_duplicates hs (unat k) \<noteq> {}}"
  proof (rule set_eqI)
    fix k
    have "k \<in> fst ` set ls \<longleftrightarrow> (\<exists>v. (k, v) \<in> set ls)" by force
    then show "k \<in> fst ` set ls \<longleftrightarrow> k \<in> {k. with_duplicates hs (unat k) \<noteq> {}}" by (simp add: in_ls)
  qed
  have fin: "finite (fst ` set ls)" by simp
  have "map snd ls = map (\<lambda>k. word_of_nat (?n k)) (map fst ls)" using in_ls by (auto simp: split_paired_all)
  then have "sum_list (map snd ls) = sum_list (map (\<lambda>k. word_of_nat (?n k)) (map fst ls))" by (simp only:)
  also have "\<dots> = sum (\<lambda>k. word_of_nat (?n k)) (fst ` set ls)"
    unfolding sum_list_distinct_conv_sum_set [OF d] by simp
  also have "\<dots> = word_of_nat (sum ?n (fst ` set ls))" by simp
  also have "sum ?n (fst ` set ls) = card (\<Union>k \<in> fst ` set ls. with_duplicates hs (unat k))"
    using fin by (subst card_UN_disjoint) (auto simp: with_duplicates_def word_unat_eq_iff)
  also have "(\<Union>k \<in> fst ` set ls. with_duplicates hs (unat k)) = set hs"
  proof
    show "set hs \<subseteq> (\<Union>k \<in> fst ` set ls. with_duplicates hs (unat k))"
    proof
      fix h assume h: "h \<in> set hs"
      then have c: "0 < count_list hs h" using count_list_0_iff [of hs h] by auto
      have "count_list hs h - 1 < 2 ^ 64" using count_list_le [of hs h] len by linarith
      then have "unat (word_of_nat (count_list hs h - 1) :: u64) = count_list hs h - 1" by (intro unat_of_nat_small) simp
      then have "h \<in> with_duplicates hs (unat (word_of_nat (count_list hs h - 1) :: u64))"
        using h c by (simp add: with_duplicates_def)
      then show "h \<in> (\<Union>k \<in> fst ` set ls. with_duplicates hs (unat k))" unfolding keys by blast
    qed
  qed (auto simp: with_duplicates_def)
  finally show ?thesis .
qed

lemma duplicates_bounded:
  assumes "map_of ls = duplicates_table hs" and "(k, v) \<in> set ls" and "distinct (map fst ls)"
  shows "unat k < length hs"
proof -
  have "with_duplicates hs (unat k) \<noteq> {}"
    using assms map_of_eq_Some_iff [OF assms(3), of k v] by (auto simp: duplicates_table_def split: if_splits)
  then obtain h where "count_list hs h = unat k + 1" by (auto simp: with_duplicates_def)
  with count_list_le [of hs h] show ?thesis by simp
qed

section \<open>The set-up\<close>

definition fresh_db :: "('s \<Rightarrow> bool) \<Rightarrow> ('s \<Rightarrow> 'k \<Rightarrow> u64 option) \<Rightarrow> 's db \<Rightarrow> bool" where
  "fresh_db ok content d \<longleftrightarrow> db_ok ok d \<and> db_table content d = (\<lambda>_. None)"

lemma prepare_shape:
  assumes "gen_prepare E p = Inr (E', s, ps)"
    and "\<forall>f. fresh_db ok content (open_dup E f)" and "\<forall>f. fresh_db okp contentp (open_print E f)"
  shows "fopen_ok E' = fopen_ok E \<and> nfiles s = 0 \<and> length (per_size s) = length (sizes_proc p)
    \<and> (\<forall>z \<in> set (per_size s). counted ok content b [] z)
    \<and> length ps = length (sizes_proc p) \<and> (\<forall>d \<in> set ps. fresh_db okp contentp d)"
proof -
  let ?E = "if removedb p then E\<lparr>disk := remove_path gen_remove_dir (rm_env E) ''./gendbs''
      (remove_path gen_remove_dir (rm_env E) ''./benchdbs'' (disk E))\<rparr> else E"
  let ?step = "\<lambda>aux (E, s, ps). bindR (db_paths p aux) (\<lambda>(pr, du).
      Inr (E\<lparr>disk := mkdir_p E du (mkdir_p E pr (disk E))\<rparr>,
        s\<lparr>per_size := per_size s @ [\<lparr>total_scanned = 0, eq_blocks = 0, dif_blocks = 0, distinctdup = 0, space = 0,
            dup_db = open_dup E du\<rparr>]\<rparr>, ps @ [open_print E pr]))"
  let ?I = "\<lambda>n (E', s, ps). fopen_ok E' = fopen_ok E \<and> open_dup E' = open_dup E \<and> open_print E' = open_print E
      \<and> nfiles s = 0 \<and> length (per_size s) = n \<and> (\<forall>z \<in> set (per_size s). counted ok content b [] z)
      \<and> length ps = n \<and> (\<forall>d \<in> set ps. fresh_db okp contentp d)"
  have "\<forall>s'. foldR ?step [0 ..< n] (?E, \<lparr>per_size = [], processed_blocks = 0, nfiles = 0\<rparr>, []) = Inr s' \<longrightarrow> ?I n s'" for n
  proof (induction n)
    case (Suc n)
    show ?case
    proof (intro allI impI)
      fix s' assume "foldR ?step [0 ..< Suc n] (?E, \<lparr>per_size = [], processed_blocks = 0, nfiles = 0\<rparr>, []) = Inr s'"
      then obtain t where t: "foldR ?step [0 ..< n] (?E, \<lparr>per_size = [], processed_blocks = 0, nfiles = 0\<rparr>, []) = Inr t"
        "?step n t = Inr s'" by (auto simp: foldR_append elim!: bindR_InrE)
      obtain Et st pt where tt: "t = (Et, st, pt)" by (metis prod_cases3)
      from Suc t(1) have "?I n t" by blast
      then show "?I (Suc n) s'" using t(2) assms(2,3)
        by (auto simp: tt counted_def repeated_def hash_table_def fresh_db_def fun_eq_iff elim!: bindR_InrE)
    qed
  qed auto
  from this [of "length (sizes_proc p)"] assms(1) show ?thesis
    unfolding gen_prepare_def Let_def by blast
qed

section \<open>The results\<close>

text \<open>
  The distribution is written when the names of its three files fit and they can be opened, when there are more
  than 300 distinct blocks, and fewer than 10^9 blocks in all.
\<close>

definition output_ready :: "('s, 'p) gen_env \<Rightarrow> string option \<Rightarrow> int \<Rightarrow> string list \<Rightarrow> bool" where
  "output_ready E out b hs \<longleftrightarrow> (case out of None \<Rightarrow> True
     | Some path \<Rightarrow> length (show_int b) < 10 \<and> length (path @ show_int b @ ''cumul'') < 100
         \<and> fopen_ok E (path @ show_int b) \<and> fopen_ok E (path @ show_int b @ ''cumul'') \<and> fopen_ok E (path @ show_int b @ ''plot'')
         \<and> 300 < card (set hs) \<and> length hs < 10 ^ 9)"

lemma tail_count_all: "tail_count ls 0 = sum_list (map snd ls)"
proof -
  have "label_lo 0 = 0" by (simp add: label_lo_pos)
  then show ?thesis by (simp add: tail_count_def)
qed

lemma distribution_ok:
  assumes B: "hash_store B ok content" and P: "hash_store P okp contentp"
    and z: "counted ok content b hs z" and p: "fresh_db okp contentp p"
    and o: "output_ready E (Some out) sz hs"
  shows "\<exists>ls cs. gen_distribution B P E out sz (dup_db z) p = Inr (ls, cs) \<and> distinct (map fst ls)
    \<and> map_of ls = duplicates_table hs"
proof -
  from o have n: "length (show_int sz) < 10" "length (out @ show_int sz @ ''cumul'') < 100"
    "fopen_ok E (out @ show_int sz)" "fopen_ok E (out @ show_int sz @ ''cumul'')" "fopen_ok E (out @ show_int sz @ ''plot'')"
    and c: "300 < card (set hs)" and l: "length hs < 10 ^ 9" by (auto simp: output_ready_def)
  have len: "length hs < 2 ^ 64" using l by simp
  from gen_output_table [OF B P _ _ len] z p obtain p' where p': "gen_output B P (dup_db z) p = Inr p'" "db_ok okp p'"
    "db_table contentp p' = duplicates_table hs"
    unfolding duplicates_table_def by (auto simp: counted_def fresh_db_def)
  from hash_store.cursor_ok [OF P p'(2)] obtain ls where
    ls: "cursor P p' = Inr ls" "distinct (map fst ls)" "map_of ls = duplicates_table hs" by (auto simp: p'(3))
  have small: "\<And>k v. (k, v) \<in> set ls \<Longrightarrow> unat k < 10 ^ 9"
    using duplicates_bounded [OF ls(3) _ ls(2)] l by (meson order_less_trans)
  have "card (set hs) < 2 ^ 64" using card_length [of hs] len by linarith
  then have "unat (word_of_nat (card (set hs)) :: u64) = card (set hs)" by (intro unat_of_nat_small) simp
  then have "300 < (word_of_nat (card (set hs)) :: u64)" using c by (simp add: word_less_nat_alt)
  then have "\<not> tail_count ls 0 \<le> 300" by (simp add: tail_count_all distribution_total [OF ls(2,3) len] not_le)
  moreover have "(print_elements_print P True p' = Inl OutOfBounds \<and> (\<forall>c. tail_count ls c \<le> 300))
      \<or> (\<exists>c. c \<le> 18 \<and> 300 < tail_count ls c \<and> (\<forall>e > c. tail_count ls e \<le> 300)
          \<and> print_elements_print P True p' = Inr (ls, zero_lines ls @ printed_ranges ls c))"
    by (rule distribution_printed_records [OF ls(2) _ ls(1)]) (rule small)
  ultimately obtain cs where "print_elements_print P True p' = Inr (ls, cs)" by blast
  with n p'(1) ls(2,3) show ?thesis by (simp add: gen_distribution_def Let_def)
qed

lemma report_ok:
  assumes B: "hash_store B ok content" and P: "hash_store P okp contentp"
    and i: "i < length (per_size s)" and sz: "sizes_proc p ! i = Some b"
    and z: "counted ok content b hs (per_size s ! i)" and len: "length hs < 2 ^ 64"
    and ps: "i < length ps" "fresh_db okp contentp (ps ! i)" and o: "output_ready E (outputpath p) b hs"
  shows "\<exists>r. gen_report B P E p s ps i reps = Inr (reps @ [r]) \<and> figures_right hs b (nfiles s) r
    \<and> distribution_right hs (outputpath p) r"
proof -
  have zero: "(word_of_nat (card (set hs)) - word_of_nat (card (repeated hs)) :: u64) = word_of_nat (card (with_duplicates hs 0))"
    by (simp add: once_or_again)
  let ?r = "\<lambda>dist. \<lparr>r_size = b, r_files = nfiles s, r_total = total_scanned (per_size s ! i),
      r_zerodups = dif_blocks (per_size s ! i) - distinctdup (per_size s ! i), r_distinctdup = distinctdup (per_size s ! i),
      r_dup = eq_blocks (per_size s ! i), r_space = space (per_size s ! i), r_dist = dist\<rparr>"
  have f: "figures_right hs b (nfiles s) (?r dist)" for dist
    using z by (simp add: figures_right_def counted_def zero)
  show ?thesis
  proof (cases "outputpath p")
    case None
    then have "gen_report B P E p s ps i reps = Inr (reps @ [?r None])" using i sz by (simp add: gen_report_def aget_def)
    then show ?thesis using f None by (intro exI [of _ "?r None"]) (simp add: distribution_right_def)
  next
    case (Some out)
    from distribution_ok [OF B P z ps(2), of E out b] o Some obtain ls cs where
      d: "gen_distribution B P E out b (dup_db (per_size s ! i)) (ps ! i) = Inr (ls, cs)" "distinct (map fst ls)"
      "map_of ls = duplicates_table hs" by auto
    then have "gen_report B P E p s ps i reps = Inr (reps @ [?r (Some (ls, cs))])"
      using i sz ps(1) Some by (simp add: gen_report_def aget_def)
    then show ?thesis using f d Some by (intro exI [of _ "?r (Some (ls, cs))"]) (simp add: distribution_right_def)
  qed
qed

lemma reports_ok:
  assumes "\<And>i reps. i < n \<Longrightarrow> \<exists>r. gen_report B P E p s ps i reps = Inr (reps @ [r]) \<and> Q i r"
  shows "\<exists>reps. foldR (gen_report B P E p s ps) [0 ..< n] [] = Inr reps \<and> length reps = n \<and> (\<forall>i < n. Q i (reps ! i))"
  using assms
proof (induction n)
  case (Suc n)
  then obtain reps where r: "foldR (gen_report B P E p s ps) [0 ..< n] [] = Inr reps" "length reps = n"
    "\<forall>i < n. Q i (reps ! i)" by (metis less_Suc_eq)
  from Suc.prems [of n reps] obtain x where "gen_report B P E p s ps n reps = Inr (reps @ [x])" "Q n x" by auto
  with r show ?case by (intro exI [of _ "reps @ [x]"]) (auto simp: foldR_append less_Suc_eq nth_append)
qed simp

text \<open>A folder that can be read, and the sizes to analyse it for.\<close>

definition folder_ready :: "scan_env \<Rightarrow> string \<Rightarrow> (string \<times> node) list \<Rightarrow> bool" where
  "folder_ready E path es \<longleftrightarrow> readable E \<and> names_valid es \<and> paths_fit path es
     \<and> (path = [] \<or> last path = CHR ''/'') \<and> length path < MAXSIZEP \<and> walk (components path) (disk E) = Some (Dir es)"

lemma main_reports:
  assumes B: "hash_store B ok content" and P: "hash_store P okp contentp"
    and args: "gen_options args initial_opts = Inr p0" "gen_check p0 = Inr p"
    and opts: "devicetype p = FOLDER" "devicepath p = Some path" "sizes_proc p = map Some bs" "\<forall>b \<in> set bs. 0 < b"
    and prep: "gen_prepare E p = Inr (E', s, ps)"
    and dbs: "\<forall>f. fresh_db ok content (open_dup E f)" "\<forall>f. fresh_db okp contentp (open_print E f)"
    and dir: "folder_ready (scan_env.truncate E') path es"
    and blocks: "\<forall>b \<in> set bs. length (all_blocks b (files_below path es)) < 2 ^ 64
      \<and> output_ready E (outputpath p) b (hashes sha (all_blocks b (files_below path es)))"
  shows "\<exists>reps. dedisgen_main sha B P E args = Inr reps \<and> length reps = length bs
    \<and> (\<forall>i < length bs. figures_right (hashes sha (all_blocks (bs ! i) (files_below path es))) (bs ! i)
          (word_of_nat (length (files_below path es))) (reps ! i)
        \<and> distribution_right (hashes sha (all_blocks (bs ! i) (files_below path es))) (outputpath p) (reps ! i))"
proof -
  let ?H = "\<lambda>i. hashes sha (all_blocks (bs ! i) (files_below path es))"
  from dir have d: "readable (scan_env.truncate E')" "names_valid es" "paths_fit path es"
    "path = [] \<or> last path = CHR ''/''" "length path < MAXSIZEP"
    "walk (components path) (disk (scan_env.truncate E')) = Some (Dir es)" by (simp_all add: folder_ready_def)
  note sh = prepare_shape [OF prep dbs]
  have inv: "scan_inv ok content bs (\<lambda>_. []) s"
  proof -
    have "counted ok content b [] z" if "z \<in> set (per_size s)" for b z using sh [of b] that by blast
    then show ?thesis using sh opts(3) by (simp add: scan_inv_def)
  qed
  have "fopen_ok E' = fopen_ok E" using sh by blast
  then have same: "output_ready E' = output_ready E" by (intro ext) (simp add: output_ready_def split: option.split)
  have small: "\<forall>i < length bs. length (all_blocks (bs ! i) (files_below path es)) < 2 ^ 64" using blocks by simp
  from string_store.search_ok [OF string_store.intro [OF B] inv opts(4) d(1-4,6,5) small, of sha] obtain s1 where
    s1: "search_dir sha B (scan_env.truncate E') (map Some bs) path s = Inr s1" "scan_inv ok content bs ?H s1"
    "nfiles s1 = nfiles s + word_of_nat (length (files_below path es))" by blast
  have "\<exists>reps. foldR (gen_report B P E' p s1 ps) [0 ..< length bs] [] = Inr reps \<and> length reps = length bs
    \<and> (\<forall>i < length bs. figures_right (?H i) (bs ! i) (nfiles s1) (reps ! i) \<and> distribution_right (?H i) (outputpath p) (reps ! i))"
  proof (rule reports_ok)
    fix i reps assume i: "i < length bs"
    have "output_ready E' (outputpath p) (bs ! i) (?H i)"
      using blocks i by (simp add: same)
    moreover have "length (?H i) < 2 ^ 64" using small i by (simp add: hashes_def)
    ultimately show "\<exists>r. gen_report B P E' p s1 ps i reps = Inr (reps @ [r])
        \<and> figures_right (?H i) (bs ! i) (nfiles s1) r \<and> distribution_right (?H i) (outputpath p) r"
      using i s1(2) sh opts(3) by (intro report_ok [OF B P]) (simp_all add: scan_inv_def)
  qed
  moreover have "dedisgen_main sha B P E args = foldR (gen_report B P E' p s1 ps) [0 ..< length bs] []"
    using args prep s1(1) opts by (simp add: dedisgen_main_def gen_scan_def)
  moreover have "nfiles s1 = word_of_nat (length (files_below path es))" using s1(3) sh by simp
  ultimately show ?thesis by simp
qed

section \<open>Properties\<close>

text \<open>
  C9: DEDISgen reports the duplication of a folder.  With arguments that name a readable folder and positive block
  sizes, and empty databases, \<open>main\<close> returns one report per size; its figures are the files, the blocks, the
  blocks without duplicates, the distinct blocks with duplicates, the duplicates and the bytes they take.
  With \<open>-o\<close>, when there are more than 300 distinct blocks, the file written has one line for every number of
  duplicates that occurs, with the number of distinct blocks that have it.
\<close>

theorem dedisgen_reports_folder:
  assumes "hash_store B ok content" and "hash_store P okp contentp"
    and "gen_options args initial_opts = Inr p0" and "gen_check p0 = Inr p"
    and "devicetype p = FOLDER" and "devicepath p = Some path" and "sizes_proc p = map Some bs" and "\<forall>b \<in> set bs. 0 < b"
    and "gen_prepare E p = Inr (E', s, ps)"
    and "\<forall>f. fresh_db ok content (open_dup E f)" and "\<forall>f. fresh_db okp contentp (open_print E f)"
    and "folder_ready (scan_env.truncate E') path es"
    and "\<forall>b \<in> set bs. length (all_blocks b (files_below path es)) < 2 ^ 64
      \<and> output_ready E (outputpath p) b (hashes sha (all_blocks b (files_below path es)))"
  shows "\<exists>reps. dedisgen_main sha B P E args = Inr reps \<and> length reps = length bs
    \<and> (\<forall>i < length bs. figures_right (hashes sha (all_blocks (bs ! i) (files_below path es))) (bs ! i)
          (word_of_nat (length (files_below path es))) (reps ! i)
        \<and> distribution_right (hashes sha (all_blocks (bs ! i) (files_below path es))) (outputpath p) (reps ! i))"
  by (rule main_reports [OF assms])

section \<open>A concrete analysis\<close>

text \<open>
  The folder \<open>t/\<close> with one file of 301 different blocks of two bytes and a second copy of the first,
  analysed for blocks of two bytes and written to the file \<open>o2\<close>.
\<close>

definition big_block :: "nat \<Rightarrow> u8 list" where
  "big_block i = [word_of_nat (i div 256), word_of_nat i]"

definition big_file :: "u8 list" where
  "big_file = concat (map big_block ([0 ..< 301] @ [0]))"

definition big_env :: "((string \<times> u64) list, (u64 \<times> u64) list) gen_env" where
  "big_env = \<lparr>fd_of = (\<lambda>_. 3), read_ok = (\<lambda>_ _. True), can_opendir = (\<lambda>_. True), disk = Dir [(''t'', Dir [(''a'', Reg big_file)])],
     rm_env = \<lparr>stat_ok = (\<lambda>_. True), opendir_ok = (\<lambda>_. True), unlink_ok = (\<lambda>_. True), rmdir_ok = (\<lambda>_. True), mkdir_ok = (\<lambda>_. True)\<rparr>,
     mkdir_p = (\<lambda>_ t. t), open_dup = (\<lambda>_. mem_new), open_print = (\<lambda>_. mem_new), fopen_ok = (\<lambda>_. True)\<rparr>"

definition big_opts :: gen_opts where
  "big_opts = \<lparr>devicetype = FOLDER, devicepath = Some ''t/'', outputpath = Some ''o'', dbfolderpath = None,
     removedb = False, sizes_proc = [Some 2]\<rparr>"

lemma big_options: "gen_options [''-f'', ''-pt/'', ''-oo'', ''-b2'', ''-k''] initial_opts = Inr big_opts"
  by code_simp

lemma chunks_concat: "0 < n \<Longrightarrow> (\<And>x. x \<in> set xs \<Longrightarrow> length (f x) = n) \<Longrightarrow> chunks n (concat (map f xs)) = map f xs"
proof (induction xs)
  case (Cons x xs)
  then have "chunks n (f x @ concat (map f xs)) = chunks n (f x) @ chunks n (concat (map f xs))"
    by (intro chunks_append) simp_all
  moreover have "chunks n (f x) = [f x]" using Cons.prems by (simp add: chunks_def)
  ultimately show ?case using Cons by simp
qed (simp add: chunks_def)

lemma big_block_inj: "i < 301 \<Longrightarrow> j < 301 \<Longrightarrow> hash_name (demo_sha (big_block i)) = hash_name (demo_sha (big_block j)) \<longleftrightarrow> i = j"
proof
  assume ij: "i < 301" "j < 301" and h: "hash_name (demo_sha (big_block i)) = hash_name (demo_sha (big_block j))"
  have "demo_sha (big_block i) = demo_sha (big_block j)"
    by (rule hash_name_inj [OF _ _ h]) (simp_all add: demo_sha_def)
  then have w: "word_of_nat (i div 256) = (word_of_nat (j div 256) :: u8)" "word_of_nat i = (word_of_nat j :: u8)"
    by (simp_all add: demo_sha_def big_block_def)
  have "i div 256 mod 256 = j div 256 mod 256" "i mod 256 = j mod 256"
    using arg_cong [OF w(1), of unat] arg_cong [OF w(2), of unat] by (simp_all add: unat_of_nat)
  moreover have "i div 256 < 256" "j div 256 < 256" using ij by simp_all
  ultimately show "i = j" by (metis div_mult_mod_eq mod_less)
qed simp

definition big_blocks :: "u8 list list" where
  "big_blocks = map big_block ([0 ..< 301] @ [0])"

lemma big_scan: "all_blocks 2 [(''t/a'', big_file)] = big_blocks"
proof -
  have "file_blocks 2 big_file = chunks 2 big_file"
    using pieces_chunks [of 2 READSIZE big_file] by (simp add: file_blocks_def READSIZE_def)
  also have "\<dots> = big_blocks"
    unfolding big_file_def big_blocks_def by (rule chunks_concat) (simp_all add: big_block_def)
  finally show ?thesis by (simp add: all_blocks_def)
qed

lemma big_hashes: "length big_blocks = 302" "length (hashes demo_sha big_blocks) = 302"
  "card (set (hashes demo_sha big_blocks)) = 301"
proof -
  show "length big_blocks = 302" "length (hashes demo_sha big_blocks) = 302" by (simp_all add: hashes_def big_blocks_def)
  have "set (hashes demo_sha big_blocks) = (\<lambda>i. hash_name (demo_sha (big_block i))) ` {0 ..< 301}"
    by (auto simp: hashes_def big_blocks_def)
  moreover have "inj_on (\<lambda>i. hash_name (demo_sha (big_block i))) {0 ..< 301}"
    by (auto simp: inj_on_def big_block_inj)
  ultimately show "card (set (hashes demo_sha big_blocks)) = 301"
    by (simp only: card_image) simp
qed

theorem dedisgen_reports_folder_witness:
  "\<exists>r. dedisgen_main demo_sha mem_bdb mem_bdb big_env [''-f'', ''-pt/'', ''-oo'', ''-b2'', ''-k''] = Inr [r]
    \<and> r_total r = 302 \<and> r_dup r = 1 \<and> (\<exists>ls cs. r_dist r = Some (ls, cs)
        \<and> map_of ls = duplicates_table (hashes demo_sha big_blocks))"
proof -
  let ?hs = "hashes demo_sha big_blocks"
  have c: "components ''t/'' = [''t'']" by code_simp
  have p: "db_paths big_opts 0 = Inr (''gendbs/printdb/0'', ''gendbs/duplicatedb/0'')" by code_simp
  have d: "db_ok mem_ok (mem_new :: (string \<times> u64) list db)" "db_table map_of (mem_new :: (string \<times> u64) list db) = (\<lambda>_. None)"
    "db_ok mem_ok (mem_new :: (u64 \<times> u64) list db)" "db_table map_of (mem_new :: (u64 \<times> u64) list db) = (\<lambda>_. None)"
    by (rule demo_new)+
  have o: "show_int 2 = [digit_char 2]" by (simp add: show_int_def show_nat.simps)
  have "\<exists>reps. dedisgen_main demo_sha mem_bdb mem_bdb big_env [''-f'', ''-pt/'', ''-oo'', ''-b2'', ''-k''] = Inr reps
    \<and> length reps = length [2 :: int]
    \<and> (\<forall>i < length [2 :: int]. figures_right (hashes demo_sha (all_blocks ([2] ! i) (files_below ''t/'' [(''a'', Reg big_file)]))) ([2] ! i)
          (word_of_nat (length (files_below ''t/'' [(''a'', Reg big_file)]))) (reps ! i)
        \<and> distribution_right (hashes demo_sha (all_blocks ([2] ! i) (files_below ''t/'' [(''a'', Reg big_file)]))) (outputpath big_opts) (reps ! i))"
  proof (rule dedisgen_reports_folder [OF mem.hash_store_axioms mem.hash_store_axioms big_options])
    show "gen_prepare big_env big_opts = Inr (big_env, \<lparr>per_size = [\<lparr>total_scanned = 0, eq_blocks = 0, dif_blocks = 0,
        distinctdup = 0, space = 0, dup_db = mem_new\<rparr>], processed_blocks = 0, nfiles = 0\<rparr>, [mem_new])"
      by (simp add: gen_prepare_def p) (simp add: big_opts_def big_env_def p [unfolded big_opts_def])
    show "folder_ready (scan_env.truncate big_env) ''t/'' [(''a'', Reg big_file)]"
      using c by (simp add: folder_ready_def readable_def name_valid_def MAXSIZEP_def scan_env.truncate_def big_env_def)
    show "\<forall>b \<in> set [2]. length (all_blocks b (files_below ''t/'' [(''a'', Reg big_file)])) < 2 ^ 64
      \<and> output_ready big_env (outputpath big_opts) b (hashes demo_sha (all_blocks b (files_below ''t/'' [(''a'', Reg big_file)])))"
      using o by (simp add: output_ready_def big_opts_def big_env_def big_scan big_hashes)
  qed (simp_all add: gen_check_def big_opts_def big_env_def fresh_db_def d)
  then obtain r where r: "dedisgen_main demo_sha mem_bdb mem_bdb big_env [''-f'', ''-pt/'', ''-oo'', ''-b2'', ''-k''] = Inr [r]"
    "figures_right ?hs 2 1 r" "distribution_right ?hs (Some ''o'') r"
    by (auto simp: big_scan length_Suc_conv big_opts_def)
  have "r_total r = 302" "r_dup r = 1" using r(2) by (simp_all add: figures_right_def big_hashes)
  with r(1,3) show ?thesis by (auto simp: distribution_right_def split: option.splits)
qed

end
