(* ===== verification/Dedisgen_utils.thy ===== *)
theory Dedisgen_utils
  imports Dedisgen
begin

text \<open>
  \<open>DEDISgen-utils.c\<close>: merging the hash databases of two analyses and printing the distribution of
  one.  The databases on disk are a map from folders to stores; opening a folder gives its store and
  closing it puts the store back.
\<close>

section \<open>Merging\<close>

record 's merge_state =
  base_db :: "'s db"
  matched :: u64
  notmatched :: u64

text \<open>
  One record of the merged database.  The local counter starts from 0, so an error of the lookup is
  taken for a match with a counter of 0.
\<close>

definition merge_record :: "(string, 's) bdb \<Rightarrow> string \<times> u64 \<Rightarrow> 's merge_state \<Rightarrow> 's merge_state res" where
  "merge_record B = (\<lambda>(hash, ndups) s.
     bindR (get_db B hash (base_db s)) (\<lambda>ret.
       case ret of
         DB_NOTFOUND \<Rightarrow> bindR (put_db B hash ndups (base_db s)) (\<lambda>d.
           Inr (s\<lparr>base_db := d, notmatched := notmatched s + 1\<rparr>))
       | RET_OK v \<Rightarrow> bindR (put_db B hash (v + ndups) (base_db s)) (\<lambda>d.
           Inr (s\<lparr>base_db := d, matched := matched s + 1\<rparr>))
       | DB_ERR \<Rightarrow> bindR (put_db B hash (0 + ndups) (base_db s)) (\<lambda>d.
           Inr (s\<lparr>base_db := d, matched := matched s + 1\<rparr>))))"

definition merge_dbs :: "(string, 's) bdb \<Rightarrow> 's db \<Rightarrow> 's merge_state \<Rightarrow> 's merge_state res" where
  "merge_dbs B d s = bindR (cursor B d) (\<lambda>rs. foldR (merge_record B) rs s)"

section \<open>The program\<close>

record utils_opts =
  merge_paths :: "(string \<times> string) option"
  output_paths :: "(string \<times> string) option"

text \<open>Every error of the options ends in \<open>usage\<close>, with status 8.\<close>

fun utils_options :: "string list \<Rightarrow> utils_opts \<Rightarrow> utils_opts res" where
  "utils_options [] p = Inr p"
| "utils_options (a # as) p =
     (if take 1 a \<noteq> ''-'' then Inr p
      else let c = take 1 (drop 1 a) in
        if c = ''m'' \<or> c = ''o'' then
          (case as of
             [] \<Rightarrow> Inl (Exited 8)
           | b # as \<Rightarrow>
               bindR (copy100 (drop 2 a)) (\<lambda>_.
               bindR (copy100 b) (\<lambda>_.
                 utils_options as
                   (if c = ''m'' then p\<lparr>merge_paths := Some (drop 2 a, b)\<rparr>
                    else p\<lparr>output_paths := Some (drop 2 a, b)\<rparr>))))
        else Inl (Exited 8))"

text \<open>Opening a folder; \<open>init_db\<close> leaves a handle that is not open when it fails.\<close>

definition open_at :: "(string \<Rightarrow> bool) \<Rightarrow> string \<Rightarrow> (string \<Rightarrow> 's) \<Rightarrow> 's db" where
  "open_at ok path dbs = \<lparr>store = dbs path, is_open = ok path\<rparr>"

text \<open>\<open>-m\<close>: the first folder is merged into the second.\<close>

definition utils_merge ::
  "(string, 's) bdb \<Rightarrow> (string \<Rightarrow> bool) \<Rightarrow> utils_opts \<Rightarrow> (string \<Rightarrow> 's) \<Rightarrow> ((string \<Rightarrow> 's) \<times> (u64 \<times> u64) option) res"
where
  "utils_merge B ok p dbs =
     (case merge_paths p of
        None \<Rightarrow> Inr (dbs, None)
      | Some (from, to) \<Rightarrow>
          bindR (merge_dbs B (open_at ok from dbs) \<lparr>base_db = open_at ok to dbs, matched = 0, notmatched = 0\<rparr>) (\<lambda>s.
            Inr (dbs(to := store (base_db s)), Some (matched s, notmatched s))))"

text \<open>The copy of \<open>gen_output\<close> in \<open>DEDISgen-utils.c\<close>.\<close>

definition utils_gen_output ::
  "(string, 's) bdb \<Rightarrow> (u64, 'p) bdb \<Rightarrow> 's db \<Rightarrow> 'p db \<Rightarrow> 'p db res" where
  "utils_gen_output B P dbor dbprint =
     bindR (cursor B dbor) (\<lambda>rs. foldR (\<lambda>(h, cont). let ndups = cont - 1 in count_up P ndups 1) rs dbprint)"

lemma utils_gen_output_same: "utils_gen_output = gen_output"
  by (simp add: fun_eq_iff utils_gen_output_def gen_output_def)

text \<open>
  \<open>-o\<close>: the distribution of a folder, counted in an empty database (\<open>fresh\<close>).  The stream of the
  histogram is NULL.
\<close>

definition utils_output ::
  "(string, 's) bdb \<Rightarrow> (u64, 'p) bdb \<Rightarrow> (string \<Rightarrow> bool) \<Rightarrow> (string \<Rightarrow> bool) \<Rightarrow> 'p db \<Rightarrow> utils_opts \<Rightarrow>
   (string \<Rightarrow> 's) \<Rightarrow> ((u64 \<times> u64) list \<times> cumul_line list) option res" where
  "utils_output B P ok fopen fresh p dbs =
     (case output_paths p of
        None \<Rightarrow> Inr None
      | Some (from, out) \<Rightarrow>
          bindR (utils_gen_output B P (open_at ok from dbs) fresh) (\<lambda>pr.
            if \<not> fopen out then Inl NullStream
            else bindR (print_elements_print P False pr) (\<lambda>r. Inr (Some r))))"

definition utils_main ::
  "(string, 's) bdb \<Rightarrow> (u64, 'p) bdb \<Rightarrow> (string \<Rightarrow> bool) \<Rightarrow> (string \<Rightarrow> bool) \<Rightarrow> 'p db \<Rightarrow> string list \<Rightarrow>
   (string \<Rightarrow> 's) \<Rightarrow>
   ((string \<Rightarrow> 's) \<times> (u64 \<times> u64) option \<times> ((u64 \<times> u64) list \<times> cumul_line list) option) res" where
  "utils_main B P ok fopen fresh args dbs =
     bindR (utils_options args \<lparr>merge_paths = None, output_paths = None\<rparr>) (\<lambda>p.
     bindR (utils_merge B ok p dbs) (\<lambda>(dbs, m).
     bindR (utils_output B P ok fopen fresh p dbs) (\<lambda>r. Inr (dbs, m, r))))"

section \<open>Lemmas\<close>

text \<open>The table after a list of records with different keys has been merged in.\<close>

definition merged_table :: "('k \<Rightarrow> u64 option) \<Rightarrow> ('k \<Rightarrow> u64 option) \<Rightarrow> 'k \<Rightarrow> u64 option" where
  "merged_table t m k = (case (t k, m k) of
     (None, x) \<Rightarrow> x | (x, None) \<Rightarrow> x | (Some v, Some n) \<Rightarrow> Some (v + n))"

context string_store
begin

lemma merge_record_ok:
  assumes "db_ok ok (base_db s)"
  shows "\<exists>s'. merge_record B (k, n) s = Inr s' \<and> db_ok ok (base_db s')
    \<and> db_table content (base_db s') = merged_table (db_table content (base_db s)) [k \<mapsto> n]
    \<and> matched s' = matched s + (if db_table content (base_db s) k = None then 0 else 1)
    \<and> notmatched s' = notmatched s + (if db_table content (base_db s) k = None then 1 else 0)"
proof (cases "db_table content (base_db s) k")
  case None
  with get_db_ok [OF assms, of k] put_db_ok [OF assms, of k n] show ?thesis
    by (auto simp: merge_record_def merged_table_def fun_eq_iff split: option.split)
next
  case (Some v)
  with get_db_ok [OF assms, of k] put_db_ok [OF assms, of k "v + n"] show ?thesis
    by (auto simp: merge_record_def merged_table_def fun_eq_iff split: option.split)
qed

lemma merge_ok:
  assumes "db_ok ok (base_db s)" and "distinct (map fst rs)"
  shows "\<exists>s'. foldR (merge_record B) rs s = Inr s' \<and> db_ok ok (base_db s')
    \<and> db_table content (base_db s') = merged_table (db_table content (base_db s)) (map_of rs)
    \<and> matched s' = matched s + word_of_nat (length (filter (\<lambda>(k, n). db_table content (base_db s) k \<noteq> None) rs))
    \<and> notmatched s' = notmatched s + word_of_nat (length (filter (\<lambda>(k, n). db_table content (base_db s) k = None) rs))"
  using assms
proof (induction rs arbitrary: s)
  case Nil
  then show ?case by (simp add: merged_table_def fun_eq_iff split: option.split)
next
  case (Cons kn rs)
  obtain k n where kn: "kn = (k, n)" by (cases kn)
  let ?t = "db_table content (base_db s)"
  from merge_record_ok [OF Cons.prems(1), of k n] obtain s1 where
    s1: "merge_record B (k, n) s = Inr s1" "db_ok ok (base_db s1)"
    "db_table content (base_db s1) = merged_table ?t [k \<mapsto> n]"
    "matched s1 = matched s + (if ?t k = None then 0 else 1)"
    "notmatched s1 = notmatched s + (if ?t k = None then 1 else 0)" by blast
  have k: "k \<notin> fst ` set rs" using Cons.prems(2) kn by simp
  then have "map_of rs k = None" by (simp add: map_of_eq_None_iff)
  then have t: "merged_table (merged_table ?t [k \<mapsto> n]) (map_of rs) = merged_table ?t (map_of (kn # rs))"
    by (auto simp: merged_table_def kn fun_eq_iff split: option.split)
  have same: "filter (\<lambda>(j, n). merged_table ?t [k \<mapsto> n'] j \<noteq> None) rs = filter (\<lambda>(j, n). ?t j \<noteq> None) rs"
    "filter (\<lambda>(j, n). merged_table ?t [k \<mapsto> n'] j = None) rs = filter (\<lambda>(j, n). ?t j = None) rs" for n'
    using k by (auto intro!: filter_cong simp: merged_table_def image_iff split: option.splits)
  have "distinct (map fst rs)" using Cons.prems(2) by simp
  from Cons.IH [OF s1(2) this, unfolded s1(3) t same] obtain s2 where
    s2: "foldR (merge_record B) rs s1 = Inr s2" "db_ok ok (base_db s2)"
    "db_table content (base_db s2) = merged_table ?t (map_of (kn # rs))"
    "matched s2 = matched s1 + word_of_nat (length (filter (\<lambda>(k, n). ?t k \<noteq> None) rs))"
    "notmatched s2 = notmatched s1 + word_of_nat (length (filter (\<lambda>(k, n). ?t k = None) rs))" by blast
  have "foldR (merge_record B) (kn # rs) s = Inr s2" using s1(1) s2(1) by (simp add: kn)
  then show ?case using s1(4,5) s2(2-5) by (intro exI [of _ s2]) (auto simp: kn fun_upd_def)
qed

end

text \<open>Merging the tables of two lists of hashes gives the table of both lists together.\<close>

lemma merged_hash_tables: "merged_table (hash_table xs) (hash_table ys) = hash_table (xs @ ys)"
  by (rule ext) (auto simp: merged_table_def hash_table_def count_list_0_iff)

lemma hash_records:
  assumes "distinct (map fst rs)" and "map_of rs = hash_table hs"
  shows "length (filter (\<lambda>(k, n). Q k) rs) = card {h \<in> set hs. Q h}"
proof -
  have "distinct (map fst (filter (\<lambda>(k, n). Q k) rs))" using assms(1) by (rule distinct_map_filter_fst)
  from distinct_card [OF this] have "length (filter (\<lambda>(k, n). Q k) rs) = card (fst ` set (filter (\<lambda>(k, n). Q k) rs))"
    by simp
  moreover have "k \<in> fst ` set rs \<longleftrightarrow> k \<in> set hs" for k
    using map_of_eq_None_iff [of rs k] by (auto simp: assms(2) hash_table_def split: if_splits)
  then have "fst ` set (filter (\<lambda>(k, n). Q k) rs) = {h \<in> set hs. Q h}" by (force simp: image_iff)
  ultimately show ?thesis by simp
qed

section \<open>Properties\<close>

text \<open>
  C22: merging the databases of two analyses gives the database of the analysis of both data sets
  together, and the two figures printed are the distinct blocks of the merged set that the other set
  has, and those it has not.
\<close>

theorem merge_is_joint_scan:
  assumes "hash_store B ok content" and "db_ok ok d" and "db_table content d = hash_table ys"
    and "db_ok ok b" and "db_table content b = hash_table xs"
  shows "\<exists>s. merge_dbs B d \<lparr>base_db = b, matched = 0, notmatched = 0\<rparr> = Inr s
    \<and> db_ok ok (base_db s) \<and> db_table content (base_db s) = hash_table (xs @ ys)
    \<and> matched s = word_of_nat (card {h \<in> set ys. h \<in> set xs})
    \<and> notmatched s = word_of_nat (card {h \<in> set ys. h \<notin> set xs})"
proof -
  from hash_store.cursor_ok [OF assms(1,2)] obtain rs where
    rs: "cursor B d = Inr rs" "distinct (map fst rs)" "map_of rs = hash_table ys"
    unfolding assms(3) by blast
  have "hash_table xs k = None \<longleftrightarrow> k \<notin> set xs" for k by (simp add: hash_table_def)
  with string_store.merge_ok [OF string_store.intro [OF assms(1)],
      of "\<lparr>base_db = b, matched = 0, notmatched = 0\<rparr>" rs] rs assms(4,5)
  show ?thesis
    by (simp add: merge_dbs_def merged_hash_tables hash_records [OF rs(2,3)])
qed

definition demo_other :: "(string \<times> u64) list db" where
  "demo_other = \<lparr>store = [(''x'', 2)], is_open = True\<rparr>"

definition demo_base :: "(string \<times> u64) list db" where
  "demo_base = \<lparr>store = [(''x'', 1), (''y'', 1)], is_open = True\<rparr>"

theorem merge_is_joint_scan_witness:
  "\<exists>s. merge_dbs mem_bdb demo_other \<lparr>base_db = demo_base, matched = 0, notmatched = 0\<rparr> = Inr s
    \<and> db_table map_of (base_db s) = hash_table ([''x'', ''y''] @ [''x'', ''x'']) \<and> matched s = 1 \<and> notmatched s = 0"
proof -
  have o: "db_ok mem_ok demo_other" "db_ok mem_ok demo_base"
    by (simp_all add: demo_other_def demo_base_def db_ok_def mem_ok_def)
  have t: "db_table map_of demo_other = hash_table [''x'', ''x'']"
    "db_table map_of demo_base = hash_table [''x'', ''y'']"
    by (simp_all add: demo_other_def demo_base_def db_table_def hash_table_def fun_eq_iff)
  have c: "{h \<in> set [''x'', ''x'']. h \<in> set [''x'', ''y'']} = {''x''}"
    "{h \<in> set [''x'', ''x'']. h \<notin> set [''x'', ''y'']} = {}" by auto
  have n: "card {''x''} = 1" "card ({} :: string set) = 0" by simp_all
  from merge_is_joint_scan [OF mem.hash_store_axioms o(1) t(1) o(2) t(2), unfolded c n of_nat_1 of_nat_0]
  show ?thesis by (elim exE, intro exI, elim conjE, intro conjI) (assumption | erule trans, simp)+
qed

text \<open>
  C27: \<open>DEDISgenutils -o\<close> never writes a distribution: the printing routine is called without the
  stream of the histogram and always fails.
\<close>

theorem utils_output_fails:
  assumes "output_paths p \<noteq> None"
  shows "utils_output B P ok fopen fresh p dbs \<noteq> Inr r"
proof
  obtain src out where p: "output_paths p = Some (src, out)" using assms by auto
  assume "utils_output B P ok fopen fresh p dbs = Inr r"
  then obtain pr x where "print_elements_print P False pr = Inr x"
    by (auto simp: utils_output_def p elim!: bindR_InrE split: if_splits)
  moreover have "\<exists>e. print_elements_print P False pr = Inl e" by (rule null_cumul_fails)
  ultimately show False by auto
qed

theorem utils_output_fails_witness:
  "utils_output mem_bdb mem_bdb (\<lambda>_. True) (\<lambda>_. True) mem_new
     \<lparr>merge_paths = None, output_paths = Some (''db'', ''out'')\<rparr> (\<lambda>_. [(''x'', 1000)]) \<noteq> Inr None"
  by (rule utils_output_fails) simp

end
