(* ===== verification/Sfmt_array.thy ===== *)
theory Sfmt_array
  imports Sfmt
begin

text \<open>
  The array interface of \<open>utils/random/randomgen/SFMT.c\<close>: filling an array of the caller in one call,
  and seeding with an array of keys.  The sequence of the generator as a stream of 32-bit and 64-bit words; the
  reads one by one and the array fill both deliver it.
\<close>

section \<open>Filling an array\<close>

text \<open>
  \<open>r1\<close> and \<open>r2\<close> of \<open>gen_rand_array\<close> point into the state array at first and into the caller's
  array later.  The two arrays do not overlap.
\<close>

datatype gen_ptr = InState nat | InArray nat

record filling =
  f_sfmt :: "w128_t list"
  f_array :: "w128_t list"
  f_r1 :: gen_ptr
  f_r2 :: gen_ptr

definition deref :: "filling \<Rightarrow> gen_ptr \<Rightarrow> w128_t" where
  "deref f p = (case p of InState i \<Rightarrow> f_sfmt f ! i | InArray i \<Rightarrow> f_array f ! i)"

text \<open>\<open>do_recursion(&array[i], a, b, r1, r2); r1 = r2; r2 = &array[i];\<close>\<close>

definition fill_step :: "nat \<Rightarrow> w128_t \<Rightarrow> w128_t \<Rightarrow> filling \<Rightarrow> filling" where
  "fill_step i a b f =
     f\<lparr>f_array := (f_array f)[i := do_recursion a b (deref f (f_r1 f)) (deref f (f_r2 f))],
       f_r1 := f_r2 f, f_r2 := InArray i\<rparr>"

definition gen_rand_array :: "w128_t list \<Rightarrow> nat \<Rightarrow> w128_t list \<Rightarrow> filling" where
  "gen_rand_array array sz st =
     (let f = \<lparr>f_sfmt = st, f_array = array,
               f_r1 = InState (SFMT_N - 2), f_r2 = InState (SFMT_N - 1)\<rparr>;
          f = fold (\<lambda>i f. fill_step i (f_sfmt f ! i) (f_sfmt f ! (i + POS1)) f)
                [0 ..< SFMT_N - POS1] f;
          f = fold (\<lambda>i f. fill_step i (f_sfmt f ! i) (f_array f ! (i + POS1 - SFMT_N)) f)
                [SFMT_N - POS1 ..< SFMT_N] f;
          f = fold (\<lambda>i f. fill_step i (f_array f ! (i - SFMT_N)) (f_array f ! (i + POS1 - SFMT_N)) f)
                [SFMT_N ..< sz - SFMT_N] f;
          f = fold (\<lambda>j f. f\<lparr>f_sfmt := (f_sfmt f)[j := f_array f ! (j + sz - SFMT_N)]\<rparr>)
                [0 ..< 2 * SFMT_N - sz] f;
          start = max SFMT_N (sz - SFMT_N)
      in fold (\<lambda>i f.
           let f = fill_step i (f_array f ! (i - SFMT_N)) (f_array f ! (i + POS1 - SFMT_N)) f;
               j = 2 * SFMT_N - sz + (i - start)
           in f\<lparr>f_sfmt := (f_sfmt f)[j := f_array f ! i]\<rparr>) [start ..< sz] f)"

text \<open>The casts between the caller's array and an array of 128-bit elements.\<close>

definition as128 :: "u32 list \<Rightarrow> w128_t list" where
  "as128 ws = map (\<lambda>i. W128 (ws ! (4 * i)) (ws ! (4 * i + 1)) (ws ! (4 * i + 2)) (ws ! (4 * i + 3)))
     [0 ..< length ws div 4]"

definition words32 :: "w128_t list \<Rightarrow> u32 list" where
  "words32 xs = map (psfmt32 xs) [0 ..< 4 * length xs]"

definition as128_64 :: "u64 list \<Rightarrow> w128_t list" where
  "as128_64 vs = map (\<lambda>i. W128 (ucast (vs ! (2 * i))) (ucast (drop_bit 32 (vs ! (2 * i))))
       (ucast (vs ! (2 * i + 1))) (ucast (drop_bit 32 (vs ! (2 * i + 1)))))
     [0 ..< length vs div 2]"

definition words64 :: "w128_t list \<Rightarrow> u64 list" where
  "words64 xs = map (psfmt64 xs) [0 ..< 2 * length xs]"

definition N64 :: nat where "N64 = SFMT_N * 2"

definition get_min_array_size32 :: nat where "get_min_array_size32 = N32"
definition get_min_array_size64 :: nat where "get_min_array_size64 = N64"

text \<open>
  The assertions of the two functions are those of the source; an array shorter than the given size is
  written out of bounds.
\<close>

definition fill_array32 :: "u32 list \<Rightarrow> cint \<Rightarrow> sfmt_state \<Rightarrow> (u32 list \<times> sfmt_state) res" where
  "fill_array32 array sz s =
     (if \<not> initialized s \<or> idx s \<noteq> N32 \<or> sint sz mod 4 \<noteq> 0 \<or> sint sz < int N32
      then Inl AssertFailed
      else let n = nat (sint sz)
        in if length array < n then Inl OutOfBounds
        else let f = gen_rand_array (as128 (take n array)) (n div 4) (sfmt s)
          in Inr (words32 (f_array f) @ drop n array, s\<lparr>sfmt := f_sfmt f, idx := N32\<rparr>))"

definition fill_array64 :: "u64 list \<Rightarrow> cint \<Rightarrow> sfmt_state \<Rightarrow> (u64 list \<times> sfmt_state) res" where
  "fill_array64 array sz s =
     (if \<not> initialized s \<or> idx s \<noteq> N32 \<or> sint sz mod 2 \<noteq> 0 \<or> sint sz < int N64
      then Inl AssertFailed
      else let n = nat (sint sz)
        in if length array < n then Inl OutOfBounds
        else let f = gen_rand_array (as128_64 (take n array)) (n div 2) (sfmt s)
          in Inr (words64 (f_array f) @ drop n array, s\<lparr>sfmt := f_sfmt f, idx := N32\<rparr>))"

section \<open>Seeding with an array\<close>

definition func1 :: "u32 \<Rightarrow> u32" where
  "func1 x = (x XOR drop_bit 27 x) * 1664525"

definition func2 :: "u32 \<Rightarrow> u32" where
  "func2 x = (x XOR drop_bit 27 x) * 1566083941"

text \<open>\<open>lag\<close> and \<open>mid\<close> for the 624 words of the state.\<close>

definition init_lag :: nat where
  "init_lag = (let sz = SFMT_N * 4
     in if 623 \<le> sz then 11 else if 68 \<le> sz then 7 else if 39 \<le> sz then 5 else 3)"

definition init_mid :: nat where
  "init_mid = (SFMT_N * 4 - init_lag) div 2"

text \<open>The statements before the loops, with the array filled by \<open>memset\<close> with the byte 0x8b.\<close>

definition key_start :: "cint \<Rightarrow> w128_t list" where
  "key_start key_length =
     (let st = replicate SFMT_N (W128 0x8b8b8b8b 0x8b8b8b8b 0x8b8b8b8b 0x8b8b8b8b);
          r = func1 (psfmt32 st 0 XOR psfmt32 st init_mid XOR psfmt32 st (N32 - 1));
          st = set32 init_mid (psfmt32 st init_mid + r) st;
          r = r + key_length;
          st = set32 (init_mid + init_lag) (psfmt32 st (init_mid + init_lag) + r) st
      in set32 0 r st)"

text \<open>
  The body of the loops over the key: \<open>key\<close> is \<open>init_key[j]\<close> in the first loop and 0 in the second,
  whose statement is \<open>r += i\<close>.
\<close>

definition key_step :: "u32 \<Rightarrow> nat \<times> w128_t list \<Rightarrow> nat \<times> w128_t list" where
  "key_step key = (\<lambda>(i, st).
     let m = (i + init_mid) mod N32;
         l = (i + init_mid + init_lag) mod N32;
         r = func1 (psfmt32 st i XOR psfmt32 st m XOR psfmt32 st ((i + N32 - 1) mod N32));
         st = set32 m (psfmt32 st m + r) st;
         r = r + (key + word_of_nat i);
         st = set32 l (psfmt32 st l + r) st
     in ((i + 1) mod N32, set32 i r st))"

definition mix_step :: "nat \<times> w128_t list \<Rightarrow> nat \<times> w128_t list" where
  "mix_step = (\<lambda>(i, st).
     let m = (i + init_mid) mod N32;
         l = (i + init_mid + init_lag) mod N32;
         r = func2 (psfmt32 st i + psfmt32 st m + psfmt32 st ((i + N32 - 1) mod N32));
         st = set32 m (psfmt32 st m XOR r) st;
         r = r - word_of_nat i;
         st = set32 l (psfmt32 st l XOR r) st
     in ((i + 1) mod N32, set32 i r st))"

definition init_by_array :: "u32 list \<Rightarrow> cint \<Rightarrow> sfmt_state \<Rightarrow> sfmt_state res" where
  "init_by_array init_key key_length s =
     (let count = (if int N32 < sint (key_length + 1) then sint (key_length + 1) else int N32) - 1;
          keys = nat (min count (sint key_length))
      in bindR (foldR (\<lambda>j t. bindR (aget init_key j) (\<lambda>k. Inr (key_step k t)))
                 [0 ..< keys] (1, key_start key_length)) (\<lambda>t.
         let t = fold (\<lambda>j. key_step 0) [keys ..< nat count] t;
             (i, st) = fold (\<lambda>j. mix_step) [0 ..< N32] t
         in Inr \<lparr>sfmt = period_certification st, idx = N32, initialized = True\<rparr>))"

section \<open>The array fill computes the recurrence\<close>

definition ptr_at :: "nat \<Rightarrow> gen_ptr" where
  "ptr_at k = (if k < SFMT_N then InState k else InArray (k - SFMT_N))"

text \<open>Before iteration \<open>i\<close>: the array holds the sequence up to there and the pointers its last two elements.\<close>

definition filled :: "nat \<Rightarrow> w128_t list \<Rightarrow> nat \<Rightarrow> filling \<Rightarrow> bool" where
  "filled i st n f \<longleftrightarrow> length (f_array f) = n \<and> i \<le> n
     \<and> (\<forall>m < i. f_array f ! m = sfmt_seq st (SFMT_N + m))
     \<and> f_r1 f = ptr_at (i + SFMT_N - 2) \<and> f_r2 f = ptr_at (i + SFMT_N - 1)"

lemma seq_initial: "k < SFMT_N \<Longrightarrow> sfmt_seq st k = st ! k"
  by (subst sfmt_seq.simps) simp

lemma seq_later: "sfmt_seq st (SFMT_N + i) =
    do_recursion (sfmt_seq st i) (sfmt_seq st (i + POS1))
      (sfmt_seq st (i + SFMT_N - 2)) (sfmt_seq st (i + SFMT_N - 1))"
  by (subst sfmt_seq.simps) (simp add: add.commute)

lemma filledD: "filled i st n f \<Longrightarrow> m < i \<Longrightarrow> f_array f ! m = sfmt_seq st (SFMT_N + m)"
  by (simp add: filled_def)

lemma filled_back:
  "filled i st n f \<Longrightarrow> SFMT_N \<le> k \<Longrightarrow> k < i + SFMT_N \<Longrightarrow> f_array f ! (k - SFMT_N) = sfmt_seq st k"
  using filledD [of i st n f "k - SFMT_N"] by simp

lemma filled_operands:
  assumes "filled i st n f"
  shows "SFMT_N \<le> i \<Longrightarrow> f_array f ! (i - SFMT_N) = sfmt_seq st i"
    and "SFMT_N \<le> i + POS1 \<Longrightarrow> f_array f ! (i + POS1 - SFMT_N) = sfmt_seq st (i + POS1)"
  by (rule filled_back [OF assms]; simp add: sfmt_params)+

lemma deref_ptr_at:
  assumes "filled i st n f" and "k < i + SFMT_N" and "k < SFMT_N \<Longrightarrow> f_sfmt f = st"
  shows "deref f (ptr_at k) = sfmt_seq st k"
  using assms by (auto simp: deref_def ptr_at_def seq_initial filled_back)

lemma fill_step_filled:
  assumes f: "filled i st n f" and "i < n"
    and "a = sfmt_seq st i" and "b = sfmt_seq st (i + POS1)" and "i < 2 \<Longrightarrow> f_sfmt f = st"
  shows "filled (Suc i) st n (fill_step i a b f)"
proof -
  have "deref f (f_r1 f) = sfmt_seq st (i + SFMT_N - 2)" "deref f (f_r2 f) = sfmt_seq st (i + SFMT_N - 1)"
    using f assms(5) by (auto simp: filled_def sfmt_params intro!: deref_ptr_at [OF f])
  moreover have "ptr_at (Suc i + SFMT_N - 1) = InArray i"
    by (simp add: ptr_at_def)
  ultimately show ?thesis
    using f assms(2-4) by (auto simp: filled_def fill_step_def seq_later nth_list_update less_Suc_eq)
qed

lemma f_sfmt_fill_step [simp]: "f_sfmt (fill_step i a b f) = f_sfmt f"
  by (simp add: fill_step_def)

lemma fill_loop:
  assumes "filled a st n f" and "f_sfmt f = st" and "b \<le> n"
    and ops: "\<And>i f. a \<le> i \<Longrightarrow> i < b \<Longrightarrow> filled i st n f \<Longrightarrow> f_sfmt f = st
      \<Longrightarrow> A i f = sfmt_seq st i \<and> B i f = sfmt_seq st (i + POS1)"
  shows "filled (max a b) st n (fold (\<lambda>i f. fill_step i (A i f) (B i f) f) [a ..< b] f)
    \<and> f_sfmt (fold (\<lambda>i f. fill_step i (A i f) (B i f) f) [a ..< b] f) = st"
proof (cases "a \<le> b")
  case True
  have "filled b st n (fold (\<lambda>i f. fill_step i (A i f) (B i f) f) [a ..< b] f)
    \<and> f_sfmt (fold (\<lambda>i f. fill_step i (A i f) (B i f) f) [a ..< b] f) = st"
    by (rule fold_upt_invariant [OF _ True]) (use assms in \<open>auto intro!: fill_step_filled\<close>)
  with True show ?thesis by (simp add: max_absorb2)
qed (use assms(1,2) in simp)

text \<open>The part of the state array that already holds the end of the sequence.\<close>

definition tail_copied :: "nat \<Rightarrow> w128_t list \<Rightarrow> nat \<Rightarrow> filling \<Rightarrow> bool" where
  "tail_copied j st sz f \<longleftrightarrow> length (f_sfmt f) = SFMT_N
     \<and> (\<forall>m < j. f_sfmt f ! m = sfmt_seq st (sz + m))"

lemma tail_copiedI:
  assumes "tail_copied j st sz f" and "j < SFMT_N" and "v = sfmt_seq st (sz + j)"
  shows "tail_copied (Suc j) st sz (f\<lparr>f_sfmt := (f_sfmt f)[j := v]\<rparr>)"
  using assms by (auto simp: tail_copied_def nth_list_update less_Suc_eq)

lemma filled_f_sfmt [simp]: "filled i st n (f\<lparr>f_sfmt := x\<rparr>) = filled i st n f"
  by (simp add: filled_def)

lemma tail_copied_fill_step [simp]: "tail_copied j st sz (fill_step i a b f) = tail_copied j st sz f"
  by (simp add: tail_copied_def)

lemma copy_loop:
  fixes sz
  defines "body \<equiv> \<lambda>j f. f\<lparr>f_sfmt := (f_sfmt f)[j := f_array f ! (j + sz - SFMT_N)]\<rparr>"
  assumes "filled i st n f" and "tail_copied 0 st sz f" and "SFMT_N \<le> sz"
    and "k \<le> SFMT_N" and "k + sz \<le> i + SFMT_N"
  shows "filled i st n (fold body [0 ..< k] f) \<and> tail_copied k st sz (fold body [0 ..< k] f)"
proof (rule fold_upt_invariant)
  fix j t assume j: "j < k" and t: "filled i st n t \<and> tail_copied j st sz t"
  have "f_array t ! (j + sz - SFMT_N) = sfmt_seq st (SFMT_N + (j + sz - SFMT_N))"
    using filledD [of i st n t] t j assms(4,6) by simp
  also have "SFMT_N + (j + sz - SFMT_N) = sz + j" using assms(4) by simp
  finally show "filled i st n (body j t) \<and> tail_copied (Suc j) st sz (body j t)"
    using t tail_copiedI j assms(5) by (simp add: body_def)
qed (use assms in simp_all)

lemma last_loop:
  fixes k start
  defines "body \<equiv> \<lambda>i f.
     let f = fill_step i (f_array f ! (i - SFMT_N)) (f_array f ! (i + POS1 - SFMT_N)) f;
         j = k + (i - start)
     in f\<lparr>f_sfmt := (f_sfmt f)[j := f_array f ! i]\<rparr>"
  assumes "filled start st sz f" and "tail_copied k st sz f"
    and "SFMT_N \<le> start" and "start \<le> sz" and k: "k + sz = start + SFMT_N"
  shows "filled sz st sz (fold body [start ..< sz] f)
    \<and> tail_copied SFMT_N st sz (fold body [start ..< sz] f)"
proof -
  have "filled sz st sz (fold body [start ..< sz] f)
    \<and> tail_copied (k + (sz - start)) st sz (fold body [start ..< sz] f)"
  proof (rule fold_upt_invariant [OF _ \<open>start \<le> sz\<close>,
        where I = "\<lambda>i t. filled i st sz t \<and> tail_copied (k + (i - start)) st sz t"])
    fix i t assume i: "start \<le> i" "i < sz"
      and t: "filled i st sz t \<and> tail_copied (k + (i - start)) st sz t"
    let ?u = "fill_step i (f_array t ! (i - SFMT_N)) (f_array t ! (i + POS1 - SFMT_N)) t"
    have "f_array t ! (i - SFMT_N) = sfmt_seq st i"
        "f_array t ! (i + POS1 - SFMT_N) = sfmt_seq st (i + POS1)"
      using filled_operands [of i st sz t] t i assms(4) by simp_all
    then have u: "filled (Suc i) st sz ?u"
      using t i assms(4) by (intro fill_step_filled) (auto simp: sfmt_params)
    moreover have "SFMT_N + i = sz + (k + (i - start))" using i k by simp
    then have "f_array ?u ! i = sfmt_seq st (sz + (k + (i - start)))"
      using filledD [OF u, of i] by simp
    moreover have "k + (i - start) < SFMT_N" using i k by simp
    ultimately show "filled (Suc i) st sz (body i t)
        \<and> tail_copied (k + (Suc i - start)) st sz (body i t)"
      using t i tail_copiedI [of "k + (i - start)" st sz ?u] by (simp add: body_def Let_def Suc_diff_le)
  qed (use assms in simp)
  moreover have "k + (sz - start) = SFMT_N" using k \<open>start \<le> sz\<close> by simp
  ultimately show ?thesis by simp
qed

lemma gen_rand_array_seq:
  assumes st: "length st = SFMT_N" and "length array = sz" and "SFMT_N \<le> sz"
  shows "length (f_array (gen_rand_array array sz st)) = sz"
    and "m < sz \<Longrightarrow> f_array (gen_rand_array array sz st) ! m = sfmt_seq st (SFMT_N + m)"
    and "length (f_sfmt (gen_rand_array array sz st)) = SFMT_N"
    and "m < SFMT_N \<Longrightarrow> f_sfmt (gen_rand_array array sz st) ! m = sfmt_seq st (sz + m)"
proof -
  define f0 where "f0 = \<lparr>f_sfmt = st, f_array = array,
               f_r1 = InState (SFMT_N - 2), f_r2 = InState (SFMT_N - 1)\<rparr>"
  define f1 where "f1 = fold (\<lambda>i f. fill_step i (f_sfmt f ! i) (f_sfmt f ! (i + POS1)) f)
                [0 ..< SFMT_N - POS1] f0"
  define f2 where "f2 = fold (\<lambda>i f. fill_step i (f_sfmt f ! i) (f_array f ! (i + POS1 - SFMT_N)) f)
                [SFMT_N - POS1 ..< SFMT_N] f1"
  define f3 where "f3 = fold (\<lambda>i f. fill_step i (f_array f ! (i - SFMT_N)) (f_array f ! (i + POS1 - SFMT_N)) f)
                [SFMT_N ..< sz - SFMT_N] f2"
  define f4 where "f4 = fold (\<lambda>j f. f\<lparr>f_sfmt := (f_sfmt f)[j := f_array f ! (j + sz - SFMT_N)]\<rparr>)
                [0 ..< 2 * SFMT_N - sz] f3"
  define start where "start = max SFMT_N (sz - SFMT_N)"
  have "filled 0 st sz f0" "f_sfmt f0 = st"
    using assms(2) by (simp_all add: f0_def filled_def ptr_at_def sfmt_params)
  then have "filled (max 0 (SFMT_N - POS1)) st sz f1 \<and> f_sfmt f1 = st"
    unfolding f1_def by (rule fill_loop) (use assms(3) in \<open>auto simp: seq_initial sfmt_params\<close>)
  then have "filled (SFMT_N - POS1) st sz f1" "f_sfmt f1 = st" by simp_all
  then have "filled (max (SFMT_N - POS1) SFMT_N) st sz f2 \<and> f_sfmt f2 = st"
    unfolding f2_def
    by (rule fill_loop) (use assms(3) in \<open>simp_all add: seq_initial filled_operands\<close>)
  then have "filled SFMT_N st sz f2" "f_sfmt f2 = st" by simp_all
  then have f3: "filled start st sz f3 \<and> f_sfmt f3 = st"
    unfolding f3_def start_def
    by (rule fill_loop) (simp_all add: filled_operands)
  have f4: "filled start st sz f4 \<and> tail_copied (2 * SFMT_N - sz) st sz f4"
    unfolding f4_def using f3 assms by (intro copy_loop) (auto simp: tail_copied_def start_def)
  have "filled sz st sz (gen_rand_array array sz st)
    \<and> tail_copied SFMT_N st sz (gen_rand_array array sz st)"
    unfolding gen_rand_array_def Let_def
      f0_def [symmetric] f1_def [symmetric] f2_def [symmetric] f3_def [symmetric] f4_def [symmetric]
      start_def [symmetric]
    using last_loop [of start st sz f4 "2 * SFMT_N - sz"] f4 assms(3)
    by (auto simp: Let_def start_def)
  then show "length (f_array (gen_rand_array array sz st)) = sz"
    and "m < sz \<Longrightarrow> f_array (gen_rand_array array sz st) ! m = sfmt_seq st (SFMT_N + m)"
    and "length (f_sfmt (gen_rand_array array sz st)) = SFMT_N"
    and "m < SFMT_N \<Longrightarrow> f_sfmt (gen_rand_array array sz st) ! m = sfmt_seq st (sz + m)"
    by (auto simp: filled_def tail_copied_def)
qed
section \<open>The generator as a stream of words\<close>

text \<open>The sequence continued from a later window is the sequence itself.\<close>

lemma seq_shift:
  assumes "\<And>i. i < SFMT_N \<Longrightarrow> st' ! i = sfmt_seq st (m + i)"
  shows "sfmt_seq st' k = sfmt_seq st (m + k)"
proof (induction k rule: less_induct)
  case (less k)
  show ?case
  proof (cases "k < SFMT_N")
    case True
    then show ?thesis using assms by (simp add: seq_initial)
  next
    case False
    then have k: "k - SFMT_N < k" "k - SFMT_N + POS1 < k" "k - 2 < k" "k - 1 < k"
        "m + k - SFMT_N = m + (k - SFMT_N)" "m + k - 2 = m + (k - 2)" "m + k - 1 = m + (k - 1)"
      by (simp_all add: sfmt_params)
    have "\<not> m + k < SFMT_N" using False by simp
    then have "sfmt_seq st (m + k) = do_recursion (sfmt_seq st (m + (k - SFMT_N)))
        (sfmt_seq st (m + (k - SFMT_N + POS1))) (sfmt_seq st (m + (k - 2))) (sfmt_seq st (m + (k - 1)))"
      by (subst sfmt_seq.simps) (simp only: k(5-7) add.assoc if_False)
    also have "\<dots> = do_recursion (sfmt_seq st' (k - SFMT_N)) (sfmt_seq st' (k - SFMT_N + POS1))
        (sfmt_seq st' (k - 2)) (sfmt_seq st' (k - 1))"
      by (simp only: less.IH [OF k(1)] less.IH [OF k(2)] less.IH [OF k(3)] less.IH [OF k(4)])
    also have "\<dots> = sfmt_seq st' k"
      using False by (subst (5) sfmt_seq.simps) (simp only: if_False)
    finally show ?thesis by simp
  qed
qed

definition seq32 :: "w128_t list \<Rightarrow> nat \<Rightarrow> u32" where
  "seq32 st k = psfmt32 [sfmt_seq st (k div 4)] (k mod 4)"

definition seq64 :: "w128_t list \<Rightarrow> nat \<Rightarrow> u64" where
  "seq64 st k = psfmt64 [sfmt_seq st (k div 2)] (k mod 2)"

lemma psfmt32_elem: "psfmt32 xs k = psfmt32 [xs ! (k div 4)] (k mod 4)"
  by (cases "xs ! (k div 4)") (simp add: psfmt32_def)

lemma psfmt64_elem: "psfmt64 xs k = psfmt64 [xs ! (k div 2)] (k mod 2)"
  by (cases "xs ! (k div 2)") (simp add: psfmt64_def even_iff_mod_2_eq_zero)

text \<open>The views of a window of the sequence are windows of the streams.\<close>

lemma psfmt32_window:
  assumes "\<And>i. i < n \<Longrightarrow> xs ! i = sfmt_seq st (m + i)" and "k < 4 * n"
  shows "psfmt32 xs k = seq32 st (4 * m + k)"
  using assms(1) [of "k div 4"] assms(2) by (subst psfmt32_elem) (simp add: seq32_def less_mult_imp_div_less mult.commute)

lemma psfmt64_window:
  assumes "\<And>i. i < n \<Longrightarrow> xs ! i = sfmt_seq st (m + i)" and "k < 2 * n"
  shows "psfmt64 xs k = seq64 st (2 * m + k)"
  using assms(1) [of "k div 2"] assms(2) by (subst psfmt64_elem) (simp add: seq64_def less_mult_imp_div_less mult.commute)

lemma seq32_shift:
  "(\<And>i. i < SFMT_N \<Longrightarrow> st' ! i = sfmt_seq st (m + i)) \<Longrightarrow> seq32 st' k = seq32 st (4 * m + k)"
  by (simp add: seq32_def seq_shift [of st' st m])

lemma seq64_shift:
  "(\<And>i. i < SFMT_N \<Longrightarrow> st' ! i = sfmt_seq st (m + i)) \<Longrightarrow> seq64 st' k = seq64 st (2 * m + k)"
  by (simp add: seq64_def seq_shift [of st' st m])

text \<open>
  A state stands for the rest of a stream: the words from its index on.  A refill does not change it.
\<close>

definition rest32 :: "sfmt_state \<Rightarrow> nat \<Rightarrow> u32" where
  "rest32 s k = seq32 (sfmt s) (idx s + k)"

definition rest64 :: "sfmt_state \<Rightarrow> nat \<Rightarrow> u64" where
  "rest64 s k = seq64 (sfmt s) (idx s div 2 + k)"

lemma refill_rest:
  assumes "sfmt_ok s"
  shows "rest32 (refill s) = rest32 s" and "rest64 (refill s) = rest64 s"
proof -
  have len: "length (sfmt s) = SFMT_N" and le: "idx s \<le> N32"
    using assms by (simp_all add: sfmt_ok_def)
  have N: "4 * SFMT_N = N32" "2 * SFMT_N = N32 div 2" by (simp_all add: N32_def)
  note shift = gen_rand_all_seq(2) [OF len]
  show "rest32 (refill s) = rest32 s"
    using le seq32_shift [of "gen_rand_all (sfmt s)", OF shift]
    by (auto simp: fun_eq_iff rest32_def refill_def N)
  show "rest64 (refill s) = rest64 s"
    using le seq64_shift [of "gen_rand_all (sfmt s)", OF shift]
    by (auto simp: fun_eq_iff rest64_def refill_def N)
qed

lemma gen_rand32_rest:
  assumes "sfmt_ok s"
  shows "\<exists>s'. gen_rand32 s = Inr (rest32 s 0, s') \<and> sfmt_ok s' \<and> (\<forall>k. rest32 s' k = rest32 s (Suc k))"
proof -
  let ?r = "refill s"
  have r: "sfmt_ok ?r" "idx ?r < N32" using refill_ok [OF assms] by simp_all
  have "psfmt32 (sfmt ?r) (idx ?r) = rest32 s 0"
    using r psfmt32_window [of SFMT_N "sfmt ?r" "sfmt ?r" 0 "idx ?r"]
    unfolding refill_rest(1) [OF assms, symmetric]
    by (simp add: rest32_def seq_initial N32_def)
  moreover have "rest32 (?r\<lparr>idx := idx ?r + 1\<rparr>) k = rest32 s (Suc k)" for k
    unfolding refill_rest(1) [OF assms, symmetric] by (simp add: rest32_def)
  ultimately show ?thesis
    using r assms by (auto simp: gen_rand32_def Let_def sfmt_ok_def)
qed

lemma gen_rand64_rest:
  assumes "sfmt_ok s" and "even (idx s)"
  shows "\<exists>s'. gen_rand64 s = Inr (rest64 s 0, s') \<and> sfmt_ok s' \<and> even (idx s')
    \<and> (\<forall>k. rest64 s' k = rest64 s (Suc k))"
proof -
  let ?r = "refill s"
  obtain x s' where g: "gen_rand64 s = Inr (x, s')" "sfmt_ok s'" "even (idx s')"
    using gen_rand64_ok [OF assms] by blast
  then have x: "x = psfmt64 (sfmt ?r) (idx ?r div 2)" and s': "s' = ?r\<lparr>idx := idx ?r + 2\<rparr>"
    by (auto simp: gen_rand64_def Let_def split: if_splits)
  have "idx ?r div 2 < 2 * SFMT_N"
    using refill_ok [OF assms(1)] by (simp add: N32_def less_mult_imp_div_less)
  then have "x = rest64 s 0"
    using psfmt64_window [of SFMT_N "sfmt ?r" "sfmt ?r" 0 "idx ?r div 2"]
    unfolding refill_rest(2) [OF assms(1), symmetric]
    by (simp add: x rest64_def seq_initial N32_def)
  moreover have "rest64 s' k = rest64 s (Suc k)" for k
    unfolding refill_rest(2) [OF assms(1), symmetric] by (simp add: rest64_def s')
  ultimately show ?thesis using g by auto
qed

text \<open>Reading one by one.\<close>

primrec reads :: "('s \<Rightarrow> ('v \<times> 's) res) \<Rightarrow> nat \<Rightarrow> 's \<Rightarrow> ('v list \<times> 's) res" where
  "reads rd 0 s = Inr ([], s)"
| "reads rd (Suc n) s =
     bindR (rd s) (\<lambda>(x, s'). bindR (reads rd n s') (\<lambda>(xs, s''). Inr (x # xs, s'')))"

lemma reads_stream:
  assumes rd: "\<And>s. I s \<Longrightarrow> \<exists>s'. rd s = Inr (rest s 0, s') \<and> I s' \<and> (\<forall>k. rest s' k = rest s (Suc k))"
    and "I s"
  shows "\<exists>s'. reads rd n s = Inr (map (rest s) [0 ..< n], s') \<and> I s' \<and> (\<forall>k. rest s' k = rest s (n + k))"
  using assms(2)
proof (induction n arbitrary: s)
  case (Suc n)
  from rd [OF Suc.prems] obtain s1 where
    s1: "rd s = Inr (rest s 0, s1)" "I s1" "\<And>k. rest s1 k = rest s (Suc k)" by blast
  from Suc.IH [OF s1(2)] obtain s2 where
    s2: "reads rd n s1 = Inr (map (rest s1) [0 ..< n], s2)" "I s2" "\<And>k. rest s2 k = rest s1 (n + k)"
    by blast
  have "rest s 0 # map (rest s1) [0 ..< n] = map (rest s) [0 ..< Suc n]"
    by (simp add: s1(3) upt_conv_Cons map_Suc_upt [symmetric] del: upt_Suc)
  then show ?case using s1 s2 by auto
qed simp

lemma reads32_stream:
  "sfmt_ok s \<Longrightarrow> \<exists>s'. reads gen_rand32 n s = Inr (map (rest32 s) [0 ..< n], s')
    \<and> sfmt_ok s' \<and> (\<forall>k. rest32 s' k = rest32 s (n + k))"
  by (rule reads_stream) (use gen_rand32_rest in auto)

lemma reads64_stream:
  assumes "sfmt_ok s" and "even (idx s)"
  shows "\<exists>s'. reads gen_rand64 n s = Inr (map (rest64 s) [0 ..< n], s')
    \<and> (sfmt_ok s' \<and> even (idx s')) \<and> (\<forall>k. rest64 s' k = rest64 s (n + k))"
  by (rule reads_stream) (use assms gen_rand64_rest in auto)

lemma fill_array32_stream:
  assumes "sfmt_ok s" and "idx s = N32" and "int N32 \<le> sint sz" and "sint sz mod 4 = 0"
    and "n = nat (sint sz)" and "n \<le> length array"
  shows "\<exists>s'. fill_array32 array sz s = Inr (map (rest32 s) [0 ..< n] @ drop n array, s')
    \<and> sfmt_ok s' \<and> idx s' = N32 \<and> (\<forall>k. rest32 s' k = rest32 s (n + k))"
proof -
  let ?xs = "as128 (take n array)" and ?q = "n div 4"
  let ?f = "gen_rand_array ?xs ?q (sfmt s)"
  have st: "length (sfmt s) = SFMT_N" using assms(1) by (simp add: sfmt_ok_def)
  have sz: "sint sz = int n" using assms(3,5) by simp
  then have "4 dvd n" using assms(4) by presburger
  moreover have "N32 \<le> n" using sz assms(3) by simp
  ultimately have n: "n = 4 * ?q" and q: "SFMT_N \<le> ?q" by (simp_all add: sfmt_params)
  have xs: "length ?xs = ?q" using assms(6) by (simp add: as128_def)
  note g = gen_rand_array_seq [OF st xs q]
  have w: "words32 (f_array ?f) = map (rest32 s) [0 ..< n]"
    using n psfmt32_window [OF g(2)] by (auto simp: words32_def g(1) rest32_def assms(2) N32_def mult.commute)
  have r: "rest32 (s\<lparr>sfmt := f_sfmt ?f, idx := N32\<rparr>) k = rest32 s (n + k)" for k
    using n seq32_shift [of "f_sfmt ?f", OF g(4)] by (simp add: rest32_def assms(2) ac_simps)
  show ?thesis
    using assms w r g(3) by (auto simp: fill_array32_def sfmt_ok_def Let_def)
qed

lemma fill_array64_stream:
  assumes "sfmt_ok s" and "idx s = N32" and "int N64 \<le> sint sz" and "sint sz mod 2 = 0"
    and "n = nat (sint sz)" and "n \<le> length array"
  shows "\<exists>s'. fill_array64 array sz s = Inr (map (rest64 s) [0 ..< n] @ drop n array, s')
    \<and> sfmt_ok s' \<and> idx s' = N32 \<and> (\<forall>k. rest64 s' k = rest64 s (n + k))"
proof -
  let ?xs = "as128_64 (take n array)" and ?q = "n div 2"
  let ?f = "gen_rand_array ?xs ?q (sfmt s)"
  have st: "length (sfmt s) = SFMT_N" using assms(1) by (simp add: sfmt_ok_def)
  have sz: "sint sz = int n" using assms(3,5) by simp
  then have "2 dvd n" using assms(4) by presburger
  moreover have "N64 \<le> n" using sz assms(3) by simp
  ultimately have n: "n = 2 * ?q" and q: "SFMT_N \<le> ?q" by (simp_all add: sfmt_params N64_def)
  have xs: "length ?xs = ?q" using assms(6) by (simp add: as128_64_def)
  have N: "N32 div 2 = 2 * SFMT_N" by (simp add: N32_def)
  note g = gen_rand_array_seq [OF st xs q]
  have w: "words64 (f_array ?f) = map (rest64 s) [0 ..< n]"
    using n psfmt64_window [OF g(2)] by (auto simp: words64_def g(1) rest64_def assms(2) N)
  have r: "rest64 (s\<lparr>sfmt := f_sfmt ?f, idx := N32\<rparr>) k = rest64 s (n + k)" for k
    using n seq64_shift [of "f_sfmt ?f", OF g(4)] by (simp add: rest64_def assms(2) ac_simps)
  show ?thesis
    using assms w r g(3) by (auto simp: fill_array64_def sfmt_ok_def Let_def)
qed
section \<open>Seeding with an array is certified\<close>

definition key_inv :: "nat \<times> w128_t list \<Rightarrow> bool" where
  "key_inv = (\<lambda>(i, st). i < N32 \<and> length st = SFMT_N)"

lemma key_start_inv [simp]: "key_inv (Suc 0, key_start key_length)"
  by (simp add: key_inv_def key_start_def Let_def N32_def SFMT_N_def)

lemma key_step_inv: "key_inv t \<Longrightarrow> key_inv (key_step key t)"
  by (cases t) (simp add: key_inv_def key_step_def Let_def N32_def SFMT_N_def)

lemma mix_step_inv: "key_inv t \<Longrightarrow> key_inv (mix_step t)"
  by (cases t) (simp add: key_inv_def mix_step_def Let_def N32_def SFMT_N_def)

lemma fold_key_inv: "key_inv t \<Longrightarrow> (\<And>j t. key_inv t \<Longrightarrow> key_inv (f j t)) \<Longrightarrow> key_inv (fold f js t)"
  by (induction js arbitrary: t) simp_all

lemma init_by_array_ok:
  assumes "sint key_length \<le> int (length init_key)"
  shows "\<exists>s'. (\<forall>s. init_by_array init_key key_length s = Inr s')
    \<and> inner_parity (sfmt s') = 1 \<and> sfmt_ok s' \<and> even (idx s')"
proof -
  define count where
    "count = (if int N32 < sint (key_length + 1) then sint (key_length + 1) else int N32) - 1"
  define keys where "keys = nat (min count (sint key_length))"
  have "keys \<le> length init_key" using assms by (simp add: keys_def)
  then have "\<exists>t. foldR (\<lambda>j t. bindR (aget init_key j) (\<lambda>k. Inr (key_step k t)))
      [0 ..< keys] (1, key_start key_length) = Inr t \<and> key_inv t"
    by (intro foldR_total) (auto simp: aget_in intro: key_step_inv)
  then obtain t where t: "foldR (\<lambda>j t. bindR (aget init_key j) (\<lambda>k. Inr (key_step k t)))
      [0 ..< keys] (1, key_start key_length) = Inr t" "key_inv t" by blast
  define u where "u = fold (\<lambda>j. mix_step) [0 ..< N32] (fold (\<lambda>j. key_step 0) [keys ..< nat count] t)"
  obtain i st where st: "u = (i, st)" by (cases u)
  have "key_inv u"
    unfolding u_def by (intro fold_key_inv t(2) mix_step_inv key_step_inv)
  then have len: "length st = SFMT_N" by (simp add: st key_inv_def)
  then have "st \<noteq> []" by (auto simp: SFMT_N_def)
  have "init_by_array init_key key_length s
      = Inr \<lparr>sfmt = period_certification st, idx = N32, initialized = True\<rparr>" for s
    unfolding init_by_array_def Let_def count_def [symmetric] keys_def [symmetric]
    using st t(1) by (simp add: u_def)
  then show ?thesis
    using period_certified [OF \<open>st \<noteq> []\<close>] len by (auto simp: sfmt_ok_def sfmt_params)
qed

lemma init_by_array_short_key:
  assumes "sint key_length < 2 ^ 31 - 1" and short: "int (length init_key) < sint key_length"
  shows "init_by_array init_key key_length s = Inl OutOfBounds"
proof -
  let ?L = "length init_key" and ?f = "\<lambda>j t. bindR (aget init_key j) (\<lambda>k. Inr (key_step k t))"
  define count where
    "count = (if int N32 < sint (key_length + 1) then sint (key_length + 1) else int N32) - 1"
  have "sint (key_length + 1) = sint key_length + 1"
    using assms by (simp add: sint_word_ariths signed_take_bit_int_eq_self)
  then have "nat (min count (sint key_length)) = nat (sint key_length)"
    by (auto simp: count_def min_def)
  moreover have "[0 ..< nat (sint key_length)] = [0 ..< ?L] @ ?L # [Suc ?L ..< nat (sint key_length)]"
    using short upt_add_eq_append [of 0 ?L "nat (sint key_length) - ?L"] by (simp add: upt_conv_Cons)
  moreover have "\<exists>t. foldR ?f [0 ..< ?L] (1, key_start key_length) = Inr t \<and> True"
    by (rule foldR_total) (auto simp: aget_in)
  ultimately show ?thesis
    unfolding init_by_array_def Let_def count_def [symmetric]
    by (auto simp: foldR_append aget_out)
qed

section \<open>Properties\<close>

text \<open>The values a run delivers, and the claims below, leave the final state aside.\<close>

definition outputs :: "('v \<times> 's) res \<Rightarrow> 'v res" where
  "outputs r = bindR r (\<lambda>(v, _). Inr v)"

text \<open>
  C31: a call that fills an array of any permitted size delivers exactly the numbers that as many single reads
  deliver, in order, leaves the rest of the caller's array alone, and the numbers read after it are those read after the
  single reads; for the 32-bit and the 64-bit functions.
\<close>

theorem array_fill_is_reads:
  assumes "sfmt_ok s" and "idx s = N32" and "int N32 \<le> sint sz" and "sint sz mod 4 = 0"
    and "n = nat (sint sz)" and "n \<le> length array" and "n \<le> length array64"
  shows "(\<exists>xs s1 s2. reads gen_rand32 n s = Inr (xs, s1)
      \<and> fill_array32 array sz s = Inr (xs @ drop n array, s2) \<and> sfmt_ok s2
      \<and> (\<forall>m. outputs (reads gen_rand32 m s2) = outputs (reads gen_rand32 m s1)))
    \<and> (\<exists>xs s1 s2. reads gen_rand64 n s = Inr (xs, s1)
      \<and> fill_array64 array64 sz s = Inr (xs @ drop n array64, s2) \<and> sfmt_ok s2
      \<and> (\<forall>m. outputs (reads gen_rand64 m s2) = outputs (reads gen_rand64 m s1)))"
proof
  have ev: "even N32" "N64 \<le> N32" by (simp_all add: sfmt_params N64_def)
  obtain s1 where s1: "reads gen_rand32 n s = Inr (map (rest32 s) [0 ..< n], s1)" "sfmt_ok s1"
      "\<And>k. rest32 s1 k = rest32 s (n + k)"
    using reads32_stream [OF assms(1)] by blast
  obtain s2 where s2: "fill_array32 array sz s = Inr (map (rest32 s) [0 ..< n] @ drop n array, s2)"
      "sfmt_ok s2" "\<And>k. rest32 s2 k = rest32 s (n + k)"
    using fill_array32_stream [OF assms(1-6)] by blast
  have "rest32 s2 = rest32 s1" using s1(3) s2(3) by (simp add: fun_eq_iff)
  then have "outputs (reads gen_rand32 m s2) = outputs (reads gen_rand32 m s1)" for m
    using reads32_stream [OF s1(2), of m] reads32_stream [OF s2(2), of m] by (auto simp: outputs_def)
  then show "\<exists>xs s1 s2. reads gen_rand32 n s = Inr (xs, s1)
      \<and> fill_array32 array sz s = Inr (xs @ drop n array, s2) \<and> sfmt_ok s2
      \<and> (\<forall>m. outputs (reads gen_rand32 m s2) = outputs (reads gen_rand32 m s1))"
    using s1 s2 by blast
  obtain t1 where t1: "reads gen_rand64 n s = Inr (map (rest64 s) [0 ..< n], t1)" "sfmt_ok t1" "even (idx t1)"
      "\<And>k. rest64 t1 k = rest64 s (n + k)"
    using reads64_stream [OF assms(1)] assms(2) ev(1) by metis
  have "sint sz mod 2 = 0" "int N64 \<le> sint sz" using assms(3,4) ev(2) by presburger+
  then obtain t2 where t2: "fill_array64 array64 sz s = Inr (map (rest64 s) [0 ..< n] @ drop n array64, t2)"
      "sfmt_ok t2" "even (idx t2)" "\<And>k. rest64 t2 k = rest64 s (n + k)"
    using fill_array64_stream [OF assms(1,2) _ _ assms(5,7)] ev(1) by metis
  have "rest64 t2 = rest64 t1" using t1(4) t2(4) by (simp add: fun_eq_iff)
  then have "outputs (reads gen_rand64 m t2) = outputs (reads gen_rand64 m t1)" for m
    using reads64_stream [OF t1(2,3), of m] reads64_stream [OF t2(2,3), of m] by (auto simp: outputs_def)
  then show "\<exists>xs s1 s2. reads gen_rand64 n s = Inr (xs, s1)
      \<and> fill_array64 array64 sz s = Inr (xs @ drop n array64, s2) \<and> sfmt_ok s2
      \<and> (\<forall>m. outputs (reads gen_rand64 m s2) = outputs (reads gen_rand64 m s1))"
    using t1 t2 by blast
qed

theorem array_fill_is_reads_witness:
  "\<exists>xs s1 s2. reads gen_rand32 624 (init_gen_rand 1234 zero_sfmt) = Inr (xs, s1)
     \<and> fill_array32 (replicate 700 0) 624 (init_gen_rand 1234 zero_sfmt) = Inr (xs @ replicate 76 0, s2)"
proof -
  define s where "s = init_gen_rand 1234 zero_sfmt"
  have "sfmt_ok s" "idx s = N32"
    using init_gen_rand_ok [OF length_zero_sfmt] by (simp_all add: s_def init_gen_rand_def)
  moreover have "N32 = 624" by (simp add: sfmt_params)
  ultimately show ?thesis
    using array_fill_is_reads [of s 624 624 "replicate 700 0" "replicate 624 0"]
    unfolding s_def [symmetric] by auto
qed

text \<open>
  C35: both seedings leave a state that passes the period certification and is ready to be read: from a 32-bit
  seed whatever the array holds before, and from an array of keys (not shorter than its given length), in which case the
  state depends on the keys only.
\<close>

theorem seedings_certify_period:
  assumes "length (sfmt s) = SFMT_N" and "sint key_length \<le> int (length init_key)"
  shows "inner_parity (sfmt (init_gen_rand seed s)) = 1 \<and> sfmt_ok (init_gen_rand seed s)
    \<and> even (idx (init_gen_rand seed s))
    \<and> (\<exists>s'. (\<forall>s0. init_by_array init_key key_length s0 = Inr s')
         \<and> inner_parity (sfmt s') = 1 \<and> sfmt_ok s' \<and> even (idx s'))"
  using init_gen_rand_ok [OF assms(1), of seed] init_gen_rand_certified [OF assms(1), of seed]
    init_by_array_ok [OF assms(2)]
  by blast

theorem seedings_certify_period_witness:
  "inner_parity (sfmt (init_gen_rand 1234 zero_sfmt)) = 1
   \<and> (\<exists>s'. init_by_array [1, 2, 3] 3 zero_sfmt = Inr s' \<and> inner_parity (sfmt s') = 1)"
proof -
  have "sint (3 :: cint) \<le> int (length [1, 2, 3 :: u32])" by simp
  from seedings_certify_period [OF length_zero_sfmt this] show ?thesis by blast
qed

end
