(* ===== verification/Sfmt_variants.thy ===== *)
theory Sfmt_variants
  imports Sfmt_array
begin

text \<open>
  The other builds of \<open>utils/random/randomgen/SFMT.c\<close> in portable C, for big-endian machines: with \<open>BIG_ENDIAN64\<close> the
  64-bit reads put their two words together and \<open>fill_array64\<close> swaps them (\<open>swap\<close>); with \<open>ONLY64\<close> the two words of each
  64-bit half are stored the other way round, and the shifts, the recursion and the indices follow.  They deliver the
  numbers of the little-endian build.
\<close>

section \<open>The build with ONLY64\<close>

text \<open>\<open>idxof\<close>: the index of a word of the little-endian array.\<close>

definition idxof_only64 :: "nat \<Rightarrow> nat" where
  "idxof_only64 i = i XOR 1"

definition rshift128_only64 :: "w128_t \<Rightarrow> nat \<Rightarrow> w128_t" where
  "rshift128_only64 w shift =
     (let th = push_bit 32 (ucast (u2 w) :: u64) OR ucast (u3 w);
          tl = push_bit 32 (ucast (u0 w) :: u64) OR ucast (u1 w);
          oh = drop_bit (shift * 8) th;
          ol = drop_bit (shift * 8) tl OR push_bit (64 - shift * 8) th
      in W128 (ucast (drop_bit 32 ol)) (ucast ol) (ucast (drop_bit 32 oh)) (ucast oh))"

definition lshift128_only64 :: "w128_t \<Rightarrow> nat \<Rightarrow> w128_t" where
  "lshift128_only64 w shift =
     (let th = push_bit 32 (ucast (u2 w) :: u64) OR ucast (u3 w);
          tl = push_bit 32 (ucast (u0 w) :: u64) OR ucast (u1 w);
          oh = push_bit (shift * 8) th OR drop_bit (64 - shift * 8) tl;
          ol = push_bit (shift * 8) tl
      in W128 (ucast (drop_bit 32 ol)) (ucast ol) (ucast (drop_bit 32 oh)) (ucast oh))"

definition do_recursion_only64 :: "w128_t \<Rightarrow> w128_t \<Rightarrow> w128_t \<Rightarrow> w128_t \<Rightarrow> w128_t" where
  "do_recursion_only64 a b c d =
     (let x = lshift128_only64 a SL2; y = rshift128_only64 c SR2
      in W128
        (u0 a XOR u0 x XOR (drop_bit SR1 (u0 b) AND MSK2) XOR u0 y XOR push_bit SL1 (u0 d))
        (u1 a XOR u1 x XOR (drop_bit SR1 (u1 b) AND MSK1) XOR u1 y XOR push_bit SL1 (u1 d))
        (u2 a XOR u2 x XOR (drop_bit SR1 (u2 b) AND MSK4) XOR u2 y XOR push_bit SL1 (u2 d))
        (u3 a XOR u3 x XOR (drop_bit SR1 (u3 b) AND MSK3) XOR u3 y XOR push_bit SL1 (u3 d)))"

text \<open>The loops of \<open>gen_rand_all\<close> and \<open>gen_rand_array\<close> over this recursion.\<close>

definition gen_step_only64 :: "nat \<Rightarrow> nat \<Rightarrow> w128_t list \<times> nat \<times> nat \<Rightarrow> w128_t list \<times> nat \<times> nat" where
  "gen_step_only64 i off = (\<lambda>(st, r1, r2).
     (st[i := do_recursion_only64 (st ! i) (st ! off) (st ! r1) (st ! r2)], r2, i))"

definition gen_rand_all_only64 :: "w128_t list \<Rightarrow> w128_t list" where
  "gen_rand_all_only64 st = fst (
     fold (\<lambda>i. gen_step_only64 i (i + POS1 - SFMT_N)) [SFMT_N - POS1 ..< SFMT_N]
       (fold (\<lambda>i. gen_step_only64 i (i + POS1)) [0 ..< SFMT_N - POS1] (st, SFMT_N - 2, SFMT_N - 1)))"

definition fill_step_only64 :: "nat \<Rightarrow> w128_t \<Rightarrow> w128_t \<Rightarrow> filling \<Rightarrow> filling" where
  "fill_step_only64 i a b f =
     f\<lparr>f_array := (f_array f)[i := do_recursion_only64 a b (deref f (f_r1 f)) (deref f (f_r2 f))],
       f_r1 := f_r2 f, f_r2 := InArray i\<rparr>"

definition gen_rand_array_only64 :: "w128_t list \<Rightarrow> nat \<Rightarrow> w128_t list \<Rightarrow> filling" where
  "gen_rand_array_only64 array sz st =
     (let f = \<lparr>f_sfmt = st, f_array = array,
               f_r1 = InState (SFMT_N - 2), f_r2 = InState (SFMT_N - 1)\<rparr>;
          f = fold (\<lambda>i f. fill_step_only64 i (f_sfmt f ! i) (f_sfmt f ! (i + POS1)) f)
                [0 ..< SFMT_N - POS1] f;
          f = fold (\<lambda>i f. fill_step_only64 i (f_sfmt f ! i) (f_array f ! (i + POS1 - SFMT_N)) f)
                [SFMT_N - POS1 ..< SFMT_N] f;
          f = fold (\<lambda>i f. fill_step_only64 i (f_array f ! (i - SFMT_N)) (f_array f ! (i + POS1 - SFMT_N)) f)
                [SFMT_N ..< sz - SFMT_N] f;
          f = fold (\<lambda>j f. f\<lparr>f_sfmt := (f_sfmt f)[j := f_array f ! (j + sz - SFMT_N)]\<rparr>)
                [0 ..< 2 * SFMT_N - sz] f;
          start = max SFMT_N (sz - SFMT_N)
      in fold (\<lambda>i f.
           let f = fill_step_only64 i (f_array f ! (i - SFMT_N)) (f_array f ! (i + POS1 - SFMT_N)) f;
               j = 2 * SFMT_N - sz + (i - start)
           in f\<lparr>f_sfmt := (f_sfmt f)[j := f_array f ! i]\<rparr>) [start ..< sz] f)"

text \<open>
  The view \<open>psfmt64\<close> on a big-endian machine, where the first word of a pair is the more significant one, and the
  views of the caller's array.
\<close>

definition psfmt64_big :: "w128_t list \<Rightarrow> nat \<Rightarrow> u64" where
  "psfmt64_big st j = (case st ! (j div 2) of W128 a b c d \<Rightarrow>
     (if even j then push_bit 32 (ucast a) OR ucast b else push_bit 32 (ucast c) OR ucast d))"

definition as128_64_big :: "u64 list \<Rightarrow> w128_t list" where
  "as128_64_big vs = map (\<lambda>i. W128 (ucast (drop_bit 32 (vs ! (2 * i)))) (ucast (vs ! (2 * i)))
       (ucast (drop_bit 32 (vs ! (2 * i + 1)))) (ucast (vs ! (2 * i + 1))))
     [0 ..< length vs div 2]"

definition words64_big :: "w128_t list \<Rightarrow> u64 list" where
  "words64_big xs = map (psfmt64_big xs) [0 ..< 2 * length xs]"

definition refill_only64 :: "sfmt_state \<Rightarrow> sfmt_state" where
  "refill_only64 s = (if N32 \<le> idx s then s\<lparr>sfmt := gen_rand_all_only64 (sfmt s), idx := 0\<rparr> else s)"

definition gen_rand64_only64 :: "sfmt_state \<Rightarrow> (u64 \<times> sfmt_state) res" where
  "gen_rand64_only64 s =
     (if \<not> initialized s \<or> odd (idx s) then Inl AssertFailed
      else let s' = refill_only64 s in Inr (psfmt64_big (sfmt s') (idx s' div 2), s'\<lparr>idx := idx s' + 2\<rparr>))"

definition fill_array64_only64 :: "u64 list \<Rightarrow> cint \<Rightarrow> sfmt_state \<Rightarrow> (u64 list \<times> sfmt_state) res" where
  "fill_array64_only64 array sz s =
     (if \<not> initialized s \<or> idx s \<noteq> N32 \<or> sint sz mod 2 \<noteq> 0 \<or> sint sz < int N64
      then Inl AssertFailed
      else let n = nat (sint sz)
        in if length array < n then Inl OutOfBounds
        else let f = gen_rand_array_only64 (as128_64_big (take n array)) (n div 2) (sfmt s)
          in Inr (words64_big (f_array f) @ drop n array, s\<lparr>sfmt := f_sfmt f, idx := N32\<rparr>))"

text \<open>Seeding, through \<open>idxof\<close>.\<close>

definition inner_parity_only64 :: "w128_t list \<Rightarrow> cint" where
  "inner_parity_only64 st =
     (let inner = fold (\<lambda>i acc. acc XOR (psfmt32 st (idxof_only64 i) AND parity ! i)) [0 ..< 4] 0;
          inner = fold (\<lambda>i acc. acc XOR signed_drop_bit i acc) [16, 8, 4, 2, 1] inner
      in inner AND 1)"

definition period_certification_only64 :: "w128_t list \<Rightarrow> w128_t list" where
  "period_certification_only64 st =
     (if inner_parity_only64 st = 1 then st
      else case find (\<lambda>(i, j). push_bit j 1 AND parity ! i \<noteq> 0)
                  (List.product [0 ..< 4] [0 ..< 32]) of
        None \<Rightarrow> st
      | Some (i, j) \<Rightarrow> set32 (idxof_only64 i) (psfmt32 st (idxof_only64 i) XOR push_bit j 1) st)"

definition seed_step_only64 :: "nat \<Rightarrow> w128_t list \<Rightarrow> w128_t list" where
  "seed_step_only64 i st =
     (let p = psfmt32 st (idxof_only64 (i - 1))
      in set32 (idxof_only64 i) (1812433253 * (p XOR drop_bit 30 p) + word_of_nat i) st)"

definition init_gen_rand_only64 :: "u32 \<Rightarrow> sfmt_state \<Rightarrow> sfmt_state" where
  "init_gen_rand_only64 seed s =
     \<lparr>sfmt = period_certification_only64 (fold seed_step_only64 [1 ..< N32] (set32 (idxof_only64 0) seed (sfmt s))),
      idx = N32, initialized = True\<rparr>"

definition key_start_only64 :: "cint \<Rightarrow> w128_t list" where
  "key_start_only64 key_length =
     (let st = replicate SFMT_N (W128 0x8b8b8b8b 0x8b8b8b8b 0x8b8b8b8b 0x8b8b8b8b);
          z = idxof_only64 0; m = idxof_only64 init_mid; l = idxof_only64 (init_mid + init_lag);
          r = func1 (psfmt32 st z XOR psfmt32 st m XOR psfmt32 st (idxof_only64 (N32 - 1)));
          st = set32 m (psfmt32 st m + r) st;
          r = r + key_length;
          st = set32 l (psfmt32 st l + r) st
      in set32 z r st)"

definition key_step_only64 :: "u32 \<Rightarrow> nat \<times> w128_t list \<Rightarrow> nat \<times> w128_t list" where
  "key_step_only64 key = (\<lambda>(i, st).
     let k = idxof_only64 i; m = idxof_only64 ((i + init_mid) mod N32);
         l = idxof_only64 ((i + init_mid + init_lag) mod N32);
         r = func1 (psfmt32 st k XOR psfmt32 st m XOR psfmt32 st (idxof_only64 ((i + N32 - 1) mod N32)));
         st = set32 m (psfmt32 st m + r) st;
         r = r + (key + word_of_nat i);
         st = set32 l (psfmt32 st l + r) st
     in ((i + 1) mod N32, set32 k r st))"

definition mix_step_only64 :: "nat \<times> w128_t list \<Rightarrow> nat \<times> w128_t list" where
  "mix_step_only64 = (\<lambda>(i, st).
     let k = idxof_only64 i; m = idxof_only64 ((i + init_mid) mod N32);
         l = idxof_only64 ((i + init_mid + init_lag) mod N32);
         r = func2 (psfmt32 st k + psfmt32 st m + psfmt32 st (idxof_only64 ((i + N32 - 1) mod N32)));
         st = set32 m (psfmt32 st m XOR r) st;
         r = r - word_of_nat i;
         st = set32 l (psfmt32 st l XOR r) st
     in ((i + 1) mod N32, set32 k r st))"

definition init_by_array_only64 :: "u32 list \<Rightarrow> cint \<Rightarrow> sfmt_state \<Rightarrow> sfmt_state res" where
  "init_by_array_only64 init_key key_length s =
     (let count = (if int N32 < sint (key_length + 1) then sint (key_length + 1) else int N32) - 1;
          keys = nat (min count (sint key_length))
      in bindR (foldR (\<lambda>j t. bindR (aget init_key j) (\<lambda>k. Inr (key_step_only64 k t)))
                 [0 ..< keys] (1, key_start_only64 key_length)) (\<lambda>t.
         let t = fold (\<lambda>j. key_step_only64 0) [keys ..< nat count] t;
             (i, st) = fold (\<lambda>j. mix_step_only64) [0 ..< N32] t
         in Inr \<lparr>sfmt = period_certification_only64 st, idx = N32, initialized = True\<rparr>))"

section \<open>The big-endian build without ONLY64\<close>

definition gen_rand64_big :: "sfmt_state \<Rightarrow> (u64 \<times> sfmt_state) res" where
  "gen_rand64_big s =
     (if \<not> initialized s \<or> odd (idx s) then Inl AssertFailed
      else let s' = refill s; r1 = psfmt32 (sfmt s') (idx s'); r2 = psfmt32 (sfmt s') (idx s' + 1)
        in Inr (push_bit 32 (ucast r2) OR ucast r1, s'\<lparr>idx := idx s' + 2\<rparr>))"

text \<open>\<open>swap\<close>: the two words of each half change places, element by element.\<close>

definition swap_step :: "nat \<Rightarrow> w128_t list \<Rightarrow> w128_t list" where
  "swap_step i array =
     (let x = u0 (array ! i); y = u2 (array ! i)
      in array[i := W128 (u1 (array ! i)) x (u3 (array ! i)) y])"

definition swap_words :: "w128_t list \<Rightarrow> nat \<Rightarrow> w128_t list" where
  "swap_words array sz = fold swap_step [0 ..< sz] array"

definition fill_array64_big :: "u64 list \<Rightarrow> cint \<Rightarrow> sfmt_state \<Rightarrow> (u64 list \<times> sfmt_state) res" where
  "fill_array64_big array sz s =
     (if \<not> initialized s \<or> idx s \<noteq> N32 \<or> sint sz mod 2 \<noteq> 0 \<or> sint sz < int N64
      then Inl AssertFailed
      else let n = nat (sint sz)
        in if length array < n then Inl OutOfBounds
        else let f = gen_rand_array (as128_64_big (take n array)) (n div 2) (sfmt s)
          in Inr (words64_big (swap_words (f_array f) (n div 2)) @ drop n array, s\<lparr>sfmt := f_sfmt f, idx := N32\<rparr>))"

section \<open>The other order of the words\<close>

definition flip :: "w128_t \<Rightarrow> w128_t" where
  "flip w = W128 (u1 w) (u0 w) (u3 w) (u2 w)"

lemma flip_sel [simp]: "u0 (flip w) = u1 w" "u1 (flip w) = u0 w" "u2 (flip w) = u3 w" "u3 (flip w) = u2 w"
  by (simp_all add: flip_def)

lemma flip_flip [simp]: "flip (flip w) = w"
  by (simp add: flip_def)

lemma rshift128_flip: "rshift128_only64 (flip w) k = flip (rshift128 w k)"
  by (simp add: rshift128_only64_def rshift128_def Let_def flip_def)

lemma lshift128_flip: "lshift128_only64 (flip w) k = flip (lshift128 w k)"
  by (simp add: lshift128_only64_def lshift128_def Let_def flip_def)

lemma do_recursion_flip: "do_recursion_only64 (flip a) (flip b) (flip c) (flip d) = flip (do_recursion a b c d)"
  by (simp add: do_recursion_only64_def do_recursion_def rshift128_flip lshift128_flip Let_def) (simp add: flip_def)

lemma idxof_even_odd: "idxof_only64 i = (if even i then i + 1 else i - 1)"
  using xor_Suc_0_eq [of i] by (simp add: idxof_only64_def)

lemma idxof_words:
  "idxof_only64 (4 * q) = 4 * q + 1" "idxof_only64 (4 * q + 1) = 4 * q"
  "idxof_only64 (4 * q + 2) = 4 * q + 3" "idxof_only64 (4 * q + 3) = 4 * q + 2"
  by (simp_all add: idxof_even_odd)

lemma idxof_parts:
  "idxof_only64 i div 4 = i div 4" "idxof_only64 i mod 4 = (if i mod 4 = 0 then 1 else if i mod 4 = 1 then 0
     else if i mod 4 = 2 then 3 else 2)"
proof -
  have i: "i = 4 * (i div 4) + i mod 4" by simp
  have "idxof_only64 i = 4 * (i div 4) + (if i mod 4 = 0 then 1 else if i mod 4 = 1 then 0
     else if i mod 4 = 2 then 3 else 2)" (is "_ = 4 * _ + ?r")
    using mod4_cases [of i] idxof_words [of "i div 4"] by (subst i, elim disjE) simp_all
  moreover have "?r < 4" by simp
  ultimately show "idxof_only64 i div 4 = i div 4" "idxof_only64 i mod 4 = ?r" by simp_all
qed

lemma psfmt32_flip:
  assumes "i div 4 < length st"
  shows "psfmt32 (map flip st) (idxof_only64 i) = psfmt32 st i"
proof -
  obtain a b c d where w: "st ! (i div 4) = W128 a b c d" by (cases "st ! (i div 4)")
  then show ?thesis using assms mod4_cases [of i] w
    by (auto simp: psfmt32_def idxof_parts flip_def)
qed

lemma set32_flip: "set32 (idxof_only64 i) v (map flip st) = map flip (set32 i v st)"
proof (cases "i div 4 < length st")
  case True
  obtain a b c d where w: "st ! (i div 4) = W128 a b c d" by (cases "st ! (i div 4)")
  then show ?thesis using True mod4_cases [of i] w
    by (auto simp: set32_def idxof_parts flip_def map_update)
next
  case False
  then show ?thesis by (simp add: set32_def idxof_parts(1) list_update_beyond)
qed

lemma psfmt64_flip: "j div 2 < length st \<Longrightarrow> psfmt64_big (map flip st) j = psfmt64 st j"
  by (cases "st ! (j div 2)") (simp add: psfmt64_big_def psfmt64_def flip_def)

lemma words64_flip: "words64_big (map flip xs) = words64 xs"
  by (auto simp: words64_big_def words64_def intro!: psfmt64_flip)

lemma as128_64_flip: "as128_64_big vs = map flip (as128_64 vs)"
  by (simp add: as128_64_big_def as128_64_def flip_def)

lemma swap_words_flip:
  assumes "k \<le> length xs"
  shows "swap_words xs k = map flip (take k xs) @ drop k xs"
proof -
  have "fold swap_step [0 ..< k] xs = map flip (take k xs) @ drop k xs"
  proof (rule fold_upt_invariant [where I = "\<lambda>i ys. ys = map flip (take i xs) @ drop i xs"])
    fix i ys assume i: "i < k" and ys: "ys = map flip (take i xs) @ drop i xs"
    then have "ys ! i = xs ! i" using assms by (simp add: nth_append)
    then have "swap_step i ys = ys[i := flip (xs ! i)]" by (simp add: swap_step_def flip_def Let_def)
    then show "swap_step i ys = map flip (take (Suc i) xs) @ drop (Suc i) xs"
      using i assms by (simp add: ys take_Suc_conv_app_nth list_update_append flip: Cons_nth_drop_Suc)
  qed simp_all
  then show ?thesis by (simp add: swap_words_def)
qed

section \<open>ONLY64 follows the little-endian build\<close>

text \<open>A fold that simulates another one, step by step, along \<open>h\<close>.\<close>

lemma fold_simulation:
  assumes "\<And>x s. x \<in> set xs \<Longrightarrow> I s \<Longrightarrow> I (f x s) \<and> f' x (h s) = h (f x s)" and "I s"
  shows "fold f' xs (h s) = h (fold f xs s) \<and> I (fold f xs s)"
  using assms by (induction xs arbitrary: s) auto

text \<open>The refill: pointers and array stay in range.\<close>

definition gen_range :: "w128_t list \<times> nat \<times> nat \<Rightarrow> bool" where
  "gen_range = (\<lambda>(st, r1, r2). length st = SFMT_N \<and> r1 < SFMT_N \<and> r2 < SFMT_N)"

lemma gen_step_flip:
  assumes "gen_range t" and "i < SFMT_N" and "off < SFMT_N"
  shows "gen_range (gen_step i off t) \<and> gen_step_only64 i off (apfst (map flip) t) = apfst (map flip) (gen_step i off t)"
  using assms by (cases t) (simp add: gen_range_def gen_step_def gen_step_only64_def map_update do_recursion_flip)

lemma gen_rand_all_flip:
  assumes "length st = SFMT_N"
  shows "gen_rand_all_only64 (map flip st) = map flip (gen_rand_all st)"
proof -
  let ?a = "[0 ..< SFMT_N - POS1]" and ?b = "[SFMT_N - POS1 ..< SFMT_N]" and ?s = "(st, SFMT_N - 2, SFMT_N - 1)"
  have a: "fold (\<lambda>i. gen_step_only64 i (i + POS1)) ?a (apfst (map flip) ?s)
      = apfst (map flip) (fold (\<lambda>i. gen_step i (i + POS1)) ?a ?s) \<and> gen_range (fold (\<lambda>i. gen_step i (i + POS1)) ?a ?s)"
    by (rule fold_simulation [where I = gen_range and h = "apfst (map flip)"], rule gen_step_flip)
      (use assms in \<open>auto simp: gen_range_def sfmt_params\<close>)
  have "fold (\<lambda>i. gen_step_only64 i (i + POS1 - SFMT_N)) ?b (apfst (map flip) s)
      = apfst (map flip) (fold (\<lambda>i. gen_step i (i + POS1 - SFMT_N)) ?b s)
      \<and> gen_range (fold (\<lambda>i. gen_step i (i + POS1 - SFMT_N)) ?b s)" if "gen_range s" for s
    by (rule fold_simulation [where I = gen_range and h = "apfst (map flip)"], rule gen_step_flip)
      (use that in \<open>auto simp: sfmt_params\<close>)
  with a show ?thesis by (simp add: gen_rand_all_def gen_rand_all_only64_def)
qed

text \<open>A fill of an array of \<open>n\<close> elements.\<close>

definition flip_filling :: "filling \<Rightarrow> filling" where
  "flip_filling f = f\<lparr>f_sfmt := map flip (f_sfmt f), f_array := map flip (f_array f)\<rparr>"

definition ptr_range :: "nat \<Rightarrow> gen_ptr \<Rightarrow> bool" where
  "ptr_range n p = (case p of InState i \<Rightarrow> i < SFMT_N | InArray i \<Rightarrow> i < n)"

definition fill_range :: "nat \<Rightarrow> filling \<Rightarrow> bool" where
  "fill_range n f \<longleftrightarrow> length (f_sfmt f) = SFMT_N \<and> length (f_array f) = n \<and> ptr_range n (f_r1 f) \<and> ptr_range n (f_r2 f)"

lemma deref_flip: "fill_range n f \<Longrightarrow> ptr_range n p \<Longrightarrow> deref (flip_filling f) p = flip (deref f p)"
  by (auto simp: deref_def flip_filling_def fill_range_def ptr_range_def split: gen_ptr.splits)

lemma fill_step_flip:
  assumes "fill_range n f" and "i < n"
  shows "fill_range n (fill_step i a b f) \<and> fill_step_only64 i (flip a) (flip b) (flip_filling f) = flip_filling (fill_step i a b f)"
proof
  show "fill_range n (fill_step i a b f)" using assms by (simp add: fill_range_def fill_step_def ptr_range_def)
  have "deref (flip_filling f) (f_r1 f) = flip (deref f (f_r1 f))" "deref (flip_filling f) (f_r2 f) = flip (deref f (f_r2 f))"
    using assms by (auto intro!: deref_flip simp: fill_range_def)
  then show "fill_step_only64 i (flip a) (flip b) (flip_filling f) = flip_filling (fill_step i a b f)"
    by (simp add: fill_step_only64_def fill_step_def) (simp add: flip_filling_def do_recursion_flip map_update)
qed

lemma flip_filling_nth:
  "fill_range n f \<Longrightarrow> i < n \<Longrightarrow> f_array (flip_filling f) ! i = flip (f_array f ! i)"
  "fill_range n f \<Longrightarrow> i < SFMT_N \<Longrightarrow> f_sfmt (flip_filling f) ! i = flip (f_sfmt f ! i)"
  by (simp_all add: flip_filling_def fill_range_def)

lemma store_state_flip:
  assumes "fill_range n f" and "i < n"
  shows "fill_range n (f\<lparr>f_sfmt := (f_sfmt f)[j := f_array f ! i]\<rparr>)
    \<and> (flip_filling f)\<lparr>f_sfmt := (f_sfmt (flip_filling f))[j := f_array (flip_filling f) ! i]\<rparr>
        = flip_filling (f\<lparr>f_sfmt := (f_sfmt f)[j := f_array f ! i]\<rparr>)"
  using assms by (simp add: fill_range_def flip_filling_def map_update)

lemma gen_rand_array_flip:
  assumes st: "length st = SFMT_N" and xs: "length xs = n" and n: "SFMT_N \<le> n"
  shows "gen_rand_array_only64 (map flip xs) n (map flip st) = flip_filling (gen_rand_array xs n st)"
proof -
  note sim = fold_simulation [where I = "fill_range n" and h = flip_filling]
  define f0 where "f0 = \<lparr>f_sfmt = st, f_array = xs, f_r1 = InState (SFMT_N - 2), f_r2 = InState (SFMT_N - 1)\<rparr>"
  have start: "\<lparr>f_sfmt = map flip st, f_array = map flip xs, f_r1 = InState (SFMT_N - 2), f_r2 = InState (SFMT_N - 1)\<rparr>
      = flip_filling f0" by (simp add: flip_filling_def f0_def)
  have r0: "fill_range n f0" using st xs by (simp add: fill_range_def ptr_range_def sfmt_params f0_def)
  define f1 where "f1 = fold (\<lambda>i f. fill_step i (f_sfmt f ! i) (f_sfmt f ! (i + POS1)) f) [0 ..< SFMT_N - POS1] f0"
  have e1: "fold (\<lambda>i f. fill_step_only64 i (f_sfmt f ! i) (f_sfmt f ! (i + POS1)) f) [0 ..< SFMT_N - POS1] (flip_filling f0)
      = flip_filling f1 \<and> fill_range n f1"
    unfolding f1_def by (rule sim [OF _ r0]) (use n in \<open>auto simp: flip_filling_nth fill_step_flip sfmt_params\<close>)
  define f2 where "f2 = fold (\<lambda>i f. fill_step i (f_sfmt f ! i) (f_array f ! (i + POS1 - SFMT_N)) f) [SFMT_N - POS1 ..< SFMT_N] f1"
  have e2: "fold (\<lambda>i f. fill_step_only64 i (f_sfmt f ! i) (f_array f ! (i + POS1 - SFMT_N)) f)
      [SFMT_N - POS1 ..< SFMT_N] (flip_filling f1) = flip_filling f2 \<and> fill_range n f2"
    unfolding f2_def by (rule sim [OF _ conjunct2 [OF e1]]) (use n in \<open>auto simp: flip_filling_nth fill_step_flip sfmt_params\<close>)
  define f3 where "f3 = fold (\<lambda>i f. fill_step i (f_array f ! (i - SFMT_N)) (f_array f ! (i + POS1 - SFMT_N)) f)
      [SFMT_N ..< n - SFMT_N] f2"
  have e3: "fold (\<lambda>i f. fill_step_only64 i (f_array f ! (i - SFMT_N)) (f_array f ! (i + POS1 - SFMT_N)) f)
      [SFMT_N ..< n - SFMT_N] (flip_filling f2) = flip_filling f3 \<and> fill_range n f3"
    unfolding f3_def by (rule sim [OF _ conjunct2 [OF e2]]) (use n in \<open>auto simp: flip_filling_nth fill_step_flip sfmt_params\<close>)
  define f4 where "f4 = fold (\<lambda>j f. f\<lparr>f_sfmt := (f_sfmt f)[j := f_array f ! (j + n - SFMT_N)]\<rparr>) [0 ..< 2 * SFMT_N - n] f3"
  have e4: "fold (\<lambda>j f. f\<lparr>f_sfmt := (f_sfmt f)[j := f_array f ! (j + n - SFMT_N)]\<rparr>) [0 ..< 2 * SFMT_N - n] (flip_filling f3)
      = flip_filling f4 \<and> fill_range n f4"
    unfolding f4_def by (rule sim [OF _ conjunct2 [OF e3]], rule store_state_flip) (use n in \<open>auto simp: sfmt_params\<close>)
  let ?s = "max SFMT_N (n - SFMT_N)"
  let ?a = "\<lambda>i f. fill_step i (f_array f ! (i - SFMT_N)) (f_array f ! (i + POS1 - SFMT_N)) f"
    and ?a' = "\<lambda>i f. fill_step_only64 i (f_array f ! (i - SFMT_N)) (f_array f ! (i + POS1 - SFMT_N)) f"
    and ?b = "\<lambda>i f. f\<lparr>f_sfmt := (f_sfmt f)[2 * SFMT_N - n + (i - ?s) := f_array f ! i]\<rparr>"
  have "fill_range n (?b i (?a i f)) \<and> ?b i (?a' i (flip_filling f)) = flip_filling (?b i (?a i f))"
    if "i \<in> set [?s ..< n]" "fill_range n f" for i f
  proof -
    have "fill_range n (?a i f) \<and> ?a' i (flip_filling f) = flip_filling (?a i f)"
      using that by (auto simp: flip_filling_nth fill_step_flip sfmt_params)
    then show ?thesis using store_state_flip [of n "?a i f" i] that by (simp only: set_upt atLeastLessThan_iff)
  qed
  then have "fold (\<lambda>i f. ?b i (?a' i f)) [?s ..< n] (flip_filling f4) = flip_filling (fold (\<lambda>i f. ?b i (?a i f)) [?s ..< n] f4)
    \<and> fill_range n (fold (\<lambda>i f. ?b i (?a i f)) [?s ..< n] f4)"
    using e4 by (intro sim) blast+
  then show ?thesis
    unfolding gen_rand_array_only64_def gen_rand_array_def Let_def start conjunct1 [OF e1] conjunct1 [OF e2]
      conjunct1 [OF e3] conjunct1 [OF e4] f0_def [symmetric] f1_def [symmetric] f2_def [symmetric] f3_def [symmetric]
      f4_def [symmetric] by (rule conjunct1)
qed

text \<open>Seeding: the indices through \<open>idxof\<close> reach the same words.\<close>

lemma inner_parity_flip: "st \<noteq> [] \<Longrightarrow> inner_parity_only64 (map flip st) = inner_parity st"
  by (simp add: inner_parity_only64_def inner_parity_def upt4 psfmt32_flip)

lemma period_certification_flip:
  assumes "st \<noteq> []"
  shows "period_certification_only64 (map flip st) = map flip (period_certification st)"
proof -
  have "find (\<lambda>(i, j). push_bit j 1 AND parity ! i \<noteq> 0) (List.product [0 ..< 4] [0 ..< 32]) = Some (0, 0)"
    by (simp add: upt_rec parity_def)
  then show ?thesis using assms
    by (simp add: period_certification_only64_def period_certification_def inner_parity_flip psfmt32_flip set32_flip)
qed

lemma seed_step_flip:
  assumes "length st = SFMT_N" and "1 \<le> i" and "i < N32"
  shows "length (seed_step i st) = SFMT_N \<and> seed_step_only64 i (map flip st) = map flip (seed_step i st)"
proof -
  have "(i - 1) div 4 < length st" using assms by (simp add: sfmt_params)
  then show ?thesis using assms(1) by (simp add: seed_step_only64_def seed_step_def psfmt32_flip set32_flip Let_def)
qed

definition flip_state :: "sfmt_state \<Rightarrow> sfmt_state" where
  "flip_state s = s\<lparr>sfmt := map flip (sfmt s)\<rparr>"

lemma flip_state_sel [simp]:
  "sfmt (flip_state s) = map flip (sfmt s)" "idx (flip_state s) = idx s" "initialized (flip_state s) = initialized s"
  by (simp_all add: flip_state_def)

lemma flip_state_flip [simp]: "flip_state (flip_state s) = s"
  by (simp add: flip_state_def o_def)

lemma init_gen_rand_flip:
  assumes "length (sfmt s) = SFMT_N"
  shows "init_gen_rand_only64 seed (flip_state s) = flip_state (init_gen_rand seed s)"
proof -
  let ?s = "set32 0 seed (sfmt s)"
  have "fold seed_step_only64 [1 ..< N32] (map flip ?s) = map flip (fold seed_step [1 ..< N32] ?s)
    \<and> length (fold seed_step [1 ..< N32] ?s) = SFMT_N"
    by (rule fold_simulation [where I = "\<lambda>st. length st = SFMT_N" and h = "map flip"], rule seed_step_flip)
      (use assms in auto)
  moreover from this have "fold seed_step [1 ..< N32] ?s \<noteq> []" by (metis length_0_conv sfmt_params(1) zero_neq_numeral)
  ultimately show ?thesis
    by (simp add: init_gen_rand_only64_def init_gen_rand_def set32_flip period_certification_flip flip_state_def)
qed

lemma key_index: "(n mod N32) div 4 < SFMT_N"
proof -
  have "n mod N32 < N32" by (simp add: sfmt_params)
  then show ?thesis by (simp add: N32_def)
qed

lemma key_start_flip: "key_start_only64 key_length = map flip (key_start key_length)"
proof -
  define st where "st = replicate SFMT_N (W128 0x8b8b8b8b 0x8b8b8b8b 0x8b8b8b8b 0x8b8b8b8b)"
  have flip_st: "replicate SFMT_N (W128 0x8b8b8b8b 0x8b8b8b8b 0x8b8b8b8b 0x8b8b8b8b) = map flip st"
    by (simp add: st_def flip_def)
  have l: "length st = SFMT_N" "0 div 4 < SFMT_N" "init_mid div 4 < SFMT_N" "(init_mid + init_lag) div 4 < SFMT_N"
    "(N32 - 1) div 4 < SFMT_N"
    by (simp_all add: st_def sfmt_params init_mid_def init_lag_def)
  show ?thesis
    unfolding key_start_only64_def flip_st unfolding key_start_def st_def [symmetric] Let_def
    using l by (simp only: psfmt32_flip set32_flip length_set32)
qed

lemma key_invD: "key_inv (i, st) \<Longrightarrow> length st = SFMT_N \<and> i div 4 < SFMT_N"
  by (simp add: key_inv_def N32_def less_mult_imp_div_less)

lemma key_step_flip:
  assumes "key_inv t"
  shows "key_step_only64 key (apsnd (map flip) t) = apsnd (map flip) (key_step key t)"
proof (cases t)
  case (Pair i st)
  with key_invD [of i st] assms show ?thesis
    by (simp add: key_step_only64_def key_step_def Let_def psfmt32_flip set32_flip key_index)
qed

lemma mix_step_flip:
  assumes "key_inv t"
  shows "mix_step_only64 (apsnd (map flip) t) = apsnd (map flip) (mix_step t)"
proof (cases t)
  case (Pair i st)
  with key_invD [of i st] assms show ?thesis
    by (simp add: mix_step_only64_def mix_step_def Let_def psfmt32_flip set32_flip key_index)
qed

lemma init_by_array_flip:
  assumes "sint key_length \<le> int (length init_key)" and "init_by_array init_key key_length s = Inr s'"
  shows "init_by_array_only64 init_key key_length t = Inr (flip_state s')"
proof -
  define count where
    "count = (if int N32 < sint (key_length + 1) then sint (key_length + 1) else int N32) - 1"
  define keys where "keys = nat (min count (sint key_length))"
  let ?f = "\<lambda>j t. bindR (aget init_key j) (\<lambda>k. Inr (key_step k t))"
    and ?f' = "\<lambda>j t. bindR (aget init_key j) (\<lambda>k. Inr (key_step_only64 k t))" and ?h = "apsnd (map flip)"
  have le: "keys \<le> length init_key" using assms(1) by (simp add: keys_def)
  have "\<exists>u. foldR ?f js t = Inr u \<and> key_inv u \<and> foldR ?f' js (?h t) = Inr (?h u)"
    if "set js \<subseteq> {0 ..< keys}" "key_inv t" for js t
    using that
  proof (induction js arbitrary: t)
    case (Cons j js)
    then have "aget init_key j = Inr (init_key ! j)" using le by (intro aget_in) auto
    then show ?case using Cons.IH [of "key_step (init_key ! j) t"] Cons.prems
      by (simp add: key_step_flip key_step_inv)
  qed simp
  from this [of "[0 ..< keys]" "(1, key_start key_length)"] obtain u where
    u: "foldR ?f [0 ..< keys] (1, key_start key_length) = Inr u" "key_inv u"
    "foldR ?f' [0 ..< keys] (?h (1, key_start key_length)) = Inr (?h u)" by auto
  have a: "fold (\<lambda>j. key_step_only64 0) xs (?h v) = ?h (fold (\<lambda>j. key_step 0) xs v) \<and> key_inv (fold (\<lambda>j. key_step 0) xs v)"
    if "key_inv v" for v and xs :: "nat list"
    by (rule fold_simulation [where I = key_inv and h = ?h]) (simp_all add: key_step_flip key_step_inv that)
  have b: "fold (\<lambda>j. mix_step_only64) xs (?h v) = ?h (fold (\<lambda>j. mix_step) xs v) \<and> key_inv (fold (\<lambda>j. mix_step) xs v)"
    if "key_inv v" for v and xs :: "nat list"
    by (rule fold_simulation [where I = key_inv and h = ?h]) (simp_all add: mix_step_flip mix_step_inv that)
  define w where "w = fold (\<lambda>j. mix_step) [0 ..< N32] (fold (\<lambda>j. key_step 0) [keys ..< nat count] u)"
  obtain i st where st: "w = (i, st)" by (cases w)
  have w: "key_inv w" "fold (\<lambda>j. mix_step_only64) [0 ..< N32] (fold (\<lambda>j. key_step_only64 0) [keys ..< nat count] (?h u)) = ?h w"
    using a [OF u(2)] b by (auto simp: w_def)
  have "length st = SFMT_N" using w(1) key_invD by (simp add: st)
  then have ne: "st \<noteq> []" by (metis length_0_conv sfmt_params(1) zero_neq_numeral)
  have "s' = \<lparr>sfmt = period_certification st, idx = N32, initialized = True\<rparr>"
    using assms(2) u(1) st unfolding init_by_array_def Let_def count_def [symmetric] keys_def [symmetric]
    by (simp add: w_def)
  moreover have "init_by_array_only64 init_key key_length t
      = Inr \<lparr>sfmt = period_certification_only64 (map flip st), idx = N32, initialized = True\<rparr>"
    using u(3) w(2) unfolding init_by_array_only64_def Let_def count_def [symmetric] keys_def [symmetric]
    by (simp add: st key_start_flip)
  ultimately show ?thesis by (simp add: period_certification_flip [OF ne] flip_state_def)
qed

text \<open>Reading and filling.\<close>

definition flip_result :: "('v \<times> sfmt_state) res \<Rightarrow> ('v \<times> sfmt_state) res" where
  "flip_result r = bindR r (\<lambda>(v, s). Inr (v, flip_state s))"

lemma flip_state_idx: "(flip_state s)\<lparr>idx := k\<rparr> = flip_state (s\<lparr>idx := k\<rparr>)"
  by (simp add: flip_state_def)

lemma refill_flip: "sfmt_ok s \<Longrightarrow> refill_only64 (flip_state s) = flip_state (refill s)"
  by (simp add: refill_only64_def refill_def sfmt_ok_def gen_rand_all_flip flip_state_def)

lemma gen_rand64_flip:
  assumes "sfmt_ok s"
  shows "gen_rand64_only64 (flip_state s) = flip_result (gen_rand64 s)"
proof -
  from refill_ok [OF assms] have "idx (refill s) div 2 div 2 < length (sfmt (refill s))"
    by (simp add: sfmt_ok_def N32_def less_mult_imp_div_less flip: div_mult2_eq)
  then show ?thesis
    by (simp add: gen_rand64_only64_def gen_rand64_def refill_flip [OF assms] Let_def psfmt64_flip flip_result_def flip_state_idx)
qed

lemma reads_flip:
  assumes "sfmt_ok s" and "even (idx s)"
  shows "reads gen_rand64_only64 n (flip_state s) = flip_result (reads gen_rand64 n s)"
  using assms
proof (induction n arbitrary: s)
  case (Suc n)
  obtain x s' where g: "gen_rand64 s = Inr (x, s')" "sfmt_ok s'" "even (idx s')"
    using gen_rand64_ok [OF Suc.prems] by blast
  with Suc.IH [OF g(2,3)] show ?case
    by (cases "reads gen_rand64 n s'") (auto simp: gen_rand64_flip [OF Suc.prems(1)] flip_result_def)
qed (simp add: flip_result_def)

lemma fill_array64_flip:
  assumes "length (sfmt s) = SFMT_N"
  shows "fill_array64_only64 array sz (flip_state s) = flip_result (fill_array64 array sz s)"
proof (cases "initialized s \<and> idx s = N32 \<and> sint sz mod 2 = 0 \<and> int N64 \<le> sint sz \<and> nat (sint sz) \<le> length array")
  case True
  let ?n = "nat (sint sz)"
  let ?xs = "as128_64 (take ?n array)"
  have "length ?xs = ?n div 2" "SFMT_N \<le> ?n div 2" using True by (auto simp: as128_64_def N64_def)
  from gen_rand_array_flip [OF assms this]
  have "gen_rand_array_only64 (as128_64_big (take ?n array)) (?n div 2) (map flip (sfmt s))
    = flip_filling (gen_rand_array ?xs (?n div 2) (sfmt s))" by (simp add: as128_64_flip)
  with True show ?thesis
    by (simp add: fill_array64_only64_def fill_array64_def Let_def flip_result_def words64_flip flip_filling_def flip_state_def)
next
  case False
  then show ?thesis
    by (auto simp: fill_array64_only64_def fill_array64_def Let_def flip_result_def not_less)
qed

section \<open>Without ONLY64\<close>

lemma gen_rand64_big_same:
  assumes "sfmt_ok s"
  shows "gen_rand64_big s = gen_rand64 s"
proof (cases "even (idx s)")
  case True
  then have ev: "even (idx (refill s))" by (simp add: refill_def)
  then obtain k where k: "idx (refill s) = 2 * k" by (rule evenE)
  obtain a b c d where w: "sfmt (refill s) ! (k div 2) = W128 a b c d" by (cases "sfmt (refill s) ! (k div 2)")
  have "2 * k div 4 = k div 2" "(2 * k + 1) div 4 = k div 2" by simp_all
  moreover have "2 * k mod 4 = (if even k then 0 else 2)" "(2 * k + 1) mod 4 = (if even k then 1 else 3)"
    by presburger+
  ultimately show ?thesis
    using w by (simp add: gen_rand64_big_def gen_rand64_def Let_def k psfmt32_def psfmt64_def)
qed (simp add: gen_rand64_big_def gen_rand64_def)

text \<open>What an array fill delivers does not depend on what the array holds before.\<close>

lemma gen_rand_array_contents:
  assumes "length st = SFMT_N" and "length xs = n" and "length ys = n" and "SFMT_N \<le> n"
  shows "f_array (gen_rand_array xs n st) = f_array (gen_rand_array ys n st)
    \<and> f_sfmt (gen_rand_array xs n st) = f_sfmt (gen_rand_array ys n st)"
  using gen_rand_array_seq [OF assms(1,2,4)] gen_rand_array_seq [OF assms(1,3,4)]
  by (auto intro!: nth_equalityI)

lemma fill_array64_big_same:
  assumes "length (sfmt s) = SFMT_N"
  shows "fill_array64_big array sz s = fill_array64 array sz s"
proof (cases "initialized s \<and> idx s = N32 \<and> sint sz mod 2 = 0 \<and> int N64 \<le> sint sz \<and> nat (sint sz) \<le> length array")
  case True
  let ?n = "nat (sint sz)"
  let ?xs = "as128_64 (take ?n array)" and ?ys = "as128_64_big (take ?n array)"
  have l: "length ?xs = ?n div 2" "length ?ys = ?n div 2" "SFMT_N \<le> ?n div 2"
    using True by (auto simp: as128_64_def as128_64_big_def N64_def)
  note c = gen_rand_array_contents [OF assms l]
  have "length (f_array (gen_rand_array ?xs (?n div 2) (sfmt s))) = ?n div 2"
    using gen_rand_array_seq [OF assms l(1,3)] by simp
  then show ?thesis using True c
    by (simp add: fill_array64_big_def fill_array64_def Let_def swap_words_flip words64_flip)
qed (auto simp: fill_array64_big_def fill_array64_def Let_def)

text \<open>The seed alone determines the state: seeding writes every word before it is read.\<close>

lemma words_eqI:
  assumes "length a = length b" and "\<And>i. i < 4 * length a \<Longrightarrow> psfmt32 a i = psfmt32 b i"
  shows "a = b"
proof (rule nth_equalityI [OF assms(1)])
  fix i assume i: "i < length a"
  obtain p q r s where p: "a ! i = W128 p q r s" by (cases "a ! i")
  obtain p' q' r' s' where p': "b ! i = W128 p' q' r' s'" by (cases "b ! i")
  have "[p, q, r, s] ! k = [p', q', r', s'] ! k" if "k < 4" for k
    using assms(2) [of "4 * i + k"] i that by (simp add: psfmt32_def p p')
  from this [of 0] this [of 1] this [of 2] this [of 3] show "a ! i = b ! i" by (simp add: p p')
qed

lemma seeded_words:
  assumes "length a = SFMT_N" and "length b = SFMT_N"
  shows "fold seed_step [1 ..< N32] (set32 0 seed a) = fold seed_step [1 ..< N32] (set32 0 seed b)"
proof -
  let ?I = "\<lambda>i u. length (fst u) = SFMT_N \<and> length (snd u) = SFMT_N
    \<and> (\<forall>j < i. psfmt32 (fst u) j = psfmt32 (snd u) j)"
  have pair: "fold (\<lambda>i u. (seed_step i (fst u), seed_step i (snd u))) is u = (fold seed_step is (fst u), fold seed_step is (snd u))"
    for u and "is" :: "nat list" by (induction "is" arbitrary: u) simp_all
  have "?I N32 (fold (\<lambda>i u. (seed_step i (fst u), seed_step i (snd u))) [1 ..< N32] (set32 0 seed a, set32 0 seed b))"
  proof (rule fold_upt_invariant [where I = ?I])
    show "?I 1 (set32 0 seed a, set32 0 seed b)" using assms by (simp add: psfmt32_set32 SFMT_N_def)
    fix i u assume i: "1 \<le> i" "i < N32" and u: "?I i u"
    then have "i div 4 < SFMT_N" "psfmt32 (fst u) (i - 1) = psfmt32 (snd u) (i - 1)"
      by (auto simp: N32_def less_mult_imp_div_less)
    with u show "?I (Suc i) (seed_step i (fst u), seed_step i (snd u))"
      by (auto simp: seed_step_def Let_def psfmt32_set32 less_Suc_eq)
  qed (simp add: sfmt_params)
  then show ?thesis unfolding pair by (intro words_eqI) (simp_all add: N32_def mult.commute)
qed

lemma init_gen_rand_fresh:
  assumes "length (sfmt s) = SFMT_N" and "length (sfmt t) = SFMT_N"
  shows "init_gen_rand seed s = init_gen_rand seed t"
  unfolding init_gen_rand_def using seeded_words [OF assms] by simp

lemma reads_big:
  assumes "sfmt_ok s" and "even (idx s)"
  shows "reads gen_rand64_big n s = reads gen_rand64 n s"
  using assms
proof (induction n arbitrary: s)
  case (Suc n)
  obtain x s' where "gen_rand64 s = Inr (x, s')" "sfmt_ok s'" "even (idx s')"
    using gen_rand64_ok [OF Suc.prems] by blast
  with Suc.IH show ?case by (simp add: gen_rand64_big_same [OF Suc.prems(1)])
qed simp

lemma outputs_flip [simp]: "outputs (flip_result r) = outputs r"
  by (cases r) (auto simp: outputs_def flip_result_def)

section \<open>Properties\<close>



end
