(* ===== verification/Sfmt_alti.thy ===== *)
theory Sfmt_alti
  imports Sfmt_variants
begin

text \<open>
  The AltiVec build of the generator (\<open>utils/random/randomgen/SFMT-alti.h\<close>).  The vector operations of the compiler
  are a parameter, with the meaning their manual gives them as the laws of a locale: \<open>vec_perm\<close> selects bytes of its
  two operands, the others work on the four words.  The vector recursion, the refill and the array fill, which
  keep the last two elements in registers, and \<open>swap\<close> compute what the portable code computes.
\<close>

section \<open>Vectors\<close>

text \<open>The bytes of a vector in the order of memory on a big-endian machine, and the cast back.\<close>

definition be_bytes :: "u32 \<Rightarrow> u8 list" where
  "be_bytes w = [ucast (drop_bit 24 w), ucast (drop_bit 16 w), ucast (drop_bit 8 w), ucast w]"

definition be_word :: "u8 \<Rightarrow> u8 \<Rightarrow> u8 \<Rightarrow> u8 \<Rightarrow> u32" where
  "be_word a b c d = push_bit 24 (ucast a) OR push_bit 16 (ucast b) OR push_bit 8 (ucast c) OR ucast d"

definition vec_bytes :: "w128_t \<Rightarrow> u8 list" where
  "vec_bytes w = be_bytes (u0 w) @ be_bytes (u1 w) @ be_bytes (u2 w) @ be_bytes (u3 w)"

definition bytes_vec :: "u8 list \<Rightarrow> w128_t" where
  "bytes_vec bs = W128 (be_word (bs ! 0) (bs ! 1) (bs ! 2) (bs ! 3)) (be_word (bs ! 4) (bs ! 5) (bs ! 6) (bs ! 7))
     (be_word (bs ! 8) (bs ! 9) (bs ! 10) (bs ! 11)) (be_word (bs ! 12) (bs ! 13) (bs ! 14) (bs ! 15))"

record altivec =
  vec_perm :: "w128_t \<Rightarrow> w128_t \<Rightarrow> u8 list \<Rightarrow> w128_t"
  vec_sr :: "w128_t \<Rightarrow> w128_t \<Rightarrow> w128_t"
  vec_sl :: "w128_t \<Rightarrow> w128_t \<Rightarrow> w128_t"
  vec_xor :: "w128_t \<Rightarrow> w128_t \<Rightarrow> w128_t"
  vec_and :: "w128_t \<Rightarrow> w128_t \<Rightarrow> w128_t"

definition words_with :: "(u32 \<Rightarrow> u32 \<Rightarrow> u32) \<Rightarrow> w128_t \<Rightarrow> w128_t \<Rightarrow> w128_t" where
  "words_with f a b = W128 (f (u0 a) (u0 b)) (f (u1 a) (u1 b)) (f (u2 a) (u2 b)) (f (u3 a) (u3 b))"

locale altivec_unit =
  fixes V :: altivec
  assumes perm: "vec_perm V a b p = bytes_vec (map (\<lambda>i. (vec_bytes a @ vec_bytes b) ! (unat i mod 32)) p)"
    and sr: "vec_sr V a b = words_with (\<lambda>x n. drop_bit (unat n mod 32) x) a b"
    and sl: "vec_sl V a b = words_with (\<lambda>x n. push_bit (unat n mod 32) x) a b"
    and xor: "vec_xor V a b = words_with (\<lambda>x y. x XOR y) a b"
    and conj: "vec_and V a b = words_with (\<lambda>x y. x AND y) a b"

section \<open>The parameters of the build\<close>

definition ALTI_SL1 :: w128_t where "ALTI_SL1 = (let n = of_nat SL1 in W128 n n n n)"
definition ALTI_SR1 :: w128_t where "ALTI_SR1 = (let n = of_nat SR1 in W128 n n n n)"
definition ALTI_MSK :: w128_t where "ALTI_MSK = W128 MSK1 MSK2 MSK3 MSK4"
definition ALTI_MSK64 :: w128_t where "ALTI_MSK64 = W128 MSK2 MSK1 MSK4 MSK3"
definition ALTI_SL2_PERM :: "u8 list" where "ALTI_SL2_PERM = [1,2,3,23,5,6,7,0,9,10,11,4,13,14,15,8]"
definition ALTI_SL2_PERM64 :: "u8 list" where "ALTI_SL2_PERM64 = [1,2,3,4,5,6,7,31,9,10,11,12,13,14,15,0]"
definition ALTI_SR2_PERM :: "u8 list" where "ALTI_SR2_PERM = [7,0,1,2,11,4,5,6,15,8,9,10,17,12,13,14]"
definition ALTI_SR2_PERM64 :: "u8 list" where "ALTI_SR2_PERM64 = [15,0,1,2,3,4,5,6,17,8,9,10,11,12,13,14]"
definition ALTI_SWAP :: "u8 list" where "ALTI_SWAP = [4,5,6,7,0,1,2,3,12,13,14,15,8,9,10,11]"

lemmas alti_params = ALTI_SL1_def ALTI_SR1_def ALTI_MSK_def ALTI_MSK64_def ALTI_SL2_PERM_def ALTI_SL2_PERM64_def
  ALTI_SR2_PERM_def ALTI_SR2_PERM64_def ALTI_SWAP_def

section \<open>The operations\<close>

text \<open>\<open>vec_recursion\<close>, with the constants of the two builds as arguments.\<close>

definition vec_recursion_with ::
  "altivec \<Rightarrow> w128_t \<Rightarrow> u8 list \<Rightarrow> u8 list \<Rightarrow> w128_t \<Rightarrow> w128_t \<Rightarrow> w128_t \<Rightarrow> w128_t \<Rightarrow> w128_t" where
  "vec_recursion_with V msk perm_sl perm_sr a b c d =
     (let x = vec_perm V a (bytes_vec perm_sl) perm_sl;
          v = a;
          y = vec_sr V b ALTI_SR1;
          z = vec_perm V c (bytes_vec perm_sr) perm_sr;
          w = vec_sl V d ALTI_SL1;
          z = vec_xor V z w;
          y = vec_and V y msk;
          v = vec_xor V v x;
          z = vec_xor V z y
      in vec_xor V z v)"

definition vec_recursion :: "altivec \<Rightarrow> w128_t \<Rightarrow> w128_t \<Rightarrow> w128_t \<Rightarrow> w128_t \<Rightarrow> w128_t" where
  "vec_recursion V = vec_recursion_with V ALTI_MSK ALTI_SL2_PERM ALTI_SR2_PERM"

definition vec_recursion_only64 :: "altivec \<Rightarrow> w128_t \<Rightarrow> w128_t \<Rightarrow> w128_t \<Rightarrow> w128_t \<Rightarrow> w128_t" where
  "vec_recursion_only64 V = vec_recursion_with V ALTI_MSK64 ALTI_SL2_PERM64 ALTI_SR2_PERM64"

text \<open>\<open>gen_rand_all\<close>: the recursion \<open>R\<close> over the array in place, the last two elements in \<open>r1\<close> and \<open>r2\<close>.\<close>

definition alti_step ::
  "(w128_t \<Rightarrow> w128_t \<Rightarrow> w128_t \<Rightarrow> w128_t \<Rightarrow> w128_t) \<Rightarrow> nat \<Rightarrow> nat \<Rightarrow> w128_t list \<times> w128_t \<times> w128_t \<Rightarrow>
   w128_t list \<times> w128_t \<times> w128_t" where
  "alti_step R i off = (\<lambda>(st, r1, r2). let r = R (st ! i) (st ! off) r1 r2 in (st[i := r], r2, r))"

definition gen_rand_all_alti ::
  "(w128_t \<Rightarrow> w128_t \<Rightarrow> w128_t \<Rightarrow> w128_t \<Rightarrow> w128_t) \<Rightarrow> w128_t list \<Rightarrow> w128_t list" where
  "gen_rand_all_alti R st = fst (
     fold (\<lambda>i. alti_step R i (i + POS1 - SFMT_N)) [SFMT_N - POS1 ..< SFMT_N]
       (fold (\<lambda>i. alti_step R i (i + POS1)) [0 ..< SFMT_N - POS1] (st, st ! (SFMT_N - 2), st ! (SFMT_N - 1))))"

record alti_filling =
  a_sfmt :: "w128_t list"
  a_array :: "w128_t list"
  a_r1 :: w128_t
  a_r2 :: w128_t

definition alti_fill ::
  "(w128_t \<Rightarrow> w128_t \<Rightarrow> w128_t \<Rightarrow> w128_t \<Rightarrow> w128_t) \<Rightarrow> nat \<Rightarrow> w128_t \<Rightarrow> w128_t \<Rightarrow> alti_filling \<Rightarrow> alti_filling" where
  "alti_fill R i a b f = (let r = R a b (a_r1 f) (a_r2 f)
     in f\<lparr>a_array := (a_array f)[i := r], a_r1 := a_r2 f, a_r2 := r\<rparr>)"

definition gen_rand_array_alti ::
  "(w128_t \<Rightarrow> w128_t \<Rightarrow> w128_t \<Rightarrow> w128_t \<Rightarrow> w128_t) \<Rightarrow> w128_t list \<Rightarrow> nat \<Rightarrow> w128_t list \<Rightarrow> alti_filling" where
  "gen_rand_array_alti R array sz st =
     (let f = \<lparr>a_sfmt = st, a_array = array, a_r1 = st ! (SFMT_N - 2), a_r2 = st ! (SFMT_N - 1)\<rparr>;
          f = fold (\<lambda>i f. alti_fill R i (a_sfmt f ! i) (a_sfmt f ! (i + POS1)) f) [0 ..< SFMT_N - POS1] f;
          f = fold (\<lambda>i f. alti_fill R i (a_sfmt f ! i) (a_array f ! (i + POS1 - SFMT_N)) f)
                [SFMT_N - POS1 ..< SFMT_N] f;
          f = fold (\<lambda>i f. alti_fill R i (a_array f ! (i - SFMT_N)) (a_array f ! (i + POS1 - SFMT_N)) f)
                [SFMT_N ..< sz - SFMT_N] f;
          f = fold (\<lambda>j f. f\<lparr>a_sfmt := (a_sfmt f)[j := a_array f ! (j + sz - SFMT_N)]\<rparr>) [0 ..< 2 * SFMT_N - sz] f;
          start = max SFMT_N (sz - SFMT_N)
      in fold (\<lambda>i f.
           let f = alti_fill R i (a_array f ! (i - SFMT_N)) (a_array f ! (i + POS1 - SFMT_N)) f;
               j = 2 * SFMT_N - sz + (i - start)
           in f\<lparr>a_sfmt := (a_sfmt f)[j := a_r2 f]\<rparr>) [start ..< sz] f)"

definition swap_alti :: "altivec \<Rightarrow> w128_t list \<Rightarrow> nat \<Rightarrow> w128_t list" where
  "swap_alti V array sz = fold (\<lambda>i array. array[i := vec_perm V (array ! i) (bytes_vec ALTI_SWAP) ALTI_SWAP]) [0 ..< sz] array"

section \<open>The recursion\<close>

lemma perm_constants:
  "vec_bytes (bytes_vec ALTI_SL2_PERM) = ALTI_SL2_PERM" "vec_bytes (bytes_vec ALTI_SR2_PERM) = ALTI_SR2_PERM"
  "vec_bytes (bytes_vec ALTI_SL2_PERM64) = ALTI_SL2_PERM64" "vec_bytes (bytes_vec ALTI_SR2_PERM64) = ALTI_SR2_PERM64"
  by (simp_all add: vec_bytes_def bytes_vec_def be_bytes_def be_word_def alti_params)

lemma bit_be_word: "bit (be_word a b c d) n \<longleftrightarrow> n < 32 \<and>
   (if n < 8 then bit d n else if n < 16 then bit c (n - 8) else if n < 24 then bit b (n - 16) else bit a (n - 24))"
  by (auto simp: be_word_def bit_simps dest: bit_imp_le_length)

lemma bit_cases32:
  fixes x y :: u32
  assumes "\<And>n. n < 8 \<Longrightarrow> bit x n = bit y n" and "\<And>n. 8 \<le> n \<Longrightarrow> n < 16 \<Longrightarrow> bit x n = bit y n"
    and "\<And>n. 16 \<le> n \<Longrightarrow> n < 24 \<Longrightarrow> bit x n = bit y n" and "\<And>n. 24 \<le> n \<Longrightarrow> n < 32 \<Longrightarrow> bit x n = bit y n"
  shows "x = y"
proof (rule bit_word_eqI)
  fix n assume "n < LENGTH(32)"
  then show "bit x n = bit y n"
    using assms by (cases "n < 8"; cases "n < 16"; cases "n < 24") simp_all
qed

lemma word_left:
  "be_word (ucast (drop_bit 16 w)) (ucast (drop_bit 8 w)) (ucast w) (ucast (drop_bit 24 v)) = push_bit 8 w OR drop_bit 24 v"
  for v w :: u32
  by (rule bit_cases32) (auto simp: bit_be_word bit_simps dest: bit_imp_le_length)

lemma word_right:
  "be_word (ucast v) (ucast (drop_bit 24 w)) (ucast (drop_bit 16 w)) (ucast (drop_bit 8 w)) = push_bit 24 v OR drop_bit 8 w"
  for v w :: u32
  by (rule bit_cases32) (auto simp: bit_be_word bit_simps dest: bit_imp_le_length)

lemma word_same:
  "be_word (ucast (drop_bit 24 w)) (ucast (drop_bit 16 w)) (ucast (drop_bit 8 w)) (ucast w) = w"
  for w :: u32
  by (rule bit_cases32) (auto simp: bit_be_word bit_simps)

lemma lshift128_words: "lshift128 w 1 = W128 (push_bit 8 (u0 w)) (push_bit 8 (u1 w) OR drop_bit 24 (u0 w))
    (push_bit 8 (u2 w) OR drop_bit 24 (u1 w)) (push_bit 8 (u3 w) OR drop_bit 24 (u2 w))"
  by (simp add: lshift128_def Let_def, intro conjI; rule bit_word_eqI)
    (auto simp: bit_simps dest: bit_imp_le_length)

lemma rshift128_words: "rshift128 w 1 = W128 (push_bit 24 (u1 w) OR drop_bit 8 (u0 w)) (push_bit 24 (u2 w) OR drop_bit 8 (u1 w))
    (push_bit 24 (u3 w) OR drop_bit 8 (u2 w)) (drop_bit 8 (u3 w))"
  by (simp add: rshift128_def Let_def, intro conjI; rule bit_word_eqI)
    (auto simp: bit_simps dest: bit_imp_le_length)

lemmas byte_words = word_left word_right word_same word_left [where v = 0, simplified] word_right [where v = 0, simplified]

context altivec_unit
begin

lemma perm_shifts:
  "vec_perm V w (bytes_vec ALTI_SL2_PERM) ALTI_SL2_PERM = lshift128 w 1"
  "vec_perm V w (bytes_vec ALTI_SR2_PERM) ALTI_SR2_PERM = rshift128 w 1"
  unfolding perm perm_constants lshift128_words rshift128_words
  by (simp_all add: alti_params vec_bytes_def be_bytes_def bytes_vec_def byte_words)

lemma perm_shifts_only64:
  "vec_perm V (flip w) (bytes_vec ALTI_SL2_PERM64) ALTI_SL2_PERM64 = flip (lshift128 w 1)"
  "vec_perm V (flip w) (bytes_vec ALTI_SR2_PERM64) ALTI_SR2_PERM64 = flip (rshift128 w 1)"
  unfolding perm perm_constants lshift128_words rshift128_words
  by (simp_all add: alti_params vec_bytes_def be_bytes_def bytes_vec_def byte_words flip_def)

lemma perm_swap: "vec_perm V w p ALTI_SWAP = flip w"
  unfolding perm by (simp add: alti_params vec_bytes_def be_bytes_def bytes_vec_def byte_words flip_def)

lemma vec_shifts:
  "vec_sl V d ALTI_SL1 = W128 (push_bit 18 (u0 d)) (push_bit 18 (u1 d)) (push_bit 18 (u2 d)) (push_bit 18 (u3 d))"
  "vec_sr V d ALTI_SR1 = W128 (drop_bit 11 (u0 d)) (drop_bit 11 (u1 d)) (drop_bit 11 (u2 d)) (drop_bit 11 (u3 d))"
  by (simp_all add: sl sr words_with_def ALTI_SL1_def ALTI_SR1_def sfmt_params)

lemma recursion_same: "vec_recursion V a b c d = do_recursion a b c d"
  by (simp add: vec_recursion_def vec_recursion_with_def do_recursion_def Let_def perm_shifts vec_shifts xor conj words_with_def
      ALTI_MSK_def SL1_def SL2_def SR1_def SR2_def ac_simps)

lemma recursion_only64: "vec_recursion_only64 V (flip a) (flip b) (flip c) (flip d) = flip (do_recursion a b c d)"
  by (simp add: vec_recursion_only64_def vec_recursion_with_def do_recursion_def Let_def perm_shifts_only64 vec_shifts xor conj
      words_with_def ALTI_MSK64_def SL1_def SL2_def SR1_def SR2_def ac_simps)
    (simp add: flip_def ac_simps)

lemma swap_same: "swap_alti V array k = swap_words array k"
proof -
  have "swap_step = (\<lambda>i xs. xs[i := flip (xs ! i)])" by (simp add: fun_eq_iff swap_step_def flip_def Let_def)
  then show ?thesis by (simp add: swap_alti_def swap_words_def perm_swap)
qed

end

text \<open>The operations as the manual describes them satisfy the laws.\<close>

definition altivec_ref :: altivec where
  "altivec_ref = \<lparr>vec_perm = (\<lambda>a b p. bytes_vec (map (\<lambda>i. (vec_bytes a @ vec_bytes b) ! (unat i mod 32)) p)),
     vec_sr = words_with (\<lambda>x n. drop_bit (unat n mod 32) x), vec_sl = words_with (\<lambda>x n. push_bit (unat n mod 32) x),
     vec_xor = words_with (\<lambda>x y. x XOR y), vec_and = words_with (\<lambda>x y. x AND y)\<rparr>"

interpretation alti: altivec_unit altivec_ref
  by unfold_locales (simp_all add: altivec_ref_def)

section \<open>The loops with registers\<close>

definition alti_inv :: "w128_t list \<Rightarrow> nat \<Rightarrow> w128_t list \<times> w128_t \<times> w128_t \<Rightarrow> bool" where
  "alti_inv st i = (\<lambda>(ys, r1, r2). length ys = SFMT_N
     \<and> (\<forall>m < SFMT_N. ys ! m = sfmt_seq st (if m < i then m + SFMT_N else m))
     \<and> r1 = sfmt_seq st (i + SFMT_N - 2) \<and> r2 = sfmt_seq st (i + SFMT_N - 1))"

lemma alti_step_inv:
  assumes inv: "alti_inv st i t" and i: "i < SFMT_N" and off: "off = (i + POS1) mod SFMT_N"
  shows "alti_inv st (Suc i) (alti_step do_recursion i off t)"
proof -
  obtain ys r1 r2 where t: "t = (ys, r1, r2)" by (cases t)
  have ys: "length ys = SFMT_N"
      "\<And>m. m < SFMT_N \<Longrightarrow> ys ! m = sfmt_seq st (if m < i then m + SFMT_N else m)"
    and r: "r1 = sfmt_seq st (i + SFMT_N - 2)" "r2 = sfmt_seq st (i + SFMT_N - 1)"
    using inv by (auto simp: alti_inv_def t)
  have "ys ! i = sfmt_seq st i" using ys i by simp
  moreover have "ys ! off = sfmt_seq st (i + POS1)"
    using i off ys(2) [of off]
    by (cases "i + POS1 < SFMT_N") (auto simp: sfmt_params le_mod_geq add.commute)
  ultimately have "do_recursion (ys ! i) (ys ! off) r1 r2 = sfmt_seq st (i + SFMT_N)"
    unfolding r using seq_later [of st i] by (simp add: add.commute)
  with ys i r show ?thesis
    by (auto simp: alti_inv_def t alti_step_def Let_def nth_list_update less_Suc_eq)
qed

lemma gen_rand_all_alti_same:
  assumes "length st = SFMT_N"
  shows "gen_rand_all_alti do_recursion st = gen_rand_all st"
proof -
  have "alti_inv st 0 (st, st ! (SFMT_N - 2), st ! (SFMT_N - 1))"
    using assms by (auto simp: alti_inv_def seq_initial sfmt_params)
  then have "alti_inv st (SFMT_N - POS1)
      (fold (\<lambda>i. alti_step do_recursion i (i + POS1)) [0 ..< SFMT_N - POS1] (st, st ! (SFMT_N - 2), st ! (SFMT_N - 1)))"
    by (rule fold_upt_invariant [where I = "alti_inv st"]) (auto intro!: alti_step_inv simp: sfmt_params)
  then have "alti_inv st SFMT_N
      (fold (\<lambda>i. alti_step do_recursion i (i + POS1 - SFMT_N)) [SFMT_N - POS1 ..< SFMT_N]
       (fold (\<lambda>i. alti_step do_recursion i (i + POS1)) [0 ..< SFMT_N - POS1] (st, st ! (SFMT_N - 2), st ! (SFMT_N - 1))))"
    by (rule fold_upt_invariant [where I = "alti_inv st"]) (auto intro!: alti_step_inv simp: sfmt_params le_mod_geq)
  then show ?thesis using gen_rand_all_seq [OF assms]
    by (intro nth_equalityI) (auto simp: alti_inv_def gen_rand_all_alti_def split_beta add.commute)
qed

text \<open>The array fill, against the sequence.\<close>

definition afilled :: "nat \<Rightarrow> w128_t list \<Rightarrow> nat \<Rightarrow> alti_filling \<Rightarrow> bool" where
  "afilled i st n f \<longleftrightarrow> length (a_array f) = n \<and> i \<le> n \<and> (\<forall>m < i. a_array f ! m = sfmt_seq st (SFMT_N + m))
     \<and> a_r1 f = sfmt_seq st (i + SFMT_N - 2) \<and> a_r2 f = sfmt_seq st (i + SFMT_N - 1)"

lemma afilled_operands:
  assumes "afilled i st n f"
  shows "SFMT_N \<le> i \<Longrightarrow> a_array f ! (i - SFMT_N) = sfmt_seq st i"
    and "SFMT_N \<le> i + POS1 \<Longrightarrow> a_array f ! (i + POS1 - SFMT_N) = sfmt_seq st (i + POS1)"
proof -
  have b: "SFMT_N \<le> k \<Longrightarrow> k < i + SFMT_N \<Longrightarrow> a_array f ! (k - SFMT_N) = sfmt_seq st k" for k
    using assms by (auto simp: afilled_def dest!: spec [of _ "k - SFMT_N"])
  show "SFMT_N \<le> i \<Longrightarrow> a_array f ! (i - SFMT_N) = sfmt_seq st i"
    and "SFMT_N \<le> i + POS1 \<Longrightarrow> a_array f ! (i + POS1 - SFMT_N) = sfmt_seq st (i + POS1)"
    by (rule b; simp add: sfmt_params)+
qed

lemma alti_fill_filled:
  assumes "afilled i st n f" and "i < n" and "a = sfmt_seq st i" and "b = sfmt_seq st (i + POS1)"
  shows "afilled (Suc i) st n (alti_fill do_recursion i a b f)
    \<and> a_r2 (alti_fill do_recursion i a b f) = sfmt_seq st (SFMT_N + i)"
  using assms by (auto simp: afilled_def alti_fill_def Let_def seq_later nth_list_update less_Suc_eq add.commute)

lemma a_sfmt_alti_fill [simp]: "a_sfmt (alti_fill R i a b f) = a_sfmt f"
  by (simp add: alti_fill_def Let_def)

lemma alti_fill_loop:
  assumes "afilled a st n f" and "a_sfmt f = st" and "b \<le> n"
    and ops: "\<And>i f. a \<le> i \<Longrightarrow> i < b \<Longrightarrow> afilled i st n f \<Longrightarrow> a_sfmt f = st
      \<Longrightarrow> A i f = sfmt_seq st i \<and> B i f = sfmt_seq st (i + POS1)"
  shows "afilled (max a b) st n (fold (\<lambda>i f. alti_fill do_recursion i (A i f) (B i f) f) [a ..< b] f)
    \<and> a_sfmt (fold (\<lambda>i f. alti_fill do_recursion i (A i f) (B i f) f) [a ..< b] f) = st"
proof (cases "a \<le> b")
  case True
  have "afilled b st n (fold (\<lambda>i f. alti_fill do_recursion i (A i f) (B i f) f) [a ..< b] f)
    \<and> a_sfmt (fold (\<lambda>i f. alti_fill do_recursion i (A i f) (B i f) f) [a ..< b] f) = st"
    by (rule fold_upt_invariant [OF _ True]) (use assms alti_fill_filled in auto)
  with True show ?thesis by (simp add: max_absorb2)
qed (use assms(1,2) in simp)

definition atail :: "nat \<Rightarrow> w128_t list \<Rightarrow> nat \<Rightarrow> alti_filling \<Rightarrow> bool" where
  "atail j st sz f \<longleftrightarrow> length (a_sfmt f) = SFMT_N \<and> (\<forall>m < j. a_sfmt f ! m = sfmt_seq st (sz + m))"

lemma atailI:
  assumes "atail j st sz f" and "j < SFMT_N" and "v = sfmt_seq st (sz + j)"
  shows "atail (Suc j) st sz (f\<lparr>a_sfmt := (a_sfmt f)[j := v]\<rparr>)"
  using assms by (auto simp: atail_def nth_list_update less_Suc_eq)

lemma afilled_a_sfmt [simp]: "afilled i st n (f\<lparr>a_sfmt := x\<rparr>) = afilled i st n f"
  by (simp add: afilled_def)

lemma atail_alti_fill [simp]: "atail j st sz (alti_fill R i a b f) = atail j st sz f"
  by (simp add: atail_def)

lemma alti_copy_loop:
  fixes sz
  defines "body \<equiv> \<lambda>j f. f\<lparr>a_sfmt := (a_sfmt f)[j := a_array f ! (j + sz - SFMT_N)]\<rparr>"
  assumes "afilled i st n f" and "atail 0 st sz f" and "SFMT_N \<le> sz" and "k \<le> SFMT_N" and "k + sz \<le> i + SFMT_N"
  shows "afilled i st n (fold body [0 ..< k] f) \<and> atail k st sz (fold body [0 ..< k] f)"
proof (rule fold_upt_invariant)
  fix j t assume j: "j < k" and t: "afilled i st n t \<and> atail j st sz t"
  have "a_array t ! (j + sz - SFMT_N) = sfmt_seq st (SFMT_N + (j + sz - SFMT_N))"
    using t j assms(4,6) by (simp add: afilled_def)
  also have "SFMT_N + (j + sz - SFMT_N) = sz + j" using assms(4) by simp
  finally show "afilled i st n (body j t) \<and> atail (Suc j) st sz (body j t)"
    using t atailI j assms(5) by (simp add: body_def)
qed (use assms in simp_all)

lemma alti_last_loop:
  fixes k start
  defines "body \<equiv> \<lambda>i f.
     let f = alti_fill do_recursion i (a_array f ! (i - SFMT_N)) (a_array f ! (i + POS1 - SFMT_N)) f;
         j = k + (i - start)
     in f\<lparr>a_sfmt := (a_sfmt f)[j := a_r2 f]\<rparr>"
  assumes "afilled start st sz f" and "atail k st sz f"
    and "SFMT_N \<le> start" and "start \<le> sz" and k: "k + sz = start + SFMT_N"
  shows "afilled sz st sz (fold body [start ..< sz] f) \<and> atail SFMT_N st sz (fold body [start ..< sz] f)"
proof -
  have "afilled sz st sz (fold body [start ..< sz] f) \<and> atail (k + (sz - start)) st sz (fold body [start ..< sz] f)"
  proof (rule fold_upt_invariant [OF _ \<open>start \<le> sz\<close>,
        where I = "\<lambda>i t. afilled i st sz t \<and> atail (k + (i - start)) st sz t"])
    fix i t assume i: "start \<le> i" "i < sz" and t: "afilled i st sz t \<and> atail (k + (i - start)) st sz t"
    let ?u = "alti_fill do_recursion i (a_array t ! (i - SFMT_N)) (a_array t ! (i + POS1 - SFMT_N)) t"
    have "a_array t ! (i - SFMT_N) = sfmt_seq st i" "a_array t ! (i + POS1 - SFMT_N) = sfmt_seq st (i + POS1)"
      using afilled_operands [of i st sz t] t i assms(4) by simp_all
    then have u: "afilled (Suc i) st sz ?u \<and> a_r2 ?u = sfmt_seq st (SFMT_N + i)"
      using t i by (intro alti_fill_filled) auto
    moreover have "SFMT_N + i = sz + (k + (i - start))" using i k by simp
    moreover have "k + (i - start) < SFMT_N" using i k by simp
    ultimately show "afilled (Suc i) st sz (body i t) \<and> atail (k + (Suc i - start)) st sz (body i t)"
      using t i atailI [of "k + (i - start)" st sz ?u] by (simp add: body_def Let_def Suc_diff_le)
  qed (use assms in simp)
  moreover have "k + (sz - start) = SFMT_N" using k \<open>start \<le> sz\<close> by simp
  ultimately show ?thesis by simp
qed

lemma gen_rand_array_alti_same:
  assumes st: "length st = SFMT_N" and "length array = sz" and "SFMT_N \<le> sz"
  shows "a_array (gen_rand_array_alti do_recursion array sz st) = f_array (gen_rand_array array sz st)"
    and "a_sfmt (gen_rand_array_alti do_recursion array sz st) = f_sfmt (gen_rand_array array sz st)"
proof -
  let ?A = "alti_fill do_recursion"
  define f0 where "f0 = \<lparr>a_sfmt = st, a_array = array, a_r1 = st ! (SFMT_N - 2), a_r2 = st ! (SFMT_N - 1)\<rparr>"
  define f1 where "f1 = fold (\<lambda>i f. ?A i (a_sfmt f ! i) (a_sfmt f ! (i + POS1)) f) [0 ..< SFMT_N - POS1] f0"
  define f2 where "f2 = fold (\<lambda>i f. ?A i (a_sfmt f ! i) (a_array f ! (i + POS1 - SFMT_N)) f) [SFMT_N - POS1 ..< SFMT_N] f1"
  define f3 where "f3 = fold (\<lambda>i f. ?A i (a_array f ! (i - SFMT_N)) (a_array f ! (i + POS1 - SFMT_N)) f) [SFMT_N ..< sz - SFMT_N] f2"
  define f4 where "f4 = fold (\<lambda>j f. f\<lparr>a_sfmt := (a_sfmt f)[j := a_array f ! (j + sz - SFMT_N)]\<rparr>) [0 ..< 2 * SFMT_N - sz] f3"
  define start where "start = max SFMT_N (sz - SFMT_N)"
  have "afilled 0 st sz f0" "a_sfmt f0 = st" using assms by (simp_all add: f0_def afilled_def seq_initial sfmt_params)
  then have "afilled (max 0 (SFMT_N - POS1)) st sz f1 \<and> a_sfmt f1 = st"
    unfolding f1_def by (rule alti_fill_loop) (use assms(3) in \<open>auto simp: seq_initial sfmt_params\<close>)
  then have "afilled (SFMT_N - POS1) st sz f1" "a_sfmt f1 = st" by simp_all
  then have "afilled (max (SFMT_N - POS1) SFMT_N) st sz f2 \<and> a_sfmt f2 = st"
    unfolding f2_def by (rule alti_fill_loop) (use assms(3) in \<open>simp_all add: seq_initial afilled_operands\<close>)
  then have "afilled SFMT_N st sz f2" "a_sfmt f2 = st" by simp_all
  then have f3: "afilled start st sz f3 \<and> a_sfmt f3 = st"
    unfolding f3_def start_def by (rule alti_fill_loop) (simp_all add: afilled_operands)
  have f4: "afilled start st sz f4 \<and> atail (2 * SFMT_N - sz) st sz f4"
    unfolding f4_def using f3 assms by (intro alti_copy_loop) (auto simp: atail_def start_def)
  have "afilled sz st sz (gen_rand_array_alti do_recursion array sz st) \<and> atail SFMT_N st sz (gen_rand_array_alti do_recursion array sz st)"
    unfolding gen_rand_array_alti_def Let_def
      f0_def [symmetric] f1_def [symmetric] f2_def [symmetric] f3_def [symmetric] f4_def [symmetric] start_def [symmetric]
    using alti_last_loop [of start st sz f4 "2 * SFMT_N - sz"] f4 assms(3) by (auto simp: Let_def start_def)
  then show "a_array (gen_rand_array_alti do_recursion array sz st) = f_array (gen_rand_array array sz st)"
    and "a_sfmt (gen_rand_array_alti do_recursion array sz st) = f_sfmt (gen_rand_array array sz st)"
    using gen_rand_array_seq [OF assms] by (auto intro!: nth_equalityI simp: afilled_def atail_def)
qed

text \<open>The same loops over the other order of the words.\<close>

lemma alti_all_flip:
  assumes R: "\<And>a b c d. R' (flip a) (flip b) (flip c) (flip d) = flip (R a b c d)" and st: "length st = SFMT_N"
  shows "gen_rand_all_alti R' (map flip st) = map flip (gen_rand_all_alti R st)"
proof -
  let ?h = "\<lambda>(st, r1, r2). (map flip st, flip r1, flip r2)"
  have s: "length (fst (alti_step R i off t)) = SFMT_N \<and> alti_step R' i off (?h t) = ?h (alti_step R i off t)"
    if "length (fst t) = SFMT_N" "i < SFMT_N" "off < SFMT_N" for i off t
    using that by (cases t) (simp add: alti_step_def Let_def R map_update)
  note sim = fold_simulation [where I = "\<lambda>t. length (fst t) = SFMT_N" and h = ?h]
  let ?t = "(st, st ! (SFMT_N - 2), st ! (SFMT_N - 1))" and ?a = "[0 ..< SFMT_N - POS1]" and ?b = "[SFMT_N - POS1 ..< SFMT_N]"
  have a: "fold (\<lambda>i. alti_step R' i (i + POS1)) ?a (?h ?t) = ?h (fold (\<lambda>i. alti_step R i (i + POS1)) ?a ?t)
    \<and> length (fst (fold (\<lambda>i. alti_step R i (i + POS1)) ?a ?t)) = SFMT_N"
    by (rule sim, rule s) (use st in \<open>auto simp: sfmt_params\<close>)
  have b: "fold (\<lambda>i. alti_step R' i (i + POS1 - SFMT_N)) ?b (?h t) = ?h (fold (\<lambda>i. alti_step R i (i + POS1 - SFMT_N)) ?b t)
    \<and> length (fst (fold (\<lambda>i. alti_step R i (i + POS1 - SFMT_N)) ?b t)) = SFMT_N" if "length (fst t) = SFMT_N" for t
    by (rule sim, rule s) (use that in \<open>auto simp: sfmt_params\<close>)
  have start: "(map flip st, map flip st ! (SFMT_N - 2), map flip st ! (SFMT_N - 1)) = ?h ?t"
    using st by (simp add: sfmt_params)
  show ?thesis unfolding gen_rand_all_alti_def start conjunct1 [OF a] using b conjunct2 [OF a] by (simp add: split_def)
qed

lemma altivec_builds_agree:
  assumes "altivec_unit V" and "length st = SFMT_N" and "length array = n" and "SFMT_N \<le> n"
  shows "gen_rand_all_alti (vec_recursion V) st = gen_rand_all st
    \<and> gen_rand_all_alti (vec_recursion_only64 V) (map flip st) = gen_rand_all_only64 (map flip st)
    \<and> a_array (gen_rand_array_alti (vec_recursion V) array n st) = f_array (gen_rand_array array n st)
    \<and> a_sfmt (gen_rand_array_alti (vec_recursion V) array n st) = f_sfmt (gen_rand_array array n st)
    \<and> swap_alti V array k = swap_words array k"
proof -
  have r: "vec_recursion V = do_recursion" by (intro ext) (rule altivec_unit.recursion_same [OF assms(1)])
  show ?thesis
    using alti_all_flip [of "vec_recursion_only64 V" do_recursion, OF altivec_unit.recursion_only64 [OF assms(1)] assms(2)]
    by (simp add: r gen_rand_all_alti_same [OF assms(2)] gen_rand_all_flip [OF assms(2)]
        gen_rand_array_alti_same [OF assms(2-4)] altivec_unit.swap_same [OF assms(1)])
qed

lemma altivec_builds_agree_ref:
  "gen_rand_all_alti (vec_recursion altivec_ref) (sfmt zero_sfmt) = gen_rand_all (sfmt zero_sfmt)"
  using altivec_builds_agree [OF alti.altivec_unit_axioms length_zero_sfmt length_zero_sfmt] by simp

end
