(* ===== verification/Sfmt_periods.thy ===== *)
theory Sfmt_periods
  imports Sfmt_alti
begin

text \<open>
  The parameter sets of the generator for all periods (\<open>utils/random/randomgen/SFMT-params*.h\<close>), of which the build
  takes the one for 2^19937 - 1.  The tables for AltiVec, two per shift, are written out by hand in each header: they
  are checked against the shifts they stand for, whatever unit with the laws of \<open>altivec_unit\<close> runs them.
\<close>

section \<open>The parameters\<close>

text \<open>
  \<open>ALTI_SL1\<close>, \<open>ALTI_SR1\<close>, \<open>ALTI_MSK\<close> and \<open>ALTI_MSK64\<close> are made of \<open>SL1\<close>, \<open>SR1\<close> and the masks in every header; the
  tables of bytes are the same for both notations (OSX and others).
\<close>

record period_params =
  p_mexp :: nat
  p_pos1 :: nat
  p_sl1 :: nat
  p_sl2 :: nat
  p_sr1 :: nat
  p_sr2 :: nat
  p_msk :: "u32 list"
  p_parity :: "u32 list"
  p_sl2_perm :: "u8 list"
  p_sl2_perm64 :: "u8 list"
  p_sr2_perm :: "u8 list"
  p_sr2_perm64 :: "u8 list"
  p_idstr :: string

definition params607 :: period_params where
  "params607 = \<lparr>p_mexp = 607, p_pos1 = 2, p_sl1 = 15, p_sl2 = 3, p_sr1 = 13, p_sr2 = 3,
     p_msk = [0xfdff37ff, 0xef7f3f7d, 0xff777b7d, 0x7ff7fb2f],
     p_parity = [0x00000001, 0x00000000, 0x00000000, 0x5986f054],
     p_sl2_perm = [3,21,21,21,7,0,1,2,11,4,5,6,15,8,9,10],
     p_sl2_perm64 = [3,4,5,6,7,29,29,29,11,12,13,14,15,0,1,2],
     p_sr2_perm = [5,6,7,0,9,10,11,4,13,14,15,8,19,19,19,12],
     p_sr2_perm64 = [13,14,15,0,1,2,3,4,19,19,19,8,9,10,11,12],
     p_idstr = ''SFMT-607:2-15-3-13-3:fdff37ff-ef7f3f7d-ff777b7d-7ff7fb2f''\<rparr>"

definition params1279 :: period_params where
  "params1279 = \<lparr>p_mexp = 1279, p_pos1 = 7, p_sl1 = 14, p_sl2 = 3, p_sr1 = 5, p_sr2 = 1,
     p_msk = [0xf7fefffd, 0x7fefcfff, 0xaff3ef3f, 0xb5ffff7f],
     p_parity = [0x00000001, 0x00000000, 0x00000000, 0x20000000],
     p_sl2_perm = [3,21,21,21,7,0,1,2,11,4,5,6,15,8,9,10],
     p_sl2_perm64 = [3,4,5,6,7,29,29,29,11,12,13,14,15,0,1,2],
     p_sr2_perm = [7,0,1,2,11,4,5,6,15,8,9,10,17,12,13,14],
     p_sr2_perm64 = [15,0,1,2,3,4,5,6,17,8,9,10,11,12,13,14],
     p_idstr = ''SFMT-1279:7-14-3-5-1:f7fefffd-7fefcfff-aff3ef3f-b5ffff7f''\<rparr>"

definition params2281 :: period_params where
  "params2281 = \<lparr>p_mexp = 2281, p_pos1 = 12, p_sl1 = 19, p_sl2 = 1, p_sr1 = 5, p_sr2 = 1,
     p_msk = [0xbff7ffbf, 0xfdfffffe, 0xf7ffef7f, 0xf2f7cbbf],
     p_parity = [0x00000001, 0x00000000, 0x00000000, 0x41dfa600],
     p_sl2_perm = [1,2,3,23,5,6,7,0,9,10,11,4,13,14,15,8],
     p_sl2_perm64 = [1,2,3,4,5,6,7,31,9,10,11,12,13,14,15,0],
     p_sr2_perm = [7,0,1,2,11,4,5,6,15,8,9,10,17,12,13,14],
     p_sr2_perm64 = [15,0,1,2,3,4,5,6,17,8,9,10,11,12,13,14],
     p_idstr = ''SFMT-2281:12-19-1-5-1:bff7ffbf-fdfffffe-f7ffef7f-f2f7cbbf''\<rparr>"

definition params4253 :: period_params where
  "params4253 = \<lparr>p_mexp = 4253, p_pos1 = 17, p_sl1 = 20, p_sl2 = 1, p_sr1 = 7, p_sr2 = 1,
     p_msk = [0x9f7bffff, 0x9fffff5f, 0x3efffffb, 0xfffff7bb],
     p_parity = [0xa8000001, 0xaf5390a3, 0xb740b3f8, 0x6c11486d],
     p_sl2_perm = [1,2,3,23,5,6,7,0,9,10,11,4,13,14,15,8],
     p_sl2_perm64 = [1,2,3,4,5,6,7,31,9,10,11,12,13,14,15,0],
     p_sr2_perm = [7,0,1,2,11,4,5,6,15,8,9,10,17,12,13,14],
     p_sr2_perm64 = [15,0,1,2,3,4,5,6,17,8,9,10,11,12,13,14],
     p_idstr = ''SFMT-4253:17-20-1-7-1:9f7bffff-9fffff5f-3efffffb-fffff7bb''\<rparr>"

definition params11213 :: period_params where
  "params11213 = \<lparr>p_mexp = 11213, p_pos1 = 68, p_sl1 = 14, p_sl2 = 3, p_sr1 = 7, p_sr2 = 3,
     p_msk = [0xeffff7fb, 0xffffffef, 0xdfdfbfff, 0x7fffdbfd],
     p_parity = [0x00000001, 0x00000000, 0xe8148000, 0xd0c7afa3],
     p_sl2_perm = [3,21,21,21,7,0,1,2,11,4,5,6,15,8,9,10],
     p_sl2_perm64 = [3,4,5,6,7,29,29,29,11,12,13,14,15,0,1,2],
     p_sr2_perm = [5,6,7,0,9,10,11,4,13,14,15,8,19,19,19,12],
     p_sr2_perm64 = [13,14,15,0,1,2,3,4,19,19,19,8,9,10,11,12],
     p_idstr = ''SFMT-11213:68-14-3-7-3:effff7fb-ffffffef-dfdfbfff-7fffdbfd''\<rparr>"

definition params44497 :: period_params where
  "params44497 = \<lparr>p_mexp = 44497, p_pos1 = 330, p_sl1 = 5, p_sl2 = 3, p_sr1 = 9, p_sr2 = 3,
     p_msk = [0xeffffffb, 0xdfbebfff, 0xbfbf7bef, 0x9ffd7bff],
     p_parity = [0x00000001, 0x00000000, 0xa3ac4000, 0xecc1327a],
     p_sl2_perm = [3,21,21,21,7,0,1,2,11,4,5,6,15,8,9,10],
     p_sl2_perm64 = [3,4,5,6,7,29,29,29,11,12,13,14,15,0,1,2],
     p_sr2_perm = [5,6,7,0,9,10,11,4,13,14,15,8,19,19,19,12],
     p_sr2_perm64 = [13,14,15,0,1,2,3,4,19,19,19,8,9,10,11,12],
     p_idstr = ''SFMT-44497:330-5-3-9-3:effffffb-dfbebfff-bfbf7bef-9ffd7bff''\<rparr>"

definition params86243 :: period_params where
  "params86243 = \<lparr>p_mexp = 86243, p_pos1 = 366, p_sl1 = 6, p_sl2 = 7, p_sr1 = 19, p_sr2 = 1,
     p_msk = [0xfdbffbff, 0xbff7ff3f, 0xfd77efff, 0xbf9ff3ff],
     p_parity = [0x00000001, 0x00000000, 0x00000000, 0xe9528d85],
     p_sl2_perm = [25,25,25,25,3,25,25,25,7,0,1,2,11,4,5,6],
     p_sl2_perm64 = [7,25,25,25,25,25,25,25,15,0,1,2,3,4,5,6],
     p_sr2_perm = [7,0,1,2,11,4,5,6,15,8,9,10,17,12,13,14],
     p_sr2_perm64 = [15,0,1,2,3,4,5,6,17,8,9,10,11,12,13,14],
     p_idstr = ''SFMT-86243:366-6-7-19-1:fdbffbff-bff7ff3f-fd77efff-bf9ff3ff''\<rparr>"

definition params132049 :: period_params where
  "params132049 = \<lparr>p_mexp = 132049, p_pos1 = 110, p_sl1 = 19, p_sl2 = 1, p_sr1 = 21, p_sr2 = 1,
     p_msk = [0xffffbb5f, 0xfb6ebf95, 0xfffefffa, 0xcff77fff],
     p_parity = [0x00000001, 0x00000000, 0xcb520000, 0xc7e91c7d],
     p_sl2_perm = [1,2,3,23,5,6,7,0,9,10,11,4,13,14,15,8],
     p_sl2_perm64 = [1,2,3,4,5,6,7,31,9,10,11,12,13,14,15,0],
     p_sr2_perm = [7,0,1,2,11,4,5,6,15,8,9,10,17,12,13,14],
     p_sr2_perm64 = [15,0,1,2,3,4,5,6,17,8,9,10,11,12,13,14],
     p_idstr = ''SFMT-132049:110-19-1-21-1:ffffbb5f-fb6ebf95-fffefffa-cff77fff''\<rparr>"

definition params216091 :: period_params where
  "params216091 = \<lparr>p_mexp = 216091, p_pos1 = 627, p_sl1 = 11, p_sl2 = 3, p_sr1 = 10, p_sr2 = 1,
     p_msk = [0xbff7bff7, 0xbfffffff, 0xbffffa7f, 0xffddfbfb],
     p_parity = [0xf8000001, 0x89e80709, 0x3bd2b64b, 0x0c64b1e4],
     p_sl2_perm = [3,21,21,21,7,0,1,2,11,4,5,6,15,8,9,10],
     p_sl2_perm64 = [3,4,5,6,7,29,29,29,11,12,13,14,15,0,1,2],
     p_sr2_perm = [7,0,1,2,11,4,5,6,15,8,9,10,17,12,13,14],
     p_sr2_perm64 = [15,0,1,2,3,4,5,6,17,8,9,10,11,12,13,14],
     p_idstr = ''SFMT-216091:627-11-3-10-1:bff7bff7-bfffffff-bffffa7f-ffddfbfb''\<rparr>"

definition IDSTR :: string where
  "IDSTR = ''SFMT-19937:122-18-1-11-1:dfffffef-ddfecb7f-bffaffff-bffffff6''"

text \<open>\<open>get_idstring\<close>.\<close>

definition get_idstring :: string where
  "get_idstring = IDSTR"

definition params19937 :: period_params where
  "params19937 = \<lparr>p_mexp = 19937, p_pos1 = POS1, p_sl1 = SL1, p_sl2 = SL2, p_sr1 = SR1, p_sr2 = SR2,
     p_msk = [MSK1, MSK2, MSK3, MSK4], p_parity = parity, p_sl2_perm = ALTI_SL2_PERM, p_sl2_perm64 = ALTI_SL2_PERM64,
     p_sr2_perm = ALTI_SR2_PERM, p_sr2_perm64 = ALTI_SR2_PERM64, p_idstr = get_idstring\<rparr>"

definition periods :: "period_params list" where
  "periods = [params607, params1279, params2281, params4253, params11213, params19937, params44497, params86243,
     params132049, params216091]"

section \<open>The tables of the shifts\<close>

lemma lshift128_words3: "lshift128 w 3 = W128 (push_bit 24 (u0 w)) (push_bit 24 (u1 w) OR drop_bit 8 (u0 w))
    (push_bit 24 (u2 w) OR drop_bit 8 (u1 w)) (push_bit 24 (u3 w) OR drop_bit 8 (u2 w))"
  by (simp add: lshift128_def Let_def, intro conjI; rule bit_word_eqI)
    (auto simp: bit_simps dest: bit_imp_le_length)

lemma lshift128_words7: "lshift128 w 7 = W128 0 (push_bit 24 (u0 w))
    (push_bit 24 (u1 w) OR drop_bit 8 (u0 w)) (push_bit 24 (u2 w) OR drop_bit 8 (u1 w))"
  by (simp add: lshift128_def Let_def, intro conjI; rule bit_word_eqI)
    (auto simp: bit_simps dest: bit_imp_le_length)

lemma rshift128_words3: "rshift128 w 3 = W128 (push_bit 8 (u1 w) OR drop_bit 24 (u0 w)) (push_bit 8 (u2 w) OR drop_bit 24 (u1 w))
    (push_bit 8 (u3 w) OR drop_bit 24 (u2 w)) (drop_bit 24 (u3 w))"
  by (simp add: rshift128_def Let_def, intro conjI; rule bit_word_eqI)
    (auto simp: bit_simps dest: bit_imp_le_length)

lemma word_last: "be_word (ucast v) 0 0 0 = push_bit 24 v" "be_word 0 0 0 0 = 0" for v :: u32
  using word_right [where v = v and w = 0] by (simp, simp add: be_word_def)

context altivec_unit
begin

lemma left3:
  "vec_perm V w (bytes_vec [3,21,21,21,7,0,1,2,11,4,5,6,15,8,9,10]) [3,21,21,21,7,0,1,2,11,4,5,6,15,8,9,10] = lshift128 w 3"
  "vec_perm V (flip w) (bytes_vec [3,4,5,6,7,29,29,29,11,12,13,14,15,0,1,2]) [3,4,5,6,7,29,29,29,11,12,13,14,15,0,1,2]
     = flip (lshift128 w 3)"
proof -
  have c: "vec_bytes (bytes_vec [3,21,21,21,7,0,1,2,11,4,5,6,15,8,9,10]) = [3,21,21,21,7,0,1,2,11,4,5,6,15,8,9,10]"
    "vec_bytes (bytes_vec [3,4,5,6,7,29,29,29,11,12,13,14,15,0,1,2]) = [3,4,5,6,7,29,29,29,11,12,13,14,15,0,1,2]"
    by (simp_all add: vec_bytes_def bytes_vec_def be_bytes_def be_word_def)
  show "vec_perm V w (bytes_vec [3,21,21,21,7,0,1,2,11,4,5,6,15,8,9,10]) [3,21,21,21,7,0,1,2,11,4,5,6,15,8,9,10] = lshift128 w 3"
    "vec_perm V (flip w) (bytes_vec [3,4,5,6,7,29,29,29,11,12,13,14,15,0,1,2]) [3,4,5,6,7,29,29,29,11,12,13,14,15,0,1,2]
     = flip (lshift128 w 3)"
    unfolding perm c lshift128_words3
    by (simp_all add: vec_bytes_def be_bytes_def bytes_vec_def byte_words word_last flip_def)
qed

lemma left7:
  "vec_perm V w (bytes_vec [25,25,25,25,3,25,25,25,7,0,1,2,11,4,5,6]) [25,25,25,25,3,25,25,25,7,0,1,2,11,4,5,6] = lshift128 w 7"
  "vec_perm V (flip w) (bytes_vec [7,25,25,25,25,25,25,25,15,0,1,2,3,4,5,6]) [7,25,25,25,25,25,25,25,15,0,1,2,3,4,5,6]
     = flip (lshift128 w 7)"
proof -
  have c: "vec_bytes (bytes_vec [25,25,25,25,3,25,25,25,7,0,1,2,11,4,5,6]) = [25,25,25,25,3,25,25,25,7,0,1,2,11,4,5,6]"
    "vec_bytes (bytes_vec [7,25,25,25,25,25,25,25,15,0,1,2,3,4,5,6]) = [7,25,25,25,25,25,25,25,15,0,1,2,3,4,5,6]"
    by (simp_all add: vec_bytes_def bytes_vec_def be_bytes_def be_word_def)
  show "vec_perm V w (bytes_vec [25,25,25,25,3,25,25,25,7,0,1,2,11,4,5,6]) [25,25,25,25,3,25,25,25,7,0,1,2,11,4,5,6] = lshift128 w 7"
    "vec_perm V (flip w) (bytes_vec [7,25,25,25,25,25,25,25,15,0,1,2,3,4,5,6]) [7,25,25,25,25,25,25,25,15,0,1,2,3,4,5,6]
     = flip (lshift128 w 7)"
    unfolding perm c lshift128_words7
    by (simp_all add: vec_bytes_def be_bytes_def bytes_vec_def byte_words word_last flip_def)
qed

lemma right3:
  "vec_perm V w (bytes_vec [5,6,7,0,9,10,11,4,13,14,15,8,19,19,19,12]) [5,6,7,0,9,10,11,4,13,14,15,8,19,19,19,12] = rshift128 w 3"
  "vec_perm V (flip w) (bytes_vec [13,14,15,0,1,2,3,4,19,19,19,8,9,10,11,12]) [13,14,15,0,1,2,3,4,19,19,19,8,9,10,11,12]
     = flip (rshift128 w 3)"
proof -
  have c: "vec_bytes (bytes_vec [5,6,7,0,9,10,11,4,13,14,15,8,19,19,19,12]) = [5,6,7,0,9,10,11,4,13,14,15,8,19,19,19,12]"
    "vec_bytes (bytes_vec [13,14,15,0,1,2,3,4,19,19,19,8,9,10,11,12]) = [13,14,15,0,1,2,3,4,19,19,19,8,9,10,11,12]"
    by (simp_all add: vec_bytes_def bytes_vec_def be_bytes_def be_word_def)
  have z: "be_word 0 0 0 (ucast (drop_bit 24 w)) = drop_bit 24 w" for w :: u32
    using word_left [where w = 0] by simp
  show "vec_perm V w (bytes_vec [5,6,7,0,9,10,11,4,13,14,15,8,19,19,19,12]) [5,6,7,0,9,10,11,4,13,14,15,8,19,19,19,12] = rshift128 w 3"
    "vec_perm V (flip w) (bytes_vec [13,14,15,0,1,2,3,4,19,19,19,8,9,10,11,12]) [13,14,15,0,1,2,3,4,19,19,19,8,9,10,11,12]
     = flip (rshift128 w 3)"
    unfolding perm c rshift128_words3
    by (simp_all add: vec_bytes_def be_bytes_def bytes_vec_def byte_words z flip_def)
qed

end

text \<open>What a header promises: its tables are its shifts, for both orders of the words, and its position is inside the array.\<close>

definition tables_ok :: "altivec \<Rightarrow> period_params \<Rightarrow> bool" where
  "tables_ok V p \<longleftrightarrow> (\<forall>w. vec_perm V w (bytes_vec (p_sl2_perm p)) (p_sl2_perm p) = lshift128 w (p_sl2 p)
     \<and> vec_perm V w (bytes_vec (p_sr2_perm p)) (p_sr2_perm p) = rshift128 w (p_sr2 p)
     \<and> vec_perm V (flip w) (bytes_vec (p_sl2_perm64 p)) (p_sl2_perm64 p) = flip (lshift128 w (p_sl2 p))
     \<and> vec_perm V (flip w) (bytes_vec (p_sr2_perm64 p)) (p_sr2_perm64 p) = flip (rshift128 w (p_sr2 p)))
     \<and> 0 < p_pos1 p \<and> p_pos1 p < p_mexp p div 128 + 1 \<and> odd (p_parity p ! 0)"

lemma period_tables:
  assumes "altivec_unit V" and "p \<in> set periods"
  shows "tables_ok V p"
proof -
  note t = altivec_unit.perm_shifts [OF assms(1), unfolded ALTI_SL2_PERM_def ALTI_SR2_PERM_def One_nat_def]
    altivec_unit.perm_shifts_only64 [OF assms(1), unfolded ALTI_SL2_PERM64_def ALTI_SR2_PERM64_def One_nat_def]
    altivec_unit.left3 [OF assms(1)] altivec_unit.left7 [OF assms(1)] altivec_unit.right3 [OF assms(1)]
  have "tables_ok V params607" "tables_ok V params1279" "tables_ok V params2281" "tables_ok V params4253"
    "tables_ok V params11213" "tables_ok V params44497" "tables_ok V params86243" "tables_ok V params132049"
    "tables_ok V params216091"
    by (simp_all add: tables_ok_def t params607_def params1279_def params2281_def params4253_def params11213_def
      params44497_def params86243_def params132049_def params216091_def)
  moreover have "tables_ok V params19937"
    by (simp add: tables_ok_def t params19937_def alti_params sfmt_params parity_def)
  ultimately show ?thesis using assms(2) by (auto simp: periods_def)
qed


end
