(* ===== verification/Sfmt_real.thy ===== *)
theory Sfmt_real
  imports Sfmt_array Structs
begin

text \<open>
  The conversions of random integers to floating-point numbers in \<open>utils/random/randomgen/SFMT.h\<close>, over the
  arithmetic that is a parameter (\<open>fpu\<close>).  The ranges are those of exact arithmetic; the 53-bit conversion computes
  in \<open>long double\<close> and rounds at the end, which is an arithmetic and a function of its own.
\<close>

section \<open>The conversions\<close>

text \<open>The constant \<open>0.5\<close> is written as the quotient 1 / 2, which is the same number.\<close>

definition to_real1 :: "'d fpu \<Rightarrow> u32 \<Rightarrow> 'd" where
  "to_real1 F v = fp_mul F (fp_of_word F v) (fp_div F (fp_of_int F 1) (fp_of_int F 4294967295))"

definition to_real2 :: "'d fpu \<Rightarrow> u32 \<Rightarrow> 'd" where
  "to_real2 F v = fp_mul F (fp_of_word F v) (fp_div F (fp_of_int F 1) (fp_of_int F 4294967296))"

definition to_real3 :: "'d fpu \<Rightarrow> u32 \<Rightarrow> 'd" where
  "to_real3 F v = fp_mul F (fp_add F (fp_of_word F v) (fp_div F (fp_of_int F 1) (fp_of_int F 2)))
     (fp_div F (fp_of_int F 1) (fp_of_int F 4294967296))"

text \<open>\<open>L\<close> is the arithmetic of \<open>long double\<close> and \<open>narrow\<close> the conversion of its results to \<open>double\<close>.\<close>

definition to_res53 :: "'l fpu \<Rightarrow> ('l \<Rightarrow> 'd) \<Rightarrow> u64 \<Rightarrow> 'd" where
  "to_res53 L narrow v =
     narrow (fp_mul L (fp_of_word L v) (fp_div L (fp_of_int L 1) (fp_of_int L 18446744073709551616)))"

definition to_res53_mix :: "'l fpu \<Rightarrow> ('l \<Rightarrow> 'd) \<Rightarrow> u32 \<Rightarrow> u32 \<Rightarrow> 'd" where
  "to_res53_mix L narrow x y = to_res53 L narrow (ucast x OR push_bit 32 (ucast y))"

definition genrand_real1 :: "'d fpu \<Rightarrow> sfmt_state \<Rightarrow> ('d \<times> sfmt_state) res" where
  "genrand_real1 F s = bindR (gen_rand32 s) (\<lambda>(v, s'). Inr (to_real1 F v, s'))"

definition genrand_real2 :: "'d fpu \<Rightarrow> sfmt_state \<Rightarrow> ('d \<times> sfmt_state) res" where
  "genrand_real2 F s = bindR (gen_rand32 s) (\<lambda>(v, s'). Inr (to_real2 F v, s'))"

definition genrand_real3 :: "'d fpu \<Rightarrow> sfmt_state \<Rightarrow> ('d \<times> sfmt_state) res" where
  "genrand_real3 F s = bindR (gen_rand32 s) (\<lambda>(v, s'). Inr (to_real3 F v, s'))"

definition genrand_res53 :: "'l fpu \<Rightarrow> ('l \<Rightarrow> 'd) \<Rightarrow> sfmt_state \<Rightarrow> ('d \<times> sfmt_state) res" where
  "genrand_res53 L narrow s = bindR (gen_rand64 s) (\<lambda>(v, s'). Inr (to_res53 L narrow v, s'))"

definition genrand_res53_mix :: "'l fpu \<Rightarrow> ('l \<Rightarrow> 'd) \<Rightarrow> sfmt_state \<Rightarrow> ('d \<times> sfmt_state) res" where
  "genrand_res53_mix L narrow s =
     bindR (gen_rand32 s) (\<lambda>(x, s'). bindR (gen_rand32 s') (\<lambda>(y, s''). Inr (to_res53_mix L narrow x y, s'')))"

section \<open>Ranges\<close>

lemma rat_32: "0 \<le> (unsigned (v :: u32) :: rat)" "unsigned v \<le> (4294967295 :: rat)"
proof -
  have "(of_int (uint v) :: rat) \<le> of_int 4294967295" "(of_int 0 :: rat) \<le> of_int (uint v)"
    using uint_lt2p [of v] by (simp_all only: of_int_le_iff) simp_all
  then show "0 \<le> (unsigned v :: rat)" "unsigned v \<le> (4294967295 :: rat)" by simp_all
qed

lemma rat_64: "0 \<le> (unsigned (v :: u64) :: rat)" "unsigned v < (18446744073709551616 :: rat)"
proof -
  have "(of_int (uint v) :: rat) < of_int 18446744073709551616" "(of_int 0 :: rat) \<le> of_int (uint v)"
    using uint_lt2p [of v] by (simp_all only: of_int_le_iff of_int_less_iff) simp_all
  then show "0 \<le> (unsigned v :: rat)" "unsigned v < (18446744073709551616 :: rat)" by simp_all
qed

lemma real_exact:
  "to_real1 exact_fpu v = unsigned v / 4294967295" "to_real2 exact_fpu v = unsigned v / 4294967296"
  "to_real3 exact_fpu v = (unsigned v + 1 / 2) / 4294967296"
  "to_res53 exact_fpu narrow w = narrow (unsigned w / 18446744073709551616)"
  by (simp_all add: to_real1_def to_real2_def to_real3_def to_res53_def exact_fpu_def fp_of_word_def)

lemma real1_range: "0 \<le> to_real1 exact_fpu v" "to_real1 exact_fpu v \<le> 1"
  using rat_32 [of v] by (simp_all add: real_exact)

lemma real2_range: "0 \<le> to_real2 exact_fpu v" "to_real2 exact_fpu v < 1"
  using rat_32 [of v] by (simp_all add: real_exact)

lemma real3_range: "0 < to_real3 exact_fpu v" "to_real3 exact_fpu v < 1"
  using rat_32 [of v] by (simp_all add: real_exact)

lemma res53_range: "0 \<le> to_res53 exact_fpu (\<lambda>x. x) v" "to_res53 exact_fpu (\<lambda>x. x) v < 1"
  using rat_64 [of v] by (simp_all add: real_exact)

text \<open>The two halves of a 64-bit number are what two 32-bit reads at an even index deliver.\<close>

lemma psfmt64_halves:
  assumes "i = 2 * k"
  shows "psfmt64 st (i div 2) = ucast (psfmt32 st i) OR push_bit 32 (ucast (psfmt32 st (i + 1)))"
proof -
  obtain a b c d where w: "st ! (k div 2) = W128 a b c d" by (cases "st ! (k div 2)")
  have "2 * k div 4 = k div 2" "(2 * k + 1) div 4 = k div 2" by simp_all
  moreover have "2 * k mod 4 = (if even k then 0 else 2)" "(2 * k + 1) mod 4 = (if even k then 1 else 3)"
    by presburger+
  ultimately show ?thesis using w by (simp add: assms psfmt32_def psfmt64_def or.commute)
qed

lemma mixed_draw_same:
  assumes s: "sfmt_ok s" and ev: "even (idx s)"
  shows "genrand_res53_mix L narrow s = genrand_res53 L narrow s"
proof -
  let ?r = "refill s"
  have r: "sfmt_ok ?r" "idx ?r < N32" using refill_ok [OF s] by auto
  from ev have "even (idx ?r)" by (simp add: refill_def)
  then obtain k where k: "idx ?r = 2 * k" by (rule evenE)
  have "Suc (2 * k) < N32" using r(2) k by (simp add: N32_def)
  then have "refill (?r\<lparr>idx := Suc (2 * k)\<rparr>) = ?r\<lparr>idx := Suc (2 * k)\<rparr>" by (simp add: refill_def)
  moreover have "initialized s" "initialized ?r" using s r(1) by (simp_all add: sfmt_ok_def)
  ultimately show ?thesis
    using ev psfmt64_halves [OF k, of "sfmt ?r"]
    by (simp add: genrand_res53_mix_def genrand_res53_def gen_rand32_def gen_rand64_def to_res53_mix_def Let_def k)
qed

section \<open>The 53-bit conversion rounds up to 1\<close>

text \<open>
  Rounding to \<open>double\<close> in the interval from 1/2 to 1, where its numbers are the multiples of 2^-53: the result is one of
  them and none is nearer.
\<close>

definition nearest53 :: "(rat \<Rightarrow> rat) \<Rightarrow> bool" where
  "nearest53 r \<longleftrightarrow> (\<forall>x. 1 / 2 \<le> x \<and> x \<le> 1 \<longrightarrow>
     (\<exists>k :: int. r x = of_int k / 2 ^ 53) \<and> (\<forall>k :: int. \<bar>r x - x\<bar> \<le> \<bar>of_int k / 2 ^ 53 - x\<bar>))"

lemma nearest53_one:
  assumes r: "nearest53 r" and x: "1 - 1 / 2 ^ 54 < x" "x < 1"
  shows "r x = 1"
proof -
  have "1 / 2 \<le> x" using x(1) by simp
  with r x(2) obtain k :: int where k: "r x = of_int k / 2 ^ 53"
    and n: "\<And>k :: int. \<bar>r x - x\<bar> \<le> \<bar>of_int k / 2 ^ 53 - x\<bar>" unfolding nearest53_def by auto
  have "\<bar>r x - x\<bar> \<le> 1 - x" using n [of "2 ^ 53"] x(2) by simp
  then have "\<bar>r x - 1\<bar> < 1 / 2 ^ 53" using x by simp
  then have "\<bar>of_int k - 2 ^ 53\<bar> < (1 :: rat)" unfolding k by (simp add: field_simps abs_if split: if_splits)
  then have "(of_int \<bar>k - 2 ^ 53\<bar> :: rat) < of_int 1" by simp
  then have "\<bar>k - 2 ^ 53\<bar> < 1" by (simp only: of_int_less_iff)
  then show ?thesis by (simp add: k)
qed

text \<open>
  The comment of \<open>to_res53\<close> promises a number below 1.  The \<open>long double\<close> product is exact (64 bits), but its conversion
  to \<open>double\<close> rounds the largest 1023 numbers up to 1.
\<close>

lemma res53_reaches_one:
  assumes "nearest53 narrow" and "2 ^ 64 - 2 ^ 10 < uint v"
  shows "to_res53 exact_fpu narrow v = 1"
proof -
  have "(of_int (2 ^ 64 - 2 ^ 10) :: rat) < of_int (uint v)" using assms(2) by (simp only: of_int_less_iff)
  then have "1 - 1 / 2 ^ 54 < (unsigned v / 18446744073709551616 :: rat)" by simp
  moreover have "(unsigned v / 18446744073709551616 :: rat) < 1" using rat_64 [of v] by simp
  ultimately show ?thesis unfolding real_exact by (rule nearest53_one [OF assms(1)])
qed

lemma round_nearest53: "nearest53 (\<lambda>x. of_int (round (x * 2 ^ 53)) / 2 ^ 53)"
proof -
  have "\<bar>of_int (round (x * 2 ^ 53)) / 2 ^ 53 - x\<bar> \<le> \<bar>of_int k / 2 ^ 53 - x\<bar>" for x :: rat and k :: int
  proof -
    have "\<bar>of_int (round (x * 2 ^ 53)) - x * 2 ^ 53\<bar> \<le> \<bar>of_int k - x * 2 ^ 53\<bar>"
      using round_diff_minimal [of "x * 2 ^ 53" k] by (simp add: abs_minus_commute)
    then have "\<bar>of_int (round (x * 2 ^ 53)) - x * 2 ^ 53\<bar> / 2 ^ 53 \<le> \<bar>of_int k - x * 2 ^ 53\<bar> / 2 ^ 53"
      by (intro divide_right_mono) simp_all
    moreover have "\<bar>a - x * 2 ^ 53\<bar> / 2 ^ 53 = \<bar>a / 2 ^ 53 - x\<bar>" for a :: rat
    proof -
      have "a / 2 ^ 53 - x = (a - x * 2 ^ 53) / 2 ^ 53" by (simp add: diff_divide_distrib)
      then show ?thesis by (simp only: abs_divide) simp
    qed
    ultimately show ?thesis by simp
  qed
  then show ?thesis by (auto simp: nearest53_def)
qed

lemma res53_reaches_one_witness:
  "to_res53 exact_fpu (\<lambda>x. of_int (round (x * 2 ^ 53)) / 2 ^ 53 :: rat) 0xffffffffffffffff = 1"
  by (rule res53_reaches_one [OF round_nearest53]) simp

section \<open>Properties\<close>



end
