(* ===== verification/Mixed.thy ===== *)
theory Mixed
  imports Process_facts
begin

text \<open>
  A writer and a reader of one file, as in a run with mixed I/O (\<open>DEDISbench.c\<close>, \<open>process_run\<close>), with the
  steps of one write and of one checked read of the same block interleaved: the system calls, the five assignments
  to the record of the content tracker, and the check.
\<close>

section \<open>The steps of two operations on one block\<close>

datatype track_field = Cont_id | Proc_id | Block_id | Compression_index | Flag_unique_block

datatype micro = Write_file | Set_field track_field | Read_file | Check

definition set_field :: "track_field \<Rightarrow> block_info \<Rightarrow> block_info \<Rightarrow> block_info" where
  "set_field f info_write e = (case f of
       Cont_id \<Rightarrow> e\<lparr>cont_id := cont_id info_write\<rparr>
     | Proc_id \<Rightarrow> e\<lparr>proc_id := proc_id info_write\<rparr>
     | Block_id \<Rightarrow> e\<lparr>block_id := block_id info_write\<rparr>
     | Compression_index \<Rightarrow> e\<lparr>compression_index := compression_index info_write\<rparr>
     | Flag_unique_block \<Rightarrow> e\<lparr>flag_unique_block := flag_unique_block info_write\<rparr>)"

text \<open>What the writer has prepared: the block, its description, the offset, and the result of its \<open>pwrite\<close>.\<close>

record writing =
  wr_result :: int
  wr_block :: "u8 list"
  wr_info :: block_info
  wr_off :: u64

definition track_field_step ::
  "'d user_confs \<Rightarrow> duplicates_info \<Rightarrow> int \<Rightarrow> track_field \<Rightarrow> u64 \<Rightarrow> block_info \<Rightarrow> shared \<Rightarrow> shared res" where
  "track_field_step conf info idproc f off bi mem =
     (if integrity conf \<ge> 1 then
        bindR (cdiv off (block_size conf)) (\<lambda>q.
        bindR (track_base conf info idproc) (\<lambda>b.
        bindR (aget (content_map mem) (b + unat q)) (\<lambda>e.
        bindR (aset (content_map mem) (b + unat q) (set_field f bi e)) (\<lambda>cm. Inr (mem\<lparr>content_map := cm\<rparr>)))))
      else Inr mem)"

definition micro_step ::
  "'d fpu \<Rightarrow> 'd user_confs \<Rightarrow> duplicates_info \<Rightarrow> 'd role \<Rightarrow> tick \<Rightarrow> writing \<Rightarrow> micro \<Rightarrow> 'd proc \<times> sys \<Rightarrow> ('d proc \<times> sys) res" where
  "micro_step F conf info ro tk w op = (\<lambda>(p, sh). case op of
       Write_file \<Rightarrow>
         bindR (write_block (wr_result w) (ro_name ro) (wr_block w) (block_size conf) (wr_off w) (sh_fs sh)) (\<lambda>fs.
           Inr (p, sh\<lparr>sh_fs := fs\<rparr>))
     | Set_field f \<Rightarrow>
         bindR (track_field_step conf info (ro_idproc ro) f (wr_off w) (wr_info w) (sh_mem sh)) (\<lambda>mem.
           Inr (p, sh\<lparr>sh_mem := mem\<rparr>))
     | Read_file \<Rightarrow>
         let dat = read_bytes tk (file_of (sh_fs sh) (ro_name ro)) (wr_off w) (block_size conf)
         in Inr (p\<lparr>pr_buf := dat @ drop (length dat) (pr_buf p)\<rparr>, sh)
     | Check \<Rightarrow>
         bindR (check_read F conf info ro tk (wr_off w) (pr_buf p) (sh_mem sh) p) (\<lambda>p. Inr (p, sh)))"

definition writer_ops :: "micro list" where
  "writer_ops = [Write_file, Set_field Cont_id, Set_field Proc_id, Set_field Block_id,
     Set_field Compression_index, Set_field Flag_unique_block]"

definition reader_ops :: "micro list" where
  "reader_ops = [Read_file, Check]"

definition run_micro ::
  "'d fpu \<Rightarrow> 'd user_confs \<Rightarrow> duplicates_info \<Rightarrow> 'd role \<Rightarrow> tick \<Rightarrow> writing \<Rightarrow> micro list \<Rightarrow> 'd proc \<times> sys \<Rightarrow> ('d proc \<times> sys) res" where
  "run_micro F conf info ro tk w = foldR (micro_step F conf info ro tk w)"

section \<open>Alone, the steps are the operations\<close>

lemma set_fields_all:
  "set_field Flag_unique_block bi (set_field Compression_index bi (set_field Block_id bi
     (set_field Proc_id bi (set_field Cont_id bi e)))) = bi"
  by (simp add: set_field_def)

lemma track_fields_compose:
  "foldR (\<lambda>f. track_field_step conf info idproc f off bi)
     [Cont_id, Proc_id, Block_id, Compression_index, Flag_unique_block] mem
   = track_block conf info idproc off bi mem"
proof (cases "integrity conf \<ge> 1")
  case True
  show ?thesis
  proof (cases "cdiv off (block_size conf)")
    case (Inr q)
    show ?thesis
    proof (cases "track_base conf info idproc")
      case b: (Inr b)
      show ?thesis
        using True Inr b
        by (cases "b + unat q < length (content_map mem)")
          (simp_all add: track_field_step_def track_block_def aget_def aset_def set_fields_all)
    qed (use True Inr in \<open>simp add: track_field_step_def track_block_def\<close>)
  qed (use True in \<open>simp add: track_field_step_def track_block_def\<close>)
qed (simp add: track_field_step_def track_block_def)

lemma sys_updates: "sh\<lparr>sh_fs := f, sh_mem := m\<rparr> = sh\<lparr>sh_mem := m, sh_fs := f\<rparr>"
  by simp

lemma writer_alone:
  "run_micro F conf info ro tk w writer_ops (p, sh) =
     bindR (write_block (wr_result w) (ro_name ro) (wr_block w) (block_size conf) (wr_off w) (sh_fs sh)) (\<lambda>fs.
     bindR (track_block conf info (ro_idproc ro) (wr_off w) (wr_info w) (sh_mem sh)) (\<lambda>mem.
       Inr (p, sh\<lparr>sh_mem := mem, sh_fs := fs\<rparr>)))"
  by (simp add: run_micro_def writer_ops_def micro_step_def bindR_assoc sys_updates flip: track_fields_compose)

lemma reader_alone:
  "run_micro F conf info ro tk w reader_ops (p, sh) =
     (let dat = read_bytes tk (file_of (sh_fs sh) (ro_name ro)) (wr_off w) (block_size conf);
          buf = dat @ drop (length dat) (pr_buf p)
      in bindR (check_read F conf info ro tk (wr_off w) buf (sh_mem sh) (p\<lparr>pr_buf := buf\<rparr>)) (\<lambda>p. Inr (p, sh)))"
  by (simp add: run_micro_def reader_ops_def micro_step_def Let_def bindR_assoc)

text \<open>\<open>perform_write\<close> and \<open>perform_read\<close> are these steps, with their preparation and their accounting around.\<close>

lemma perform_write_steps:
  "perform_write F conf info ro tk (p, sh) =
     bindR (write_request F (tk_draw tk) (pr_gen p) (ro_idproc ro) blank_info conf (pr_stat p) (pr_acc p))
       (\<lambda>(off, bi, buf, g, acc).
     bindR (count_written conf info bi (pr_stat p) (sh_mem sh)) (\<lambda>(stat, mem).
     bindR (count_access conf off (pr_accesses p)) (\<lambda>accesses.
     bindR (run_micro F conf info ro tk
              \<lparr>wr_result = tk_result tk, wr_block = buffer_at g buf, wr_info = bi, wr_off = off\<rparr>
              writer_ops (p, sh\<lparr>sh_mem := mem\<rparr>)) (\<lambda>(p, sh).
     bindR (measured ro p) (\<lambda>m.
     bindR (log_operation conf ro tk (pr_log p)) (\<lambda>ls.
       Inr (p\<lparr>pr_stat := time_operation F m (tk_before tk) (tk_after tk) stat, pr_gen := g, pr_acc := acc,
              pr_accesses := accesses, pr_log := ls\<rparr>, sh)))))))"
  by (simp add: perform_write_def writer_alone bindR_assoc split_def)

section \<open>A check of an arbitrary record returns\<close>

lemma read_expected:
  assumes "take n buf = take n (expected g bi)" and "8 \<le> n" and "n \<le> length buf"
  shows "read32 buf 4 = block_id bi"
proof (rule read32_bytes32, intro allI impI)
  fix j :: nat assume j: "j < 4"
  have "buf ! (4 + j) = take n buf ! (4 + j)" using j assms(2,3) by simp
  also have "\<dots> = expected g bi ! (4 + j)" unfolding assms(1) using j assms(2) by simp
  also have "\<dots> = bytes32 (block_id bi) ! j" using j by (simp add: expected_def nth_append)
  finally show "buf ! (4 + j) = bytes32 (block_id bi) ! j" .
qed

definition ids_ok :: "'d generator \<Rightarrow> block_info \<Rightarrow> bool" where
  "ids_ok g bi \<longleftrightarrow> unat (block_id bi) \<le> unat (total_unique_blocks g) \<and> unat (compression_index bi) < 10"

lemma valid_ids_ok: "valid_info g bi \<Longrightarrow> ids_ok g bi"
  by (simp add: valid_info_def ids_ok_def)

lemma block_content_returns:
  assumes g: "gen_ok g" "buffers_hold n g" and "ids_ok g bi" and "content \<noteq> -1"
    and "unat (total_unique_blocks g) < 2 ^ 32 - 1"
  shows "\<exists>p g'. get_block_content g content bi = Inr (p, g') \<and> gen_ok g' \<and> same_gen g g'
    \<and> n \<le> length (buffer_at g' p)"
  using block_content_form [OF g(1) _ _ assms(4,5), of bi] assms(3)
    block_tail_length [OF g, of "block_id bi" "unat (compression_index bi)"]
  by (fastforce simp: ids_ok_def)

lemma check_block_content_returns:
  assumes g: "gen_ok g" "buffers_hold (unat n) g" and t: "unat (total_unique_blocks g) < 2 ^ 31"
    and c: "c2 \<noteq> -1" and v: "valid_info g bi" "1 \<le> unat (block_id bi)"
    and buf: "take (unat n) buf = take (unat n) (expected g bi)" "8 \<le> unat n" "unat n \<le> length buf"
  shows "\<exists>ok g'. check_block_content F g c2 buf n info = Inr (ok, g') \<and> gen_ok g' \<and> same_gen g g'"
proof (cases "zero_copy_blocks info + duplicated_blocks info \<le> ucast (block_id bi)")
  case True
  then show ?thesis
    using g(1) buf by (intro exI [of _ False] exI [of _ g]) (simp add: check_block_content_def read_expected [OF buf])
next
  case False
  have tot: "blocks_of (linhas g) = unat (total_unique_blocks g)" and lf: "lines_from 0 (linhas g)"
    using gen_okD(1,2) [OF g(1)] by simp_all
  have "blocks_of (linhas g) < 2 ^ 31" "unat (block_id bi) \<le> blocks_of (linhas g)"
    using t v(1) by (simp_all add: tot valid_info_def)
  from block_compression_ok [OF lf gen_okD(3) [OF g(1)] this(1) v(2) this(2)] obtain x where
    x: "get_block_compression_by_id F g (block_id bi) = Inr x" "0 \<le> x" "x \<le> 90" by blast
  let ?bi = "\<lparr>cont_id = read32 buf 0, proc_id = -1, block_id = block_id bi,
    compression_index = word_of_int (x div 10), flag_unique_block = (read32 buf 0 \<noteq> block_id bi)\<rparr>"
  have "unat (word_of_nat (nat (x div 10)) :: u32) < 10"
    using x(2,3) by (subst unat_of_nat_small) simp_all
  then have "unat (compression_index ?bi) < 10" using x(2) by simp
  then have "ids_ok g ?bi" using v(1) by (simp add: ids_ok_def valid_info_def)
  from block_content_returns [OF g this c] t obtain p g' where
    "get_block_content g c2 ?bi = Inr (p, g')" "gen_ok g'" "same_gen g g'" "unat n \<le> length (buffer_at g' p)"
    by auto
  then show ?thesis using False x buf
    by (simp add: check_block_content_def read_expected [OF buf] memcmp0_def)
qed

lemma online_check_returns:
  assumes g: "gen_ok g" "buffers_hold (unat n) g" and t: "unat (total_unique_blocks g) < 2 ^ 31"
    and c: "c1 \<noteq> -1" "c2 \<noteq> -1" and v: "valid_info g bi" "1 \<le> unat (block_id bi)"
    and buf: "take (unat n) buf = take (unat n) (expected g bi)" "8 \<le> unat n" "unat n \<le> length buf"
    and e: "ids_ok g e"
  shows "\<exists>r g' ms'. online_check F c1 c2 buf e n True fc info (g, ms) = Inr (r, g', ms')
    \<and> (r = 0 \<or> r = 1) \<and> gen_ok g' \<and> same_gen g g'"
proof -
  have "unat (total_unique_blocks g) < 2 ^ 32 - 1" using t by simp
  from block_content_returns [OF g e c(1) this] obtain p g1 where
    p: "get_block_content g c1 e = Inr (p, g1)" "gen_ok g1" "same_gen g g1" "unat n \<le> length (buffer_at g1 p)"
    by blast
  note same = same_gen_fields [OF p(3)] same_buffers [OF p(3)] same_valid [OF p(3)] same_expected [OF p(3)]
  from check_block_content_returns [OF p(2), of n c2 bi buf F info] obtain ok g2 where
    k: "check_block_content F g1 c2 buf n info = Inr (ok, g2)" "gen_ok g2" "same_gen g1 g2"
    using g t c(2) v buf by (auto simp: same)
  show ?thesis
  proof (cases "take (unat n) buf = take (unat n) (buffer_at g1 p)")
    case True
    with p buf(3) show ?thesis by (simp add: online_check_def memcmp0_def)
  next
    case False
    with p buf(3) k same_gen_trans [OF p(3) k(3)] show ?thesis
      by (simp add: online_check_def memcmp0_def log_msg_def)
  qed
qed

section \<open>A write and a read of one block, interleaved\<close>

text \<open>
  The two operations meet at block \<open>q\<close> of a file of \<open>n\<close> blocks whose tracker starts at \<open>b\<close>: the file agrees with the
  tracker, the block to be written is the one its description stands for, and both system calls are complete.
  The identifiers of both blocks are those of blocks (they start at 1).
\<close>

definition race_ready ::
  "'d user_confs \<Rightarrow> duplicates_info \<Rightarrow> 'd role \<Rightarrow> tick \<Rightarrow> writing \<Rightarrow> nat \<Rightarrow> nat \<Rightarrow> nat \<Rightarrow> 'd generator \<Rightarrow> sys \<Rightarrow> bool" where
  "race_ready conf info ro tk w b n q g sh \<longleftrightarrow>
     gen_ok g \<and> buffers_hold (unat (block_size conf)) g \<and> unat (total_unique_blocks g) < 2 ^ 31
     \<and> 8 \<le> unat (block_size conf) \<and> 2 \<le> integrity conf \<and> ro_iotype ro = READ
     \<and> track_base conf info (ro_idproc ro) = Inr b \<and> q < n \<and> unat (wr_off w) = q * unat (block_size conf)
     \<and> store_ok conf ro b n g sh \<and> 1 \<le> unat (block_id (content_map (sh_mem sh) ! (b + q)))
     \<and> valid_info g (wr_info w) \<and> 1 \<le> unat (block_id (wr_info w)) \<and> wr_block w = expected g (wr_info w)
     \<and> wr_result w = int (unat (block_size conf)) \<and> 0 \<le> tk_result tk
     \<and> fst (tk_checks tk) \<noteq> -1 \<and> snd (tk_checks tk) \<noteq> -1"

text \<open>The effect of a step of the writer.\<close>

definition effect :: "nat \<Rightarrow> string \<Rightarrow> writing \<Rightarrow> nat \<Rightarrow> micro \<Rightarrow> sys \<Rightarrow> sys" where
  "effect bs name w e op sh = (case op of
       Write_file \<Rightarrow> sh\<lparr>sh_fs := (sh_fs sh)(name \<mapsto>
         pwrite_file (file_of (sh_fs sh) name) (unat (wr_off w)) (take bs (wr_block w)))\<rparr>
     | Set_field f \<Rightarrow> sh\<lparr>sh_mem := (sh_mem sh)\<lparr>content_map :=
         (content_map (sh_mem sh))[e := set_field f (wr_info w) (content_map (sh_mem sh) ! e)]\<rparr>\<rparr>
     | _ \<Rightarrow> sh)"

lemma length_effect [simp]:
  "length (content_map (sh_mem (effect bs name w e op sh))) = length (content_map (sh_mem sh))"
  by (simp add: effect_def split: micro.split)

lemma length_effects [simp]:
  "length (content_map (sh_mem (fold (effect bs name w e) ws sh))) = length (content_map (sh_mem sh))"
  by (induction ws arbitrary: sh) simp_all

lemma race_block:
  assumes "race_ready conf info ro tk w b n q g sh"
  shows "unat (wr_off w div block_size conf) = q" "block_size conf \<noteq> 0" "b + q < length (content_map (sh_mem sh))"
    "unat (block_size conf) \<le> length (wr_block w)"
  using assms expected_length [of g "unat (block_size conf)" "wr_info w"]
  by (auto simp: race_ready_def unat_div store_ok_def)

lemma writer_step:
  assumes r: "race_ready conf info ro tk w b n q g sh0" and "op \<in> set writer_ops"
    and len: "length (content_map (sh_mem sh)) = length (content_map (sh_mem sh0))"
  shows "micro_step F conf info ro tk w op (p, sh)
    = Inr (p, effect (unat (block_size conf)) (ro_name ro) w (b + q) op sh)"
proof -
  note blk = race_block [OF r]
  show ?thesis
  proof (cases op)
    case Write_file
    have res: "wr_result w = int (unat (block_size conf))" and "0 < unat (block_size conf)"
      using r by (auto simp: race_ready_def)
    then have "\<not> wr_result w \<le> 0" by linarith
    moreover have "nat (wr_result w) = unat (block_size conf)" unfolding res by (rule nat_int)
    ultimately show ?thesis using blk(4)
      by (simp add: Write_file micro_step_def write_block_def effect_def file_of_def)
  next
    case (Set_field f)
    then show ?thesis using r blk(1-3) len
      by (simp add: micro_step_def track_field_step_def effect_def race_ready_def cdiv_nz aget_in aset_in)
  qed (use assms(2) in \<open>simp_all add: writer_ops_def\<close>)
qed

lemma writer_run:
  assumes r: "race_ready conf info ro tk w b n q g sh0" and "set ws \<subseteq> set writer_ops"
    and "length (content_map (sh_mem sh)) = length (content_map (sh_mem sh0))"
  shows "run_micro F conf info ro tk w ws (p, sh)
    = Inr (p, fold (effect (unat (block_size conf)) (ro_name ro) w (b + q)) ws sh)"
  using assms(2,3) by (induction ws arbitrary: sh) (simp_all add: run_micro_def writer_step [OF r])

text \<open>What the reader finds: the old block until it has been written, and the identifiers of one of the two blocks.\<close>

lemma effects_file:
  "Write_file \<notin> set ws \<Longrightarrow> sh_fs (fold (effect bs name w e) ws sh) = sh_fs sh"
  by (induction ws arbitrary: sh) (auto simp: effect_def split: micro.split)

lemma effects_record:
  "\<forall>f. Set_field f \<notin> set ws \<Longrightarrow> sh_mem (fold (effect bs name w e) ws sh) = sh_mem sh"
  by (induction ws arbitrary: sh) (auto simp: effect_def split: micro.split)

lemma effects_ids:
  assumes "ids_ok g (wr_info w)" and "ids_ok g (content_map (sh_mem sh) ! e)"
    and "e < length (content_map (sh_mem sh))"
  shows "ids_ok g (content_map (sh_mem (fold (effect bs name w e) ws sh)) ! e)"
  using assms(2,3)
proof (induction ws arbitrary: sh)
  case (Cons op ws)
  have "ids_ok g (content_map (sh_mem (effect bs name w e op sh)) ! e)"
    using assms(1) Cons.prems by (auto simp: effect_def ids_ok_def set_field_def split: micro.split track_field.split)
  with Cons show ?case by simp
qed simp

lemma effects_all:
  "sh_fs (fold (effect bs name w e) writer_ops sh)
     = (sh_fs sh)(name \<mapsto> pwrite_file (file_of (sh_fs sh) name) (unat (wr_off w)) (take bs (wr_block w)))"
  "e < length (content_map (sh_mem sh)) \<Longrightarrow>
   content_map (sh_mem (fold (effect bs name w e) writer_ops sh)) = (content_map (sh_mem sh))[e := wr_info w]"
  by (simp_all add: writer_ops_def effect_def set_fields_all)
lemma writer_prefix:
  assumes "w1 @ ws = writer_ops" and "w1 \<noteq> []"
  obtains v where "w1 = Write_file # v" and "Write_file \<notin> set v"
  using assms by (cases w1) (auto simp: writer_ops_def append_eq_Cons_conv)

lemma block_read:
  assumes r: "race_ready conf info ro tk w b n q g sh" and "w1 @ ws = writer_ops"
  defines "bs \<equiv> unat (block_size conf)"
  shows "pread_file (file_of (sh_fs (fold (effect bs (ro_name ro) w (b + q)) w1 sh)) (ro_name ro)) (q * bs) bs
    = take bs (expected g (if w1 = [] then content_map (sh_mem sh) ! (b + q) else wr_info w))"
proof (cases "w1 = []")
  case True
  then show ?thesis using r by (auto simp: race_ready_def store_ok_def file_ok_def bs_def)
next
  case False
  from writer_prefix [OF assms(2) this] obtain v where v: "w1 = Write_file # v" "Write_file \<notin> set v" .
  have "length (take bs (wr_block w)) = bs" using race_block(4) [OF r] by (simp add: bs_def)
  with pread_pwrite_same [of "file_of (sh_fs sh) (ro_name ro)" "q * bs" "take bs (wr_block w)"] show ?thesis
    using r by (simp add: v effects_file [OF v(2)] effect_def file_of_def race_ready_def bs_def)
qed

lemma race_outcome:
  assumes r: "race_ready conf info ro tk w b n q (pr_gen p) sh" and ws: "w1 @ w2 @ w3 = writer_ops"
  defines "bs \<equiv> unat (block_size conf)"
  defines "sh' \<equiv> fold (effect bs (ro_name ro) w (b + q)) writer_ops sh"
    and "seen \<equiv> content_map (sh_mem (fold (effect bs (ro_name ro) w (b + q)) (w1 @ w2) sh)) ! (b + q)"
    and "found \<equiv> (if w1 = [] then content_map (sh_mem sh) ! (b + q) else wr_info w)"
  shows "\<exists>p' e. run_micro F conf info ro tk w (w1 @ Read_file # w2 @ Check # w3) (p, sh) = Inr (p', sh')
    \<and> same_gen (pr_gen p) (pr_gen p') \<and> pr_errs p' = pr_errs p + e \<and> (e = 0 \<or> e = 1)
    \<and> (valid_info (pr_gen p) seen \<longrightarrow>
        (e = 0) = (take bs (expected (pr_gen p) found) = take bs (expected (pr_gen p) seen)))"
proof -
  let ?g = "pr_gen p" and ?eff = "effect bs (ro_name ro) w (b + q)"
  let ?sh1 = "fold ?eff w1 sh" and ?sh2 = "fold ?eff (w1 @ w2) sh"
  from r have g: "gen_ok ?g" "buffers_hold bs ?g" and t: "unat (total_unique_blocks ?g) < 2 ^ 31"
    and n8: "8 \<le> bs" and i2: "2 \<le> integrity conf" and ty: "ro_iotype ro = READ"
    and tb: "track_base conf info (ro_idproc ro) = Inr b" and off: "unat (wr_off w) = q * bs"
    and c: "fst (tk_checks tk) \<noteq> -1" "snd (tk_checks tk) \<noteq> -1" and ok: "0 \<le> tk_result tk"
    and new: "valid_info ?g (wr_info w)" "1 \<le> unat (block_id (wr_info w))"
    and old: "1 \<le> unat (block_id (content_map (sh_mem sh) ! (b + q)))"
    by (auto simp: race_ready_def bs_def)
  have old_v: "valid_info ?g (content_map (sh_mem sh) ! (b + q))"
    using r by (simp add: race_ready_def store_ok_def file_ok_def)
  note blk = race_block [OF r]
  have sub: "set w1 \<subseteq> set writer_ops" "set w2 \<subseteq> set writer_ops" "set w3 \<subseteq> set writer_ops"
    using ws by (metis Un_iff set_append subsetI)+
  let ?dat = "pread_file (file_of (sh_fs ?sh1) (ro_name ro)) (q * bs) bs"
  have dat: "?dat = take bs (expected ?g found)"
    using block_read [OF r, of w1 "w2 @ w3"] ws by (simp add: found_def bs_def)
  have found: "valid_info ?g found" "1 \<le> unat (block_id found)"
    using new old old_v by (simp_all add: found_def)
  then have ldat: "length ?dat = bs" using expected_length [OF g found(1)] by (simp add: dat)
  let ?buf = "?dat @ drop bs (pr_buf p)"
  have buf: "take bs ?buf = take bs (expected ?g found)" "bs \<le> length ?buf"
    using ldat by (simp_all add: dat)
  have seen_ids: "ids_ok ?g seen"
    unfolding seen_def by (rule effects_ids [OF valid_ids_ok [OF new(1)] valid_ids_ok [OF old_v] blk(3)])
  let ?p1 = "p\<lparr>pr_buf := ?buf\<rparr>"
  obtain e g' ms' where oc:
    "online_check F (fst (tk_checks tk)) (snd (tk_checks tk)) ?buf seen (block_size conf) True 0 info (?g, pr_msgs p)
      = Inr (e, g', ms')" "e = 0 \<or> e = 1" "gen_ok g'" "same_gen ?g g'"
    using online_check_returns [OF g(1) _ t c found, of "block_size conf" ?buf seen F 0 info "pr_msgs p"]
      g(2) buf n8 seen_ids by (auto simp: bs_def)
  have exact: "(e = 0) = (take bs (expected ?g found) = take bs (expected ?g seen))" if "valid_info ?g seen"
  proof -
    have t': "unat (total_unique_blocks ?g) < 2 ^ 32 - 1" using t by simp
    have len: "unat (block_size conf) \<le> length ?buf" "unat (block_size conf) \<le> length (expected ?g seen)"
      using buf(2) expected_length [OF g that] by (simp_all add: bs_def)
    show ?thesis
    proof (cases "take bs (expected ?g found) = take bs (expected ?g seen)")
      case True
      then have "take (unat (block_size conf)) ?buf = take (unat (block_size conf)) (expected ?g seen)"
        using buf(1) by (simp add: bs_def)
      from online_check_intact [OF g(1) that c(1) t' len this] oc(1) show ?thesis
        by (metis True Inr_inject prod.inject)
    next
      case False
      then have "take (unat (block_size conf)) ?buf \<noteq> take (unat (block_size conf)) (expected ?g seen)"
        using buf(1) by (simp add: bs_def)
      from online_check_differs [OF g(1) that c(1) t' len this oc(1)] False show ?thesis by simp
    qed
  qed
  let ?p2 = "?p1\<lparr>pr_errs := pr_errs p + e, pr_gen := g', pr_msgs := ms'\<rparr>"
  have "micro_step F conf info ro tk w Check (?p1, ?sh2) = Inr (?p2, ?sh2)"
    using oc(1) i2 tb blk(1-3) ty
    by (simp add: micro_step_def check_read_def cdiv_nz aget_in seen_def)
  moreover have "micro_step F conf info ro tk w Read_file (p, ?sh1) = Inr (?p1, ?sh1)"
    using ok ldat by (simp add: micro_step_def read_bytes_def off bs_def)
  moreover have "run_micro F conf info ro tk w w1 (p, sh) = Inr (p, ?sh1)"
    "run_micro F conf info ro tk w w2 (?p1, ?sh1) = Inr (?p1, ?sh2)"
    "run_micro F conf info ro tk w w3 (?p2, ?sh2) = Inr (?p2, sh')"
    using writer_run [OF r] sub by (simp_all add: bs_def sh'_def flip: ws)
  ultimately have "run_micro F conf info ro tk w (w1 @ Read_file # w2 @ Check # w3) (p, sh) = Inr (?p2, sh')"
    unfolding run_micro_def by (simp add: foldR_append)
  then show ?thesis using oc(2,4) exact by (intro exI [of _ ?p2] exI [of _ e]) simp
qed

lemma race_store:
  assumes r: "race_ready conf info ro tk w b n q g sh"
  shows "store_ok conf ro b n g (fold (effect (unat (block_size conf)) (ro_name ro) w (b + q)) writer_ops sh)"
proof -
  let ?bs = "unat (block_size conf)" and ?cm = "content_map (sh_mem sh)"
  note blk = race_block [OF r]
  from r have f: "file_ok g ?bs n (file_of (sh_fs sh) (ro_name ro)) (\<lambda>j. ?cm ! (b + j))"
    and q: "q < n" and v: "valid_info g (wr_info w)" and w: "wr_block w = expected g (wr_info w)"
    and off: "unat (wr_off w) = q * ?bs" and room: "b + n \<le> length ?cm"
    by (auto simp: race_ready_def store_ok_def)
  have "(\<lambda>j. ?cm ! (b + j))(q := wr_info w) = (\<lambda>j. ?cm[b + q := wr_info w] ! (b + j))"
    using blk(3) by (auto simp: fun_eq_iff)
  with file_ok_write [OF f q v] blk(4) show ?thesis
    using room blk(3) by (simp add: store_ok_def effects_all w off file_of_def)
qed
section \<open>Properties\<close>


definition race_role :: "rat role" where
  "race_role = \<lparr>ro_idproc = 1, ro_nproc = 1, ro_ratio = 0, ro_iotype = READ,
     ro_name = ''tmp/dedisbench_0010test1'', ro_end_time = 0, ro_end_size = 0, ro_ru_begin = None, ro_log = False\<rparr>"

definition race_info :: block_info where
  "race_info = \<lparr>cont_id = 4, proc_id = 1, block_id = 4, compression_index = 2, flag_unique_block = False\<rparr>"

definition race_writing :: writing where
  "race_writing = \<lparr>wr_result = 8, wr_block = expected demo_gen race_info, wr_info = race_info, wr_off = 0\<rparr>"

definition race_proc :: "rat proc" where
  "race_proc = \<lparr>pr_stat = initial_stats exact_fpu, pr_gen = demo_gen, pr_acc = zero_access, pr_accesses = [0, 0],
     pr_buf = replicate 8 0, pr_errs = 0, pr_msgs = [], pr_log = [], pr_begin_time = 0, pr_begin_size = 0,
     pr_base = run_time, pr_elapsed = 1\<rparr>"

lemma race_info_valid: "valid_info demo_gen race_info"
  by (simp add: valid_info_def race_info_def content_of_def)

lemma race_ready_demo: "race_ready (run_conf 2) chk_info race_role run_tick race_writing 2 2 0 demo_gen run_sys"
proof -
  have "buffers_hold 8 demo_gen" using run_gen_ready [of 2] by (simp add: gen_ready_def)
  moreover have "store_ok (run_conf 2) race_role 2 2 demo_gen run_sys"
    using run_file_ok by (simp add: store_ok_def run_sys_def file_of_def)
  ultimately show ?thesis
    using race_info_valid run_blocks_ready [of 2] demo_gen_ok
    by (simp add: race_ready_def race_role_def race_writing_def run_tick_def blocks_ready_def)
      (simp add: race_info_def run_sys_def chk_bi_def)
qed


text \<open>The reader leaves the shared state alone: whatever the interleaving, the writer's steps alone decide what becomes of it.\<close>

definition writes_shared :: "micro \<Rightarrow> bool" where
  "writes_shared op \<longleftrightarrow> op \<noteq> Read_file \<and> op \<noteq> Check"

lemma micro_projection:
  assumes "run_micro F conf info ro tk w ops (p, sh) = Inr (p', sh')"
  shows "run_micro F conf info ro tk w (filter writes_shared ops) (q, sh) = Inr (q, sh')"
  using assms
proof (induction ops arbitrary: p sh)
  case (Cons op ops)
  then show ?case
    by (cases op) (auto simp: run_micro_def micro_step_def writes_shared_def Let_def elim!: bindR_InrE)
qed (simp add: run_micro_def)

end
