(* ===== verification/Speedtest.thy ===== *)
theory Speedtest
  imports Integrity
begin

text \<open>
  The speed test of the generator (\<open>testing/test.c\<close>), which is compiled into DEDISbench; its call in \<open>main\<close> is commented
  out.  The times of \<open>clock\<close>, the draws of the generator, \<open>pow\<close> and \<open>sqrt\<close> are parameters; the numbers printed are
  the results.
\<close>

section \<open>Definitions\<close>

definition CLOCKS_PER_SEC :: int where "CLOCKS_PER_SEC = 1000000"

text \<open>A subtraction of floating-point numbers: adding the product with -1 is the same operation.\<close>

definition fp_minus :: "'d fpu \<Rightarrow> 'd \<Rightarrow> 'd \<Rightarrow> 'd" where
  "fp_minus F x y = fp_add F x (fp_mul F (fp_of_int F (-1)) y)"

text \<open>
  \<open>single_test\<close>: \<open>nrChamadas\<close> write requests between two readings of the clock.  \<open>info_write\<close> has no initial value,
  and nothing reads it.
\<close>

definition test_request ::
  "'d fpu \<Rightarrow> (nat \<Rightarrow> block_draw) \<Rightarrow> 'd user_confs \<Rightarrow> 'd stats \<Rightarrow> nat \<Rightarrow> block_info \<times> 'd generator \<times> access_state \<Rightarrow>
   (block_info \<times> 'd generator \<times> access_state) res" where
  "test_request F dr conf stat i = (\<lambda>(info, g, acc).
     bindR (write_request F (dr i) g 0 info conf stat acc) (\<lambda>(off, info, buf, g, acc). Inr (info, g, acc)))"

definition single_test ::
  "'d fpu \<Rightarrow> (nat \<Rightarrow> block_draw) \<Rightarrow> u64 \<times> u64 \<Rightarrow> block_info \<Rightarrow> 'd user_confs \<Rightarrow> int \<Rightarrow> 'd generator \<times> access_state \<Rightarrow>
   ('d \<times> 'd generator \<times> access_state) res" where
  "single_test F dr clocks info conf nrChamadas = (\<lambda>(g, acc).
     bindR (foldR (test_request F dr conf (initial_stats F)) [0 ..< nat nrChamadas] (info, g, acc)) (\<lambda>(info, g, acc).
       let tempo_total = snd clocks - fst clocks
       in Inr (fp_div F (fp_of_int F (sint tempo_total)) (fp_of_int F CLOCKS_PER_SEC), g, acc)))"

text \<open>\<open>launch_test_speed\<close>: ten tests of a million requests each, and mean and deviation of their throughputs.\<close>

record 'd speed =
  debitosOperacao :: "'d option list"
  somatorioDebitos :: 'd
  sp_gen :: "'d generator"
  sp_acc :: access_state

record speed_env =
  sp_draws :: "nat \<Rightarrow> nat \<Rightarrow> block_draw"
  sp_clocks :: "nat \<Rightarrow> u64 \<times> u64"
  sp_info :: block_info

definition nrChamadas :: int where "nrChamadas = 1000000"

definition speed_step :: "'d fpu \<Rightarrow> speed_env \<Rightarrow> 'd user_confs \<Rightarrow> nat \<Rightarrow> 'd speed \<Rightarrow> 'd speed res" where
  "speed_step F E conf i s =
     bindR (single_test F (sp_draws E i) (sp_clocks E i) (sp_info E) conf nrChamadas (sp_gen s, sp_acc s)) (\<lambda>(t, g, acc).
     let d = fp_div F (fp_of_int F nrChamadas) t in
     bindR (aset (debitosOperacao s) i (Some d)) (\<lambda>ds.
       Inr (s\<lparr>debitosOperacao := ds, somatorioDebitos := fp_add F (somatorioDebitos s) d, sp_gen := g, sp_acc := acc\<rparr>)))"

definition deviation_step ::
  "'d fpu \<Rightarrow> ('d \<Rightarrow> 'd \<Rightarrow> 'd) \<Rightarrow> 'd option list \<Rightarrow> 'd \<Rightarrow> nat \<Rightarrow> 'd \<Rightarrow> 'd res" where
  "deviation_step F pow ds media z s =
     bindR (aget ds z) (\<lambda>v. case v of None \<Rightarrow> Inl UninitRead
       | Some d \<Rightarrow> Inr (fp_add F s (pow (fp_minus F d media) (fp_of_int F 2))))"

text \<open>\<open>nrIteracoes\<close> is a \<open>double\<close>; the counters of the loops run from 0 to 9.\<close>

definition launch_test_speed ::
  "'d fpu \<Rightarrow> ('d \<Rightarrow> 'd \<Rightarrow> 'd) \<Rightarrow> ('d \<Rightarrow> 'd) \<Rightarrow> speed_env \<Rightarrow> 'd user_confs \<Rightarrow> 'd generator \<Rightarrow> access_state \<Rightarrow>
   ('d speed \<times> 'd \<times> 'd) res" where
  "launch_test_speed F pow fsqrt E conf g acc =
     bindR (foldR (speed_step F E conf) [0 ..< 10]
       \<lparr>debitosOperacao = replicate 100 None, somatorioDebitos = fp_of_int F 0, sp_gen = g, sp_acc = acc\<rparr>) (\<lambda>s.
     let nrIteracoes = fp_of_int F 10;
         mediaDebito = fp_div F (somatorioDebitos s) nrIteracoes in
     bindR (foldR (deviation_step F pow (debitosOperacao s) mediaDebito) [0 ..< 10] (fp_of_int F 0)) (\<lambda>q.
       Inr (s, mediaDebito, fsqrt (fp_div F q nrIteracoes))))"

section \<open>The requests succeed\<close>

text \<open>What a test needs: a position and a block for every request.\<close>

definition speed_ready :: "'d user_confs \<Rightarrow> 'd generator \<Rightarrow> 'd generator \<Rightarrow> access_state \<Rightarrow> bool" where
  "speed_ready conf g0 g acc \<longleftrightarrow> gen_ok g \<and> linhas g = linhas g0
     \<and> (\<exists>tb. proc_blocks conf = Inr tb \<and> access_ready (accesstype conf) tb acc
         \<and> unat tb * unat (block_size conf) < 2 ^ 64)"

lemma request_ok:
  assumes "speed_ready conf g0 g acc" and "draw_ok g0 (dr i)"
  shows "\<exists>info' g' acc'. test_request F dr conf stat i (info, g, acc) = Inr (info', g', acc')
    \<and> speed_ready conf g0 g' acc'"
proof -
  from assms(1) obtain tb where tb: "proc_blocks conf = Inr tb" "access_ready (accesstype conf) tb acc"
    "unat tb * Suc (region conf 0) * unat (block_size conf) < 2 ^ 64" and g: "gen_ok g" "linhas g = linhas g0"
    by (auto simp: speed_ready_def region_def)
  obtain off acc' where a: "get_ioposition conf stat (int 0) acc = Inr (off, acc')"
    "access_ready (accesstype conf) tb acc'"
    using get_ioposition_placed [OF tb, of stat] by blast
  from assms(2) have d: "d_line (dr i) < length (linhas g)" "1 \<le> d_block (dr i)"
    "d_block (dr i) \<le> nrBlocks (linhas g ! d_line (dr i))"
    by (simp_all add: draw_ok_def g(2))
  obtain info' p g' where "nextBlock F (dr i) g info = Inr (info', p, g')" "gen_ok g'" "linhas g' = linhas g"
    using next_block_step [OF g(1) d(1) refl d(2,3), of F info] by blast
  with a tb g show ?thesis
    by (auto simp: test_request_def write_request_def get_writecontent_def speed_ready_def region_def)
qed

lemma requests_ok:
  assumes "speed_ready conf g0 g acc" and "\<And>i. draw_ok g0 (dr i)"
  shows "\<exists>g' acc'. single_test F dr clocks info conf n (g, acc)
      = Inr (fp_div F (fp_of_int F (sint (snd clocks - fst clocks))) (fp_of_int F CLOCKS_PER_SEC), g', acc')
    \<and> speed_ready conf g0 g' acc'"
proof -
  have "\<exists>t. foldR (test_request F dr conf (initial_stats F)) [0 ..< nat n] (info, g, acc) = Inr t
    \<and> (case t of (info, g, acc) \<Rightarrow> speed_ready conf g0 g acc)"
    by (rule foldR_total) (use assms request_ok in \<open>fastforce split: prod.splits\<close>)+
  then show ?thesis by (auto simp: single_test_def)
qed

section \<open>The figures\<close>

definition debito :: "'d fpu \<Rightarrow> speed_env \<Rightarrow> nat \<Rightarrow> 'd" where
  "debito F E r = fp_div F (fp_of_int F nrChamadas)
     (fp_div F (fp_of_int F (sint (snd (sp_clocks E r) - fst (sp_clocks E r)))) (fp_of_int F CLOCKS_PER_SEC))"

lemma foldR_upt_total:
  assumes "I 0 s" and "\<And>i s. i < n \<Longrightarrow> I i s \<Longrightarrow> \<exists>s'. f i s = Inr s' \<and> I (Suc i) s'"
  shows "\<exists>t. foldR f [0 ..< n] s = Inr t \<and> I n t"
  using assms(2)
proof (induction n)
  case (Suc n)
  then obtain t where "foldR f [0 ..< n] s = Inr t" "I n t" by force
  with Suc.prems [of n t] show ?case by (auto simp: foldR_append)
qed (use assms(1) in simp)

definition speed_inv :: "'d fpu \<Rightarrow> speed_env \<Rightarrow> 'd user_confs \<Rightarrow> 'd generator \<Rightarrow> nat \<Rightarrow> 'd speed \<Rightarrow> bool" where
  "speed_inv F E conf g n s \<longleftrightarrow> debitosOperacao s = map (\<lambda>r. Some (debito F E r)) [0 ..< n] @ replicate (100 - n) None
     \<and> somatorioDebitos s = foldl (fp_add F) (fp_of_int F 0) (map (debito F E) [0 ..< n])
     \<and> speed_ready conf g (sp_gen s) (sp_acc s)"

lemma speed_step_inv:
  assumes "speed_inv F E conf g n s" and "\<And>r i. draw_ok g (sp_draws E r i)" and "n < 10"
  shows "\<exists>s'. speed_step F E conf n s = Inr s' \<and> speed_inv F E conf g (Suc n) s'"
proof -
  from requests_ok [of conf g "sp_gen s" "sp_acc s" "sp_draws E n" F "sp_clocks E n" "sp_info E" nrChamadas] assms
  obtain g' acc' where r: "single_test F (sp_draws E n) (sp_clocks E n) (sp_info E) conf nrChamadas (sp_gen s, sp_acc s)
      = Inr (fp_div F (fp_of_int F (sint (snd (sp_clocks E n) - fst (sp_clocks E n)))) (fp_of_int F CLOCKS_PER_SEC), g', acc')"
    "speed_ready conf g g' acc'" by (auto simp: speed_inv_def)
  have "(map (\<lambda>r. Some (debito F E r)) [0 ..< n] @ replicate (100 - n) None)[n := Some (debito F E n)]
    = map (\<lambda>r. Some (debito F E r)) [0 ..< Suc n] @ replicate (100 - Suc n) None"
  proof -
    obtain k where "100 - n = Suc k" using assms(3) by (cases "100 - n") simp_all
    moreover from this have "100 - Suc n = k" by simp
    ultimately show ?thesis by (simp add: list_update_append)
  qed
  with r assms show ?thesis by (simp add: speed_step_def speed_inv_def aset_def Let_def flip: debito_def)
qed

lemma squares_of_differences:
  fixes f :: "nat \<Rightarrow> rat"
  shows "sum_list (map (\<lambda>r. (f r - m)\<^sup>2) xs)
    = sum_list (map (\<lambda>r. f r * f r) xs) - 2 * m * sum_list (map f xs) + of_nat (length xs) * m\<^sup>2"
  by (induction xs) (simp_all add: power2_eq_square algebra_simps)

lemma deviation_sum:
  assumes "\<And>x. pow x 2 = x * (x :: rat)" and "\<forall>r \<in> set rs. r < length ds \<and> ds ! r = Some (f r)"
  shows "foldR (deviation_step exact_fpu pow ds m) rs q = Inr (q + sum_list (map (\<lambda>r. (f r - m)\<^sup>2) rs))"
  using assms(2) by (induction rs arbitrary: q)
    (simp_all add: deviation_step_def aget_def fp_minus_def exact_fpu_def assms(1) power2_eq_square)

lemma foldl_sum: "foldl (+) a xs = a + sum_list xs" for a :: rat
  by (induction xs arbitrary: a) simp_all

text \<open>
  The test of a generator that is ready returns: ten throughputs, their mean, and their standard deviation, which in
  exact arithmetic is the root of the mean of the squares less the square of the mean; generator and positions stay
  ready for the benchmark.
\<close>

lemma speed_test_statistics:
  fixes pow :: "rat \<Rightarrow> rat \<Rightarrow> rat"
  defines "d \<equiv> debito exact_fpu"
  assumes "speed_ready conf g g acc" and "\<And>r i. draw_ok g (sp_draws E r i)" and "\<And>x. pow x 2 = x * x"
  shows "\<exists>s. launch_test_speed exact_fpu pow fsqrt E conf g acc = Inr (s, sum_list (map (d E) [0 ..< 10]) / 10,
      fsqrt (sum_list (map (\<lambda>r. d E r * d E r) [0 ..< 10]) / 10 - (sum_list (map (d E) [0 ..< 10]) / 10)\<^sup>2))
    \<and> take 10 (debitosOperacao s) = map (\<lambda>r. Some (d E r)) [0 ..< 10] \<and> speed_ready conf g (sp_gen s) (sp_acc s)"
proof -
  let ?s = "\<lparr>debitosOperacao = replicate 100 None, somatorioDebitos = fp_of_int exact_fpu 0, sp_gen = g, sp_acc = acc\<rparr>"
  have "speed_inv exact_fpu E conf g 0 ?s" using assms(2) by (simp add: speed_inv_def)
  then obtain s where s: "foldR (speed_step exact_fpu E conf) [0 ..< 10] ?s = Inr s" "speed_inv exact_fpu E conf g 10 s"
    using foldR_upt_total [of "speed_inv exact_fpu E conf g" ?s 10 "speed_step exact_fpu E conf"]
      speed_step_inv [OF _ assms(3)] by blast
  let ?m = "sum_list (map (d E) [0 ..< 10]) / 10"
  have ds: "debitosOperacao s = map (\<lambda>r. Some (d E r)) [0 ..< 10] @ replicate 90 None" "somatorioDebitos s = sum_list (map (d E) [0 ..< 10])"
    using s(2) by (simp_all add: speed_inv_def d_def exact_fpu_def foldl_sum)
  have q: "foldR (deviation_step exact_fpu pow (debitosOperacao s) ?m) [0 ..< 10] 0
    = Inr (0 + sum_list (map (\<lambda>r. (d E r - ?m)\<^sup>2) [0 ..< 10]))"
    by (rule deviation_sum) (use assms(4) in \<open>simp_all add: ds nth_append\<close>)
  have v: "sum_list (map (\<lambda>r. (d E r - ?m)\<^sup>2) [0 ..< 10]) / 10 = sum_list (map (\<lambda>r. d E r * d E r) [0 ..< 10]) / 10 - ?m\<^sup>2"
    unfolding squares_of_differences by (simp add: power2_eq_square field_simps del: upt_rec_numeral)
  have m: "fp_div exact_fpu (somatorioDebitos s) (fp_of_int exact_fpu 10) = ?m" "fp_of_int exact_fpu 0 = 0"
    by (simp_all add: ds exact_fpu_def)
  have "launch_test_speed exact_fpu pow fsqrt E conf g acc
      = Inr (s, ?m, fsqrt (sum_list (map (\<lambda>r. (d E r - ?m)\<^sup>2) [0 ..< 10]) / 10))"
    unfolding launch_test_speed_def s(1) bindR_Inr Let_def
    unfolding m
    unfolding q by (simp add: exact_fpu_def del: upt_rec_numeral)
  with ds(1) s(2) show ?thesis unfolding v by (simp add: speed_inv_def del: upt_rec_numeral)
qed

text \<open>
  The place of the call, before any process has seeded its generator of positions: unless the pattern is sequential (or
  a population has seeded it) the first request fails the assertion of \<open>gen_rand32\<close>.
\<close>

lemma speed_test_unseeded:
  assumes "gen_ok g" and "draw_ok g (sp_draws E 0 0)" and "proc_blocks conf = Inr tb"
    and "accesstype conf \<noteq> SEQUENTIAL" and "\<not> initialized (rng acc)"
  shows "launch_test_speed F pow fsqrt E conf g acc = Inl AssertFailed"
proof -
  let ?dr = "sp_draws E 0 0" and ?st = "initial_stats F"
  obtain info' p g' where n: "nextBlock F ?dr g (sp_info E) = Inr (info', p, g')"
    using next_block_step [OF assms(1), of ?dr "linhas g ! d_line ?dr" F "sp_info E"] assms(2) by (auto simp: draw_ok_def)
  have "draw mx acc = Inl AssertFailed" for mx
    using assms(5) by (simp add: draw_def genrand_def gen_rand32_def)
  then have "get_ioposition conf ?st 0 acc = Inl AssertFailed"
    using assms(3,4) by (cases "accesstype conf")
      (simp_all add: get_ioposition_def get_ioposition_uniform_def get_ioposition_tpcc_def)
  with n have "test_request F (sp_draws E 0) conf ?st 0 (sp_info E, g, acc) = Inl AssertFailed"
    by (simp add: test_request_def write_request_def get_writecontent_def)
  then have "foldR (test_request F (sp_draws E 0) conf ?st) (0 # xs) (sp_info E, g, acc) = Inl AssertFailed" for xs
    by (simp only: foldR.simps bindR_Inl)
  moreover have u: "0 < n \<Longrightarrow> [0 ..< n] = 0 # [Suc 0 ..< n]" for n by (simp add: upt_conv_Cons)
  moreover have "0 < nat nrChamadas" by (simp add: nrChamadas_def)
  ultimately have "speed_step F E conf 0 s = Inl AssertFailed" if "sp_gen s = g" "sp_acc s = acc" for s
    using that by (simp add: speed_step_def single_test_def del: upt_rec_numeral)
  then show ?thesis by (simp add: launch_test_speed_def u del: upt_rec_numeral)
qed

text \<open>A sequential test of a generator with two lines, against the clock of a computer that needs a second for each.\<close>

definition second_env :: speed_env where
  "second_env = \<lparr>sp_draws = (\<lambda>_ _. \<lparr>d_line = 1, d_block = 2, d_content = 9\<rparr>), sp_clocks = (\<lambda>r. (1000, 1001000)),
     sp_info = demo_info\<rparr>"

lemma speed_test_witness:
  "\<exists>s. launch_test_speed exact_fpu (\<lambda>x n. x * x) (\<lambda>x. x) second_env (demo_conf SEQUENTIAL False 100)
      (demo_gen :: rat generator) zero_access = Inr (s, 1000000, 0)"
proof -
  let ?c = "demo_conf SEQUENTIAL False 100" and ?g = "demo_gen :: rat generator"
  have r: "speed_ready ?c ?g ?g zero_access"
    by (simp add: speed_ready_def demo_gen_ok demo_blocks access_ready_def seq_ready_def)
  have d: "draw_ok ?g (sp_draws second_env r i)" for r i by (simp add: draw_ok_def second_env_def)
  have v: "debito exact_fpu second_env = (\<lambda>_. 1000000)"
    by (simp add: fun_eq_iff debito_def second_env_def nrChamadas_def CLOCKS_PER_SEC_def exact_fpu_def)
  from speed_test_statistics [OF r d, of "\<lambda>x n. x * x" "\<lambda>x. x"] show ?thesis
    by (auto simp: v power2_eq_square sum_list_triv)
qed

end
