(* ===== verification/Ini_builds.thy ===== *)
theory Ini_builds
  imports Ini
begin

text \<open>
  The builds of the INI parser: \<open>ini.c\<close> under every setting of the options of \<open>ini.h\<close>, of which \<open>Ini\<close> has the one of
  DEDISbench, and the test driver of the parser (\<open>parserconf/inih/tests/unittest.c\<close>), whose recorded outputs
  (\<open>baseline_*.txt\<close>) the definitions reproduce.
\<close>

section \<open>The options\<close>

text \<open>
  \<open>INI_ALLOW_MULTILINE\<close>, \<open>INI_ALLOW_BOM\<close>, \<open>INI_ALLOW_INLINE_COMMENTS\<close>, \<open>INI_INLINE_COMMENT_PREFIXES\<close> and
  \<open>INI_STOP_ON_FIRST_ERROR\<close>.  A handler is given the line number (\<open>INI_HANDLER_LINENO\<close>); without the option it is one
  that does not use it.  \<open>INI_USE_STACK\<close> only says where the line is kept; a failing \<open>malloc\<close> is left out.
\<close>

record ini_options =
  allow_multiline :: bool
  allow_bom :: bool
  allow_inline :: bool
  inline_prefixes :: string
  stop_on_first_error :: bool

definition ini_defaults :: ini_options where
  "ini_defaults = \<lparr>allow_multiline = True, allow_bom = True, allow_inline = True, inline_prefixes = '';'',
     stop_on_first_error = False\<rparr>"

definition bench_options :: ini_options where
  "bench_options = ini_defaults\<lparr>inline_prefixes := ''#''\<rparr>"

type_synonym 'u line_handler = "nat \<Rightarrow> 'u ini_handler"

primrec find_from_with :: "ini_options \<Rightarrow> char list \<Rightarrow> bool \<Rightarrow> string \<Rightarrow> string \<times> string" where
  "find_from_with B chars was_space [] = ([], [])"
| "find_from_with B chars was_space (c # cs) =
     (if c \<in> set chars \<or> (allow_inline B \<and> was_space \<and> c \<in> set (inline_prefixes B)) then ([], c # cs)
      else case find_from_with B chars (isspace c) cs of (b, r) \<Rightarrow> (c # b, r))"

definition find_chars_with :: "ini_options \<Rightarrow> char list \<Rightarrow> string \<Rightarrow> string \<times> string" where
  "find_chars_with B chars s = find_from_with B chars False s"

definition call_with :: "'u line_handler \<Rightarrow> string \<Rightarrow> string \<Rightarrow> 'u ini_state \<Rightarrow> 'u ini_state res" where
  "call_with h name val st =
     bindR (h (lineno st) (ini_user st) (ini_section st) name val) (\<lambda>(ok, u).
       let st = st\<lparr>ini_user := u\<rparr> in Inr (if ok then st else first_error st))"

definition ini_start_with :: "ini_options \<Rightarrow> 'u line_handler \<Rightarrow> bool \<Rightarrow> string \<Rightarrow> 'u ini_state \<Rightarrow> 'u ini_state res" where
  "ini_start_with B h moved start st =
     (let c = take 1 start in
      if c = '';'' \<or> c = ''#'' then Inr st
      else if allow_multiline B \<and> prev_name st \<noteq> [] \<and> start \<noteq> [] \<and> moved then call_with h (prev_name st) start st
      else if c = ''['' then
        (case find_chars_with B '']'' (drop 1 start) of (sec, rest) \<Rightarrow>
           if take 1 rest = '']''
           then Inr (st\<lparr>ini_section := strncpy0 MAX_SECTION sec, prev_name := []\<rparr>)
           else Inr (first_error st))
      else if start \<noteq> [] then
        (case find_chars_with B ''=:'' start of (name, rest) \<Rightarrow>
           if take 1 rest = ''='' \<or> take 1 rest = '':''
           then let name = rstrip name;
                    val = drop 1 rest;
                    val = rstrip (lskip (if allow_inline B then fst (find_chars_with B [] val) else val))
                in call_with h name val (st\<lparr>prev_name := strncpy0 MAX_NAME name\<rparr>)
           else Inr (first_error st))
      else Inr st)"

definition ini_line_with :: "ini_options \<Rightarrow> 'u line_handler \<Rightarrow> string \<Rightarrow> 'u ini_state \<Rightarrow> 'u ini_state res" where
  "ini_line_with B h line st =
     (let st = st\<lparr>lineno := lineno st + 1\<rparr>;
          bom = (allow_bom B \<and> lineno st = 1 \<and> take 3 line = BOM);
          body = rstrip (if bom then drop 3 line else line);
          start = lskip body
      in ini_start_with B h (bom \<or> start \<noteq> body) start st)"

text \<open>The loop over the lines ends behind the first error when the option asks for it.\<close>

primrec ini_lines_with :: "ini_options \<Rightarrow> 'u line_handler \<Rightarrow> string list \<Rightarrow> 'u ini_state \<Rightarrow> 'u ini_state res" where
  "ini_lines_with B h [] st = Inr st"
| "ini_lines_with B h (l # ls) st = bindR (ini_line_with B h l st) (\<lambda>st.
     if stop_on_first_error B \<and> ini_error st \<noteq> 0 then Inr st else ini_lines_with B h ls st)"

definition ini_stream_with :: "ini_options \<Rightarrow> 'u line_handler \<Rightarrow> string list \<Rightarrow> 'u \<Rightarrow> (nat \<times> 'u) res" where
  "ini_stream_with B h lines u =
     bindR (ini_lines_with B h lines
       \<lparr>ini_section = [], prev_name = [], lineno = 0, ini_error = 0, ini_user = u\<rparr>) (\<lambda>st.
       Inr (ini_error st, ini_user st))"

definition ini_parse_with :: "ini_options \<Rightarrow> 'u line_handler \<Rightarrow> string option \<Rightarrow> 'u \<Rightarrow> (int \<times> 'u) res" where
  "ini_parse_with B h file u =
     (case file of
        None \<Rightarrow> Inr (-1, u)
      | Some text \<Rightarrow> bindR (ini_stream_with B h (fgets_all INI_MAX_LINE text) u) (\<lambda>(e, u). Inr (int e, u)))"

text \<open>The build of DEDISbench is the parser of \<open>Ini\<close>.\<close>

lemma find_bench: "find_chars_with bench_options = find_chars_or_comment"
proof -
  have "find_from_with bench_options chars b s = find_from chars b s" for chars b s
    by (induction s arbitrary: b) (simp_all add: bench_options_def ini_defaults_def)
  then show ?thesis by (simp add: fun_eq_iff find_chars_with_def find_chars_or_comment_def)
qed

lemma line_bench: "ini_line_with bench_options (\<lambda>_. h) = ini_line h"
proof -
  have o: "allow_multiline bench_options" "allow_bom bench_options" "allow_inline bench_options"
    by (simp_all add: bench_options_def ini_defaults_def)
  have c: "call_with (\<lambda>_. h) = call_handler h"
    by (intro ext) (simp only: call_with_def call_handler_def)
  have "ini_start_with bench_options (\<lambda>_. h) = ini_start h"
    by (intro ext) (simp only: ini_start_with_def ini_start_def find_bench c o if_True simp_thms Let_def)
  then show ?thesis by (intro ext) (simp only: ini_line_with_def ini_line_def o simp_thms)
qed

lemma parse_bench: "ini_parse_with bench_options (\<lambda>_. h) = ini_parse h"
proof -
  have "ini_lines_with bench_options (\<lambda>_. h) ls st = foldR (ini_line h) ls st" for ls st
    by (induction ls arbitrary: st) (simp_all add: line_bench, simp add: bench_options_def ini_defaults_def)
  then have "ini_stream_with bench_options (\<lambda>_. h) ls u = ini_parse_stream h ls u" for ls u
    by (simp only: ini_stream_with_def ini_parse_stream_def)
  then show ?thesis by (intro ext) (simp only: ini_parse_with_def ini_parse_def)
qed

section \<open>The test driver\<close>

text \<open>
  The globals \<open>User\<close> and \<open>Prev_section\<close>, the static \<open>u\<close> of \<open>parse\<close>, whose address is the user data, and the standard
  output.
\<close>

record test_state =
  User :: int
  Prev_section :: string
  test_u :: int
  test_out :: string

definition dumper :: "bool \<Rightarrow> test_state line_handler" where
  "dumper handler_lineno line s sec name val =
     (let s = s\<lparr>User := test_u s\<rparr>;
          s = (if sec \<noteq> Prev_section s
               then s\<lparr>test_out := test_out s @ ''... ['' @ sec @ '']'' @ [CHR 0x0A], Prev_section := strncpy0 50 sec\<rparr>
               else s);
          ending = (if handler_lineno then '';  line '' @ show_nat line else '';'');
          s = s\<lparr>test_out := test_out s @ ''... '' @ name @ ''='' @ val @ ending @ [CHR 0x0A]\<rparr>
      in Inr (\<not> (name = ''user'' \<and> val = ''parse_error''), s))"

definition parse :: "ini_options \<Rightarrow> bool \<Rightarrow> (string \<Rightarrow> string option) \<Rightarrow> string \<Rightarrow> test_state \<Rightarrow> test_state res" where
  "parse B handler_lineno files fname s =
     bindR (ini_parse_with B (dumper handler_lineno) (files fname) (s\<lparr>Prev_section := []\<rparr>)) (\<lambda>(e, s).
       Inr (s\<lparr>test_out := test_out s @ fname @ '': e='' @ show_int e @ '' user='' @ show_int (User s) @ [CHR 0x0A],
         test_u := test_u s + 1\<rparr>))"

definition unittest_main :: "ini_options \<Rightarrow> bool \<Rightarrow> (string \<Rightarrow> string option) \<Rightarrow> test_state res" where
  "unittest_main B handler_lineno files =
     foldR (parse B handler_lineno files)
       [''no_file.ini'', ''normal.ini'', ''bad_section.ini'', ''bad_comment.ini'', ''user_error.ini'', ''multi_line.ini'',
        ''bad_multi.ini'', ''bom.ini'']
       \<lparr>User = 0, Prev_section = [], test_u = 100, test_out = []\<rparr>"

definition unlines :: "string list \<Rightarrow> string" where
  "unlines ls = concat (map (\<lambda>l. l @ [CHR 0x0A]) ls)"

section \<open>The recorded outputs\<close>

text \<open>
  A parse commutes with a change \<open>f\<close> of the user data that the handler commutes with; the output of the tests before is
  such a change.
\<close>

definition map_user :: "('u \<Rightarrow> 'v) \<Rightarrow> 'u ini_state \<Rightarrow> 'v ini_state" where
  "map_user f st = \<lparr>ini_section = ini_section st, prev_name = prev_name st, lineno = lineno st, ini_error = ini_error st,
     ini_user = f (ini_user st)\<rparr>"

definition map_ok :: "('a \<Rightarrow> 'b) \<Rightarrow> 'a res \<Rightarrow> 'b res" where
  "map_ok f r = bindR r (\<lambda>x. Inr (f x))"

lemma map_ok_simps [simp]: "map_ok f (Inl e) = Inl e" "map_ok f (Inr x) = Inr (f x)"
  by (simp_all add: map_ok_def)

lemma map_user_simps [simp]:
  "ini_section (map_user f st) = ini_section st" "prev_name (map_user f st) = prev_name st"
  "lineno (map_user f st) = lineno st" "ini_error (map_user f st) = ini_error st" "ini_user (map_user f st) = f (ini_user st)"
  "first_error (map_user f st) = map_user f (first_error st)"
  "map_user f st\<lparr>ini_section := x\<rparr> = map_user f (st\<lparr>ini_section := x\<rparr>)"
  "map_user f st\<lparr>prev_name := x\<rparr> = map_user f (st\<lparr>prev_name := x\<rparr>)"
  "map_user f st\<lparr>lineno := n\<rparr> = map_user f (st\<lparr>lineno := n\<rparr>)"
  "map_user f st\<lparr>ini_user := f u\<rparr> = map_user f (st\<lparr>ini_user := u\<rparr>)"
  by (simp_all add: map_user_def first_error_def)

lemma parse_commutes:
  assumes h: "\<And>n u sec name val. h' n (f u) sec name val = map_ok (\<lambda>(ok, u). (ok, f u)) (h n u sec name val)"
  shows "ini_parse_with B h' fl (f u) = map_ok (\<lambda>(e, u). (e, f u)) (ini_parse_with B h fl u)"
proof -
  have c: "call_with h' name val (map_user f st) = map_ok (map_user f) (call_with h name val st)" for name val st
    by (cases "h (lineno st) (ini_user st) (ini_section st) name val") (auto simp: call_with_def h Let_def)
  have "ini_start_with B h' m start (map_user f st) = map_ok (map_user f) (ini_start_with B h m start st)" for m start st
    by (simp add: ini_start_with_def c Let_def split_beta)
  then have l: "ini_line_with B h' line (map_user f st) = map_ok (map_user f) (ini_line_with B h line st)" for line st
    by (simp add: ini_line_with_def Let_def)
  have ls: "ini_lines_with B h' ls (map_user f st) = map_ok (map_user f) (ini_lines_with B h ls st)" for ls st
  proof (induction ls arbitrary: st)
    case (Cons a ls)
    then show ?case by (cases "ini_line_with B h a st") (simp_all add: l)
  qed simp
  have "ini_stream_with B h' ls (f u) = map_ok (\<lambda>(e, u). (e, f u)) (ini_stream_with B h ls u)" for ls
  proof -
    let ?s = "\<lparr>ini_section = [], prev_name = [], lineno = 0, ini_error = 0, ini_user = u\<rparr>"
    have e: "\<lparr>ini_section = [], prev_name = [], lineno = 0, ini_error = 0, ini_user = f u\<rparr> = map_user f ?s"
      by (simp add: map_user_def)
    show ?thesis unfolding ini_stream_with_def e ls by (cases "ini_lines_with B h ls ?s") simp_all
  qed
  then show ?thesis
    by (cases "ini_stream_with B h (fgets_all INI_MAX_LINE (the fl)) u") (auto simp: ini_parse_with_def split: option.split)
qed

definition behind :: "string \<Rightarrow> test_state \<Rightarrow> test_state" where
  "behind out s = s\<lparr>test_out := out @ test_out s\<rparr>"

lemma parse_behind: "parse B l files fname (behind out s) = map_ok (behind out) (parse B l files fname s)"
proof -
  have "dumper l n (behind out u) sec name val = map_ok (\<lambda>(ok, u). (ok, behind out u)) (dumper l n u sec name val)"
    for n u sec name val
    by (simp add: dumper_def behind_def Let_def)
  then have p: "ini_parse_with B (dumper l) (files fname) (behind out u)
    = map_ok (\<lambda>(e, u). (e, behind out u)) (ini_parse_with B (dumper l) (files fname) u)" for u
    by (rule parse_commutes)
  have e: "behind out s\<lparr>Prev_section := []\<rparr> = behind out (s\<lparr>Prev_section := []\<rparr>)" by (simp add: behind_def)
  show ?thesis unfolding parse_def e p
    by (cases "ini_parse_with B (dumper l) (files fname) (s\<lparr>Prev_section := []\<rparr>)") (auto simp: behind_def)
qed

lemma reset_section:
  "parse B l files fname \<lparr>User = i, Prev_section = p, test_u = t, test_out = out\<rparr>
   = parse B l files fname \<lparr>User = i, Prev_section = [], test_u = t, test_out = out\<rparr>"
  by (simp add: parse_def)

end
