(* ===== verification/Ini_tests.thy ===== *)
theory Ini_tests
  imports Ini_builds
begin

text \<open>
  The tests of the INI parser: the files of \<open>parserconf/inih/tests\<close>, and the outputs recorded beside them for the builds of
  \<open>unittest.sh\<close>, which the model of parser and driver reproduces.
\<close>

section \<open>The files\<close>


definition normal_ini :: string where
  "normal_ini = unlines [''; This is an INI file'', ''[section1]  ; section comment'',
     ''one=This is a test  ; name=value comment'', ''two = 1234'', ''; x=y'', [], ''[ section 2 ]'',
     ''happy  =  4'', ''sad ='', [], ''[empty]'', ''; do nothing'', [], ''[comment_test]'',
     ''test1 = 1;2;3 ; only this will be a comment'',
     ''test2 = 2;3;4;this won'' @ [CHR 0x27] @ ''t be a comment, needs whitespace before '' @ [CHR 0x27] @ '';'' @ [CHR 0x27],
     ''test;3 = 345 ; key should be '' @ [CHR 0x22] @ ''test;3'' @ [CHR 0x22],
     ''test4 = 4#5#6 ; '' @ [CHR 0x27] @ ''#'' @ [CHR 0x27] @ '' only starts a comment at start of line'',
     ''#test5 = 567 ; entire line commented'',
     '' # test6 = 678 ; entire line commented, except in MULTILINE mode'',
     ''test7 = ; blank value, except if inline comments disabled'',
     ''test8 =; not a comment, needs whitespace before '' @ [CHR 0x27] @ '';'' @ [CHR 0x27], [],
     ''[colon_tests]'', ''Content-Type: text/html'', ''foo:bar'', ''adams : 42'',
     ''funny1 : with = equals'', ''funny2 = with : colons'', ''funny3 = two = equals'',
     ''funny4 : two : colons'']"

definition bad_section_ini :: string where
  "bad_section_ini = unlines [''[section1]'', ''name1=value1'', ''[section2'', ''[section3   ; comment ]'', ''name2=value2'']"

definition bad_comment_ini :: string where
  "bad_comment_ini = unlines [''This is an error'']"

definition user_error_ini :: string where
  "user_error_ini = unlines [''[section]'', ''a = b'', ''user = parse_error'', ''c = d'']"

definition multi_line_ini :: string where
  "multi_line_ini = unlines [''[section1]'', ''single1 = abc'', ''multi = this is a'', ''        multi-line value'',
     ''single2 = xyz'', ''[section2]'', ''multi = a'', ''        b'', ''        c'', ''[section3]'',
     ''single: ghi'', ''multi: the quick'', ''       brown fox'',
     ''name = bob smith  ; comment line 1'', ''                  ; comment line 2'']"

definition bad_multi_ini :: string where
  "bad_multi_ini = unlines [''  indented'']"

definition bom_ini :: string where
  "bom_ini = unlines [[CHR 0xEF, CHR 0xBB, CHR 0xBF] @ ''[bom_section]'', ''bom_name=bom_value'',
     ''key'' @ [CHR 0xE2, CHR 0x80, CHR 0x9C] @ '' = value'' @ [CHR 0xE2, CHR 0x80, CHR 0x9C]]"

definition test_files :: "string \<Rightarrow> string option" where
  "test_files = map_of [(''normal.ini'', normal_ini), (''bad_section.ini'', bad_section_ini), (''bad_comment.ini'', bad_comment_ini),
     (''user_error.ini'', user_error_ini), (''multi_line.ini'', multi_line_ini), (''bad_multi.ini'', bad_multi_ini), (''bom.ini'', bom_ini)]"

text \<open>\<open>baseline_multi.txt\<close>.\<close>

definition baseline_multi :: string where
  "baseline_multi = unlines
     [''no_file.ini: e=-1 user=0'', ''... [section1]'', ''... one=This is a test;'', ''... two=1234;'',
      ''... [ section 2 ]'', ''... happy=4;'', ''... sad=;'', ''... [comment_test]'',
      ''... test1=1;2;3;'',
      ''... test2=2;3;4;this won'' @ [CHR 0x27] @ ''t be a comment, needs whitespace before '' @ [CHR 0x27] @ '';'' @ [CHR 0x27] @ '';'',
      ''... test;3=345;'', ''... test4=4#5#6;'', ''... test7=;'',
      ''... test8=; not a comment, needs whitespace before '' @ [CHR 0x27] @ '';'' @ [CHR 0x27] @ '';'',
      ''... [colon_tests]'', ''... Content-Type=text/html;'', ''... foo=bar;'', ''... adams=42;'',
      ''... funny1=with = equals;'', ''... funny2=with : colons;'', ''... funny3=two = equals;'',
      ''... funny4=two : colons;'', ''normal.ini: e=0 user=101'', ''... [section1]'',
      ''... name1=value1;'', ''... name2=value2;'', ''bad_section.ini: e=3 user=102'',
      ''bad_comment.ini: e=1 user=102'', ''... [section]'', ''... a=b;'', ''... user=parse_error;'',
      ''... c=d;'', ''user_error.ini: e=3 user=104'', ''... [section1]'', ''... single1=abc;'',
      ''... multi=this is a;'', ''... multi=multi-line value;'', ''... single2=xyz;'',
      ''... [section2]'', ''... multi=a;'', ''... multi=b;'', ''... multi=c;'', ''... [section3]'',
      ''... single=ghi;'', ''... multi=the quick;'', ''... multi=brown fox;'', ''... name=bob smith;'',
      ''multi_line.ini: e=0 user=105'', ''bad_multi.ini: e=1 user=105'', ''... [bom_section]'',
      ''... bom_name=bom_value;'',
      ''... key'' @ [CHR 0xE2, CHR 0x80, CHR 0x9C] @ ''=value'' @ [CHR 0xE2, CHR 0x80, CHR 0x9C] @ '';'',
      ''bom.ini: e=0 user=107'']"

section \<open>The default build\<close>

lemma test_no_file:
  "parse ini_defaults False test_files ''no_file.ini'' \<lparr>User = 0, Prev_section = p, test_u = 100, test_out = []\<rparr>
   = Inr \<lparr>User = 0, Prev_section = [], test_u = 101, test_out = unlines
      [''no_file.ini: e=-1 user=0'']\<rparr>"
  unfolding reset_section [where p = p] by code_simp

lemma test_normal:
  "parse ini_defaults False test_files ''normal.ini'' \<lparr>User = 0, Prev_section = p, test_u = 101, test_out = []\<rparr>
   = Inr \<lparr>User = 101, Prev_section = ''colon_tests'', test_u = 102, test_out = unlines
      [''... [section1]'', ''... one=This is a test;'', ''... two=1234;'', ''... [ section 2 ]'',
       ''... happy=4;'', ''... sad=;'', ''... [comment_test]'', ''... test1=1;2;3;'',
       ''... test2=2;3;4;this won'' @ [CHR 0x27] @ ''t be a comment, needs whitespace before '' @ [CHR 0x27] @ '';'' @ [CHR 0x27] @ '';'',
       ''... test;3=345;'', ''... test4=4#5#6;'', ''... test7=;'',
       ''... test8=; not a comment, needs whitespace before '' @ [CHR 0x27] @ '';'' @ [CHR 0x27] @ '';'',
       ''... [colon_tests]'', ''... Content-Type=text/html;'', ''... foo=bar;'', ''... adams=42;'',
       ''... funny1=with = equals;'', ''... funny2=with : colons;'', ''... funny3=two = equals;'',
       ''... funny4=two : colons;'', ''normal.ini: e=0 user=101'']\<rparr>"
  unfolding reset_section [where p = p] by code_simp

lemma test_bad_section:
  "parse ini_defaults False test_files ''bad_section.ini'' \<lparr>User = 101, Prev_section = p, test_u = 102, test_out = []\<rparr>
   = Inr \<lparr>User = 102, Prev_section = ''section1'', test_u = 103, test_out = unlines
      [''... [section1]'', ''... name1=value1;'', ''... name2=value2;'', ''bad_section.ini: e=3 user=102'']\<rparr>"
  unfolding reset_section [where p = p] by code_simp

lemma test_bad_comment:
  "parse ini_defaults False test_files ''bad_comment.ini'' \<lparr>User = 102, Prev_section = p, test_u = 103, test_out = []\<rparr>
   = Inr \<lparr>User = 102, Prev_section = [], test_u = 104, test_out = unlines
      [''bad_comment.ini: e=1 user=102'']\<rparr>"
  unfolding reset_section [where p = p] by code_simp

lemma test_user_error:
  "parse ini_defaults False test_files ''user_error.ini'' \<lparr>User = 102, Prev_section = p, test_u = 104, test_out = []\<rparr>
   = Inr \<lparr>User = 104, Prev_section = ''section'', test_u = 105, test_out = unlines
      [''... [section]'', ''... a=b;'', ''... user=parse_error;'', ''... c=d;'',
       ''user_error.ini: e=3 user=104'']\<rparr>"
  unfolding reset_section [where p = p] by code_simp

lemma test_multi_line:
  "parse ini_defaults False test_files ''multi_line.ini'' \<lparr>User = 104, Prev_section = p, test_u = 105, test_out = []\<rparr>
   = Inr \<lparr>User = 105, Prev_section = ''section3'', test_u = 106, test_out = unlines
      [''... [section1]'', ''... single1=abc;'', ''... multi=this is a;'',
       ''... multi=multi-line value;'', ''... single2=xyz;'', ''... [section2]'', ''... multi=a;'',
       ''... multi=b;'', ''... multi=c;'', ''... [section3]'', ''... single=ghi;'',
       ''... multi=the quick;'', ''... multi=brown fox;'', ''... name=bob smith;'',
       ''multi_line.ini: e=0 user=105'']\<rparr>"
  unfolding reset_section [where p = p] by code_simp

lemma test_bad_multi:
  "parse ini_defaults False test_files ''bad_multi.ini'' \<lparr>User = 105, Prev_section = p, test_u = 106, test_out = []\<rparr>
   = Inr \<lparr>User = 105, Prev_section = [], test_u = 107, test_out = unlines
      [''bad_multi.ini: e=1 user=105'']\<rparr>"
  unfolding reset_section [where p = p] by code_simp

lemma test_bom:
  "parse ini_defaults False test_files ''bom.ini'' \<lparr>User = 105, Prev_section = p, test_u = 107, test_out = []\<rparr>
   = Inr \<lparr>User = 107, Prev_section = ''bom_section'', test_u = 108, test_out = unlines
      [''... [bom_section]'', ''... bom_name=bom_value;'',
       ''... key'' @ [CHR 0xE2, CHR 0x80, CHR 0x9C] @ ''=value'' @ [CHR 0xE2, CHR 0x80, CHR 0x9C] @ '';'',
       ''bom.ini: e=0 user=107'']\<rparr>"
  unfolding reset_section [where p = p] by code_simp

lemma unlines_append: "unlines (xs @ ys) = unlines xs @ unlines ys"
  by (simp add: unlines_def)

lemma next_file:
  assumes "parse B l files fname \<lparr>User = i, Prev_section = p, test_u = t, test_out = []\<rparr>
    = Inr \<lparr>User = i', Prev_section = p', test_u = t', test_out = unlines ys\<rparr>"
  shows "foldR (parse B l files) (fname # fs) (behind (unlines xs) \<lparr>User = i, Prev_section = p, test_u = t, test_out = []\<rparr>)
    = foldR (parse B l files) fs (behind (unlines (xs @ ys)) \<lparr>User = i', Prev_section = p', test_u = t', test_out = []\<rparr>)"
  by (simp add: parse_behind assms) (simp add: behind_def unlines_append)

text \<open>The whole run of the driver prints the recorded output.\<close>

lemma unittest_baseline:
  "unittest_main ini_defaults False test_files
    = Inr \<lparr>User = 107, Prev_section = ''bom_section'', test_u = 108, test_out = baseline_multi\<rparr>"
proof -
  have "unittest_main ini_defaults False test_files = foldR (parse ini_defaults False test_files)
     [''no_file.ini'', ''normal.ini'', ''bad_section.ini'', ''bad_comment.ini'', ''user_error.ini'', ''multi_line.ini'',
      ''bad_multi.ini'', ''bom.ini'']
     (behind (unlines []) \<lparr>User = 0, Prev_section = [], test_u = 100, test_out = []\<rparr>)"
    by (simp only: unittest_main_def behind_def unlines_def list.map concat.simps append.simps test_state.simps)
  also have "\<dots> = Inr (behind baseline_multi \<lparr>User = 107, Prev_section = ''bom_section'', test_u = 108, test_out = []\<rparr>)"
    by (simp only: next_file [OF test_no_file] next_file [OF test_normal] next_file [OF test_bad_section]
      next_file [OF test_bad_comment] next_file [OF test_user_error] next_file [OF test_multi_line]
      next_file [OF test_bad_multi] next_file [OF test_bom] foldR.simps(1) append.simps baseline_multi_def)
  finally show ?thesis by (simp add: behind_def)
qed

section \<open>The other builds\<close>

text \<open>The files on which the recorded outputs of the other builds differ from those of the default build.\<close>

lemma single_multi_line:
  "parse (ini_defaults\<lparr>allow_multiline := False\<rparr>) False test_files ''multi_line.ini'' \<lparr>User = 104, Prev_section = p, test_u = 105, test_out = []\<rparr>
   = Inr \<lparr>User = 105, Prev_section = ''section3'', test_u = 106, test_out = unlines
      [''... [section1]'', ''... single1=abc;'', ''... multi=this is a;'', ''... single2=xyz;'',
       ''... [section2]'', ''... multi=a;'', ''... [section3]'', ''... single=ghi;'',
       ''... multi=the quick;'', ''... name=bob smith;'', ''multi_line.ini: e=4 user=105'']\<rparr>"
  unfolding reset_section [where p = p] by code_simp

lemma disallow_normal:
  "parse (ini_defaults\<lparr>allow_inline := False\<rparr>) False test_files ''normal.ini'' \<lparr>User = 0, Prev_section = p, test_u = 101, test_out = []\<rparr>
   = Inr \<lparr>User = 101, Prev_section = ''colon_tests'', test_u = 102, test_out = unlines
      [''... [section1]'', ''... one=This is a test  ; name=value comment;'', ''... two=1234;'',
       ''... [ section 2 ]'', ''... happy=4;'', ''... sad=;'', ''... [comment_test]'',
       ''... test1=1;2;3 ; only this will be a comment;'',
       ''... test2=2;3;4;this won'' @ [CHR 0x27] @ ''t be a comment, needs whitespace before '' @ [CHR 0x27] @ '';'' @ [CHR 0x27] @ '';'',
       ''... test;3=345 ; key should be '' @ [CHR 0x22] @ ''test;3'' @ [CHR 0x22] @ '';'',
       ''... test4=4#5#6 ; '' @ [CHR 0x27] @ ''#'' @ [CHR 0x27] @ '' only starts a comment at start of line;'',
       ''... test7=; blank value, except if inline comments disabled;'',
       ''... test8=; not a comment, needs whitespace before '' @ [CHR 0x27] @ '';'' @ [CHR 0x27] @ '';'',
       ''... [colon_tests]'', ''... Content-Type=text/html;'', ''... foo=bar;'', ''... adams=42;'',
       ''... funny1=with = equals;'', ''... funny2=with : colons;'', ''... funny3=two = equals;'',
       ''... funny4=two : colons;'', ''normal.ini: e=0 user=101'']\<rparr>"
  unfolding reset_section [where p = p] by code_simp

lemma disallow_bad_section:
  "parse (ini_defaults\<lparr>allow_inline := False\<rparr>) False test_files ''bad_section.ini'' \<lparr>User = 101, Prev_section = p, test_u = 102, test_out = []\<rparr>
   = Inr \<lparr>User = 102, Prev_section = ''section3   ; comment '', test_u = 103, test_out = unlines
      [''... [section1]'', ''... name1=value1;'', ''... [section3   ; comment ]'', ''... name2=value2;'',
       ''bad_section.ini: e=3 user=102'']\<rparr>"
  unfolding reset_section [where p = p] by code_simp

lemma disallow_multi_line:
  "parse (ini_defaults\<lparr>allow_inline := False\<rparr>) False test_files ''multi_line.ini'' \<lparr>User = 104, Prev_section = p, test_u = 105, test_out = []\<rparr>
   = Inr \<lparr>User = 105, Prev_section = ''section3'', test_u = 106, test_out = unlines
      [''... [section1]'', ''... single1=abc;'', ''... multi=this is a;'',
       ''... multi=multi-line value;'', ''... single2=xyz;'', ''... [section2]'', ''... multi=a;'',
       ''... multi=b;'', ''... multi=c;'', ''... [section3]'', ''... single=ghi;'',
       ''... multi=the quick;'', ''... multi=brown fox;'', ''... name=bob smith  ; comment line 1;'',
       ''multi_line.ini: e=0 user=105'']\<rparr>"
  unfolding reset_section [where p = p] by code_simp

lemma stop_bad_section:
  "parse (ini_defaults\<lparr>stop_on_first_error := True\<rparr>) False test_files ''bad_section.ini'' \<lparr>User = 101, Prev_section = p, test_u = 102, test_out = []\<rparr>
   = Inr \<lparr>User = 102, Prev_section = ''section1'', test_u = 103, test_out = unlines
      [''... [section1]'', ''... name1=value1;'', ''bad_section.ini: e=3 user=102'']\<rparr>"
  unfolding reset_section [where p = p] by code_simp

lemma stop_user_error:
  "parse (ini_defaults\<lparr>stop_on_first_error := True\<rparr>) False test_files ''user_error.ini'' \<lparr>User = 102, Prev_section = p, test_u = 104, test_out = []\<rparr>
   = Inr \<lparr>User = 104, Prev_section = ''section'', test_u = 105, test_out = unlines
      [''... [section]'', ''... a=b;'', ''... user=parse_error;'', ''user_error.ini: e=3 user=104'']\<rparr>"
  unfolding reset_section [where p = p] by code_simp

lemma handler_normal:
  "parse ini_defaults True test_files ''normal.ini'' \<lparr>User = 0, Prev_section = p, test_u = 101, test_out = []\<rparr>
   = Inr \<lparr>User = 101, Prev_section = ''colon_tests'', test_u = 102, test_out = unlines
      [''... [section1]'', ''... one=This is a test;  line 3'', ''... two=1234;  line 4'',
       ''... [ section 2 ]'', ''... happy=4;  line 8'', ''... sad=;  line 9'', ''... [comment_test]'',
       ''... test1=1;2;3;  line 15'',
       ''... test2=2;3;4;this won'' @ [CHR 0x27] @ ''t be a comment, needs whitespace before '' @ [CHR 0x27] @ '';'' @ [CHR 0x27] @ '';  line 16'',
       ''... test;3=345;  line 17'', ''... test4=4#5#6;  line 18'', ''... test7=;  line 21'',
       ''... test8=; not a comment, needs whitespace before '' @ [CHR 0x27] @ '';'' @ [CHR 0x27] @ '';  line 22'',
       ''... [colon_tests]'', ''... Content-Type=text/html;  line 25'', ''... foo=bar;  line 26'',
       ''... adams=42;  line 27'', ''... funny1=with = equals;  line 28'',
       ''... funny2=with : colons;  line 29'', ''... funny3=two = equals;  line 30'',
       ''... funny4=two : colons;  line 31'', ''normal.ini: e=0 user=101'']\<rparr>"
  unfolding reset_section [where p = p] by code_simp

lemma handler_multi_line:
  "parse ini_defaults True test_files ''multi_line.ini'' \<lparr>User = 104, Prev_section = p, test_u = 105, test_out = []\<rparr>
   = Inr \<lparr>User = 105, Prev_section = ''section3'', test_u = 106, test_out = unlines
      [''... [section1]'', ''... single1=abc;  line 2'', ''... multi=this is a;  line 3'',
       ''... multi=multi-line value;  line 4'', ''... single2=xyz;  line 5'', ''... [section2]'',
       ''... multi=a;  line 7'', ''... multi=b;  line 8'', ''... multi=c;  line 9'', ''... [section3]'',
       ''... single=ghi;  line 11'', ''... multi=the quick;  line 12'', ''... multi=brown fox;  line 13'',
       ''... name=bob smith;  line 14'', ''multi_line.ini: e=0 user=105'']\<rparr>"
  unfolding reset_section [where p = p] by code_simp

end
