(* ===== verification/Ini_clients.thy ===== *)
theory Ini_clients
  imports Ini_tests
begin

text \<open>
  The clients of the INI parser that come with it: the reader over a buffer in memory (\<open>examples/ini_buffer.c\<close>), the
  examples \<open>ini_example.c\<close>, \<open>ini_xmacros.c\<close> and \<open>ini_dump.c\<close>, and the C++ interface (\<open>cpp/INIReader.cpp\<close>).
\<close>

section \<open>Lines from a buffer\<close>

text \<open>
  \<open>ini_buffer_reader\<close>.  \<open>scan_line\<close> is its loop: the index at which it stops, after \<open>room\<close> characters, at the end of the
  buffer or at the end of a line, and the character that ends the line.
\<close>

record buffer_ctx =
  ctx_ptr :: string
  bytes_left :: int

primrec scan_line :: "nat \<Rightarrow> string \<Rightarrow> nat \<times> char option" where
  "scan_line room [] = (0, None)"
| "scan_line room (c # cs) =
     (if room = 0 then (0, None)
      else if c = CHR 0x0A \<or> c = CHR 0x0D then (0, Some c)
      else case scan_line (room - 1) cs of (i, nl) \<Rightarrow> (Suc i, nl))"

definition ini_buffer_reader :: "nat \<Rightarrow> buffer_ctx \<Rightarrow> (string \<times> buffer_ctx) option" where
  "ini_buffer_reader num ctx =
     (if bytes_left ctx \<le> 0 then None
      else case scan_line (num - 1) (take (nat (bytes_left ctx)) (ctx_ptr ctx)) of (idx, newline) \<Rightarrow>
        let str = take idx (ctx_ptr ctx);
            ptr = drop (idx + 1) (ctx_ptr ctx);
            left = bytes_left ctx - int (idx + 1)
        in if newline \<noteq> None \<and> 0 < left \<and>
             (newline = Some CHR 0x0D \<and> take 1 ptr = [CHR 0x0A] \<or> newline = Some CHR 0x0A \<and> take 1 ptr = [CHR 0x0D])
           then Some (str, \<lparr>ctx_ptr = drop 1 ptr, bytes_left = left - 1\<rparr>)
           else Some (str, \<lparr>ctx_ptr = ptr, bytes_left = left\<rparr>))"

lemma reader_progress: "ini_buffer_reader num ctx = Some (str, ctx') \<Longrightarrow> nat (bytes_left ctx') < nat (bytes_left ctx)"
  by (auto simp: ini_buffer_reader_def Let_def split: if_splits prod.splits)

text \<open>The lines \<open>ini_parse_stream\<close> gets from it.\<close>

function buffer_lines :: "nat \<Rightarrow> buffer_ctx \<Rightarrow> string list" where
  "buffer_lines num ctx =
     (case ini_buffer_reader num ctx of None \<Rightarrow> [] | Some (str, ctx') \<Rightarrow> str # buffer_lines num ctx')"
  by pat_completeness auto
termination
  by (relation "measure (\<lambda>(num, ctx). nat (bytes_left ctx))") (auto dest: reader_progress)

declare buffer_lines.simps [simp del]

lemma scan_line_stops:
  assumes "CHR 0x0A \<notin> set l" and "CHR 0x0D \<notin> set l" and "length l < room"
  shows "scan_line room (l @ CHR 0x0A # rest) = (length l, Some CHR 0x0A)"
  using assms by (induction l arbitrary: room) auto

lemma scan_line_0 [simp]: "scan_line 0 s = (0, None)"
  by (cases s) simp_all

lemma scan_line_full:
  assumes "CHR 0x0A \<notin> set l" and "CHR 0x0D \<notin> set l" and "room \<le> length l"
  shows "scan_line room (l @ rest) = (room, None)"
  using assms by (induction l arbitrary: room) (auto split: prod.split)

lemma buffer_line:
  assumes "CHR 0x0A \<notin> set l" and "CHR 0x0D \<notin> set l" and "length l < num - 1" and "take 1 rest \<noteq> [CHR 0x0D]"
  shows "buffer_lines num \<lparr>ctx_ptr = l @ CHR 0x0A # rest, bytes_left = int (length (l @ CHR 0x0A # rest))\<rparr>
    = l # buffer_lines num \<lparr>ctx_ptr = rest, bytes_left = int (length rest)\<rparr>"
  by (subst buffer_lines.simps) (use assms in \<open>simp add: ini_buffer_reader_def scan_line_stops\<close>)

lemma buffer_all_lines:
  assumes "\<forall>l \<in> set ls. CHR 0x0A \<notin> set l \<and> CHR 0x0D \<notin> set l \<and> length l < num - 1"
  shows "buffer_lines num \<lparr>ctx_ptr = unlines ls, bytes_left = int (length (unlines ls))\<rparr> = ls"
  using assms
proof (induction ls)
  case Nil
  then show ?case by (subst buffer_lines.simps) (simp add: unlines_def ini_buffer_reader_def)
next
  case (Cons l ls)
  have "take 1 (unlines ls) \<noteq> [CHR 0x0D]"
  proof (cases ls)
    case (Cons k ks)
    with Cons.prems show ?thesis by (cases k) (auto simp: unlines_def)
  qed (simp add: unlines_def)
  with buffer_line [of l num "unlines ls"] Cons show ?case by (simp add: unlines_def)
qed

text \<open>A newline at the end of a line makes no difference to the parser.\<close>

lemma line_newline: "CHR 0x0A \<notin> set l \<Longrightarrow> ini_line_with B h (l @ [CHR 0x0A]) st = ini_line_with B h l st"
proof -
  assume "CHR 0x0A \<notin> set l"
  have b: "take 3 (l @ [CHR 0x0A]) = BOM \<longleftrightarrow> take 3 l = BOM"
  proof (cases "3 \<le> length l")
    case False
    have "last BOM \<noteq> CHR 0x0A" "length BOM = 3" by (simp_all add: BOM_def)
    with False show ?thesis by (auto dest: arg_cong [where f = length] arg_cong [where f = last])
  qed simp
  have d: "take 3 l = BOM \<Longrightarrow> drop 3 (l @ [CHR 0x0A]) = drop 3 l @ [CHR 0x0A]"
    by (cases "3 \<le> length l") (auto simp: BOM_def dest: arg_cong [where f = length])
  have r: "rstrip (if P \<and> Q \<and> take 3 l = BOM then drop 3 (l @ [CHR 0x0A]) else l @ [CHR 0x0A])
    = rstrip (if P \<and> Q \<and> take 3 l = BOM then drop 3 l else l)" for P Q
    using d rstrip_newline by (cases "P \<and> Q \<and> take 3 l = BOM") (simp_all only: if_True if_False rstrip_newline simp_thms)
  show ?thesis by (simp only: ini_line_with_def Let_def b r)
qed

text \<open>
  Parsing a buffer calls the handler as parsing the file does, line by line with the same numbers, in every build, when
  the lines fit the buffer of the parser.
\<close>

lemma buffer_is_file:
  assumes "\<forall>l \<in> set ls. CHR 0x0A \<notin> set l \<and> CHR 0x0D \<notin> set l \<and> length l < INI_MAX_LINE - 1"
  shows "ini_stream_with B h (buffer_lines INI_MAX_LINE \<lparr>ctx_ptr = unlines ls, bytes_left = int (length (unlines ls))\<rparr>) u
    = ini_stream_with B h (fgets_all INI_MAX_LINE (unlines ls)) u"
proof -
  have f: "fgets_all INI_MAX_LINE (unlines ls) = map (\<lambda>l. l @ [CHR 0x0A]) ls"
    unfolding unlines_def using assms by (intro fgets_all_lines) auto
  have "ini_lines_with B h (map (\<lambda>l. l @ [CHR 0x0A]) ls) st = ini_lines_with B h ls st" for st
    using assms
  proof (induction ls arbitrary: st)
    case (Cons l ls)
    then have "ini_line_with B h (l @ [CHR 0x0A]) st = ini_line_with B h l st" by (intro line_newline) simp
    with Cons show ?case by (simp cong: if_cong)
  qed simp
  then show ?thesis by (simp only: ini_stream_with_def buffer_all_lines [OF assms] f)
qed

text \<open>A longer line loses a character: the pointer moves one behind the characters read, as if they ended with a newline.\<close>

lemma long_line_loses:
  assumes "CHR 0x0A \<notin> set l" and "CHR 0x0D \<notin> set l" and "num - 1 \<le> length l" and "1 < num"
  shows "buffer_lines num \<lparr>ctx_ptr = l @ rest, bytes_left = int (length (l @ rest))\<rparr>
    = take (num - 1) l # buffer_lines num \<lparr>ctx_ptr = drop num (l @ rest), bytes_left = int (length (l @ rest)) - int num\<rparr>"
  by (subst buffer_lines.simps) (use assms in \<open>auto simp: ini_buffer_reader_def scan_line_full Let_def\<close>)

section \<open>The examples\<close>

text \<open>
  \<open>ini_example.c\<close> and \<open>ini_buffer.c\<close>: their \<open>handler\<close>, and \<open>main\<close>, which prints the three fields.  A field that no line
  has set has no value; printing it is undefined.
\<close>

record configuration =
  cf_version :: "int option"
  cf_name :: "string option"
  cf_email :: "string option"

definition example_handler :: "configuration line_handler" where
  "example_handler line u sec name val =
     Inr (if sec = ''protocol'' \<and> name = ''version'' then (True, u\<lparr>cf_version := Some (atoi val)\<rparr>)
      else if sec = ''user'' \<and> name = ''name'' then (True, u\<lparr>cf_name := Some val\<rparr>)
      else if sec = ''user'' \<and> name = ''email'' then (True, u\<lparr>cf_email := Some val\<rparr>)
      else (False, u))"

definition print_configuration :: "string \<Rightarrow> configuration \<Rightarrow> (int \<times> string) res" where
  "print_configuration source u =
     (case (cf_version u, cf_name u, cf_email u) of
        (Some v, Some n, Some e) \<Rightarrow> Inr (0, ''Config loaded from '' @ source @ '': version='' @ show_int v @ '', name='' @ n
          @ '', email='' @ e @ [CHR 0x0A])
      | _ \<Rightarrow> Inl UninitRead)"

definition no_configuration :: configuration where
  "no_configuration = \<lparr>cf_version = None, cf_name = None, cf_email = None\<rparr>"

definition example_main :: "(string \<Rightarrow> string option) \<Rightarrow> (int \<times> string) res" where
  "example_main files =
     bindR (ini_parse_with ini_defaults example_handler (files ''test.ini'') no_configuration) (\<lambda>(e, u).
       if e < 0 then Inr (1, ''Can'' @ [CHR 0x27] @ ''t load '' @ [CHR 0x27] @ ''test.ini'' @ [CHR 0x27, CHR 0x0A])
       else print_configuration ([CHR 0x27] @ ''test.ini'' @ [CHR 0x27]) u)"

definition buffer_text :: string where
  "buffer_text = unlines [''; Test ini buffer'', [], ''[protocol]'', ''version=42'', [], ''[user]'', ''name = Jane Smith'',
     ''email = jane@smith.com'']"

definition buffer_main :: "(int \<times> string) res" where
  "buffer_main =
     bindR (ini_stream_with ini_defaults example_handler
         (buffer_lines INI_MAX_LINE \<lparr>ctx_ptr = buffer_text, bytes_left = int (length buffer_text)\<rparr>) no_configuration) (\<lambda>(e, u).
       print_configuration ''buffer'' u)"

text \<open>\<open>ini_xmacros.c\<close>, with the three settings of \<open>config.def\<close>: the handler accepts every line.\<close>

record xconfig =
  protocol_version :: string
  user_name :: string
  user_email :: string

definition xmacros_defaults :: xconfig where
  "xmacros_defaults = \<lparr>protocol_version = ''0'', user_name = ''Fatty Lumpkin'', user_email = ''fatty@lumpkin.com''\<rparr>"

definition xmacros_handler :: "xconfig line_handler" where
  "xmacros_handler line u sec name val =
     Inr (True, if sec = ''protocol'' \<and> name = ''version'' then u\<lparr>protocol_version := val\<rparr>
       else if sec = ''user'' \<and> name = ''name'' then u\<lparr>user_name := val\<rparr>
       else if sec = ''user'' \<and> name = ''email'' then u\<lparr>user_email := val\<rparr> else u)"

definition dump_config :: "xconfig \<Rightarrow> string" where
  "dump_config u = unlines [''protocol_version = '' @ protocol_version u, ''user_name = '' @ user_name u,
     ''user_email = '' @ user_email u]"

definition xmacros_main :: "(string \<Rightarrow> string option) \<Rightarrow> (int \<times> string) res" where
  "xmacros_main files =
     bindR (ini_parse_with ini_defaults xmacros_handler (files ''test.ini'') xmacros_defaults) (\<lambda>(e, u).
       Inr (0, (if e < 0 then ''Can'' @ [CHR 0x27] @ ''t load '' @ [CHR 0x27] @ ''test.ini'' @ [CHR 0x27] @ '', using defaults'' @ [CHR 0x0A]
         else []) @ dump_config u))"

text \<open>\<open>ini_dump.c\<close>: the section last printed and the output are the user data; \<open>argv\<close> without the name of the program.\<close>

definition dump_handler :: "(string \<times> string) line_handler" where
  "dump_handler line u sec name val =
     (let (prev, out) = u;
          (prev, out) = (if sec \<noteq> prev
            then (strncpy0 50 sec, out @ (if prev \<noteq> [] then [CHR 0x0A] else []) @ ''['' @ sec @ '']'' @ [CHR 0x0A]) else (prev, out))
      in Inr (True, prev, out @ name @ '' = '' @ val @ [CHR 0x0A]))"

definition dump_main :: "(string \<Rightarrow> string option) \<Rightarrow> string list \<Rightarrow> (int \<times> string) res" where
  "dump_main files argv =
     (case argv of
        [] \<Rightarrow> Inr (1, ''Usage: ini_dump filename.ini'' @ [CHR 0x0A])
      | f # _ \<Rightarrow> bindR (ini_parse_with ini_defaults dump_handler (files f) ([], [])) (\<lambda>(e, prev, out).
          if e < 0 then Inr (2, out @ ''Can'' @ [CHR 0x27] @ ''t read '' @ [CHR 0x27] @ f @ [CHR 0x27] @ ''!'' @ [CHR 0x0A])
          else if e \<noteq> 0 then Inr (3, out @ ''Bad config file (first error on line '' @ show_int e @ '')!'' @ [CHR 0x0A])
          else Inr (0, out)))"

text \<open>What the buffer example prints.\<close>

lemma buffer_example:
  "buffer_main = Inr (0, unlines [''Config loaded from buffer: version=42, name=Jane Smith, email=jane@smith.com''])"
proof -
  have "\<forall>l \<in> set [''; Test ini buffer'', [], ''[protocol]'', ''version=42'', [], ''[user]'', ''name = Jane Smith'',
     ''email = jane@smith.com'']. CHR 0x0A \<notin> set l \<and> CHR 0x0D \<notin> set l \<and> length l < INI_MAX_LINE - 1"
    by (simp add: INI_MAX_LINE_def)
  note b = buffer_all_lines [OF this]
  show ?thesis unfolding buffer_main_def buffer_text_def b by code_simp
qed

section \<open>INIReader\<close>

text \<open>
  The values by key; \<open>MakeKey\<close> makes section and name one key without regard to case.  \<open>strtol\<close> and \<open>strtod\<close> are
  parameters that return the number and how many characters they read.
\<close>

definition tolower :: "char \<Rightarrow> char" where
  "tolower c = (let n = of_char c :: nat in if 65 \<le> n \<and> n \<le> 90 then char_of (n + 32) else c)"

definition MakeKey :: "string \<Rightarrow> string \<Rightarrow> string" where
  "MakeKey sec name = map tolower (sec @ ''='' @ name)"

definition ValueHandler :: "(string \<Rightarrow> string option) ini_handler" where
  "ValueHandler u sec name val =
     (let key = MakeKey sec name;
          old = (case u key of None \<Rightarrow> [] | Some v \<Rightarrow> v)
      in Inr (True, u(key \<mapsto> (if old \<noteq> [] then old @ [CHR 0x0A] else old) @ val)))"

definition INIReader :: "ini_options \<Rightarrow> string option \<Rightarrow> (int \<times> (string \<Rightarrow> string option)) res" where
  "INIReader B fl = ini_parse_with B (\<lambda>_. ValueHandler) fl (\<lambda>_. None)"

definition Get :: "(string \<Rightarrow> string option) \<Rightarrow> string \<Rightarrow> string \<Rightarrow> string \<Rightarrow> string" where
  "Get u sec name dflt = (case u (MakeKey sec name) of Some v \<Rightarrow> v | None \<Rightarrow> dflt)"

definition GetInteger ::
  "(string \<Rightarrow> int \<times> nat) \<Rightarrow> (string \<Rightarrow> string option) \<Rightarrow> string \<Rightarrow> string \<Rightarrow> int \<Rightarrow> int" where
  "GetInteger to_long u sec name dflt =
     (let valstr = Get u sec name []; (n, used) = to_long valstr in if 0 < used then n else dflt)"

definition GetReal ::
  "(string \<Rightarrow> 'd \<times> nat) \<Rightarrow> (string \<Rightarrow> string option) \<Rightarrow> string \<Rightarrow> string \<Rightarrow> 'd \<Rightarrow> 'd" where
  "GetReal to_double u sec name dflt =
     (let valstr = Get u sec name []; (n, used) = to_double valstr in if 0 < used then n else dflt)"

definition GetBoolean :: "(string \<Rightarrow> string option) \<Rightarrow> string \<Rightarrow> string \<Rightarrow> bool \<Rightarrow> bool" where
  "GetBoolean u sec name dflt =
     (let valstr = map tolower (Get u sec name [])
      in if valstr \<in> {''true'', ''yes'', ''on'', ''1''} then True
         else if valstr \<in> {''false'', ''no'', ''off'', ''0''} then False
         else dflt)"

text \<open>The keys stay in lower case, as every lookup assumes.\<close>

lemma tolower_idem [simp]: "tolower (tolower c) = tolower c"
  by (simp add: tolower_def Let_def)

interpretation reader: ini_client ValueHandler "\<lambda>u. \<forall>k \<in> dom u. map tolower k = k"
  by unfold_locales (auto simp: ValueHandler_def MakeKey_def Let_def split: if_splits)

lemma reader_keys:
  "INIReader bench_options fl = Inr (e, u) \<Longrightarrow> u k = Some v \<Longrightarrow> map tolower k = k"
  using reader.parse_inv [of fl "\<lambda>_. None" e u] by (auto simp: INIReader_def parse_bench)

text \<open>
  What is written is found again: the values of all assignments to a section and name, whatever their case, one per
  line; the default when there are none.
\<close>

primrec assignments :: "string \<Rightarrow> ini_item list \<Rightarrow> (string \<times> string) list" where
  "assignments sec [] = []"
| "assignments sec (i # is) = (case i of
     Section s \<Rightarrow> assignments s is
   | Pair n v \<Rightarrow> (MakeKey sec n, v) # assignments sec is)"

definition add_line :: "string \<Rightarrow> string \<Rightarrow> string" where
  "add_line old v = (if old \<noteq> [] then old @ [CHR 0x0A] else old) @ v"

definition add_value :: "(string \<Rightarrow> string option) \<Rightarrow> string \<times> string \<Rightarrow> string \<Rightarrow> string option" where
  "add_value u kv = u(fst kv \<mapsto> add_line (case u (fst kv) of None \<Rightarrow> [] | Some v \<Rightarrow> v) (snd kv))"

lemma feed_reader: "feed ValueHandler is sec u = Inr (True, foldl add_value u (assignments sec is))"
  by (induction "is" arbitrary: sec u)
    (simp_all add: ValueHandler_def add_value_def add_line_def Let_def split: ini_item.split)

lemma values_of_key:
  "foldl add_value u kvs k = (case map snd (filter (\<lambda>kv. fst kv = k) kvs) of
     [] \<Rightarrow> u k | vs \<Rightarrow> Some (foldl add_line (case u k of None \<Rightarrow> [] | Some v \<Rightarrow> v) vs))"
proof (induction kvs arbitrary: u)
  case (Cons kv kvs)
  show ?case
    by (simp add: Cons.IH) (auto simp: add_value_def split: list.split)
qed simp

lemma reader_finds_values:
  assumes "\<forall>i \<in> set is. item_ok i"
    and "\<forall>i \<in> set is. \<exists>l. render_item i = l @ [CHR 0x0A] \<and> CHR 0x0A \<notin> set l \<and> length l + 1 < INI_MAX_LINE"
  shows "\<exists>u. INIReader bench_options (Some (concat (map render_item is))) = Inr (0, u)
    \<and> Get u sec name dflt = (case map snd (filter (\<lambda>kv. fst kv = MakeKey sec name) (assignments [] is)) of
        [] \<Rightarrow> dflt | vs \<Rightarrow> foldl add_line [] vs)"
  using ini_read_back [OF assms feed_reader]
  by (auto simp: INIReader_def parse_bench Get_def values_of_key split: list.split)

end
