(* ===== verification/Serial.thy ===== *)
theory Serial
  imports Typing
begin

text \<open>
  The order of the moves of processes that work on different files does not matter: each of them reads and writes its
  own file and its own tracker only, so their moves commute, and two schedules that move the processes of each file in
  the same order lead to the same state, whatever happens in it.
\<close>

section \<open>Footprints\<close>

text \<open>
  The files \<open>N\<close> and the records \<open>R\<close> of the tracker that an action on the shared state may read and write.  \<open>sees\<close>: two
  states look the same to it; \<open>stays\<close>: it has changed nothing else.
\<close>

definition sees :: "(string \<Rightarrow> bool) \<Rightarrow> (nat \<Rightarrow> bool) \<Rightarrow> sys \<Rightarrow> sys \<Rightarrow> bool" where
  "sees N R s t \<longleftrightarrow> (\<forall>x. N x \<longrightarrow> sh_fs s x = sh_fs t x) \<and> length (content_map (sh_mem s)) = length (content_map (sh_mem t))
     \<and> (\<forall>j < length (content_map (sh_mem s)). R j \<longrightarrow> content_map (sh_mem s) ! j = content_map (sh_mem t) ! j)"

definition stays :: "(string \<Rightarrow> bool) \<Rightarrow> (nat \<Rightarrow> bool) \<Rightarrow> sys \<Rightarrow> sys \<Rightarrow> bool" where
  "stays N R s t \<longleftrightarrow> cells (sh_mem t) = cells (sh_mem s) \<and> sees (\<lambda>x. \<not> N x) (\<lambda>j. \<not> R j) s t"

definition local_to :: "(string \<Rightarrow> bool) \<Rightarrow> (nat \<Rightarrow> bool) \<Rightarrow> (sys \<Rightarrow> 'a \<times> sys) \<Rightarrow> bool" where
  "local_to N R f \<longleftrightarrow> (\<forall>s. stays N R s (snd (f s))
     \<and> (\<forall>t. sees N R s t \<longrightarrow> fst (f t) = fst (f s) \<and> sees N R (snd (f s)) (snd (f t))))"

lemma sees_refl [simp]: "sees N R s s"
  by (simp add: sees_def)

lemma stays_refl [simp]: "stays N R s s"
  by (simp add: stays_def)

lemma sees_trans: "sees N R s t \<Longrightarrow> sees N R t u \<Longrightarrow> sees N R s u"
  by (auto simp: sees_def)

lemma stays_trans: "stays N R s t \<Longrightarrow> stays N R t u \<Longrightarrow> stays N R s u"
  by (auto simp: stays_def intro: sees_trans)

text \<open>Actions with disjoint footprints commute.\<close>

lemma local_commute:
  assumes f: "local_to N R f" and g: "local_to N' R' g"
    and d: "\<And>x. N x \<Longrightarrow> \<not> N' x" "\<And>j. R j \<Longrightarrow> \<not> R' j"
  shows "fst (g (snd (f s))) = fst (g s)" and "fst (f (snd (g s))) = fst (f s)"
    and "snd (g (snd (f s))) = snd (f (snd (g s)))"
proof -
  let ?sf = "snd (f s)" and ?sg = "snd (g s)"
  let ?sgf = "snd (g ?sf)" and ?sfg = "snd (f ?sg)"
  have w: "stays N R t (snd (f t))" "stays N' R' t (snd (g t))" for t using f g by (simp_all add: local_to_def)
  have "sees N' R' s ?sf" "sees N R s ?sg" using w [of s] d by (auto simp: stays_def sees_def)
  with f g have a: "fst (g ?sf) = fst (g s)" "fst (f ?sg) = fst (f s)" "sees N' R' ?sg ?sgf" "sees N R ?sf ?sfg"
    by (simp_all add: local_to_def)
  then show "fst (g (snd (f s))) = fst (g s)" "fst (f (snd (g s))) = fst (f s)" by simp_all
  note b = w(1) [of s] w(2) [of s] w(1) [of ?sg] w(2) [of ?sf]
  have fs: "N x \<Longrightarrow> sh_fs ?sf x = sh_fs ?sfg x" "N' x \<Longrightarrow> sh_fs ?sg x = sh_fs ?sgf x"
    "\<not> N x \<Longrightarrow> sh_fs s x = sh_fs ?sf x" "\<not> N' x \<Longrightarrow> sh_fs s x = sh_fs ?sg x"
    "\<not> N x \<Longrightarrow> sh_fs ?sg x = sh_fs ?sfg x" "\<not> N' x \<Longrightarrow> sh_fs ?sf x = sh_fs ?sgf x" for x
    using a(3,4) b unfolding stays_def sees_def by blast+
  have "sh_fs ?sgf x = sh_fs ?sfg x" for x
    using fs [of x] d(1) [of x] by metis
  moreover have "content_map (sh_mem ?sgf) = content_map (sh_mem ?sfg)"
  proof (rule nth_equalityI)
    let ?l = "length (content_map (sh_mem s))"
    have len: "length (content_map (sh_mem ?sf)) = ?l" "length (content_map (sh_mem ?sg)) = ?l"
      "length (content_map (sh_mem ?sgf)) = ?l" "length (content_map (sh_mem ?sfg)) = ?l"
      using b unfolding stays_def sees_def by metis+
    then show "length (content_map (sh_mem ?sgf)) = length (content_map (sh_mem ?sfg))" by simp
    fix j assume "j < length (content_map (sh_mem ?sgf))"
    with len have j: "j < ?l" "j < length (content_map (sh_mem ?sf))" "j < length (content_map (sh_mem ?sg))" by simp_all
    have "R j \<Longrightarrow> content_map (sh_mem ?sf) ! j = content_map (sh_mem ?sfg) ! j"
      "R' j \<Longrightarrow> content_map (sh_mem ?sg) ! j = content_map (sh_mem ?sgf) ! j"
      "\<not> R j \<Longrightarrow> content_map (sh_mem s) ! j = content_map (sh_mem ?sf) ! j"
      "\<not> R' j \<Longrightarrow> content_map (sh_mem s) ! j = content_map (sh_mem ?sg) ! j"
      "\<not> R j \<Longrightarrow> content_map (sh_mem ?sg) ! j = content_map (sh_mem ?sfg) ! j"
      "\<not> R' j \<Longrightarrow> content_map (sh_mem ?sf) ! j = content_map (sh_mem ?sgf) ! j"
      using a(3,4) b j unfolding stays_def sees_def by blast+
    then show "content_map (sh_mem ?sgf) ! j = content_map (sh_mem ?sfg) ! j" using d(2) [of j] by metis
  qed
  moreover have "cells (sh_mem ?sgf) = cells (sh_mem ?sfg)" using b by (simp add: stays_def)
  ultimately show "snd (g (snd (f s))) = snd (f (snd (g s)))"
    by (intro sys.equality shared.equality ext) simp_all
qed

text \<open>Actions that may fail; a failure leaves the state as it was.\<close>

definition local_res :: "(string \<Rightarrow> bool) \<Rightarrow> (nat \<Rightarrow> bool) \<Rightarrow> (sys \<Rightarrow> ('a \<times> sys) res) \<Rightarrow> bool" where
  "local_res N R m \<longleftrightarrow> (\<forall>s t. sees N R s t \<longrightarrow> (case m s of
       Inl e \<Rightarrow> m t = Inl e
     | Inr (x, s') \<Rightarrow> stays N R s s' \<and> (\<exists>t'. m t = Inr (x, t') \<and> sees N R s' t')))"

lemma local_resD:
  assumes "local_res N R m" and "sees N R s t"
  shows "m s = Inl e \<Longrightarrow> m t = Inl e"
    and "m s = Inr (x, s') \<Longrightarrow> stays N R s s' \<and> (\<exists>t'. m t = Inr (x, t') \<and> sees N R s' t')"
  using assms by (auto simp: local_res_def split: sum.splits)

lemma local_ret: "local_res N R (\<lambda>s. Inr (x, s))"
  by (simp add: local_res_def)

lemma local_err: "local_res N R (\<lambda>s. Inl e)"
  by (simp add: local_res_def)

lemma local_const: "(\<And>x. r = Inr x \<Longrightarrow> local_res N R (k x)) \<Longrightarrow> local_res N R (\<lambda>s. bindR r (\<lambda>x. k x s))"
  by (cases r) (simp_all add: local_err)

lemma local_bind:
  assumes m: "local_res N R m" and k: "\<And>x. local_res N R (k x)"
  shows "local_res N R (\<lambda>s. bindR (m s) (\<lambda>(x, s). k x s))"
  unfolding local_res_def
proof (intro allI impI)
  fix s t assume st: "sees N R s t"
  show "case bindR (m s) (\<lambda>(x, s). k x s) of Inl e \<Rightarrow> bindR (m t) (\<lambda>(x, s). k x s) = Inl e
    | Inr (y, s'') \<Rightarrow> stays N R s s'' \<and> (\<exists>t'. bindR (m t) (\<lambda>(x, s). k x s) = Inr (y, t') \<and> sees N R s'' t')"
  proof (cases "m s")
    case (Inl e)
    with local_resD(1) [OF m st] show ?thesis by simp
  next
    case (Inr r)
    obtain x s' where r: "r = (x, s')" by (cases r)
    with local_resD(2) [OF m st] Inr obtain t' where t': "stays N R s s'" "m t = Inr (x, t')" "sees N R s' t'" by auto
    show ?thesis
    proof (cases "k x s'")
      case (Inl e)
      with local_resD(1) [OF k t'(3)] t' Inr r \<open>m s = Inr r\<close> show ?thesis by simp
    next
      case (Inr q)
      obtain y s'' where q: "q = (y, s'')" by (cases q)
      from local_resD(2) [OF k t'(3)] Inr obtain t'' where "stays N R s' s''" "k x t' = Inr (y, t'')" "sees N R s'' t''"
        unfolding q by blast
      with t' Inr r q \<open>m s = Inr r\<close> show ?thesis by (auto intro: stays_trans)
    qed
  qed
qed

lemma local_move:
  assumes "local_res N R m"
  shows "local_to N R (\<lambda>s. case m s of Inl e \<Rightarrow> (err e, s) | Inr (x, s') \<Rightarrow> (ok x, s'))"
  unfolding local_to_def
proof (intro allI conjI impI)
  fix s
  show "stays N R s (snd (case m s of Inl e \<Rightarrow> (err e, s) | Inr (x, s') \<Rightarrow> (ok x, s')))"
    using local_resD(2) [OF assms sees_refl] by (auto split: sum.split)
  fix t assume st: "sees N R s t"
  note d = local_resD [OF assms st]
  show "fst (case m t of Inl e \<Rightarrow> (err e, t) | Inr (x, s') \<Rightarrow> (ok x, s'))
      = fst (case m s of Inl e \<Rightarrow> (err e, s) | Inr (x, s') \<Rightarrow> (ok x, s'))"
    and "sees N R (snd (case m s of Inl e \<Rightarrow> (err e, s) | Inr (x, s') \<Rightarrow> (ok x, s')))
      (snd (case m t of Inl e \<Rightarrow> (err e, t) | Inr (x, s') \<Rightarrow> (ok x, s')))"
    using d st by (cases "m s"; force)+
qed

section \<open>What a process touches\<close>

text \<open>The file of owner \<open>l\<close>, and the records of its tracker, which are in use when there is an integrity check.\<close>

definition own_file :: "'d user_confs \<Rightarrow> nat \<Rightarrow> string \<Rightarrow> bool" where
  "own_file conf l x \<longleftrightarrow> pfile_name conf (int l) = Inr x"

definition own_block :: "'d user_confs \<Rightarrow> duplicates_info \<Rightarrow> nat \<Rightarrow> nat \<Rightarrow> bool" where
  "own_block conf info l j \<longleftrightarrow> 1 \<le> integrity conf
     \<and> (\<exists>b k. track_base conf info (int l) = Inr b \<and> k < unat (totblocks conf) \<and> j = b + k)"

lemma counted_position:
  assumes "count_access conf off accesses = Inr accesses'" and "length accesses = unat (totblocks conf)"
    and "cdiv off (block_size conf) = Inr q"
  shows "unat q < unat (totblocks conf)"
  using assms by (auto simp: count_access_def aget_def elim!: bindR_InrE split: if_splits)

text \<open>A block is written to the file and recorded.\<close>

lemma write_local:
  assumes nm: "own_file conf l name"
    and q: "\<And>q. cdiv off (block_size conf) = Inr q \<Longrightarrow> unat q < unat (totblocks conf)"
  shows "local_res (own_file conf l) (own_block conf info l) (\<lambda>sh.
    bindR (write_block r name buf n off (sh_fs sh)) (\<lambda>fs.
    bindR (track_block conf info (int l) off bi (sh_mem sh)) (\<lambda>mem.
    bindR c (\<lambda>x. Inr (f x, sh\<lparr>sh_mem := mem, sh_fs := fs\<rparr>)))))"
  unfolding local_res_def
proof (intro allI impI)
  fix s t assume st: "sees (own_file conf l) (own_block conf info l) s t"
  have w: "write_block r name buf n off (sh_fs t) = bindR (write_block r name buf n off (sh_fs s))
      (\<lambda>fs. Inr ((sh_fs t)(name := fs name)))"
    and w': "write_block r name buf n off (sh_fs s) = Inr fs \<Longrightarrow> x \<noteq> name \<Longrightarrow> fs x = sh_fs s x" for fs x
    using st nm by (auto simp: write_block_def sees_def fun_eq_iff split: if_splits)
  have tr: "(\<exists>e. track_block conf info (int l) off bi (sh_mem s) = Inl e \<and> track_block conf info (int l) off bi (sh_mem t) = Inl e)
    \<or> (track_block conf info (int l) off bi (sh_mem s) = Inr (sh_mem s) \<and> track_block conf info (int l) off bi (sh_mem t) = Inr (sh_mem t))
    \<or> (\<exists>j < length (content_map (sh_mem s)). own_block conf info l j
        \<and> track_block conf info (int l) off bi (sh_mem s) = Inr (sh_mem s\<lparr>content_map := (content_map (sh_mem s))[j := bi]\<rparr>)
        \<and> track_block conf info (int l) off bi (sh_mem t) = Inr (sh_mem t\<lparr>content_map := (content_map (sh_mem t))[j := bi]\<rparr>))"
  proof (cases "1 \<le> integrity conf")
    case True
    show ?thesis
    proof (cases "cdiv off (block_size conf)")
      case (Inr k)
      show ?thesis
      proof (cases "track_base conf info (int l)")
        case (Inr b)
        have "own_block conf info l (b + unat k)" using True Inr q \<open>cdiv off (block_size conf) = Inr k\<close> by (auto simp: own_block_def)
        with st True Inr \<open>cdiv off (block_size conf) = Inr k\<close> show ?thesis
          by (cases "b + unat k < length (content_map (sh_mem s))") (auto simp: track_block_def aset_def sees_def)
      qed (simp add: track_block_def True Inr)
    qed (simp add: track_block_def True)
  qed (simp add: track_block_def)
  show "case bindR (write_block r name buf n off (sh_fs s)) (\<lambda>fs. bindR (track_block conf info (int l) off bi (sh_mem s))
      (\<lambda>mem. bindR c (\<lambda>x. Inr (f x, s\<lparr>sh_mem := mem, sh_fs := fs\<rparr>)))) of
      Inl e \<Rightarrow> bindR (write_block r name buf n off (sh_fs t)) (\<lambda>fs. bindR (track_block conf info (int l) off bi (sh_mem t))
        (\<lambda>mem. bindR c (\<lambda>x. Inr (f x, t\<lparr>sh_mem := mem, sh_fs := fs\<rparr>)))) = Inl e
    | Inr (x, s') \<Rightarrow> stays (own_file conf l) (own_block conf info l) s s'
        \<and> (\<exists>t'. bindR (write_block r name buf n off (sh_fs t)) (\<lambda>fs. bindR (track_block conf info (int l) off bi (sh_mem t))
        (\<lambda>mem. bindR c (\<lambda>x. Inr (f x, t\<lparr>sh_mem := mem, sh_fs := fs\<rparr>)))) = Inr (x, t')
          \<and> sees (own_file conf l) (own_block conf info l) s' t')"
  proof (cases "write_block r name buf n off (sh_fs s)")
    case (Inr fs)
    have fo: "\<not> own_file conf l x \<Longrightarrow> fs x = sh_fs s x" "own_file conf l x \<Longrightarrow> x = name" for x
      using w' [OF Inr] nm by (auto simp: own_file_def)
    show ?thesis using tr Inr fo st
      by (cases c) (auto simp: w stays_def sees_def nth_list_update)
  qed (simp add: w)
qed

lemma perform_write_local:
  assumes "own_file conf l (ro_name ro)" and "ro_idproc ro = int l" and "\<not> distout conf"
    and "length (pr_accesses p) = unat (totblocks conf)"
  shows "local_res (own_file conf l) (own_block conf info l) (\<lambda>sh. perform_write F conf info ro tk (p, sh))"
proof -
  have w: "count_written conf info bi st mem = Inr (st, mem)" for bi st mem using assms(3) by (simp add: count_written_def)
  have e: "bindR (measured ro p) (\<lambda>m. bindR (log_operation conf ro tk (pr_log p)) (\<lambda>ls. Inr (h m ls, s)))
    = bindR (bindR (measured ro p) (\<lambda>m. bindR (log_operation conf ro tk (pr_log p)) (\<lambda>ls. Inr (h m ls)))) (\<lambda>x. Inr (x, s))"
    for h :: "bool \<Rightarrow> (u64 \<times> u64) list \<Rightarrow> 'a proc" and s :: sys
    by (cases "measured ro p"; cases "log_operation conf ro tk (pr_log p)") simp_all
  show ?thesis
    by (simp only: perform_write_def split_def fst_conv snd_conv w bindR_Inr e assms(2))
      (intro local_const write_local assms(1) counted_position [OF _ assms(4)])
qed

text \<open>A read, and the check of what it returns.\<close>

lemma same_result:
  assumes "\<And>s t. sees N R s t \<Longrightarrow> m t = map_sum (\<lambda>e. e) (\<lambda>(x, _). (x, t)) (m s)" and "\<And>s x s'. m s = Inr (x, s') \<Longrightarrow> s' = s"
  shows "local_res N R m"
  unfolding local_res_def using assms by (fastforce split: sum.split)

lemma check_read_same:
  assumes st: "sees (own_file conf l) (own_block conf info l) s t" and ro: "ro_idproc ro = int l"
    and q: "\<And>q. cdiv off (block_size conf) = Inr q \<Longrightarrow> unat q < unat (totblocks conf)"
  shows "check_read F conf info ro tk off buf (sh_mem t) p = check_read F conf info ro tk off buf (sh_mem s) p"
proof (cases "2 \<le> integrity conf")
  case True
  have "aget (content_map (sh_mem t)) (b + unat k) = aget (content_map (sh_mem s)) (b + unat k)"
    if "cdiv off (block_size conf) = Inr k" "track_base conf info (int l) = Inr b" for k b
  proof -
    have "own_block conf info l (b + unat k)" using True that q by (auto simp: own_block_def)
    with st show ?thesis by (auto simp: sees_def aget_def)
  qed
  with True show ?thesis
    by (cases "cdiv off (block_size conf)"; cases "track_base conf info (int l)") (simp_all add: check_read_def ro)
qed (simp add: check_read_def)

lemma perform_read_local:
  assumes nm: "own_file conf l (ro_name ro)" and ro: "ro_idproc ro = int l"
    and len: "length (pr_accesses p) = unat (totblocks conf)"
  shows "local_res (own_file conf l) (own_block conf info l) (\<lambda>sh. perform_read F conf info ro tk (p, sh))"
proof (rule same_result)
  fix s t assume st: "sees (own_file conf l) (own_block conf info l) s t"
  have f: "file_of (sh_fs t) (ro_name ro) = file_of (sh_fs s) (ro_name ro)" using st nm by (simp add: sees_def file_of_def)
  have c: "count_access conf off (pr_accesses p) = Inr a \<Longrightarrow>
      check_read F conf info ro tk off buf (sh_mem t) p' = check_read F conf info ro tk off buf (sh_mem s) p'" for off a buf p'
    by (rule check_read_same [OF st ro]) (rule counted_position [OF _ len])
  show "perform_read F conf info ro tk (p, t) = map_sum (\<lambda>e. e) (\<lambda>(x, _). (x, t)) (perform_read F conf info ro tk (p, s))"
  proof (cases "read_request conf (pr_stat p) (ro_idproc ro) (pr_acc p)")
    case (Inr r)
    obtain off acc where r: "r = (off, acc)" by (cases r)
    show ?thesis
    proof (cases "count_access conf off (pr_accesses p)")
      case (Inr a)
      let ?dat = "read_bytes tk (file_of (sh_fs s) (ro_name ro)) off (block_size conf)"
      let ?p = "p\<lparr>pr_buf := ?dat @ drop (length ?dat) (pr_buf p)\<rparr>"
      note c = c [OF Inr]
      have h: "bindR x (\<lambda>p. bindR (measured ro p) (\<lambda>m. bindR (log_operation conf ro tk (pr_log p)) (\<lambda>ls. Inr (u p m ls, t))))
        = map_sum (\<lambda>e. e) (\<lambda>(x, _). (x, t)) (bindR x (\<lambda>p. bindR (measured ro p) (\<lambda>m.
            bindR (log_operation conf ro tk (pr_log p)) (\<lambda>ls. Inr (u p m ls, s)))))"
        for x :: "'a proc res" and u :: "'a proc \<Rightarrow> bool \<Rightarrow> (u64 \<times> u64) list \<Rightarrow> 'a proc"
      proof (cases x)
        case (Inr p')
        then show ?thesis
          by (cases "measured ro p'"; cases "log_operation conf ro tk (pr_log p')") simp_all
      qed simp
      show ?thesis
        using \<open>read_request conf (pr_stat p) (ro_idproc ro) (pr_acc p) = Inr r\<close> Inr
        by (simp only: perform_read_def prod.case r f c Let_def bindR_Inr h)
    qed (simp add: perform_read_def Inr r)
  qed (simp add: perform_read_def)
next
  fix s x s' assume "perform_read F conf info ro tk (p, s) = Inr (x, s')"
  then show "s' = s" by (auto simp: perform_read_def Let_def elim!: bindR_InrE)
qed

lemma operation_local:
  assumes "own_file conf l (ro_name ro)" and "ro_idproc ro = int l" and "\<not> distout conf"
    and "length (pr_accesses p) = unat (totblocks conf)"
  shows "local_res (own_file conf l) (own_block conf info l) (\<lambda>sh. proc_step F conf info ro tk (p, sh))"
proof -
  have c: "bindR (measured ro p') (\<lambda>m. bindR (count_operation F m (pr_stat p')) (\<lambda>st. Inr (h m st, s)))
    = bindR (bindR (measured ro p') (\<lambda>m. bindR (count_operation F m (pr_stat p')) (\<lambda>st. Inr (h m st)))) (\<lambda>x. Inr (x, s))"
    for h :: "bool \<Rightarrow> 'a stats \<Rightarrow> 'a proc" and s :: sys and p'
    by (cases "measured ro p'"; cases "count_operation F (projr (measured ro p')) (pr_stat p')") simp_all
  have o: "local_res (own_file conf l) (own_block conf info l) (\<lambda>sh. operate F conf info ro tk (p, sh))"
    unfolding operate_def c
  proof (rule local_bind)
    show "local_res (own_file conf l) (own_block conf info l) (\<lambda>s. if ro_iotype ro = WRITE
        then perform_write F conf info ro tk (p, s) else perform_read F conf info ro tk (p, s))"
      by (cases "ro_iotype ro = WRITE") (simp_all add: perform_write_local [OF assms] perform_read_local [OF assms(1,2,4)])
  qed (intro local_const local_ret)
  have "local_res (own_file conf l) (own_block conf info l)
      (\<lambda>s. if go then operate F conf info ro tk (p, s) else Inr (p, s))" for go
    using o by (cases go) (simp_all add: local_ret)
  then show ?thesis unfolding proc_step_def fst_conv by (intro local_const local_bind local_ret)
qed

lemma start_local:
  assumes "\<not> rawdevice conf" and "idproc = int l"
  shows "local_res (own_file conf l) (own_block conf info l) (\<lambda>sh. bindR (process_start F E conf idproc nproc rate ty g acc sh)
    (\<lambda>(ro, p, sh). Inr ((ro, p), sh)))"
proof -
  have "local_res (own_file conf l) (own_block conf info l)
      (\<lambda>sh. bindR (open_target ok conf idproc (sh_fs sh)) (\<lambda>(name, fs). Inr (name, sh\<lparr>sh_fs := fs\<rparr>)))" for ok
    using assms by (cases "pfile_name conf (int l)")
      (auto simp: local_res_def open_target_def create_pfile_def stays_def sees_def own_file_def split: option.splits)
  note o = local_bind [OF this]
  have "(\<lambda>sh. bindR (process_start F E conf idproc nproc rate ty g acc sh) (\<lambda>(ro, p, sh). Inr ((ro, p), sh)))
    = (\<lambda>sh. bindR (init_io conf (proc_number conf ty idproc) acc) (\<lambda>acc.
       bindR (bindR (open_target (pe_open E) conf idproc (sh_fs sh)) (\<lambda>(name, fs). Inr (name, sh\<lparr>sh_fs := fs\<rparr>))) (\<lambda>(name, sh).
       bindR (open_logs (pe_fopen E) conf ty (proc_number conf ty idproc)) (\<lambda>(lg, ms).
       bindR (bounds_of conf (tv_sec (pe_start E)) nproc) (\<lambda>b.
       Inr ((\<lparr>ro_idproc = idproc, ro_nproc = nproc, ro_ratio = rate, ro_iotype = ty, ro_name = name,
              ro_end_time = lb_end_time b, ro_end_size = lb_end_size b, ro_ru_begin = lb_ru_begin b, ro_log = lg\<rparr>,
            \<lparr>pr_stat = initial_stats F, pr_gen = g, pr_acc = acc, pr_accesses = replicate (unat (totblocks conf)) 0,
             pr_buf = pe_buf E, pr_errs = 0, pr_msgs = ms, pr_log = [], pr_begin_time = lb_begin_time b,
             pr_begin_size = lb_begin_size b, pr_base = pe_base E, pr_elapsed = fp_of_int F 1\<rparr>), sh))))))"
    (is "?l = ?r")
  proof
    fix sh
    show "?l sh = ?r sh"
      by (cases "init_io conf (proc_number conf ty idproc) acc"; cases "open_target (pe_open E) conf idproc (sh_fs sh)";
          cases "open_logs (pe_fopen E) conf ty (proc_number conf ty idproc)"; cases "bounds_of conf (tv_sec (pe_start E)) nproc")
        (auto simp: process_start_def)
  qed
  then show ?thesis by (simp only:) (intro local_const o, auto split: prod.split intro: local_const local_ret)
qed
section \<open>Moves commute\<close>

text \<open>A process at work keeps to the file and the counters it was set up with.\<close>

definition settled :: "'d user_confs \<Rightarrow> nat \<Rightarrow> 'd child \<Rightarrow> bool" where
  "settled conf i c \<longleftrightarrow> (case c of
     Running ro p k \<Rightarrow> ro_idproc ro = int (owner conf i) \<and> own_file conf (owner conf i) (ro_name ro)
       \<and> length (pr_accesses p) = unat (totblocks conf)
   | _ \<Rightarrow> True)"

lemma owner_args:
  assumes "i < nat (nprocs conf)"
  shows "\<exists>nproc rate ty. launch_args conf i = (int (owner conf i), nproc, rate, ty)"
proof -
  have "0 \<le> c_half (nprocs conf)" using assms by (simp add: c_half_def)
  then show ?thesis by (auto simp: launch_args_def owner_def Let_def)
qed

lemma step_accesses:
  assumes "proc_step F conf info ro tk (p, sh) = Inr (p', sh')"
  shows "length (pr_accesses p') = length (pr_accesses p)"
proof -
  have r: "check_read F conf info ro tk off buf mem q = Inr q' \<Longrightarrow> pr_accesses q' = pr_accesses q" for off buf mem q q'
    by (auto simp: check_read_def elim!: bindR_InrE split: if_splits)
  have "operate F conf info ro tk (p, sh) = Inr (q, t) \<Longrightarrow> length (pr_accesses q) = length (pr_accesses p)" for q t
    by (auto simp: operate_def perform_write_def perform_read_def Let_def elim!: bindR_InrE split: if_splits
        dest!: count_access_typed r)
  with assms show ?thesis
    by (auto simp: proc_step_def clock_step_def lap_time_def elim!: bindR_InrE split: if_splits)
qed

lemma move_settled:
  assumes "\<not> rawdevice conf" and "i < nat (nprocs conf)" and "settled conf i c"
  shows "settled conf i (fst (child_move F E conf info g acc i sh c))"
proof (cases c)
  case Waiting
  obtain nproc rate ty where "launch_args conf i = (int (owner conf i), nproc, rate, ty)" using owner_args [OF assms(2)] by blast
  then show ?thesis
    using assms(1) by (auto simp: Waiting settled_def process_start_def open_target_def create_pfile_def own_file_def
        elim!: bindR_InrE split: sum.split if_splits)
next
  case (Running ro p k)
  with assms(3) show ?thesis
    by (auto simp: settled_def split: sum.split dest!: step_accesses)
qed (simp_all add: settled_def)

lemma move_local:
  assumes "\<not> rawdevice conf" and "\<not> distout conf" and "i < nat (nprocs conf)" and "settled conf i c"
  shows "local_to (own_file conf (owner conf i)) (own_block conf info (owner conf i))
    (\<lambda>sh. child_move F E conf info g acc i sh c)"
proof (cases c)
  case Waiting
  obtain nproc rate ty where a: "launch_args conf i = (int (owner conf i), nproc, rate, ty)" using owner_args [OF assms(3)] by blast
  let ?m = "\<lambda>sh. bindR (process_start F (E i) conf (int (owner conf i)) nproc rate ty g acc sh) (\<lambda>(ro, p, sh). Inr ((ro, p), sh))"
  have "(\<lambda>sh. child_move F E conf info g acc i sh c)
    = (\<lambda>sh. case ?m sh of Inl e \<Rightarrow> (Died e, sh) | Inr (x, s') \<Rightarrow> (case_prod (\<lambda>ro p. Running ro p 0) x, s'))"
  proof
    fix sh
    show "child_move F E conf info g acc i sh c
      = (case ?m sh of Inl e \<Rightarrow> (Died e, sh) | Inr (x, s') \<Rightarrow> (case_prod (\<lambda>ro p. Running ro p 0) x, s'))"
      by (cases "process_start F (E i) conf (int (owner conf i)) nproc rate ty g acc sh") (auto simp: Waiting a)
  qed
  then show ?thesis by (simp only:) (rule local_move, rule start_local [OF assms(1) refl])
next
  case (Running ro p k)
  show ?thesis
  proof (cases "proc_running ro p")
    case True
    have "(\<lambda>sh. child_move F E conf info g acc i sh c)
      = (\<lambda>sh. case proc_step F conf info ro (pe_ticks (E i) k) (p, sh) of
           Inl e \<Rightarrow> (Died e, sh) | Inr (p', sh') \<Rightarrow> (Running ro p' (Suc k), sh'))"
      by (simp add: fun_eq_iff Running True)
    then show ?thesis
      using assms(2,4) by (simp only:) (rule local_move, rule operation_local, auto simp: settled_def Running)
  next
    case False
    then show ?thesis
      by (cases "process_report F (pe_fopen (E i)) conf ro p") (simp_all add: Running local_to_def)
  qed
qed (simp_all add: local_to_def)

text \<open>The trackers of different owners have no record in common.\<close>

definition trackers_apart :: "'d user_confs \<Rightarrow> duplicates_info \<Rightarrow> bool" where
  "trackers_apart conf info \<longleftrightarrow> (\<forall>l k j. l \<noteq> k \<longrightarrow> own_block conf info l j \<longrightarrow> \<not> own_block conf info k j)"

definition all_settled :: "'d user_confs \<Rightarrow> 'd bench_state \<Rightarrow> bool" where
  "all_settled conf s \<longleftrightarrow> length (fst s) = nat (nprocs conf) \<and> (\<forall>i < length (fst s). settled conf i (fst s ! i))"

lemma bench_move_settled:
  assumes "\<not> rawdevice conf" and "all_settled conf s"
  shows "all_settled conf (bench_move F E conf info g acc i s)"
proof -
  obtain cs sh where s: "s = (cs, sh)" by (cases s)
  show ?thesis
    using assms(2) move_settled [OF assms(1), of i "cs ! i" F E info g acc sh]
    by (auto simp: s all_settled_def bench_move_def nth_list_update split: prod.split)
qed

lemma moves_commute:
  assumes "\<not> rawdevice conf" and "\<not> distout conf" and "trackers_apart conf info"
    and "all_settled conf s" and "owner conf i \<noteq> owner conf j"
  shows "bench_move F E conf info g acc i (bench_move F E conf info g acc j s)
    = bench_move F E conf info g acc j (bench_move F E conf info g acc i s)"
proof -
  obtain cs sh where s: "s = (cs, sh)" by (cases s)
  from assms(5) have ij: "i \<noteq> j" by auto
  show ?thesis
  proof (cases "i < length cs \<and> j < length cs")
    case True
    let ?f = "\<lambda>sh. child_move F E conf info g acc i sh (cs ! i)" and ?g = "\<lambda>sh. child_move F E conf info g acc j sh (cs ! j)"
    have "local_to (own_file conf (owner conf i)) (own_block conf info (owner conf i)) ?f"
      "local_to (own_file conf (owner conf j)) (own_block conf info (owner conf j)) ?g"
      using True assms by (auto simp: s all_settled_def intro!: move_local)
    note c = local_commute [OF this, of sh]
    have d: "own_file conf (owner conf i) x \<Longrightarrow> \<not> own_file conf (owner conf j) x" for x
      using assms(5) pfile_name_inj [of conf "int (owner conf i)" x "int (owner conf j)"] by (auto simp: own_file_def)
    have "own_block conf info (owner conf i) k \<Longrightarrow> \<not> own_block conf info (owner conf j) k" for k
      using assms(3,5) by (auto simp: trackers_apart_def)
    note c = c [OF d this]
    show ?thesis
      using True ij c by (simp add: s bench_move_def split_def list_update_swap [of i j])
  qed (auto simp: s bench_move_def split: prod.split)
qed

section \<open>Schedules that agree on every file\<close>

text \<open>
  Reordering a fold: when actions of different owners commute on the states of an invariant, only the order within each
  owner counts.
\<close>

lemma fold_past:
  assumes "\<And>x s. P s \<Longrightarrow> P (f x s)" and "\<And>x y s. P s \<Longrightarrow> own x \<noteq> own y \<Longrightarrow> f x (f y s) = f y (f x s)"
    and "P s" and "\<forall>y \<in> set ys. own y \<noteq> own x"
  shows "f x (fold f ys s) = fold f ys (f x s)"
  using assms(3,4)
proof (induction ys arbitrary: s)
  case (Cons y ys)
  then have "f x (f y s) = f y (f x s)" by (intro assms(2)) auto
  with Cons show ?case using assms(1) by simp
qed simp

lemma fold_reorder:
  assumes inv: "\<And>x s. P s \<Longrightarrow> P (f x s)" and comm: "\<And>x y s. P s \<Longrightarrow> own x \<noteq> own y \<Longrightarrow> f x (f y s) = f y (f x s)"
    and "P s" and "\<And>l. filter (\<lambda>x. own x = l) xs = filter (\<lambda>x. own x = l) ys"
  shows "fold f xs s = fold f ys s"
  using assms(3,4)
proof (induction xs arbitrary: ys s)
  case Nil
  have "ys = []"
  proof (cases ys)
    case (Cons y ys')
    with Nil.prems(2) [of "own y"] show ?thesis by simp
  qed
  then show ?case by simp
next
  case (Cons x xs)
  from Cons.prems(2) [of "own x"] have "filter (\<lambda>z. own z = own x) ys = x # filter (\<lambda>z. own z = own x) xs" by simp
  then obtain as bs where ys: "ys = as @ x # bs" "\<forall>a \<in> set as. own a \<noteq> own x"
    "filter (\<lambda>z. own z = own x) xs = filter (\<lambda>z. own z = own x) bs"
    by (auto dest!: filter_eq_ConsD)
  have "filter (\<lambda>z. own z = l) xs = filter (\<lambda>z. own z = l) (as @ bs)" for l
  proof (cases "l = own x")
    case True
    with ys(2,3) show ?thesis by (simp add: filter_empty_conv)
  next
    case False
    with Cons.prems(2) [of l] show ?thesis by (simp add: ys(1))
  qed
  then have "fold f xs (f x s) = fold f (as @ bs) (f x s)" using Cons.IH inv Cons.prems(1) by blast
  also have "\<dots> = fold f bs (f x (fold f as s))"
    using fold_past [where P = P and f = f and own = own, OF inv comm Cons.prems(1) ys(2)] by simp
  finally show ?case by (simp add: ys(1))
qed

lemma run_children_reorder:
  assumes "\<not> rawdevice conf" and "\<not> distout conf" and "trackers_apart conf info"
    and "\<And>l. filter (\<lambda>i. owner conf i = l) schedule = filter (\<lambda>i. owner conf i = l) schedule'"
  shows "run_children F E conf info g acc schedule sh = run_children F E conf info g acc schedule' sh"
  unfolding run_children_def
proof (rule fold_reorder [where P = "all_settled conf" and own = "owner conf"])
  show "all_settled conf (replicate (nat (nprocs conf)) Waiting, sh)" by (simp add: all_settled_def settled_def)
qed (use assms bench_move_settled moves_commute in blast)+

text \<open>The layout of the mapping keeps the trackers apart.\<close>

lemma mapped_apart:
  assumes "loadmmap env conf info = Inr (sz, info', mem)" and "unat (totblocks conf) * nat (tracked_procs conf) < 2 ^ 64"
    and "\<not> rawdevice conf"
  shows "trackers_apart conf info'"
proof -
  let ?T = "unat (totblocks conf)"
  have "content_tracker info' = Some (map (\<lambda>i. unat (word_of_nat i * totblocks conf)) [0 ..< nat (tracked_procs conf)])"
    using assms(1) by (auto simp: loadmmap_def Let_def elim!: bindR_InrE split: if_splits)
  moreover have "unat (word_of_nat i * totblocks conf) = i * ?T" if "i < nat (tracked_procs conf)" for i
  proof (cases "?T = 0")
    case False
    have "i * ?T < ?T * nat (tracked_procs conf)" using that False by (simp add: mult.commute)
    then have s: "i * ?T < 2 ^ 64" using assms(2) by linarith
    have "i \<le> i * ?T" using False by simp
    then have "i < 2 ^ LENGTH(64)" using s by (simp only: len64)
    then have "unat (word_of_nat i :: u64) = i" by (rule unat_of_nat_small)
    with s show ?thesis by (simp add: unat_mult_small)
  qed (simp add: unat_eq_0)
  ultimately have t: "track_base conf info' (int l) = Inr b \<Longrightarrow> b = l * ?T" for l b
    using assms(3) by (auto simp: track_base_def aget_def split: if_splits)
  have "l = k" if "b < ?T" "c < ?T" "l * ?T + b = k * ?T + c" for l k b c
  proof -
    have "(l * ?T + b) div ?T = (k * ?T + c) div ?T" using that(3) by simp
    with that(1,2) show ?thesis by simp
  qed
  note same = this
  have own: "\<exists>b < ?T. j = l * ?T + b" if h: "own_block conf info' l j" for l j
  proof -
    obtain b k where "track_base conf info' (int l) = Inr b" "k < ?T" "j = b + k"
      using h unfolding own_block_def by blast
    with t [of l b] show ?thesis by blast
  qed
  have "l = k" if "own_block conf info' l j" and "own_block conf info' k j" for l k j
    using own [OF that(1)] own [OF that(2)] same by metis
  then show ?thesis unfolding trackers_apart_def by blast
qed

text \<open>The whole program.\<close>

lemma owner_nr [simp]: "owner (conf\<lparr>nr_proc_w := x\<rparr>) = owner conf"
  by (simp add: fun_eq_iff owner_def)

lemma trackers_apart_nr [simp]: "trackers_apart (conf\<lparr>nr_proc_w := x\<rparr>) info = trackers_apart conf info"
  by (simp add: trackers_apart_def own_block_def track_base_def)

lemma prepared_apart:
  assumes "prepare_bench F M conf info mem acc fs = Inr (info', s)" and "\<not> rawdevice conf"
    and "unat (totblocks conf) * nat (tracked_procs conf) < 2 ^ 64"
  shows "trackers_apart conf info'"
proof (cases "1 \<le> integrity conf")
  case True
  with assms(1) obtain sz info0 mem' where "loadmmap (me_mmap M) conf info0 = Inr (sz, info', mem')"
    by (auto simp: prepare_bench_def map_memory_def elim!: bindR_InrE)
  with assms(2,3) mapped_apart show ?thesis by blast
qed (simp add: trackers_apart_def own_block_def)

lemma bench_main_reorder:
  assumes "\<not> rawdevice conf" and "\<not> distout conf" and "unat (totblocks conf) * nat (tracked_procs conf) < 2 ^ 64"
    and "\<And>l. filter (\<lambda>i. owner conf i = l) schedule = filter (\<lambda>i. owner conf i = l) schedule'"
  shows "bench_main F M conf info mem acc schedule fs = bench_main F M conf info mem acc schedule' fs"
proof (cases "prepare_bench F M conf info mem acc fs")
  case (Inr r)
  obtain info' s where r: "r = (info', s)" by (cases r)
  have a: "trackers_apart conf info'" using prepared_apart [of F M conf info mem acc fs info' s] Inr r assms by simp
  let ?conf = "conf\<lparr>nr_proc_w := word_of_int (nr_writers conf)\<rparr>"
  have "run_children F E ?conf info' g acc' schedule sh = run_children F E ?conf info' g acc' schedule' sh" for E g acc' sh
    using assms a by (intro run_children_reorder) simp_all
  then show ?thesis by (simp add: bench_main_def Inr r launch_benchmark_def Let_def)
qed (simp add: bench_main_def)

end
