(* ===== verification/Spec2Isabelle.thy ===== *)
theory Spec2Isabelle
  imports Pipeline Typing Config Dedisgen_run Dedisgen_utils Sfmt_periods Sfmt_real Mixed Speedtest Ini_clients Serial
begin

text \<open>
  A formal development of DEDISbench, DEDISgen and DEDISgenutils.

  DEDISbench measures storage systems that remove duplicate blocks.  \<open>main\<close> (\<open>src/DEDISbench.c\<close>) reads a
  configuration, builds a content generator from a file that describes a distribution of duplicates, maps shared
  memory for counters and for a tracker of what every block holds, may populate the files, and forks processes that
  write or read blocks at positions of a chosen pattern while they count and time their operations.  After the run the
  files can be checked against the tracker and the duplicates written can be logged.  DEDISgen
  (\<open>src/DEDISgen.c\<close>) scans a folder or device, counts the hashes of its blocks in a database and writes
  the distribution of duplicates; DEDISgenutils (\<open>src/DEDISgen-utils.c\<close>) merges such databases.

  \<^bold>\<open>Conventions.\<close>  A C integer is a word of its width where it can wrap (\<open>u8\<close>, \<open>u32\<close>, \<open>u64\<close>; \<open>cint\<close> is the 32-bit \<open>int\<close>),
  a struct is a record with the fields of the source, an enum a datatype.  A fallible operation returns \<open>'a res\<close>,
  the sum of \<open>c_error\<close> and the result: the error tells a program that exits with a status from one that the C code leaves
  undefined (null pointer, index out of bounds, division by zero, uninitialised variable, write to a NULL stream), from an
  uncaught exception and from a loop that does not return.  Effects are passed explicitly: the mapping (\<open>shared\<close>), the
  files (\<open>fs\<close>, names to bytes), the state of the random generator, the handles and stores of the database.  Floating
  point is a parameter (\<open>fpu\<close>): the theorems hold for every arithmetic that satisfies the hypotheses they name;
  \<open>clock_fpu\<close> lists the laws the time arithmetic needs, and \<open>exact_fpu\<close>, rational arithmetic, satisfies them.
  Berkeley DB is a parameter with the contract \<open>hash_store\<close> (what a get returns after a put, what a cursor delivers),
  interpreted on an in-memory database.  SHA-1, \<open>std::stof\<close>, the draws of the C++ distributions, the clock and
  the results of system calls are parameters or inputs of the definitions that use them.

  \<^bold>\<open>Theories.\<close>

  \<^item> \<open>Prelude\<close>: errors, arrays, C division, folds of fallible steps and the rules for them.  \<open>Structs\<close>: \<open>structs/defines.h\<close>
    and \<open>duplicatedist.h\<close>.  \<open>Ctext\<close>: decimal numbers, \<open>sprintf\<close> into arrays, splitting.  \<open>Files\<close>: files as byte
    lists with \<open>pread\<close> and \<open>pwrite\<close>.
  \<^item> \<open>Utils\<close> (\<open>utils/utils.c\<close>): the powers and the orders of magnitude of the histograms.
  \<^item> \<open>Sfmt\<close>, \<open>Sfmt_array\<close>, \<open>Rand\<close> (\<open>utils/random\<close>): the generator, its in-place refill against the recurrence,
    filling an array against single reads, both seedings and the certification of the period, and bounded draws with
    their termination.  \<open>Sfmt_variants\<close>: the builds for big-endian machines, against the one that is compiled by a
    simulation of every loop over the exchanged words; \<open>Sfmt_alti\<close> (\<open>SFMT-alti.h\<close>): the AltiVec build over the locale
    \<open>altivec_unit\<close>, the laws of the vector operations, interpreted on their reference; \<open>Sfmt_periods\<close>: the parameter headers
    and their tables; \<open>Sfmt_real\<close> (\<open>SFMT.h\<close>): the conversions to floating point.
  \<^item> \<open>Iodist\<close> (\<open>benchcore/accesses/iodist.c\<close>): the three access patterns; the locale \<open>block_position\<close> is what the
    selection relies on, interpreted on each pattern.
  \<^item> \<open>Berk\<close> (\<open>utils/db/berk.c\<close>): the database layer and the printing of a distribution with its folded histogram.
  \<^item> \<open>Generator\<close> (\<open>libGenerator\<close>): reading a distribution, the block models, drawing a block; \<open>gen_ok\<close> is the invariant.
  \<^item> \<open>Sharedmem\<close> (\<open>benchcore/sharedmem\<close>), \<open>Duplicatedist\<close> (\<open>benchcore/duplicates\<close>, \<open>benchcore/io.c\<close>), \<open>Populate\<close>
    (\<open>populate\<close>), \<open>Integrity\<close> (\<open>benchcore/integrity\<close>), \<open>Plotio\<close> (\<open>io/plotio.c\<close>): the components the processes call.
  \<^item> \<open>Ini\<close> (\<open>parserconf/inih/ini.c\<close>) and \<open>Config\<close> (the handler and the beginning of \<open>main\<close>): the locale \<open>ini_client\<close> is
    what the parser promises its handler.  \<open>Ini_builds\<close>: the parser under every
    setting of the options of \<open>ini.h\<close>, of which \<open>Ini\<close> is the one \<open>Makefile.am\<close> chooses, and the driver of its tests;
    \<open>Ini_tests\<close>: the test files, on which the model prints what is recorded beside them; \<open>Ini_clients\<close>: the examples, the
    reader over a buffer and the C++ interface.  \<open>Dirs\<close>: the recursive removal of directories.
  \<^item> \<open>Process_run\<close>: \<open>process_run\<close>, one process; \<open>Process_facts\<close>: what one round keeps and what a run bounded by operations
    or by a time does; \<open>Process_rate\<close>: nominal tests and the rounds that fail; \<open>Mixed\<close>: the steps of a write and a checked read of one
    block, interleaved, of which only the writer's change what they share.
  \<^item> \<open>Speedtest\<close> (\<open>testing/test.c\<close>): the speed test of the generator, which no program calls.
  \<^item> \<open>Launch\<close>: \<open>launch_benchmark\<close> with the children as a state machine whose moves a schedule interleaves, and \<open>main\<close> from the
    generator on (\<open>bench_main\<close>); \<open>Launch_facts\<close>: the invariant of all interleavings, for
    runs bounded by operations or by time, peak or nominal; \<open>Typing\<close>: the layout of the memory,
    kept by every move under every configuration; \<open>Main_facts\<close>: from the distribution file to the final check; \<open>Serial\<close>:
    what one move of a child reads and writes, that the moves of children with different files commute, and that
    schedules which agree on the order of the moves on each file give one result.
  \<^item> \<open>Dedisgen\<close>, \<open>Dedisgen_run\<close>, \<open>Dedisgen_utils\<close>: the other two programs, \<open>main\<close> included.  \<open>Pipeline\<close>: the
    distribution file of DEDISgen as the input of DEDISbench.

  \<^bold>\<open>What the lemmas show.\<close>  Each component has an invariant that its operations keep and the behaviour of its operations on every
  branch; the components meet in a few predicates: \<open>gen_ready\<close> (a generator as \<open>initialize\<close> leaves it), \<open>files_ok\<close> (every
  file holds, block by block, what its tracker describes), \<open>run_ready\<close> (names, room and disjoint trackers, as \<open>loadmmap\<close>
  lays them out).  Population establishes \<open>files_ok\<close>, every operation of every process keeps it, and the checks find no
  errors exactly because of it.  The theorems of this theory put them together for the whole program.  Several theorems
  state failures: they hold of the code, and say where it does not do what it is meant to.

  \<^bold>\<open>Loops and bounds.\<close>  Loops over a counter are folds over the indices.  The loop of a process, the bounded draw and the
  loop over the blocks of a buffer may run for ever: they are \<open>partial_function (option)\<close>, and that they return is
  proved (\<open>sized_run_completes\<close>, \<open>timed_run_completes\<close>, \<open>genrand_bounded\<close>, \<open>folder_scan_counts\<close>), or that they do not (\<open>zero_block_size_hangs\<close>).  A schedule
  is any list of moves; a child needs one for its set-up, one for each round and one for its report, hence
  \<open>m i + 2\<close> for \<open>m i\<close> rounds.  Clock values stay below 2^53 so that the arithmetic on them is exact, and a run takes at most
  1000 snapshots of 30 seconds.

  \<^bold>\<open>Not modelled.\<close>  Messages on standard output and standard error, \<open>usage\<close>, \<open>help\<close> and \<open>idle\<close> (a sleep); the timing
  that \<open>main\<close> prints; \<open>generator_destroy\<close> and the freeing of memory; the printing of \<open>INIReaderExample.cpp\<close>;
  \<open>structs/structs.h\<close>, whose declarations repeat \<open>defines.h\<close>, and the generated \<open>config.h\<close>.  Children move
  one round at a time: different owners share no file and no tracker, and what a writer and a reader of one file (mixed
  mode) do to each other inside a round is the subject of \<open>Mixed\<close>, for one write and one read of the same block.  Memory is
  sequentially consistent there, and the copy of the tracker record that the check takes is one step.
\<close>

section \<open>The benchmark as a whole\<close>


text \<open>
  C38: with \<open>distout\<close> the benchmark cannot run: as soon as the distribution has at least two blocks with copies, \<open>main\<close>
  clears the counters through the pointer to the mapping, which is still NULL because \<open>loadmmap\<close> comes later.
\<close>

theorem distout_run_crashes:
  assumes "start_generator F M conf initial_info = Inr (1, g, info1)" and "distout conf" and "1 < duplicated_blocks info1"
  shows "bench_main F M conf initial_info mem acc schedule fs = Some (Inl NullPointer)"
  by (rule distout_main [OF assms(1,2) _ assms(3)]) (simp add: initial_info_def)

text \<open>
  C39: DEDISbench does not run on the distribution files DEDISgen writes.  Whatever pairs of numbers
  \<open>print_elements_print\<close> has put into the file (\<open>dist_text\<close>), \<open>main\<close> ends with an error before any I/O: the generator
  looks for the compressions of the first block it samples and finds none.
\<close>

theorem dedisgen_output_rejected:
  assumes "me_files M (distfile conf) = Some (dist_text ls)"
    and "1 \<le> unat (percentage_analyze conf)" and "unat (percentage_analyze conf) \<le> 99"
    and "\<And>base g. foldR (read_line F (me_stof M)) (map dist_line ls) (0, get_generator F conf) = Inr (base, g) \<Longrightarrow>
      blocks_of (linhas g) < 2 ^ 31 \<and> (\<forall>i. 1 \<le> unat (me_gen_draws M i) \<and> unat (me_gen_draws M i) \<le> blocks_of (linhas g))"
  shows "\<exists>e. bench_main F M conf info mem acc schedule fs = Some (Inl e)"
  by (rule dedisgen_file_fails [OF assms])


section \<open>Concrete runs\<close>

text \<open>
  A writer and a reader of one file of 100 blocks, over the distribution file of
  \<^theory_text>\<open>Generator\<close>, with the online check and the check after the run.
\<close>

definition full_conf :: "rat user_confs" where
  "full_conf = (initial_conf exact_fpu 0)\<lparr>compression_to_achieve := 50, percentage_analyze := 10, totblocks := 100,
     tempfilespath := ''tmp/'', accesstype := SEQUENTIAL, mixedIO := True, testtype := PEAK, number_ops := 6, nprocs := 2,
     filesize := 409600, populate_opt := 1, integrity := 3, flag_termination_size := True\<rparr>"

definition full_tick :: tick where
  "full_tick = run_tick\<lparr>tk_result := 4096\<rparr>"

definition full_launch :: "rat launch_env" where
  "full_launch = mix_env\<lparr>le_child := (\<lambda>_. run_env\<lparr>pe_buf := replicate 4096 0, pe_ticks := (\<lambda>_. full_tick)\<rparr>)\<rparr>"

definition full_mmap :: mmap_env where
  "full_mmap = shm_env\<lparr>file_before := \<lparr>cells = replicate 26 7, content_map = replicate 112 shm_block\<rparr>\<rparr>"

definition full_env :: "(rat, (u64 \<times> u64) list) main_env" where
  "full_env = \<lparr>me_sqrt = (\<lambda>x. x), me_bytes = demo_bytes, me_stof = demo_stof, me_files = (\<lambda>_. Some demo_file),
     me_gen_draws = (\<lambda>_. 1), me_seeds = (\<lambda>_. 3 / 2), me_mmap = full_mmap,
     me_pop_draws = (\<lambda>_ _. \<lparr>d_line = 1, d_block = 2, d_content = 9\<rparr>), me_pop_results = (\<lambda>_ _. 4096),
     me_launch = full_launch, me_db = mem_bdb, me_codes = \<lparr>c_env_create = 0, c_env_open = 0, c_db_create = 0, c_db_open = 0,
       c_db_close = 0, c_env_close = 0\<rparr>, me_empty = [], me_disk = (\<lambda>_. None), me_header = True, me_fopen = (\<lambda>_. True)\<rparr>"

definition full_read :: "rat generator" where
  "full_read = (demo_read 10)\<lparr>percentagem_compressao_entre_blocos := 50\<rparr>"

lemma full_sel [simp]:
  "nprocs full_conf = 2" "mixedIO full_conf" "block_size full_conf = 4096" "filesize full_conf = 409600"
  "totblocks full_conf = 100" "integrity full_conf = 3" "number_ops full_conf = 6" "accesstype full_conf = SEQUENTIAL"
  "\<not> rawdevice full_conf" "tempfilespath full_conf = ''tmp/''" "nr_writers full_conf = 1" "work_procs full_conf = 1"
  "populate_opt full_conf = 1" "\<not> distout full_conf" "tracked_procs full_conf = 1" "child_share full_conf = 6" "testtype full_conf = PEAK"
  by (simp_all add: full_conf_def nr_writers_def work_procs_def tracked_procs_def child_share_def initial_conf_def)

lemma full_read_ok:
  "foldR (read_line exact_fpu demo_stof) (getlines CHR 0x0A demo_file)
     (0, new_generator exact_fpu 4096 100 10 50) = Inr (75, full_read)"
  unfolding demo_lines
  by (simp add: read_line_def demo_tokens demo_numbers stoi_def stofR_def demo_stof_def Let_def
      blocks_of_line_def new_generator_def exact_fpu_def fp_of_word_def demo_read_def full_read_def)

lemma full_distribution: "distribution_ok exact_fpu full_env full_conf full_read"
proof -
  have "get_generator exact_fpu full_conf = new_generator exact_fpu 4096 100 10 50"
    by (simp add: get_generator_def) (simp add: full_conf_def)
  then show ?thesis using full_read_ok demo_bytes_ok
    by (simp add: distribution_ok_def full_env_def) (simp add: full_conf_def full_read_def demo_read_def new_generator_def
      media_count_def first_share_def exact_fpu_def fp_of_word_def unat_div)
qed

lemma full_tick_ok:
  assumes "linhas g = linhas full_read"
  shows "tick_ok full_conf 0 g full_tick"
  using assms by (simp add: tick_ok_def full_tick_def run_tick_def run_time_def tv_ok_def tv_us_def draw_ok_def SNAPS_def
      full_read_def demo_read_def)

lemma full_sized: "sized_run full_conf"
  by (simp add: sized_run_def) (simp add: full_conf_def initial_conf_def)

lemma full_child_env:
  assumes "linhas g = linhas full_read" and "i < 2"
  shows "child_env_ok (le_child full_launch i) full_conf g 0 i 6"
proof (rule still_env_ok)
  show "tick_ok full_conf 0 g full_tick" by (rule full_tick_ok [OF assms(1)])
  show "proc_number full_conf (child_type full_conf i) (int (owner full_conf i)) \<in> {0, 1}"
    using assms(2) by (auto simp: proc_number_def owner_def dest!: less_2_cases)
  show "round_bound full_conf (le_child full_launch i) 6" using full_sized by (simp add: round_bound_def)
qed (simp_all add: full_launch_def full_tick_def run_env_def run_tick_def)

lemma full_mapping:
  assumes "unat (duplicated_blocks info) = 25"
  shows "mmap_ready full_mmap full_conf info"
proof -
  have d: "duplicated_blocks info = 25" using assms by (simp add: word_unat_eq_iff)
  then have "sharedmem_size full_conf info = 3808"
    by (simp add: sharedmem_size_def SIZEOF_U64_def SIZEOF_BLOCK_INFO_def)
  then show ?thesis using d by (simp add: mmap_ready_def mapping_fits_def size_fits_def full_mmap_def shm_env_def)
qed

definition full_schedule :: "nat list" where
  "full_schedule = concat (replicate 8 [0, 1])"

lemma full_inputs:
  assumes "linhas g = linhas full_read" and "unat (duplicated_blocks info) = 25"
  shows "main_inputs full_env full_conf g info zero_access 0 (\<lambda>_. 6) full_schedule"
proof -
  have "needs_population full_conf" by (simp add: needs_population_def)
  moreover have "launch_inputs (le_child full_launch) (\<lambda>_. 6) full_conf g zero_access 0"
    using full_child_env [OF assms(1)] sized_plain [OF full_sized]
    by (simp add: launch_inputs_def zero_access_rng(2) rand_limit_def)
  moreover have "\<forall>i < nat (nprocs full_conf). 6 + 2 \<le> count_list full_schedule i"
    by (auto simp: full_schedule_def numeral_eq_Suc dest!: less_2_cases)
  moreover have "draw_ok g \<lparr>d_line = 1, d_block = 2, d_content = 9\<rparr>"
    using full_tick_ok [OF assms(1)] by (simp add: tick_ok_def full_tick_def run_tick_def)
  ultimately show ?thesis using full_mapping [OF assms(2)]
    by (simp add: main_inputs_def full_env_def DDPOP_def PATH_SIZE_def)
      (simp add: full_launch_def mix_env_def)
qed


theorem distout_run_crashes_witness:
  "bench_main exact_fpu full_env (full_conf\<lparr>distout := True\<rparr>) initial_info log_mem zero_access full_schedule (\<lambda>_. None)
     = Some (Inl NullPointer)"
proof -
  have d: "distribution_ok exact_fpu full_env (full_conf\<lparr>distout := True\<rparr>) full_read"
    using full_distribution by (simp add: distribution_ok_def get_generator_def)
  obtain g info' where st: "start_generator exact_fpu full_env (full_conf\<lparr>distout := True\<rparr>) initial_info = Inr (1, g, info')"
    "zero_copy_blocks info' = ucast (zeroCopiesBlocks full_read)"
    "unat (zero_copy_blocks info') + unat (duplicated_blocks info') = blocks_of (linhas full_read)"
    using generator_starts [OF d, of initial_info] by blast
  have "unat (duplicated_blocks info') = 25" using st(2,3) by (simp add: full_read_def demo_read_def)
  then have "1 < duplicated_blocks info'" by (simp add: word_less_nat_alt)
  from distout_run_crashes [OF st(1) _ this] show ?thesis by simp
qed

text \<open>A scan that found 50 blocks without duplicates and 25 with one.\<close>

definition scanned :: "(u64 \<times> u64) list" where
  "scanned = [(0, 50), (1, 25)]"

lemma scanned_read:
  "foldR (read_line exact_fpu demo_stof) (map dist_line scanned) (0, new_generator exact_fpu 4096 100 10 50)
     = Inr (62, (new_generator exact_fpu 4096 100 10 50)\<lparr>zeroCopiesBlocks := 50, total_unique_blocks := 62,
         linhas := [\<lparr>nrCopies = 0, nrBlocks = 50, nrBase = 0, compression = []\<rparr>,
           \<lparr>nrCopies = 1, nrBlocks = 12, nrBase = 50, compression = []\<rparr>], weights := [50, 25]\<rparr>)"
proof -
  have "\<lfloor>25 / 2 :: rat\<rfloor> = 12" by (rule floor_unique) simp_all
  then show ?thesis
    by (simp add: scanned_def read_line_def dist_line_tokens strtol_show_nat stoi_def stofR_def demo_stof_def Let_def
        blocks_of_line_def new_generator_def exact_fpu_def fp_of_word_def)
qed

theorem dedisgen_output_rejected_witness:
  "\<exists>e. bench_main exact_fpu (full_env\<lparr>me_files := (\<lambda>_. Some (dist_text scanned))\<rparr>) full_conf initial_info log_mem
     zero_access full_schedule (\<lambda>_. None) = Some (Inl e)"
proof (rule dedisgen_output_rejected)
  fix base g
  have g: "get_generator exact_fpu full_conf = new_generator exact_fpu 4096 100 10 50"
    by (simp add: get_generator_def) (simp add: full_conf_def)
  assume "foldR (read_line exact_fpu (me_stof (full_env\<lparr>me_files := (\<lambda>_. Some (dist_text scanned))\<rparr>)))
    (map dist_line scanned) (0, get_generator exact_fpu full_conf) = Inr (base, g)"
  then have "blocks_of (linhas g) = 62"
    unfolding g by (auto simp: full_env_def scanned_read)
  then show "blocks_of (linhas g) < 2 ^ 31 \<and>
      (\<forall>i. 1 \<le> unat (me_gen_draws (full_env\<lparr>me_files := (\<lambda>_. Some (dist_text scanned))\<rparr>) i)
        \<and> unat (me_gen_draws (full_env\<lparr>me_files := (\<lambda>_. Some (dist_text scanned))\<rparr>) i) \<le> blocks_of (linhas g))"
    by (simp add: full_env_def)
qed (simp_all add: full_conf_def)


end
